(* ===== verification/Prelude.thy ===== *)
theory Prelude
  imports Main "HOL-Library.Multiset"
begin

text \<open>
  The shared vocabulary of the development: the JavaScript operations on optional values,
  arrays and records that the front end of Wayfort (\<open>src/web/src\<close>) uses everywhere, and the
  facts about them that the component theories share.

  Conventions of the whole development:
  \<^item> \<open>null\<close> and \<open>undefined\<close> are \<open>None\<close>; an optional field is an \<open>option\<close>;
  \<^item> a number that is an id, an index, a size in pixels or a time in milliseconds is an \<open>int\<close>
    (or a \<open>nat\<close> where the code can only produce an array index);
  \<^item> \<open>findIndex\<close> answers an \<open>option\<close>, where the code's \<open>-1\<close> is \<open>None\<close>;
  \<^item> an array updated in place is a list returned updated.
\<close>

section \<open>Optional values\<close>

named_theorems js_simps \<open>unfolding rules of the JavaScript operators\<close>

text \<open>\<open>a ?? b\<close>\<close>

definition nullish :: "'a option \<Rightarrow> 'a \<Rightarrow> 'a" where
  "nullish a b = (case a of None \<Rightarrow> b | Some x \<Rightarrow> x)"

text \<open>The truth value of a \<open>string | null\<close>: the empty string is falsy.\<close>

definition truthy_str :: "string option \<Rightarrow> bool" where
  "truthy_str a = (case a of None \<Rightarrow> False | Some s \<Rightarrow> s \<noteq> [])"

text \<open>The truth value of an optional boolean.\<close>

definition truthy_bool :: "bool option \<Rightarrow> bool" where
  "truthy_bool a = (a = Some True)"

text \<open>\<open>a || b\<close> on strings\<close>

definition or_str :: "string \<Rightarrow> string \<Rightarrow> string" where
  "or_str a b = (if a = [] then b else a)"

lemma nullish_simps [simp, js_simps]:
  "nullish None b = b"
  "nullish (Some x) b = x"
  by (simp_all add: nullish_def)

lemma truthy_str_simps [simp, js_simps]:
  "\<not> truthy_str None"
  "truthy_str (Some s) \<longleftrightarrow> s \<noteq> []"
  by (simp_all add: truthy_str_def)

lemma truthy_str_iff: "truthy_str a \<longleftrightarrow> (\<exists>s. a = Some s \<and> s \<noteq> [])"
  by (cases a) auto

lemma truthy_bool_simps [simp, js_simps]:
  "\<not> truthy_bool None"
  "truthy_bool (Some b) \<longleftrightarrow> b"
  by (simp_all add: truthy_bool_def)

lemma or_str_simps [simp, js_simps]:
  "or_str [] b = b"
  "or_str (c # cs) b = c # cs"
  by (simp_all add: or_str_def)

lemma or_str_nonempty: "b \<noteq> [] \<Longrightarrow> or_str a b \<noteq> []"
  by (simp add: or_str_def)

section \<open>Arrays\<close>

text \<open>\<open>xs.findIndex(p)\<close>\<close>

fun find_index :: "('a \<Rightarrow> bool) \<Rightarrow> 'a list \<Rightarrow> nat option" where
  "find_index p [] = None"
| "find_index p (x # xs) = (if p x then Some 0 else map_option Suc (find_index p xs))"

lemma find_index_None_iff: "find_index p xs = None \<longleftrightarrow> (\<forall>x\<in>set xs. \<not> p x)"
  by (induction xs) auto

lemma find_index_Some_iff:
  "find_index p xs = Some i \<longleftrightarrow> i < length xs \<and> p (xs ! i) \<and> (\<forall>j<i. \<not> p (xs ! j))"
proof (induction xs arbitrary: i)
  case (Cons x xs)
  then show ?case by (cases i) (auto simp: less_Suc_eq_0_disj)
qed simp

lemma find_index_SomeD:
  assumes "find_index p xs = Some i"
  shows "i < length xs" "p (xs ! i)" "xs ! i \<in> set xs"
  using assms by (auto simp: find_index_Some_iff)

lemma find_index_of_nth:
  assumes "distinct (map f xs)" "i < length xs"
  shows "find_index (\<lambda>x. f x = f (xs ! i)) xs = Some i"
  using assms by (auto simp: find_index_Some_iff distinct_conv_nth)

lemma find_None_iff_set: "List.find p xs = None \<longleftrightarrow> (\<forall>x\<in>set xs. \<not> p x)"
  by (auto simp: find_None_iff)

lemma find_SomeD:
  assumes "List.find p xs = Some x"
  shows "x \<in> set xs" "p x"
  using assms by (auto simp: find_Some_iff)

lemma find_key_Some:
  assumes "distinct (map f xs)" "x \<in> set xs"
  shows "List.find (\<lambda>y. f y = f x) xs = Some x"
  using assms by (induction xs) (auto simp: image_iff)

text \<open>\<open>const [m] = a.splice(from, 1); a.splice(to, 0, m)\<close> on a copy of the array\<close>

definition remove_at :: "nat \<Rightarrow> 'a list \<Rightarrow> 'a list" where
  "remove_at i xs = take i xs @ drop (Suc i) xs"

definition insert_at :: "nat \<Rightarrow> 'a \<Rightarrow> 'a list \<Rightarrow> 'a list" where
  "insert_at i x xs = take i xs @ x # drop i xs"

lemma length_remove_at [simp]: "i < length xs \<Longrightarrow> length (remove_at i xs) = length xs - 1"
  by (simp add: remove_at_def)

lemma length_insert_at [simp]: "length (insert_at i x xs) = Suc (length xs)"
  by (simp add: insert_at_def)

lemma nth_insert_at [simp]: "i \<le> length xs \<Longrightarrow> insert_at i x xs ! i = x"
  by (simp add: insert_at_def nth_append)

lemma mset_insert_remove:
  assumes "i < length xs"
  shows "mset (insert_at j (xs ! i) (remove_at i xs)) = mset xs"
proof -
  have "mset (insert_at j y ys) = add_mset y (mset ys)" for y and ys :: "'a list"
    by (metis append_take_drop_id insert_at_def mset.simps(2) mset_append union_mset_add_mset_right)
  moreover have "add_mset (xs ! i) (mset (remove_at i xs)) = mset xs"
    using assms
    by (metis id_take_nth_drop mset.simps(2) mset_append remove_at_def union_mset_add_mset_right)
  ultimately show ?thesis by simp
qed

text \<open>Swapping two entries: \<open>[a[i], a[j]] = [a[j], a[i]]\<close>\<close>

definition swap_at :: "nat \<Rightarrow> nat \<Rightarrow> 'a list \<Rightarrow> 'a list" where
  "swap_at i j xs = xs[i := xs ! j, j := xs ! i]"

lemma length_swap_at [simp]: "length (swap_at i j xs) = length xs"
  by (simp add: swap_at_def)

lemma mset_swap_at: "i < length xs \<Longrightarrow> j < length xs \<Longrightarrow> mset (swap_at i j xs) = mset xs"
  by (simp add: swap_at_def mset_swap)

lemma set_swap_at: "i < length xs \<Longrightarrow> j < length xs \<Longrightarrow> set (swap_at i j xs) = set xs"
  by (metis mset_swap_at set_mset_mset)

lemma nth_swap_at:
  "i < length xs \<Longrightarrow> j < length xs \<Longrightarrow> swap_at i j xs ! i = xs ! j"
  by (simp add: swap_at_def nth_list_update)

text \<open>Rewriting the entries that satisfy a predicate: \<open>xs.map((x) => p(x) ? f(x) : x)\<close>\<close>

definition map_if :: "('a \<Rightarrow> bool) \<Rightarrow> ('a \<Rightarrow> 'a) \<Rightarrow> 'a list \<Rightarrow> 'a list" where
  "map_if p f xs = map (\<lambda>x. if p x then f x else x) xs"

lemma map_map_if [simp]: "(\<And>x. g (f x) = g x) \<Longrightarrow> map g (map_if p f xs) = map g xs"
  by (simp add: map_if_def)

lemma length_map_if [simp]: "length (map_if p f xs) = length xs"
  by (simp add: map_if_def)

lemma in_set_map_if: "y \<in> set (map_if p f xs) \<longleftrightarrow> (\<exists>x\<in>set xs. y = (if p x then f x else x))"
  by (auto simp: map_if_def)

lemma image_map_if: "(\<And>x. g (f x) = g x) \<Longrightarrow> g ` set (map_if p f xs) = g ` set xs"
  by (metis list.set_map map_map_if)

text \<open>\<open>[...new, ...old].slice(0, n)\<close>: a bounded most-recent-first history\<close>

definition push_front :: "nat \<Rightarrow> 'a list \<Rightarrow> 'a list \<Rightarrow> 'a list" where
  "push_front n new old = take n (new @ old)"

lemma length_push_front: "length (push_front n new old) \<le> n"
  by (simp add: push_front_def)

lemma set_push_front: "set (push_front n new old) \<subseteq> set new \<union> set old"
  using set_take_subset [of n "new @ old"] by (simp add: push_front_def)

text \<open>\<open>h = h.concat(x); if (h.length > n) h.splice(0, h.length - n)\<close>: a bounded history that
  keeps its last entries\<close>

definition push_capped :: "nat \<Rightarrow> 'a list \<Rightarrow> 'a \<Rightarrow> 'a list" where
  "push_capped n h x =
     (let h' = h @ [x] in if n < length h' then drop (length h' - n) h' else h')"

lemma length_push_capped: "length (push_capped n h x) = min n (Suc (length h))"
  by (auto simp: push_capped_def Let_def)

lemma push_capped_nonempty: "0 < n \<Longrightarrow> push_capped n h x \<noteq> []"
  by (auto simp: push_capped_def Let_def)

lemma last_push_capped: "0 < n \<Longrightarrow> last (push_capped n h x) = x"
  by (auto simp: push_capped_def Let_def)

text \<open>The entries of an array that are not \<open>null\<close>\<close>

fun live :: "'a option list \<Rightarrow> 'a list" where
  "live [] = []"
| "live (None # xs) = live xs"
| "live (Some x # xs) = x # live xs"

lemma set_live: "set (live xs) = {x. Some x \<in> set xs}"
  by (induction xs rule: live.induct) auto

lemma live_append [simp]: "live (xs @ ys) = live xs @ live ys"
  by (induction xs rule: live.induct) auto

lemma live_map_Some [simp]: "live (map Some xs) = xs"
  by (induction xs) auto

lemma live_replicate_None [simp]: "live (replicate n None) = []"
  by (induction n) auto

lemma mset_live: "mset (live xs) = image_mset the (filter_mset (\<lambda>x. x \<noteq> None) (mset xs))"
  by (induction xs rule: live.induct) auto

lemma distinct_live_perm: "mset xs = mset ys \<Longrightarrow> distinct (live xs) \<longleftrightarrow> distinct (live ys)"
  by (metis mset_eq_imp_distinct_iff mset_live)

lemma distinct_live_replace:
  assumes "distinct (live xs)" "Some x \<notin> set xs"
  shows "distinct (live (xs[0 := Some x]))"
  using assms by (cases xs rule: live.cases) (auto simp: set_live)

lemma distinct_take_filter_drop:
  assumes "distinct (map f xs)"
  shows "distinct (map f (take k xs @ filter p (drop k xs)))"
proof -
  have "distinct (map f (take k xs) @ map f (drop k xs))"
    using assms by (metis append_take_drop_id map_append)
  then show ?thesis by (auto simp: distinct_map_filter)
qed

lemma distinct_filter_map: "distinct (map f xs) \<Longrightarrow> distinct (map f (filter p xs))"
  by (simp add: distinct_map_filter)

text \<open>\<open>[...new Set(xs)]\<close>: the first occurrence of every element\<close>

definition uniq_add :: "'a list \<Rightarrow> 'a \<Rightarrow> 'a list" where
  "uniq_add acc x = (if x \<in> set acc then acc else acc @ [x])"

definition uniq :: "'a list \<Rightarrow> 'a list" where
  "uniq xs = foldl uniq_add [] xs"

lemma uniq_fold:
  "distinct acc \<Longrightarrow> set (foldl uniq_add acc xs) = set acc \<union> set xs \<and> distinct (foldl uniq_add acc xs)"
  by (induction xs arbitrary: acc) (auto simp: uniq_add_def)

lemma set_uniq [simp]: "set (uniq xs) = set xs" and distinct_uniq [simp]: "distinct (uniq xs)"
  using uniq_fold [of "[]" xs] by (simp_all add: uniq_def)

text \<open>\<open>xs.delete(x)\<close> of a \<open>Set\<close>\<close>

definition set_delete :: "'a \<Rightarrow> 'a list \<Rightarrow> 'a list" where
  "set_delete x xs = filter (\<lambda>y. y \<noteq> x) xs"

end
