(* ===== verification/SplitGeometry.thy ===== *)
theory SplitGeometry
  imports Complex_Main Prelude
begin

text \<open>
  The split-view geometry of the workspace, \<open>components/workspace/lib/splitGeometry.ts\<close>: the
  layouts, the number of panes of each, and the CSS rectangle of a pane. A percentage string
  such as \<open>"50%"\<close> is \<open>Pct 50\<close>; the fractions are real numbers, so the rounding of the
  browser's doubles is not modelled.
\<close>

datatype split_layout = Single | Row2 | Col2 | Row3 | Col3 | Grid4

record split_state =
  layout :: split_layout
  slots :: "string option list"
  ratio :: real

fun SLOT_COUNT :: "split_layout \<Rightarrow> nat" where
  "SLOT_COUNT Single = 1"
| "SLOT_COUNT Row2 = 2"
| "SLOT_COUNT Col2 = 2"
| "SLOT_COUNT Row3 = 3"
| "SLOT_COUNT Col3 = 3"
| "SLOT_COUNT Grid4 = 4"

datatype css_len = Px int | Pct real

record css_rect =
  css_left :: css_len
  css_top :: css_len
  css_right :: "css_len option"
  css_bottom :: "css_len option"
  css_width :: "css_len option"
  css_height :: "css_len option"

definition FULL_RECT :: css_rect where
  "FULL_RECT = \<lparr>css_left = Px 0, css_top = Px 0, css_right = Some (Px 0), css_bottom = Some (Px 0),
     css_width = None, css_height = None\<rparr>"

definition pct :: "real \<Rightarrow> css_len" where
  "pct n = Pct (n * 100)"

text \<open>The object literal \<open>{left, top, width, height}\<close>\<close>

definition box :: "css_len \<Rightarrow> css_len \<Rightarrow> css_len \<Rightarrow> css_len \<Rightarrow> css_rect" where
  "box l t w h = \<lparr>css_left = l, css_top = t, css_right = None, css_bottom = None,
     css_width = Some w, css_height = Some h\<rparr>"

fun rectForSlot :: "split_layout \<Rightarrow> nat \<Rightarrow> real \<Rightarrow> css_rect" where
  "rectForSlot Single idx r = FULL_RECT"
| "rectForSlot Row2 idx r =
     (if idx = 0 then box (Px 0) (Px 0) (pct r) (Pct 100)
      else box (pct r) (Px 0) (pct (1 - r)) (Pct 100))"
| "rectForSlot Col2 idx r =
     (if idx = 0 then box (Px 0) (Px 0) (Pct 100) (pct r)
      else box (Px 0) (pct r) (Pct 100) (pct (1 - r)))"
| "rectForSlot Row3 idx r = box (pct (real idx / 3)) (Px 0) (pct (1 / 3)) (Pct 100)"
| "rectForSlot Col3 idx r = box (Px 0) (pct (real idx / 3)) (Pct 100) (pct (1 / 3))"
| "rectForSlot Grid4 idx r =
     box (pct (real (idx mod 2) / 2)) (pct (real (idx div 2) / 2)) (Pct 50) (Pct 50)"

definition isDraggableSplit :: "split_layout \<Rightarrow> bool" where
  "isDraggableSplit l \<longleftrightarrow> l = Row2 \<or> l = Col2"

section \<open>What the rectangles cover\<close>

text \<open>
  The content area is the unit square. A length is read as a fraction of it (the only pixel
  length used is 0), and an edge given by \<open>right\<close> or \<open>bottom\<close> is measured from the far side.
\<close>

fun fraction :: "css_len \<Rightarrow> real" where
  "fraction (Px n) = of_int n"
| "fraction (Pct p) = p / 100"

definition far_edge :: "css_len \<Rightarrow> css_len option \<Rightarrow> css_len option \<Rightarrow> real" where
  "far_edge near far sz =
     (case sz of Some s \<Rightarrow> fraction near + fraction s
      | None \<Rightarrow> 1 - (case far of Some f \<Rightarrow> fraction f | None \<Rightarrow> 0))"

definition covers :: "css_rect \<Rightarrow> real \<Rightarrow> real \<Rightarrow> bool" where
  "covers b x y \<longleftrightarrow>
     fraction (css_left b) \<le> x \<and> x < far_edge (css_left b) (css_right b) (css_width b) \<and>
     fraction (css_top b) \<le> y \<and> y < far_edge (css_top b) (css_bottom b) (css_height b)"

lemma percent_rest [simp]: "r + (100 - r * 100) / 100 = (1::real)"
  by (simp add: field_simps)

lemma SLOT_COUNT_pos [simp]: "0 < SLOT_COUNT l"
  by (cases l) simp_all

lemma SLOT_COUNT_draggable: "isDraggableSplit l \<longleftrightarrow> SLOT_COUNT l = 2"
  by (cases l) (simp_all add: isDraggableSplit_def)

lemmas covers_simps = covers_def far_edge_def box_def pct_def FULL_RECT_def

lemma less_two_cases: "(i::nat) < 2 \<longleftrightarrow> i = 0 \<or> i = 1"
  by auto

lemma less_three_cases: "(i::nat) < 3 \<longleftrightarrow> i = 0 \<or> i = 1 \<or> i = 2"
  by auto

lemma less_four_cases: "(i::nat) < 4 \<longleftrightarrow> i = 0 \<or> i = 1 \<or> i = 2 \<or> i = 3"
  by auto

lemma some_pane_covers:
  assumes "0 \<le> x" "x < 1" "0 \<le> y" "y < 1"
  shows "\<exists>i<SLOT_COUNT l. covers (rectForSlot l i r) x y"
proof (cases l)
  case Single
  with assms show ?thesis by (auto simp: covers_simps)
next
  case Row2
  with assms show ?thesis
    by (intro exI [of _ "if x < r then 0 else 1"]) (auto simp: covers_simps)
next
  case Col2
  with assms show ?thesis
    by (intro exI [of _ "if y < r then 0 else 1"]) (auto simp: covers_simps)
next
  case Row3
  with assms show ?thesis
    by (intro exI [of _ "if x < 1/3 then 0 else if x < 2/3 then 1 else 2"])
      (auto simp: covers_simps)
next
  case Col3
  with assms show ?thesis
    by (intro exI [of _ "if y < 1/3 then 0 else if y < 2/3 then 1 else 2"])
      (auto simp: covers_simps)
next
  case Grid4
  with assms show ?thesis
    by (intro exI [of _ "(if x < 1/2 then 0 else 1) + (if y < 1/2 then 0 else 2)"])
      (auto simp: covers_simps)
qed

lemma one_pane_covers:
  assumes "i < SLOT_COUNT l" "j < SLOT_COUNT l"
    and "covers (rectForSlot l i r) x y" "covers (rectForSlot l j r) x y"
  shows "i = j"
  using assms
  by (cases l) (auto simp: covers_simps less_two_cases less_three_cases less_four_cases)

text \<open>the panes of a layout tile the content area: for every layout and every position of the
  divider, each point of the area lies in exactly one pane's rectangle.\<close>

theorem panes_tile:
  assumes "0 \<le> x" "x < 1" "0 \<le> y" "y < 1"
  shows "\<exists>!i. i < SLOT_COUNT l \<and> covers (rectForSlot l i r) x y"
proof -
  obtain i where "i < SLOT_COUNT l" "covers (rectForSlot l i r) x y"
    using some_pane_covers [OF assms] by blast
  then show ?thesis by (blast intro: one_pane_covers)
qed

theorem panes_tile_witness:
  "(\<exists>!i. i < SLOT_COUNT Grid4 \<and> covers (rectForSlot Grid4 i (1/2)) (1/4) (3/4))
   \<and> covers (rectForSlot Grid4 2 (1/2)) (1/4) (3/4)"
  using panes_tile [of "1/4" "3/4" Grid4 "1/2"] by (simp add: covers_simps)

end
