(* ===== verification/JsString.thy ===== *)
theory JsString
  imports Prelude "HOL-Library.Sublist"
begin

text \<open>
  JavaScript strings. A string is represented by its UTF-8 encoding, a \<^typ>\<open>char list\<close>; an ASCII
  literal is itself and a literal with other characters is written by its code points with
  \<open>utf8\<close>. Searching, splitting, comparing and slicing at ASCII delimiters agree in both
  encodings, because no byte of a multi-byte sequence is an ASCII byte. Where the code reads a
  \<open>length\<close>, \<open>utf16_length\<close> counts the UTF-16 units of the represented string. \<open>trim\<close> removes
  the white space characters of the language, the non-ASCII ones included. Lower-casing is
  modelled for the ASCII letters, the only cased letters the program's tables contain; other
  characters are kept.
\<close>

section \<open>Encoding\<close>

definition utf8_char :: "nat \<Rightarrow> string" where
  "utf8_char c =
     (if c < 128 then [char_of c]
      else if c < 2048 then [char_of (192 + c div 64), char_of (128 + c mod 64)]
      else if c < 65536 then
        [char_of (224 + c div 4096), char_of (128 + c div 64 mod 64), char_of (128 + c mod 64)]
      else [char_of (240 + c div 262144), char_of (128 + c div 4096 mod 64),
        char_of (128 + c div 64 mod 64), char_of (128 + c mod 64)])"

definition utf8 :: "nat list \<Rightarrow> string" where
  "utf8 cs = concat (map utf8_char cs)"

text \<open>\<open>s.length\<close>: a continuation byte counts nothing, the lead byte of a four-byte sequence two.\<close>

fun utf16_length :: "string \<Rightarrow> nat" where
  "utf16_length [] = 0"
| "utf16_length (c # cs) =
     (let b = (of_char c :: nat)
      in (if b < 128 then 1 else if b < 192 then 0 else if b < 240 then 1 else 2)
         + utf16_length cs)"

lemma utf16_length_append [simp]: "utf16_length (s @ t) = utf16_length s + utf16_length t"
  by (induction s) (simp_all add: Let_def)

lemma utf16_length_le: "utf16_length s \<le> 2 * length s"
  by (induction s) (auto simp: Let_def)

section \<open>Trimming\<close>

text \<open>The white space and line terminators of ECMAScript.\<close>

definition js_white :: "string list" where
  "js_white = map utf8_char
     ([9, 10, 11, 12, 13, 32, 160, 5760] @ [8192..<8203] @ [8232, 8233, 8239, 8287, 12288, 65279])"

lemma js_white_chars [code]:
  "js_white =
    [[CHR 0x09], [CHR 0x0A], [CHR 0x0B], [CHR 0x0C], [CHR 0x0D], [CHR 0x20], [CHR 0xC2, CHR 0xA0],
     [CHR 0xE1, CHR 0x9A, CHR 0x80], [CHR 0xE2, CHR 0x80, CHR 0x80],
     [CHR 0xE2, CHR 0x80, CHR 0x81], [CHR 0xE2, CHR 0x80, CHR 0x82],
     [CHR 0xE2, CHR 0x80, CHR 0x83], [CHR 0xE2, CHR 0x80, CHR 0x84],
     [CHR 0xE2, CHR 0x80, CHR 0x85], [CHR 0xE2, CHR 0x80, CHR 0x86],
     [CHR 0xE2, CHR 0x80, CHR 0x87], [CHR 0xE2, CHR 0x80, CHR 0x88],
     [CHR 0xE2, CHR 0x80, CHR 0x89], [CHR 0xE2, CHR 0x80, CHR 0x8A],
     [CHR 0xE2, CHR 0x80, CHR 0xA8], [CHR 0xE2, CHR 0x80, CHR 0xA9],
     [CHR 0xE2, CHR 0x80, CHR 0xAF], [CHR 0xE2, CHR 0x81, CHR 0x9F],
     [CHR 0xE3, CHR 0x80, CHR 0x80], [CHR 0xEF, CHR 0xBB, CHR 0xBF]]"
  by (simp add: js_white_def utf8_char_def upt_rec char_of_eq_iff)

definition drop_prefix :: "string list \<Rightarrow> string \<Rightarrow> string option" where
  "drop_prefix ws s = map_option (\<lambda>w. drop (length w) s) (List.find (\<lambda>w. w \<noteq> [] \<and> prefix w s) ws)"

lemma drop_prefix_shorter: "drop_prefix ws s = Some t \<Longrightarrow> length t < length s"
  by (auto simp: drop_prefix_def find_Some_iff prefix_def)

function trim_front :: "string list \<Rightarrow> string \<Rightarrow> string" where
  "trim_front ws s = (case drop_prefix ws s of None \<Rightarrow> s | Some t \<Rightarrow> trim_front ws t)"
  by pat_completeness auto
termination
  by (relation "measure (\<lambda>(ws, s). length s)") (auto dest: drop_prefix_shorter)

declare trim_front.simps [simp del]

definition trimStart :: "string \<Rightarrow> string" where
  "trimStart s = trim_front js_white s"

definition trimEnd :: "string \<Rightarrow> string" where
  "trimEnd s = rev (trim_front (map rev js_white) (rev s))"

definition js_trim :: "string \<Rightarrow> string" where
  "js_trim s = trimEnd (trimStart s)"

lemma trim_front_suffix: "suffix (trim_front ws s) s"
proof (induction ws s rule: trim_front.induct)
  case (1 ws s)
  show ?case
  proof (cases "drop_prefix ws s")
    case None
    then show ?thesis by (simp add: trim_front.simps [of ws s])
  next
    case (Some t)
    then have "suffix t s" by (auto simp: drop_prefix_def suffix_drop)
    with 1 [OF Some] Some show ?thesis
      by (auto simp: trim_front.simps [of ws s] intro: suffix_order.trans)
  qed
qed

lemma trim_front_done: "drop_prefix ws (trim_front ws s) = None"
proof (induction ws s rule: trim_front.induct)
  case (1 ws s)
  then show ?case by (cases "drop_prefix ws s") (auto simp: trim_front.simps [of ws s])
qed

lemma trim_front_id: "drop_prefix ws s = None \<Longrightarrow> trim_front ws s = s"
  by (simp add: trim_front.simps)

lemma trim_front_idem [simp]: "trim_front ws (trim_front ws s) = trim_front ws s"
  by (simp add: trim_front_done trim_front_id)

lemma trim_front_Nil [simp]: "trim_front ws [] = []"
  using trim_front_suffix [of ws "[]"] by simp

lemma length_trimStart: "length (trimStart s) \<le> length s"
  using suffix_length_le [OF trim_front_suffix] by (simp add: trimStart_def)

lemma trimEnd_prefix: "prefix (trimEnd s) s"
  using trim_front_suffix [of "map rev js_white" "rev s"]
  by (simp add: trimEnd_def suffix_to_prefix)

lemma length_js_trim: "length (js_trim s) \<le> length s"
  using prefix_length_le [OF trimEnd_prefix, of "trimStart s"] length_trimStart [of s]
  by (simp add: js_trim_def)

lemma set_js_trim: "set (js_trim s) \<subseteq> set s"
  using set_mono_prefix [OF trimEnd_prefix, of "trimStart s"]
    set_mono_suffix [OF trim_front_suffix, of js_white s]
  by (auto simp: js_trim_def trimStart_def)

lemma js_trim_Nil [simp]: "js_trim [] = []"
  by (simp add: js_trim_def trimStart_def trimEnd_def)

section \<open>Case, search, split and join\<close>

definition lower_char :: "char \<Rightarrow> char" where
  "lower_char c = (let b = (of_char c :: nat) in if 65 \<le> b \<and> b \<le> 90 then char_of (b + 32) else c)"

definition toLowerCase :: "string \<Rightarrow> string" where
  "toLowerCase s = map lower_char s"

definition upper_char :: "char \<Rightarrow> char" where
  "upper_char c = (let b = (of_char c :: nat) in if 97 \<le> b \<and> b \<le> 122 then char_of (b - 32) else c)"

definition toUpperCase :: "string \<Rightarrow> string" where
  "toUpperCase s = map upper_char s"

fun str_includes :: "string \<Rightarrow> string \<Rightarrow> bool" where
  "str_includes [] t \<longleftrightarrow> t = []"
| "str_includes (c # s) t \<longleftrightarrow> prefix t (c # s) \<or> str_includes s t"

lemma includes_iff: "str_includes s t \<longleftrightarrow> (\<exists>a b. s = a @ t @ b)"
proof (induction s)
  case (Cons c s)
  have "(\<exists>a b. c # s = a @ t @ b) \<longleftrightarrow> prefix t (c # s) \<or> (\<exists>a b. s = a @ t @ b)"
  proof
    assume "\<exists>a b. c # s = a @ t @ b"
    then obtain a b where ab: "c # s = a @ t @ b" by blast
    show "prefix t (c # s) \<or> (\<exists>a b. s = a @ t @ b)"
      using ab by (cases a) (auto simp: prefix_def)
  next
    assume "prefix t (c # s) \<or> (\<exists>a b. s = a @ t @ b)"
    then show "\<exists>a b. c # s = a @ t @ b"
      by (metis append_Cons append_Nil prefix_def)
  qed
  with Cons.IH show ?case by simp
qed simp

text \<open>\<open>s.split(c)\<close> for a one-character separator; \<open>parts.join(sep)\<close>\<close>

fun split_on :: "char \<Rightarrow> string \<Rightarrow> string list" where
  "split_on c [] = [[]]"
| "split_on c (x # xs) =
     (if x = c then [] # split_on c xs
      else (case split_on c xs of [] \<Rightarrow> [[x]] | p # ps \<Rightarrow> (x # p) # ps))"

fun join_with :: "string \<Rightarrow> string list \<Rightarrow> string" where
  "join_with sep [] = []"
| "join_with sep [p] = p"
| "join_with sep (p # q # ps) = p @ sep @ join_with sep (q # ps)"

lemma split_on_nonempty [simp]: "split_on c s \<noteq> []"
  by (induction s) (auto split: list.splits)

lemma join_with_Cons: "ps \<noteq> [] \<Longrightarrow> join_with sep (p # ps) = p @ sep @ join_with sep ps"
  by (cases ps) simp_all

lemma join_split_on: "join_with [c] (split_on c s) = s"
proof (induction s)
  case (Cons x xs)
  then show ?case
    by (cases "split_on c xs"; cases "tl (split_on c xs)")
      (auto simp: join_with_Cons)
qed simp

lemma split_on_no_sep: "p \<in> set (split_on c s) \<Longrightarrow> c \<notin> set p"
  by (induction s arbitrary: p) (auto split: list.splits if_splits)

lemma split_on_id: "c \<notin> set s \<Longrightarrow> split_on c s = [s]"
  by (induction s) auto

lemma split_on_append: "c \<notin> set p \<Longrightarrow> split_on c (p @ c # s) = p # split_on c s"
  by (induction p) auto

lemma split_join_on:
  "ps \<noteq> [] \<Longrightarrow> (\<And>p. p \<in> set ps \<Longrightarrow> c \<notin> set p) \<Longrightarrow> split_on c (join_with [c] ps) = ps"
proof (induction ps)
  case (Cons p ps)
  then show ?case
    by (cases ps) (auto simp: join_with_Cons split_on_append split_on_id)
qed simp

text \<open>\<open>\w\<close> of a regular expression\<close>

definition word_char :: "char \<Rightarrow> bool" where
  "word_char c = (let b = (of_char c :: nat)
     in 48 \<le> b \<and> b \<le> 57 \<or> 65 \<le> b \<and> b \<le> 90 \<or> b = 95 \<or> 97 \<le> b \<and> b \<le> 122)"

text \<open>The character classes read from the bits of a character, for evaluation.\<close>

definition letter_bits :: "bool \<Rightarrow> bool \<Rightarrow> bool \<Rightarrow> bool \<Rightarrow> bool \<Rightarrow> bool" where
  "letter_bits b0 b1 b2 b3 b4 \<longleftrightarrow>
     (b0 \<or> b1 \<or> b2 \<or> b3 \<or> b4) \<and> \<not> (b4 \<and> b3 \<and> (b2 \<or> (b1 \<and> b0)))"

lemma upper_char_bits [code]:
  "upper_char (Char b0 b1 b2 b3 b4 b5 b6 b7) =
     (if \<not> b7 \<and> b6 \<and> b5 \<and> letter_bits b0 b1 b2 b3 b4 then Char b0 b1 b2 b3 b4 False b6 b7
      else Char b0 b1 b2 b3 b4 b5 b6 b7)"
  by (cases b0; cases b1; cases b2; cases b3; cases b4; cases b5; cases b6; cases b7)
    (simp_all add: upper_char_def letter_bits_def Let_def char_of_eq_iff)

lemma lower_char_bits [code]:
  "lower_char (Char b0 b1 b2 b3 b4 b5 b6 b7) =
     (if \<not> b7 \<and> b6 \<and> \<not> b5 \<and> letter_bits b0 b1 b2 b3 b4 then Char b0 b1 b2 b3 b4 True b6 b7
      else Char b0 b1 b2 b3 b4 b5 b6 b7)"
  by (cases b0; cases b1; cases b2; cases b3; cases b4; cases b5; cases b6; cases b7)
    (simp_all add: lower_char_def letter_bits_def Let_def char_of_eq_iff)

lemma word_char_bits [code]:
  "word_char (Char b0 b1 b2 b3 b4 b5 b6 b7) \<longleftrightarrow>
     \<not> b7 \<and> (b6 \<and> (letter_bits b0 b1 b2 b3 b4 \<or> \<not> b5 \<and> b0 \<and> b1 \<and> b2 \<and> b3 \<and> b4)
       \<or> \<not> b6 \<and> b5 \<and> b4 \<and> (\<not> b3 \<or> \<not> b2 \<and> \<not> b1))"
  by (cases b0; cases b1; cases b2; cases b3; cases b4; cases b5; cases b6; cases b7)
    (simp_all add: word_char_def letter_bits_def Let_def)

section \<open>Numbers as strings\<close>

fun show_nat :: "nat \<Rightarrow> string" where
  "show_nat n = (if n < 10 then [char_of (48 + n)] else show_nat (n div 10) @ [char_of (48 + n mod 10)])"

declare show_nat.simps [simp del]

definition show_int :: "int \<Rightarrow> string" where
  "show_int i = (if i < 0 then CHR ''-'' # show_nat (nat (- i)) else show_nat (nat i))"

text \<open>Reading the digits back, to state that the rendering is faithful.\<close>

definition digits_value :: "string \<Rightarrow> nat" where
  "digits_value s = foldl (\<lambda>n c. n * 10 + (of_char c - 48)) 0 s"

lemma digits_value_show_nat: "digits_value (show_nat n) = n"
proof (induction n rule: show_nat.induct)
  case (1 n)
  then show ?case
    by (cases "n < 10") (auto simp: show_nat.simps [of n] digits_value_def)
qed

lemma show_nat_inject: "show_nat m = show_nat n \<longleftrightarrow> m = n"
  by (metis digits_value_show_nat)

lemma digit_char: "d < 10 \<Longrightarrow> (of_char (char_of (48 + d :: nat)) :: nat) = 48 + d"
  by simp

lemma show_nat_digits: "c \<in> set (show_nat n) \<Longrightarrow> 48 \<le> (of_char c :: nat) \<and> (of_char c :: nat) < 58"
proof (induction n rule: show_nat.induct)
  case (1 n)
  show ?case
  proof (cases "n < 10 \<or> c = char_of (48 + n mod 10)")
    case True
    with "1.prems" have "c = char_of (48 + n mod 10)"
      by (auto simp: show_nat.simps [of n] split: if_splits)
    then have "(of_char c :: nat) = 48 + n mod 10"
      using digit_char [of "n mod 10"] by simp
    then show ?thesis by simp
  next
    case False
    with "1.prems" "1.IH" show ?thesis by (simp add: show_nat.simps [of n])
  qed
qed

lemma show_nat_nonempty [simp]: "show_nat n \<noteq> []"
  by (subst show_nat.simps) simp

lemma show_nat_no_minus: "CHR ''-'' # s \<noteq> show_nat n"
proof
  assume "CHR ''-'' # s = show_nat n"
  then have "CHR ''-'' \<in> set (show_nat n)" by (metis list.set_intros(1))
  from show_nat_digits [OF this] show False by simp
qed

lemma show_int_inject: "show_int i = show_int j \<longleftrightarrow> i = j"
  by (auto simp: show_int_def show_nat_inject show_nat_no_minus show_nat_no_minus [symmetric])

end
