(* ===== verification/Workspace.thy ===== *)
theory Workspace
  imports SplitGeometry JsString
begin

text \<open>
  The workspace store, \<open>components/workspace/useWorkspaceStore.ts\<close>: the open connection tabs, the
  tab groups, the split view and the recently closed stack, with every action of the store. An
  action is a function on the state; \<open>genId()\<close> and \<open>Date.now()\<close> are arguments of the actions
  that call them, and an action that answers a value returns it beside the state. The last
  section models what the persistence middleware writes and reads back, and what the content
  area shows (\<open>WorkspaceTabContent.tsx\<close>).
\<close>

section \<open>Data\<close>

datatype protocol = Ssh | Telnet | Dbcli | Db_studio | Rdp | Rdp_next | Vnc | Sftp | Oss | Tcp_forward

datatype tab_status = TFresh | TConnecting | TConnected | TClosed | TError | TApproval

datatype sub_tab = SDashboard | SProcesses | SPerformance | SLogs | SServices | SDocker | SCron
  | SPackages | SRunner | SNetwork | SStorage | SKernel | SHardware | SFirewall | SUsers
  | SSecurity | SSessions | SInfo | SWireguard | SFiles | SLoganalytics | SBackup | SCapture

datatype group_color = Gray | Blue | Red | Yellow | Green | Cyan | Purple | Orange

definition GROUP_COLOR_ORDER :: "group_color list" where
  "GROUP_COLOR_ORDER = [Blue, Green, Purple, Orange, Red, Cyan, Yellow, Gray]"

datatype grouping_mode = GOff | GManual | GByNode | GByProtocol

datatype tab_style = Vscode | Warp

datatype desktop_backend = Freerdp | Dummy | Ironrdp

record tab_group =
  grp_id :: string
  grp_name :: string
  grp_color :: group_color
  grp_collapsed :: bool

record workspace_tab =
  tab_id :: string
  nodeId :: int
  protocol :: protocol
  rdpBackend :: "desktop_backend option"
  title :: string
  host :: "string option"
  port :: "int option"
  status :: tab_status
  createdAt :: int
  subTab :: "sub_tab option"
  dockOpen :: "bool option"
  groupId :: "string option"
  pinned :: "bool option"
  muted :: "bool option"
  poppedOut :: "bool option"
  unread :: "bool option"

datatype tree_view = VFavorites | VRecent | VDirectory | VGroups | VTags | VProtocols | VAll

datatype active_panel = PAssets | PSessions | PMonitor

record open_input =
  in_nodeId :: int
  in_protocol :: protocol
  in_rdpBackend :: "desktop_backend option"
  in_title :: string
  in_host :: "string option"
  in_port :: "int option"
  in_groupId :: "string option"
  in_pinned :: "bool option"

definition RECENT_LIMIT :: nat where
  "RECENT_LIMIT = 10"

record workspace_prefs =
  groupingMode :: grouping_mode
  tabStyle :: tab_style
  showProtocolIcon :: bool
  showHostPort :: bool
  showLatencyBadge :: bool

definition DEFAULT_PREFS :: workspace_prefs where
  "DEFAULT_PREFS = \<lparr>groupingMode = GOff, tabStyle = Vscode, showProtocolIcon = True,
     showHostPort = True, showLatencyBadge = True\<rparr>"

record workspace =
  tabs :: "workspace_tab list"
  groups :: "tab_group list"
  prefs :: workspace_prefs
  activeId :: "string option"
  sidebarOpen :: bool
  treeView :: tree_view
  activePanel :: active_panel
  protocolMemory :: "int \<rightharpoonup> (protocol \<times> desktop_backend option)"
  recentlyClosed :: "workspace_tab list"
  split :: split_state

definition init_workspace :: workspace where
  "init_workspace = \<lparr>tabs = [], groups = [], prefs = DEFAULT_PREFS, activeId = None,
     sidebarOpen = True, treeView = VFavorites, activePanel = PAssets,
     protocolMemory = Map.empty, recentlyClosed = [],
     split = \<lparr>layout = Single, slots = [], ratio = 1/2\<rparr>\<rparr>"

abbreviation tab_ids :: "workspace_tab list \<Rightarrow> string list" where
  "tab_ids ts \<equiv> map tab_id ts"

definition find_tab :: "string \<Rightarrow> workspace_tab list \<Rightarrow> workspace_tab option" where
  "find_tab i ts = List.find (\<lambda>t. tab_id t = i) ts"

definition tab_index :: "string \<Rightarrow> workspace_tab list \<Rightarrow> nat option" where
  "tab_index i ts = find_index (\<lambda>t. tab_id t = i) ts"

abbreviation is_pinned :: "workspace_tab \<Rightarrow> bool" where
  "is_pinned t \<equiv> truthy_bool (pinned t)"

section \<open>The helpers of the store\<close>

definition findNextActive ::
    "workspace_tab list \<Rightarrow> nat \<Rightarrow> string option \<Rightarrow> string \<Rightarrow> string option" where
  "findNextActive ts removedIdx prevActive removedId =
     (if ts = [] then None
      else if truthy_str prevActive \<and> prevActive \<noteq> Some removedId
              \<and> find_tab (the prevActive) ts \<noteq> None then prevActive
      else if length ts \<le> removedIdx then Some (tab_id (last ts))
      else Some (tab_id (ts ! removedIdx)))"

definition pickNextGroupColor :: "tab_group list \<Rightarrow> group_color" where
  "pickNextGroupColor gs =
     (case List.find (\<lambda>c. c \<notin> set (map grp_color gs)) GROUP_COLOR_ORDER of
        Some c \<Rightarrow> c
      | None \<Rightarrow> GROUP_COLOR_ORDER ! (length gs mod length GROUP_COLOR_ORDER))"

text \<open>\<open>valid\<close> is the set of ids of the tabs that are left.\<close>

definition prune_slot :: "string set \<Rightarrow> string option \<Rightarrow> string option" where
  "prune_slot valid i = (if truthy_str i \<and> the i \<in> valid then i else None)"

definition pruneSplit :: "split_state \<Rightarrow> string set \<Rightarrow> split_state" where
  "pruneSplit sp valid =
     (if layout sp = Single then sp
      else let sl = map (prune_slot valid) (slots sp)
           in if length (filter truthy_str sl) \<le> 1 then sp\<lparr>layout := Single, slots := []\<rparr>
              else sp\<lparr>slots := sl\<rparr>)"

text \<open>The closure \<open>push\<close> of \<open>fillSlots\<close>: \<open>out\<close> holds the packed ids (\<open>seen\<close> is their set).\<close>

definition fill_push :: "nat \<Rightarrow> string set \<Rightarrow> string option \<Rightarrow> string list \<Rightarrow> string list" where
  "fill_push cnt ids i out =
     (if cnt \<le> length out \<or> \<not> truthy_str i \<or> the i \<in> set out \<or> the i \<notin> ids then out
      else out @ [the i])"

definition fillSlots ::
    "workspace_tab list \<Rightarrow> string option \<Rightarrow> string option list \<Rightarrow> nat \<Rightarrow> string option list" where
  "fillSlots ts active existing cnt =
     (let ids = set (tab_ids ts);
          out0 = fill_push cnt ids active [];
          out1 = fold (fill_push cnt ids) existing out0;
          out2 = fold (\<lambda>t. fill_push cnt ids (Some (tab_id t))) (rev ts) out1
      in map Some out2 @ replicate (cnt - length out2) None)"

section \<open>Opening and closing tabs\<close>

definition new_tab :: "string \<Rightarrow> int \<Rightarrow> open_input \<Rightarrow> workspace_tab" where
  "new_tab i now inp = \<lparr>tab_id = i, nodeId = in_nodeId inp, protocol = in_protocol inp,
     rdpBackend = in_rdpBackend inp, title = in_title inp, host = in_host inp, port = in_port inp,
     status = TFresh, createdAt = now, subTab = None, dockOpen = None, groupId = in_groupId inp,
     pinned = Some (truthy_bool (in_pinned inp)), muted = Some False, poppedOut = Some False,
     unread = Some False\<rparr>"

definition open_tab :: "string \<Rightarrow> int \<Rightarrow> open_input \<Rightarrow> workspace \<Rightarrow> workspace \<times> string" where
  "open_tab i now inp s =
     (s\<lparr>tabs := tabs s @ [new_tab i now inp],
        activeId := Some i,
        protocolMemory := (protocolMemory s)(in_nodeId inp \<mapsto> (in_protocol inp, in_rdpBackend inp))\<rparr>,
      i)"

definition close_tab :: "string \<Rightarrow> workspace \<Rightarrow> workspace" where
  "close_tab i s =
     (case tab_index i (tabs s) of
        None \<Rightarrow> s
      | Some idx \<Rightarrow>
          (let removed = tabs s ! idx in
           if is_pinned removed then s
           else let remaining = filter (\<lambda>t. tab_id t \<noteq> i) (tabs s) in
             s\<lparr>tabs := remaining,
               activeId := findNextActive remaining idx (activeId s) i,
               split := pruneSplit (split s) (set (tab_ids remaining)),
               recentlyClosed := push_front RECENT_LIMIT [removed] (recentlyClosed s)\<rparr>))"

definition closeOthers :: "string \<Rightarrow> workspace \<Rightarrow> workspace" where
  "closeOthers i s =
     (case find_tab i (tabs s) of
        None \<Rightarrow> s
      | Some keep \<Rightarrow>
          (let survivors = filter (\<lambda>t. tab_id t = i \<or> is_pinned t) (tabs s);
               removed = filter (\<lambda>t. tab_id t \<noteq> i \<and> \<not> is_pinned t) (tabs s)
           in s\<lparr>tabs := survivors,
                activeId := Some i,
                split := pruneSplit (split s) (set (tab_ids survivors)),
                recentlyClosed := push_front RECENT_LIMIT removed (recentlyClosed s)\<rparr>))"

definition closeToRight :: "string \<Rightarrow> workspace \<Rightarrow> workspace" where
  "closeToRight i s =
     (case tab_index i (tabs s) of
        None \<Rightarrow> s
      | Some idx \<Rightarrow>
          (let keep = take (Suc idx) (tabs s) @ filter is_pinned (drop (Suc idx) (tabs s));
               removed = filter (\<lambda>t. \<not> is_pinned t) (drop (Suc idx) (tabs s));
               nextActive =
                 (if truthy_str (activeId s) \<and> find_tab (the (activeId s)) keep = None
                  then Some i else activeId s)
           in s\<lparr>tabs := keep,
                activeId := nextActive,
                split := pruneSplit (split s) (set (tab_ids keep)),
                recentlyClosed := push_front RECENT_LIMIT removed (recentlyClosed s)\<rparr>))"

definition first_id :: "workspace_tab list \<Rightarrow> string option" where
  "first_id ts = (case ts of [] \<Rightarrow> None | t # _ \<Rightarrow> Some (tab_id t))"

definition last_id :: "workspace_tab list \<Rightarrow> string option" where
  "last_id ts = (if ts = [] then None else Some (tab_id (last ts)))"

definition closeAll :: "workspace \<Rightarrow> workspace" where
  "closeAll s =
     (let kept = filter is_pinned (tabs s);
          removed = filter (\<lambda>t. \<not> is_pinned t) (tabs s)
      in s\<lparr>tabs := kept,
           activeId := first_id kept,
           split := pruneSplit (split s) (set (tab_ids kept)),
           recentlyClosed := push_front RECENT_LIMIT removed (recentlyClosed s)\<rparr>)"

definition reconnectAll :: "workspace \<Rightarrow> workspace" where
  "reconnectAll s =
     s\<lparr>tabs := map_if (\<lambda>t. status t \<in> {TConnected, TError, TClosed})
                 (\<lambda>t. t\<lparr>status := TConnecting\<rparr>) (tabs s)\<rparr>"

definition is_errored :: "workspace_tab \<Rightarrow> bool" where
  "is_errored t \<longleftrightarrow> status t = TError \<and> \<not> is_pinned t"

definition closeErrored :: "workspace \<Rightarrow> workspace" where
  "closeErrored s =
     (let removed = filter is_errored (tabs s) in
      if removed = [] then s
      else let remaining = filter (\<lambda>t. \<not> is_errored t) (tabs s);
               valid = set (tab_ids remaining)
           in s\<lparr>tabs := remaining,
                activeId := (if nullish (activeId s) '''' \<in> valid then activeId s
                             else last_id remaining),
                split := pruneSplit (split s) valid,
                recentlyClosed := push_front RECENT_LIMIT removed (recentlyClosed s)\<rparr>)"

definition duplicate :: "string \<Rightarrow> int \<Rightarrow> string \<Rightarrow> workspace \<Rightarrow> workspace \<times> string option" where
  "duplicate fresh now i s =
     (case find_tab i (tabs s) of
        None \<Rightarrow> (s, None)
      | Some src \<Rightarrow>
          (let (s', r) = open_tab fresh now
             \<lparr>in_nodeId = nodeId src, in_protocol = protocol src, in_rdpBackend = rdpBackend src,
              in_title = title src, in_host = host src, in_port = port src,
              in_groupId = groupId src, in_pinned = None\<rparr> s
           in (s', Some r)))"

definition reopenLastClosed :: "string \<Rightarrow> int \<Rightarrow> workspace \<Rightarrow> workspace \<times> string option" where
  "reopenLastClosed fresh now s =
     (case recentlyClosed s of
        [] \<Rightarrow> (s, None)
      | t # rest \<Rightarrow>
          (let (s', r) = open_tab fresh now
             \<lparr>in_nodeId = nodeId t, in_protocol = protocol t, in_rdpBackend = rdpBackend t,
              in_title = title t, in_host = host t, in_port = port t,
              in_groupId = groupId t, in_pinned = pinned t\<rparr> (s\<lparr>recentlyClosed := rest\<rparr>)
           in (s', Some r)))"

section \<open>Activating, moving and annotating tabs\<close>

text \<open>\<open>s.tabs.map((t) => t.id === id ? f(t) : t)\<close>\<close>

definition update_tab :: "string \<Rightarrow> (workspace_tab \<Rightarrow> workspace_tab) \<Rightarrow> workspace \<Rightarrow> workspace" where
  "update_tab i f s = s\<lparr>tabs := map_if (\<lambda>t. tab_id t = i) f (tabs s)\<rparr>"

definition rename_tab :: "string \<Rightarrow> string \<Rightarrow> workspace \<Rightarrow> workspace" where
  "rename_tab i new s = update_tab i (\<lambda>t. t\<lparr>title := or_str new (title t)\<rparr>) s"

definition setActive :: "string \<Rightarrow> workspace \<Rightarrow> workspace" where
  "setActive i s =
     (let sp = split s;
          sp' = (if layout sp \<noteq> Single \<and> slots sp \<noteq> []
                 then sp\<lparr>slots :=
                   (case find_index (\<lambda>x. x = Some i) (slots sp) of
                      None \<Rightarrow> (slots sp)[0 := Some i]
                    | Some j \<Rightarrow> if 0 < j then swap_at 0 j (slots sp) else slots sp)\<rparr>
                 else sp)
      in s\<lparr>activeId := Some i,
           split := sp',
           tabs := map_if (\<lambda>t. tab_id t = i) (\<lambda>t. t\<lparr>unread := Some False\<rparr>) (tabs s)\<rparr>)"

definition reorder :: "int \<Rightarrow> int \<Rightarrow> workspace \<Rightarrow> workspace" where
  "reorder from to s =
     (let n = int (length (tabs s)) in
      if from = to \<or> from < 0 \<or> to < 0 \<or> n \<le> from \<or> n \<le> to then s
      else s\<lparr>tabs := insert_at (nat to) (tabs s ! nat from) (remove_at (nat from) (tabs s))\<rparr>)"

definition setStatus :: "string \<Rightarrow> tab_status \<Rightarrow> workspace \<Rightarrow> workspace" where
  "setStatus i st s =
     (case find_tab i (tabs s) of
        None \<Rightarrow> s
      | Some cur \<Rightarrow> if status cur = st then s else update_tab i (\<lambda>t. t\<lparr>status := st\<rparr>) s)"

definition setSidebarOpen :: "bool \<Rightarrow> workspace \<Rightarrow> workspace" where
  "setSidebarOpen b s = s\<lparr>sidebarOpen := b\<rparr>"

definition toggleSidebar :: "workspace \<Rightarrow> workspace" where
  "toggleSidebar s = s\<lparr>sidebarOpen := \<not> sidebarOpen s\<rparr>"

definition setTreeView :: "tree_view \<Rightarrow> workspace \<Rightarrow> workspace" where
  "setTreeView v s = s\<lparr>treeView := v\<rparr>"

definition setActivePanel :: "active_panel \<Rightarrow> workspace \<Rightarrow> workspace" where
  "setActivePanel p s = s\<lparr>activePanel := p\<rparr>"

text \<open>\<open>((x % n) + n) % n\<close> is the non-negative remainder, Isabelle's \<open>mod\<close> on \<open>int\<close>.\<close>

definition cycle_index :: "nat \<Rightarrow> nat option \<Rightarrow> int \<Rightarrow> nat" where
  "cycle_index n idx delta =
     nat ((case idx of None \<Rightarrow> 0 | Some i \<Rightarrow> int i + delta) mod int n)"

definition cycleTab :: "int \<Rightarrow> workspace \<Rightarrow> workspace" where
  "cycleTab delta s =
     (if tabs s = [] then s
      else let idx = (if truthy_str (activeId s) then tab_index (the (activeId s)) (tabs s) else None)
           in s\<lparr>activeId := Some (tab_id (tabs s ! cycle_index (length (tabs s)) idx delta))\<rparr>)"

definition activateAt :: "int \<Rightarrow> workspace \<Rightarrow> workspace" where
  "activateAt idx s =
     (if idx < 0 \<or> int (length (tabs s)) \<le> idx then s
      else s\<lparr>activeId := Some (tab_id (tabs s ! nat idx))\<rparr>)"

definition setSubTab :: "string \<Rightarrow> sub_tab \<Rightarrow> workspace \<Rightarrow> workspace" where
  "setSubTab i sub s = update_tab i (\<lambda>t. t\<lparr>subTab := Some sub\<rparr>) s"

definition toggleDock :: "string \<Rightarrow> workspace \<Rightarrow> workspace" where
  "toggleDock i s = update_tab i (\<lambda>t. t\<lparr>dockOpen := Some (\<not> nullish (dockOpen t) True)\<rparr>) s"

section \<open>Groups, pins and preferences\<close>

definition setGroupingMode :: "grouping_mode \<Rightarrow> workspace \<Rightarrow> workspace" where
  "setGroupingMode m s = s\<lparr>prefs := (prefs s)\<lparr>groupingMode := m\<rparr>\<rparr>"

text \<open>The default name of a group is the four characters U+65B0 U+5206 U+7EC4.\<close>

definition DEFAULT_GROUP_NAME :: string where
  "DEFAULT_GROUP_NAME = utf8 [0x65B0, 0x5206, 0x7EC4]"

definition createGroup ::
    "string \<Rightarrow> string \<Rightarrow> group_color option \<Rightarrow> workspace \<Rightarrow> workspace \<times> string" where
  "createGroup i name color s =
     (s\<lparr>groups := groups s @
          [\<lparr>grp_id = i, grp_name = or_str (js_trim name) DEFAULT_GROUP_NAME,
            grp_color = nullish color (pickNextGroupColor (groups s)), grp_collapsed = False\<rparr>],
        prefs := (if groupingMode (prefs s) = GManual then prefs s
                  else (prefs s)\<lparr>groupingMode := GManual\<rparr>)\<rparr>,
      i)"

definition update_group :: "string \<Rightarrow> (tab_group \<Rightarrow> tab_group) \<Rightarrow> workspace \<Rightarrow> workspace" where
  "update_group i f s = s\<lparr>groups := map_if (\<lambda>g. grp_id g = i) f (groups s)\<rparr>"

definition renameGroup :: "string \<Rightarrow> string \<Rightarrow> workspace \<Rightarrow> workspace" where
  "renameGroup i name s = update_group i (\<lambda>g. g\<lparr>grp_name := or_str (js_trim name) (grp_name g)\<rparr>) s"

definition recolorGroup :: "string \<Rightarrow> group_color \<Rightarrow> workspace \<Rightarrow> workspace" where
  "recolorGroup i c s = update_group i (\<lambda>g. g\<lparr>grp_color := c\<rparr>) s"

definition toggleGroupCollapsed :: "string \<Rightarrow> workspace \<Rightarrow> workspace" where
  "toggleGroupCollapsed i s = update_group i (\<lambda>g. g\<lparr>grp_collapsed := \<not> grp_collapsed g\<rparr>) s"

definition deleteGroup :: "string \<Rightarrow> workspace \<Rightarrow> workspace" where
  "deleteGroup i s =
     s\<lparr>groups := filter (\<lambda>g. grp_id g \<noteq> i) (groups s),
       tabs := map_if (\<lambda>t. groupId t = Some i) (\<lambda>t. t\<lparr>groupId := None\<rparr>) (tabs s)\<rparr>"

definition moveTabToGroup :: "string \<Rightarrow> string option \<Rightarrow> workspace \<Rightarrow> workspace" where
  "moveTabToGroup i g s = update_tab i (\<lambda>t. t\<lparr>groupId := g\<rparr>) s"

definition togglePin :: "string \<Rightarrow> workspace \<Rightarrow> workspace" where
  "togglePin i s = update_tab i (\<lambda>t. t\<lparr>pinned := Some (\<not> truthy_bool (pinned t))\<rparr>) s"

definition toggleMute :: "string \<Rightarrow> workspace \<Rightarrow> workspace" where
  "toggleMute i s = update_tab i (\<lambda>t. t\<lparr>muted := Some (\<not> truthy_bool (muted t))\<rparr>) s"

definition setPoppedOut :: "string \<Rightarrow> bool \<Rightarrow> workspace \<Rightarrow> workspace" where
  "setPoppedOut i b s = update_tab i (\<lambda>t. t\<lparr>poppedOut := Some b\<rparr>) s"

definition markUnread :: "string \<Rightarrow> bool \<Rightarrow> workspace \<Rightarrow> workspace" where
  "markUnread i b s = update_tab i (\<lambda>t. t\<lparr>unread := Some b\<rparr>) s"

text \<open>A patch is a \<open>Partial<WorkspacePrefs>\<close>; the fields it lacks keep their value.\<close>

record prefs_patch =
  p_groupingMode :: "grouping_mode option"
  p_tabStyle :: "tab_style option"
  p_showProtocolIcon :: "bool option"
  p_showHostPort :: "bool option"
  p_showLatencyBadge :: "bool option"

definition merge_prefs :: "workspace_prefs \<Rightarrow> prefs_patch \<Rightarrow> workspace_prefs" where
  "merge_prefs p d =
     \<lparr>groupingMode = nullish (p_groupingMode d) (groupingMode p),
      tabStyle = nullish (p_tabStyle d) (tabStyle p),
      showProtocolIcon = nullish (p_showProtocolIcon d) (showProtocolIcon p),
      showHostPort = nullish (p_showHostPort d) (showHostPort p),
      showLatencyBadge = nullish (p_showLatencyBadge d) (showLatencyBadge p)\<rparr>"

definition setPrefs :: "prefs_patch \<Rightarrow> workspace \<Rightarrow> workspace" where
  "setPrefs d s = s\<lparr>prefs := merge_prefs (prefs s) d\<rparr>"

section \<open>The split view\<close>

definition single_split :: "split_state \<Rightarrow> split_state" where
  "single_split sp = sp\<lparr>layout := Single, slots := []\<rparr>"

definition setSplit :: "string option \<Rightarrow> workspace \<Rightarrow> workspace" where
  "setSplit i s =
     (if \<not> truthy_str i \<or> i = activeId s \<or> \<not> truthy_str (activeId s)
         \<or> find_tab (the i) (tabs s) = None
      then s\<lparr>split := single_split (split s)\<rparr>
      else s\<lparr>split := (split s)\<lparr>layout := Row2, slots := [activeId s, i]\<rparr>\<rparr>)"

definition toggleSplit :: "workspace \<Rightarrow> workspace" where
  "toggleSplit s =
     (if layout (split s) \<noteq> Single then s\<lparr>split := single_split (split s)\<rparr>
      else case List.find (\<lambda>t. Some (tab_id t) \<noteq> activeId s) (rev (tabs s)) of
             None \<Rightarrow> s
           | Some other \<Rightarrow>
               if \<not> truthy_str (activeId s) then s
               else s\<lparr>split := (split s)\<lparr>layout := Row2,
                        slots := [activeId s, Some (tab_id other)]\<rparr>\<rparr>)"

definition swapSplit :: "workspace \<Rightarrow> workspace" where
  "swapSplit s =
     (if layout (split s) = Single \<or> length (slots (split s)) < 2 then s
      else let sl = swap_at 0 1 (slots (split s))
           in s\<lparr>activeId := (case sl ! 0 of None \<Rightarrow> activeId s | Some i \<Rightarrow> Some i),
                split := (split s)\<lparr>slots := sl\<rparr>\<rparr>)"

datatype split_dir = DirRow | DirCol

fun flip_layout :: "split_dir \<Rightarrow> split_layout \<Rightarrow> split_layout" where
  "flip_layout DirRow l = (if l = Col2 then Row2 else if l = Col3 then Row3 else l)"
| "flip_layout DirCol l = (if l = Row2 then Col2 else if l = Row3 then Col3 else l)"

definition setSplitDir :: "split_dir \<Rightarrow> workspace \<Rightarrow> workspace" where
  "setSplitDir d s =
     (let next = flip_layout d (layout (split s))
      in if next = layout (split s) then s else s\<lparr>split := (split s)\<lparr>layout := next\<rparr>\<rparr>)"

definition setSplitRatio :: "real \<Rightarrow> workspace \<Rightarrow> workspace" where
  "setSplitRatio r s = s\<lparr>split := (split s)\<lparr>ratio := max (1/5) (min (4/5) r)\<rparr>\<rparr>"

definition setLayout :: "split_layout \<Rightarrow> workspace \<Rightarrow> workspace" where
  "setLayout l s =
     (if l = Single then s\<lparr>split := (split s)\<lparr>layout := l, slots := []\<rparr>\<rparr>
      else s\<lparr>split := (split s)\<lparr>layout := l,
               slots := fillSlots (tabs s) (activeId s) (slots (split s)) (SLOT_COUNT l)\<rparr>\<rparr>)"

section \<open>Persistence\<close>

text \<open>
  What the middleware stores is the JSON of \<open>partialize\<close>'s result. A field that is absent from a
  stored payload (an older version of the store wrote it) is \<open>None\<close>; \<open>old_splitRatio\<close> is the
  \<open>splitRatio\<close> key of the first payloads. \<open>recentlyClosed\<close> is never stored. A stored \<open>split\<close>
  object always carries a numeric ratio.
\<close>

record persisted =
  ps_tabs :: "workspace_tab list option"
  ps_groups :: "tab_group list option"
  ps_prefs :: "prefs_patch option"
  ps_activeId :: "string option"
  ps_sidebarOpen :: "bool option"
  ps_treeView :: "tree_view option"
  ps_activePanel :: "active_panel option"
  ps_protocolMemory :: "(int \<rightharpoonup> (protocol \<times> desktop_backend option)) option"
  ps_split :: "split_state option"
  old_splitRatio :: "real option"

definition full_patch :: "workspace_prefs \<Rightarrow> prefs_patch" where
  "full_patch p = \<lparr>p_groupingMode = Some (groupingMode p), p_tabStyle = Some (tabStyle p),
     p_showProtocolIcon = Some (showProtocolIcon p), p_showHostPort = Some (showHostPort p),
     p_showLatencyBadge = Some (showLatencyBadge p)\<rparr>"

definition empty_patch :: prefs_patch where
  "empty_patch = \<lparr>p_groupingMode = None, p_tabStyle = None, p_showProtocolIcon = None,
     p_showHostPort = None, p_showLatencyBadge = None\<rparr>"

definition transient_reset :: "workspace_tab \<Rightarrow> workspace_tab" where
  "transient_reset t = t\<lparr>status := TFresh, poppedOut := Some False, unread := Some False\<rparr>"

definition partialize :: "workspace \<Rightarrow> persisted" where
  "partialize s =
     \<lparr>ps_tabs = Some (map transient_reset (tabs s)),
      ps_groups = Some (groups s),
      ps_prefs = Some (full_patch (prefs s)),
      ps_activeId = activeId s,
      ps_sidebarOpen = Some (sidebarOpen s),
      ps_treeView = Some (treeView s),
      ps_activePanel = Some (activePanel s),
      ps_protocolMemory = Some (protocolMemory s),
      ps_split = Some \<lparr>layout = Single, slots = [], ratio = ratio (split s)\<rparr>,
      old_splitRatio = None\<rparr>"

definition migrate_tab :: "workspace_tab \<Rightarrow> workspace_tab" where
  "migrate_tab t = t\<lparr>status := TFresh, pinned := Some (nullish (pinned t) False),
     muted := Some (nullish (muted t) False), poppedOut := Some False, unread := Some False\<rparr>"

definition migrate :: "persisted \<Rightarrow> persisted" where
  "migrate p =
     \<lparr>ps_tabs = Some (map migrate_tab (nullish (ps_tabs p) [])),
      ps_groups = Some (nullish (ps_groups p) []),
      ps_prefs = Some (full_patch (merge_prefs DEFAULT_PREFS (nullish (ps_prefs p) empty_patch))),
      ps_activeId = ps_activeId p,
      ps_sidebarOpen = Some (nullish (ps_sidebarOpen p) True),
      ps_treeView = Some (nullish (ps_treeView p) VFavorites),
      ps_activePanel = Some (nullish (ps_activePanel p) PAssets),
      ps_protocolMemory = Some (nullish (ps_protocolMemory p) Map.empty),
      ps_split = Some \<lparr>layout = Single, slots = [],
        ratio = (case ps_split p of
                   Some sp \<Rightarrow> ratio sp
                 | None \<Rightarrow> nullish (old_splitRatio p) (1/2))\<rparr>,
      old_splitRatio = None\<rparr>"

text \<open>The middleware merges the stored object shallowly into the initial state; a payload of
  another version passes through \<open>migrate\<close> first.\<close>

definition rehydrate :: "persisted \<Rightarrow> workspace" where
  "rehydrate p = init_workspace\<lparr>
      tabs := nullish (ps_tabs p) [],
      groups := nullish (ps_groups p) [],
      prefs := (case ps_prefs p of None \<Rightarrow> DEFAULT_PREFS | Some d \<Rightarrow> merge_prefs DEFAULT_PREFS d),
      activeId := ps_activeId p,
      sidebarOpen := nullish (ps_sidebarOpen p) True,
      treeView := nullish (ps_treeView p) VFavorites,
      activePanel := nullish (ps_activePanel p) PAssets,
      protocolMemory := nullish (ps_protocolMemory p) Map.empty,
      split := nullish (ps_split p) (split init_workspace)\<rparr>"

section \<open>What the content area shows\<close>

text \<open>The slots the content area lays out, and whether a tab is visible
  (\<open>WorkspaceTabContent\<close>).\<close>

definition shown_slots :: "workspace \<Rightarrow> string option list" where
  "shown_slots s =
     (if layout (split s) \<noteq> Single then slots (split s)
      else if truthy_str (activeId s) then [activeId s] else [])"

definition tab_visible :: "workspace \<Rightarrow> string \<Rightarrow> bool" where
  "tab_visible s i \<longleftrightarrow> Some i \<in> set (shown_slots s)"

end
