(* ===== verification/WorkspaceInv.thy ===== *)
theory WorkspaceInv
  imports Workspace
begin

text \<open>
  The invariant of the workspace store and its preservation by every action, then by every run
  of the store from its initial state, reloads of the page included.
\<close>

section \<open>The invariant\<close>

definition active_ok :: "workspace_tab list \<Rightarrow> string option \<Rightarrow> bool" where
  "active_ok ts a = (case a of None \<Rightarrow> ts = [] | Some i \<Rightarrow> i \<in> set (tab_ids ts))"

definition split_ok :: "workspace_tab list \<Rightarrow> split_state \<Rightarrow> bool" where
  "split_ok ts sp \<longleftrightarrow>
     (if layout sp = Single then slots sp = [] else length (slots sp) = SLOT_COUNT (layout sp)) \<and>
     (\<forall>i. Some i \<in> set (slots sp) \<longrightarrow> i \<in> set (tab_ids ts)) \<and>
     distinct (live (slots sp)) \<and>
     1/5 \<le> ratio sp \<and> ratio sp \<le> 4/5"

definition ws_inv :: "workspace \<Rightarrow> bool" where
  "ws_inv s \<longleftrightarrow>
     distinct (tab_ids (tabs s)) \<and> [] \<notin> set (tab_ids (tabs s)) \<and>
     active_ok (tabs s) (activeId s) \<and> split_ok (tabs s) (split s) \<and>
     length (recentlyClosed s) \<le> RECENT_LIMIT"

lemma active_ok_simps [simp]:
  "active_ok ts None \<longleftrightarrow> ts = []"
  "active_ok ts (Some i) \<longleftrightarrow> i \<in> set (tab_ids ts)"
  by (simp_all add: active_ok_def)

lemma ws_invI:
  assumes "distinct (tab_ids (tabs s))" "[] \<notin> set (tab_ids (tabs s))"
    "active_ok (tabs s) (activeId s)" "split_ok (tabs s) (split s)"
    "length (recentlyClosed s) \<le> RECENT_LIMIT"
  shows "ws_inv s"
  using assms by (simp add: ws_inv_def)

lemma ws_invD:
  assumes "ws_inv s"
  shows "distinct (tab_ids (tabs s))" "[] \<notin> set (tab_ids (tabs s))"
    "active_ok (tabs s) (activeId s)" "split_ok (tabs s) (split s)"
    "length (recentlyClosed s) \<le> RECENT_LIMIT"
  using assms by (simp_all add: ws_inv_def)

lemma active_truthy: "ws_inv s \<Longrightarrow> truthy_str (activeId s) \<longleftrightarrow> tabs s \<noteq> []"
  by (cases "activeId s") (auto simp: ws_inv_def image_iff)

text \<open>The invariant reads the tabs only through their ids.\<close>

lemma ws_inv_same_ids:
  assumes "ws_inv s" "tab_ids (tabs s') = tab_ids (tabs s)"
    "activeId s' = activeId s" "split s' = split s" "recentlyClosed s' = recentlyClosed s"
  shows "ws_inv s'"
proof -
  have ids: "set (tab_ids (tabs s')) = set (tab_ids (tabs s))" and "tabs s' = [] \<longleftrightarrow> tabs s = []"
    using assms(2) by (auto dest: arg_cong [of _ _ length])
  have "active_ok (tabs s') (activeId s')"
    using assms ids \<open>tabs s' = [] \<longleftrightarrow> tabs s = []\<close>
    by (cases "activeId s") (simp_all add: ws_inv_def del: set_map)
  moreover have "split_ok (tabs s') (split s')"
    using assms ids by (simp add: ws_inv_def split_ok_def del: set_map)
  ultimately show ?thesis using assms by (simp add: ws_inv_def)
qed

lemma find_tab_None_iff: "find_tab i ts = None \<longleftrightarrow> i \<notin> set (tab_ids ts)"
  by (auto simp: find_tab_def find_None_iff_set)

lemma find_tab_SomeD: "find_tab i ts = Some t \<Longrightarrow> t \<in> set ts \<and> tab_id t = i"
  by (auto simp: find_tab_def dest: find_SomeD)

lemma tab_index_None_iff: "tab_index i ts = None \<longleftrightarrow> i \<notin> set (tab_ids ts)"
  by (auto simp: tab_index_def find_index_None_iff)

lemma tab_index_SomeD:
  "tab_index i ts = Some k \<Longrightarrow> k < length ts \<and> tab_id (ts ! k) = i"
  by (auto simp: tab_index_def find_index_Some_iff)

section \<open>The split helpers\<close>

lemma live_prune: "live (map (prune_slot V) xs) = filter (\<lambda>i. i \<noteq> [] \<and> i \<in> V) (live xs)"
  by (induction xs rule: live.induct) (auto simp: prune_slot_def)

lemma prune_slot_Some: "prune_slot V x = Some i \<longleftrightarrow> x = Some i \<and> i \<noteq> [] \<and> i \<in> V"
  by (auto simp: prune_slot_def truthy_str_iff)

lemma pruneSplit_ok:
  assumes "split_ok ts sp"
  shows "split_ok ts' (pruneSplit sp (set (tab_ids ts')))"
proof (cases "layout sp = Single")
  case True
  with assms show ?thesis by (simp add: pruneSplit_def split_ok_def)
next
  case False
  have mem: "i \<in> set (tab_ids ts')"
    if "Some i \<in> set (map (prune_slot (set (tab_ids ts'))) (slots sp))" for i
    using that by (auto simp: prune_slot_def split: if_splits)
  have "distinct (live (map (prune_slot (set (tab_ids ts'))) (slots sp)))"
    using assms unfolding live_prune split_ok_def by simp
  with False assms mem show ?thesis
    unfolding pruneSplit_def split_ok_def Let_def by (simp del: set_map)
qed

lemma fill_push_inv:
  assumes "distinct out" "set out \<subseteq> ids" "length out \<le> n"
  shows "distinct (fill_push n ids i out)" "set (fill_push n ids i out) \<subseteq> ids"
    "length (fill_push n ids i out) \<le> n"
  using assms by (auto simp: fill_push_def)

lemma fold_fill_push_inv:
  assumes "distinct out" "set out \<subseteq> ids" "length out \<le> n"
  shows "distinct (fold (\<lambda>x. fill_push n ids (f x)) xs out)
    \<and> set (fold (\<lambda>x. fill_push n ids (f x)) xs out) \<subseteq> ids
    \<and> length (fold (\<lambda>x. fill_push n ids (f x)) xs out) \<le> n"
  using assms
proof (induction xs arbitrary: out)
  case (Cons x xs)
  show ?case
    using Cons.IH [OF fill_push_inv [OF Cons.prems, of "f x"]] by simp
qed simp

lemma fold_fill_push_id_inv:
  assumes "distinct out" "set out \<subseteq> ids" "length out \<le> n"
  shows "distinct (fold (fill_push n ids) xs out)
    \<and> set (fold (fill_push n ids) xs out) \<subseteq> ids
    \<and> length (fold (fill_push n ids) xs out) \<le> n"
  using fold_fill_push_inv [OF assms, of "\<lambda>x. x" xs] by simp

text \<open>The packed slots: distinct ids of open tabs, padded with \<open>null\<close> to the pane count.\<close>

lemma fillSlots_shape:
  "\<exists>out. fillSlots ts a ex n = map Some out @ replicate (n - length out) None
     \<and> distinct out \<and> set out \<subseteq> set (tab_ids ts) \<and> length out \<le> n"
proof -
  let ?ids = "set (tab_ids ts)"
  let ?o0 = "fill_push n ?ids a []"
  let ?o1 = "fold (fill_push n ?ids) ex ?o0"
  let ?o2 = "fold (\<lambda>t. fill_push n ?ids (Some (tab_id t))) (rev ts) ?o1"
  have o0: "distinct ?o0" "set ?o0 \<subseteq> ?ids" "length ?o0 \<le> n"
    by (rule fill_push_inv; simp)+
  have o1: "distinct ?o1 \<and> set ?o1 \<subseteq> ?ids \<and> length ?o1 \<le> n"
    by (rule fold_fill_push_id_inv [OF o0])
  have "distinct ?o2 \<and> set ?o2 \<subseteq> ?ids \<and> length ?o2 \<le> n"
    using fold_fill_push_inv [of ?o1 ?ids n "\<lambda>t. Some (tab_id t)" "rev ts"] o1 by simp
  then show ?thesis unfolding fillSlots_def Let_def by (intro exI [of _ ?o2]) simp
qed

lemma fillSlots_ok:
  assumes "l \<noteq> Single" "split_ok ts sp"
  shows "split_ok ts (sp\<lparr>layout := l, slots := fillSlots ts a ex (SLOT_COUNT l)\<rparr>)"
proof -
  from fillSlots_shape [of ts a ex "SLOT_COUNT l"] obtain out where
    out: "fillSlots ts a ex (SLOT_COUNT l) = map Some out @ replicate (SLOT_COUNT l - length out) None"
      "distinct out" "set out \<subseteq> set (tab_ids ts)" "length out \<le> SLOT_COUNT l"
    by blast
  with assms show ?thesis
    by (auto simp: split_ok_def)
qed

section \<open>Closing actions\<close>

lemma findNextActive_ok: "active_ok ts (findNextActive ts k a i)"
proof (cases "ts = []")
  case False
  then have "k < length ts \<Longrightarrow> ts ! k \<in> set ts" "last ts \<in> set ts" by auto
  with False show ?thesis
    by (auto simp: findNextActive_def find_tab_None_iff truthy_str_iff)
qed (simp add: findNextActive_def)

lemma ws_inv_close:
  assumes inv: "ws_inv s" and sub: "set ts' \<subseteq> set (tabs s)" and dist: "distinct (tab_ids ts')"
    and act: "active_ok ts' a"
  shows "ws_inv (s\<lparr>tabs := ts', activeId := a, split := pruneSplit (split s) (set (tab_ids ts')),
           recentlyClosed := push_front RECENT_LIMIT removed (recentlyClosed s)\<rparr>)"
  using ws_invD [OF inv] sub dist act pruneSplit_ok [of "tabs s" "split s" ts']
  by (intro ws_invI) (auto simp: length_push_front)

lemma close_tab_inv: "ws_inv s \<Longrightarrow> ws_inv (close_tab i s)"
proof (cases "tab_index i (tabs s)")
  case (Some k)
  assume inv: "ws_inv s"
  let ?rem = "filter (\<lambda>t. tab_id t \<noteq> i) (tabs s)"
  from inv have "ws_inv (s\<lparr>tabs := ?rem, activeId := findNextActive ?rem k (activeId s) i,
      split := pruneSplit (split s) (set (tab_ids ?rem)),
      recentlyClosed := push_front RECENT_LIMIT [tabs s ! k] (recentlyClosed s)\<rparr>)"
    by (intro ws_inv_close findNextActive_ok) (auto simp: ws_inv_def distinct_filter_map)
  with Some inv show ?thesis by (simp add: close_tab_def Let_def)
qed (simp add: close_tab_def)

lemma closeOthers_inv:
  assumes inv: "ws_inv s"
  shows "ws_inv (closeOthers i s)"
proof (cases "find_tab i (tabs s)")
  case (Some t)
  then have "t \<in> set (tabs s)" "tab_id t = i" by (simp_all add: find_tab_SomeD)
  then have "active_ok (filter (\<lambda>t. tab_id t = i \<or> is_pinned t) (tabs s)) (Some i)" by auto
  moreover have "distinct (tab_ids (filter (\<lambda>t. tab_id t = i \<or> is_pinned t) (tabs s)))"
    using ws_invD(1) [OF inv] by (rule distinct_filter_map)
  ultimately show ?thesis
    using Some ws_inv_close [OF inv, of "filter (\<lambda>t. tab_id t = i \<or> is_pinned t) (tabs s)"]
    by (simp add: closeOthers_def Let_def)
qed (use inv in \<open>simp add: closeOthers_def\<close>)

lemma closeToRight_inv:
  assumes inv: "ws_inv s"
  shows "ws_inv (closeToRight i s)"
proof (cases "tab_index i (tabs s)")
  case (Some k)
  let ?keep = "take (Suc k) (tabs s) @ filter is_pinned (drop (Suc k) (tabs s))"
  have i: "i \<in> set (tab_ids ?keep)"
    using tab_index_SomeD [OF Some] by (auto simp: take_Suc_conv_app_nth)
  have "ws_inv (s\<lparr>tabs := ?keep,
      activeId := (if truthy_str (activeId s) \<and> find_tab (the (activeId s)) ?keep = None
                   then Some i else activeId s),
      split := pruneSplit (split s) (set (tab_ids ?keep)),
      recentlyClosed := push_front RECENT_LIMIT (filter (\<lambda>t. \<not> is_pinned t) (drop (Suc k) (tabs s)))
        (recentlyClosed s)\<rparr>)"
  proof (rule ws_inv_close [OF inv])
    show "set ?keep \<subseteq> set (tabs s)"
      by (auto dest: in_set_takeD in_set_dropD)
    show "distinct (tab_ids ?keep)"
      by (rule distinct_take_filter_drop) (rule ws_invD [OF inv])
    show "active_ok ?keep (if truthy_str (activeId s) \<and> find_tab (the (activeId s)) ?keep = None
                   then Some i else activeId s)"
      using i active_truthy [OF inv] tab_index_SomeD [OF Some]
      by (auto simp: find_tab_None_iff truthy_str_iff)
  qed
  with Some show ?thesis unfolding closeToRight_def Let_def by (simp only: option.case)
qed (use inv in \<open>simp add: closeToRight_def\<close>)

lemma first_id_ok: "active_ok ts (first_id ts)"
  by (cases ts) (simp_all add: first_id_def)

lemma closeAll_inv:
  assumes inv: "ws_inv s"
  shows "ws_inv (closeAll s)"
  unfolding closeAll_def Let_def
  by (rule ws_inv_close [OF inv _ _ first_id_ok])
    (auto intro: distinct_filter_map ws_invD(1) [OF inv])

lemma last_id_ok: "active_ok ts (last_id ts)"
  by (auto simp: last_id_def)

lemma closeErrored_inv:
  assumes inv: "ws_inv s"
  shows "ws_inv (closeErrored s)"
proof (cases "filter is_errored (tabs s) = []")
  case False
  let ?rem = "filter (\<lambda>t. \<not> is_errored t) (tabs s)"
  let ?act = "if nullish (activeId s) '''' \<in> set (tab_ids ?rem) then activeId s else last_id ?rem"
  have "active_ok ?rem ?act"
  proof (cases "nullish (activeId s) '''' \<in> set (tab_ids ?rem)")
    case True
    then have "activeId s \<noteq> None" using ws_invD(2) [OF inv] by (cases "activeId s") auto
    with True show ?thesis by (cases "activeId s") auto
  qed (use last_id_ok [of ?rem] in simp)
  moreover have "distinct (tab_ids ?rem)" using ws_invD(1) [OF inv] by (rule distinct_filter_map)
  ultimately show ?thesis
    using False ws_inv_close [OF inv, of ?rem ?act "filter is_errored (tabs s)"]
    unfolding closeErrored_def Let_def by (simp only: if_False) auto
qed (use inv in \<open>simp add: closeErrored_def\<close>)

section \<open>The other actions\<close>

lemma open_tab_inv:
  assumes "ws_inv s" "i \<notin> set (tab_ids (tabs s))" "i \<noteq> []"
  shows "ws_inv (fst (open_tab i now inp s))"
  using assms by (auto simp: open_tab_def ws_inv_def new_tab_def split_ok_def)

lemma duplicate_inv:
  assumes "ws_inv s" "fresh \<notin> set (tab_ids (tabs s))" "fresh \<noteq> []"
  shows "ws_inv (fst (duplicate fresh now i s))"
  using assms open_tab_inv [OF assms]
  by (simp add: duplicate_def split_beta Let_def split: option.splits)

lemma reopenLastClosed_inv:
  assumes "ws_inv s" "fresh \<notin> set (tab_ids (tabs s))" "fresh \<noteq> []"
  shows "ws_inv (fst (reopenLastClosed fresh now s))"
proof (cases "recentlyClosed s")
  case (Cons t rest)
  with assms(1) have "ws_inv (s\<lparr>recentlyClosed := rest\<rparr>)" by (simp add: ws_inv_def)
  with assms Cons show ?thesis
    by (simp add: reopenLastClosed_def split_beta Let_def open_tab_inv)
qed (use assms in \<open>simp add: reopenLastClosed_def\<close>)

lemma update_tab_inv:
  assumes "ws_inv s" "\<And>t. tab_id (f t) = tab_id t"
  shows "ws_inv (update_tab i f s)"
  by (rule ws_inv_same_ids [OF assms(1)]) (simp_all add: update_tab_def assms(2))

lemmas tab_edit_defs = rename_tab_def setSubTab_def toggleDock_def moveTabToGroup_def togglePin_def
  toggleMute_def setPoppedOut_def markUnread_def

lemma tab_edit_inv [intro]:
  assumes "ws_inv s"
  shows "ws_inv (rename_tab i new s)" "ws_inv (setSubTab i sub s)" "ws_inv (toggleDock i s)"
    "ws_inv (moveTabToGroup i g s)" "ws_inv (togglePin i s)" "ws_inv (toggleMute i s)"
    "ws_inv (setPoppedOut i b s)" "ws_inv (markUnread i b s)"
  by (simp_all add: tab_edit_defs update_tab_inv assms)

lemma setStatus_inv: "ws_inv s \<Longrightarrow> ws_inv (setStatus i st s)"
  by (auto simp: setStatus_def update_tab_inv split: option.splits)

lemma reconnectAll_inv: "ws_inv s \<Longrightarrow> ws_inv (reconnectAll s)"
  by (erule ws_inv_same_ids) (simp_all add: reconnectAll_def)

lemma deleteGroup_inv: "ws_inv s \<Longrightarrow> ws_inv (deleteGroup i s)"
  by (erule ws_inv_same_ids) (simp_all add: deleteGroup_def)

lemmas view_defs = setSidebarOpen_def toggleSidebar_def setTreeView_def setActivePanel_def
  setGroupingMode_def setPrefs_def createGroup_def renameGroup_def recolorGroup_def
  toggleGroupCollapsed_def update_group_def

lemma view_inv [intro]:
  assumes "ws_inv s"
  shows "ws_inv (setSidebarOpen b s)" "ws_inv (toggleSidebar s)" "ws_inv (setTreeView v s)"
    "ws_inv (setActivePanel p s)" "ws_inv (setGroupingMode m s)" "ws_inv (setPrefs d s)"
    "ws_inv (fst (createGroup g name c s))" "ws_inv (renameGroup g name s)"
    "ws_inv (recolorGroup g col s)" "ws_inv (toggleGroupCollapsed g s)"
  using assms by (simp_all add: ws_inv_def view_defs)

lemma setActive_inv:
  assumes inv: "ws_inv s" and i: "i \<in> set (tab_ids (tabs s))"
  shows "ws_inv (setActive i s)"
proof -
  let ?ts = "map_if (\<lambda>t. tab_id t = i) (\<lambda>t. t\<lparr>unread := Some False\<rparr>) (tabs s)"
  have ids [simp]: "tab_ids ?ts = tab_ids (tabs s)" by simp
  have idset: "set (tab_ids ?ts) = set (tab_ids (tabs s))" by (simp only: ids)
  note sp = ws_invD(4) [OF inv]
  have "split_ok ?ts (split (setActive i s))"
  proof (cases "layout (split s) \<noteq> Single \<and> slots (split s) \<noteq> []")
    case False
    with sp show ?thesis unfolding setActive_def Let_def split_ok_def idset by auto
  next
    case True
    let ?sl = "slots (split s)"
    consider (new) "find_index (\<lambda>x. x = Some i) ?sl = None"
      | (old) j where "find_index (\<lambda>x. x = Some i) ?sl = Some j" by (cases "find_index (\<lambda>x. x = Some i) ?sl") auto
    then show ?thesis
    proof cases
      case new
      then have "Some i \<notin> set ?sl" by (auto simp: find_index_None_iff)
      with True sp new i show ?thesis
        unfolding split_ok_def idset
        by (auto simp: setActive_def Let_def distinct_live_replace
            dest!: set_update_subset_insert [THEN subsetD])
    next
      case old
      then have "j < length ?sl" by (auto simp: find_index_Some_iff)
      with True sp old show ?thesis
        unfolding split_ok_def idset
        by (auto simp: setActive_def Let_def set_swap_at
            distinct_live_perm [OF mset_swap_at, of 0 ?sl j])
    qed
  qed
  then show ?thesis
    using ws_invD [OF inv] i ids unfolding ws_inv_def
    by (simp add: setActive_def Let_def idset del: set_map)
qed

lemma reorder_perm: "mset (tabs (reorder from to s)) = mset (tabs s)"
  by (auto simp: reorder_def Let_def intro!: mset_insert_remove)

lemma reorder_inv:
  assumes "ws_inv s"
  shows "ws_inv (reorder from to s)"
proof -
  have m: "mset (tab_ids (tabs (reorder from to s))) = mset (tab_ids (tabs s))"
    by (simp add: reorder_perm)
  have "set (tabs (reorder from to s)) = set (tabs s)"
    by (metis reorder_perm set_mset_mset)
  moreover have "distinct (tab_ids (tabs (reorder from to s)))"
    using m ws_invD(1) [OF assms] by (metis mset_eq_imp_distinct_iff)
  moreover have "activeId (reorder from to s) = activeId s" "split (reorder from to s) = split s"
    "recentlyClosed (reorder from to s) = recentlyClosed s"
    by (simp_all add: reorder_def Let_def)
  ultimately show ?thesis using assms
    by (auto simp: ws_inv_def active_ok_def split_ok_def split: option.splits dest: arg_cong [of _ _ set])
qed

lemma cycle_index_less: "0 < n \<Longrightarrow> cycle_index n idx delta < n"
  by (simp add: cycle_index_def nat_less_iff)

lemma cycleTab_inv:
  assumes "ws_inv s"
  shows "ws_inv (cycleTab delta s)"
proof (cases "tabs s = []")
  case False
  then have "cycle_index (length (tabs s)) idx delta < length (tabs s)" for idx
    by (simp add: cycle_index_less)
  with assms False show ?thesis
    by (auto simp: cycleTab_def Let_def ws_inv_def)
qed (use assms in \<open>simp add: cycleTab_def\<close>)

lemma activateAt_inv: "ws_inv s \<Longrightarrow> ws_inv (activateAt idx s)"
  by (auto simp: activateAt_def ws_inv_def)

lemma single_split_ok: "split_ok ts sp \<Longrightarrow> split_ok ts (single_split sp)"
  by (simp add: split_ok_def single_split_def)

lemma pair_split_ok:
  assumes "split_ok ts sp" "i \<in> set (tab_ids ts)" "j \<in> set (tab_ids ts)" "i \<noteq> j"
  shows "split_ok ts (sp\<lparr>layout := Row2, slots := [Some i, Some j]\<rparr>)"
  using assms by (auto simp: split_ok_def)

lemma ws_inv_split: "ws_inv s \<Longrightarrow> split_ok (tabs s) sp \<Longrightarrow> ws_inv (s\<lparr>split := sp\<rparr>)"
  by (simp add: ws_inv_def)

lemma setSplit_inv:
  assumes inv: "ws_inv s"
  shows "ws_inv (setSplit i s)"
proof (cases "\<not> truthy_str i \<or> i = activeId s \<or> \<not> truthy_str (activeId s)
    \<or> find_tab (the i) (tabs s) = None")
  case True
  with ws_inv_split [OF inv single_split_ok [OF ws_invD(4) [OF inv]]] show ?thesis
    by (simp add: setSplit_def)
next
  case False
  then obtain a j where "activeId s = Some a" "i = Some j" "j \<noteq> a" "j \<in> set (tab_ids (tabs s))"
    by (auto simp: truthy_str_iff find_tab_None_iff simp del: set_map)
  moreover from this have "a \<in> set (tab_ids (tabs s))" using ws_invD(3) [OF inv] by simp
  ultimately show ?thesis
    using False ws_inv_split [OF inv pair_split_ok [OF ws_invD(4) [OF inv]]]
    by (auto simp: setSplit_def simp del: set_map)
qed

lemma toggleSplit_inv:
  assumes inv: "ws_inv s"
  shows "ws_inv (toggleSplit s)"
proof (cases "layout (split s) \<noteq> Single")
  case True
  with ws_inv_split [OF inv single_split_ok [OF ws_invD(4) [OF inv]]] show ?thesis
    by (simp add: toggleSplit_def)
next
  case single: False
  show ?thesis
  proof (cases "List.find (\<lambda>t. Some (tab_id t) \<noteq> activeId s) (rev (tabs s))")
    case None
    with single inv show ?thesis by (simp add: toggleSplit_def)
  next
    case (Some t)
    note t = find_SomeD [OF this]
    show ?thesis
    proof (cases "truthy_str (activeId s)")
      case True
      then obtain a where a: "activeId s = Some a" by (auto simp: truthy_str_iff)
      then have "a \<in> set (tab_ids (tabs s))" using ws_invD(3) [OF inv] by simp
      moreover have "tab_id t \<in> set (tab_ids (tabs s))" "a \<noteq> tab_id t" using t a by auto
      ultimately show ?thesis
        using single Some True a ws_inv_split [OF inv pair_split_ok [OF ws_invD(4) [OF inv]]]
        by (simp add: toggleSplit_def del: set_map)
    qed (use single Some inv in \<open>simp add: toggleSplit_def\<close>)
  qed
qed

lemma swapSplit_inv:
  assumes "ws_inv s"
  shows "ws_inv (swapSplit s)"
proof (cases "layout (split s) = Single \<or> length (slots (split s)) < 2")
  case False
  let ?sl = "swap_at 0 1 (slots (split s))"
  from False have len: "0 < length (slots (split s))" "1 < length (slots (split s))" by auto
  have set_sl: "set ?sl = set (slots (split s))" by (rule set_swap_at) (use len in auto)
  have sp: "split_ok (tabs s) ((split s)\<lparr>slots := ?sl\<rparr>)"
    using ws_invD(4) [OF assms] False len
    unfolding split_ok_def by (simp add: set_sl [simplified] distinct_live_perm [OF mset_swap_at [OF len], simplified])
  have "?sl ! 0 \<in> set (slots (split s))"
    using len set_sl by (metis length_swap_at nth_mem)
  then have "active_ok (tabs s) (case ?sl ! 0 of None \<Rightarrow> activeId s | Some i \<Rightarrow> Some i)"
    using ws_invD(3,4) [OF assms] by (auto simp: split_ok_def split: option.splits)
  with sp assms False show ?thesis by (simp add: swapSplit_def Let_def ws_inv_def)
qed (use assms in \<open>simp add: swapSplit_def\<close>)

lemma flip_layout_count [simp]: "SLOT_COUNT (flip_layout d l) = SLOT_COUNT l"
  by (cases d; cases l) simp_all

lemma flip_layout_Single [simp]: "flip_layout d l = Single \<longleftrightarrow> l = Single"
  by (cases d; cases l) simp_all

lemma setSplitDir_inv: "ws_inv s \<Longrightarrow> ws_inv (setSplitDir d s)"
  by (auto simp: setSplitDir_def Let_def ws_inv_def split_ok_def)

lemma setSplitRatio_inv: "ws_inv s \<Longrightarrow> ws_inv (setSplitRatio r s)"
  by (auto simp: setSplitRatio_def ws_inv_def split_ok_def)

lemma setLayout_inv: "ws_inv s \<Longrightarrow> ws_inv (setLayout l s)"
  using fillSlots_ok [of l "tabs s" "split s" "activeId s" "slots (split s)"]
  by (auto simp: setLayout_def ws_inv_def split_ok_def)

lemma merge_full_patch [simp]: "merge_prefs p (full_patch q) = q"
  by (simp add: merge_prefs_def full_patch_def)

lemma rehydrate_partialize:
  "rehydrate (partialize s) =
     s\<lparr>tabs := map transient_reset (tabs s), recentlyClosed := [], split := single_split (split s)\<rparr>"
  by (simp add: rehydrate_def partialize_def single_split_def init_workspace_def)

lemma rehydrate_partialize_inv: "ws_inv s \<Longrightarrow> ws_inv (rehydrate (partialize s))"
  by (cases "activeId s")
    (auto simp: rehydrate_partialize ws_inv_def split_ok_def single_split_def transient_reset_def
      comp_def)

end
