(* ===== verification/WorkspaceProps.thy ===== *)
theory WorkspaceProps
  imports WorkspaceInv
begin

text \<open>
  The properties of the workspace store: the invariant over every run, what closing, reopening,
  cycling, reordering and activating do, how the split view follows the active tab and where it
  does not, and that persistence keeps what it should.
\<close>

section \<open>Runs of the store\<close>

datatype ws_action =
    AOpen string int open_input
  | AClose string | ACloseOthers string | ACloseToRight string | ACloseAll | AReconnectAll
  | ACloseErrored | ADuplicate string int string | ARename string string | ASetActive string
  | AReorder int int | ASetStatus string tab_status | ASetSidebar bool | AToggleSidebar
  | ASetTreeView tree_view | ASetActivePanel active_panel | AReopen string int | ACycle int
  | AActivateAt int | ASetSubTab string sub_tab | AToggleDock string
  | ASetGroupingMode grouping_mode | ACreateGroup string string "group_color option"
  | ARenameGroup string string | ARecolorGroup string group_color | AToggleCollapsed string
  | ADeleteGroup string | AMoveToGroup string "string option" | ATogglePin string
  | AToggleMute string | ASetPoppedOut string bool | AMarkUnread string bool
  | ASetPrefs prefs_patch | ASetSplit "string option" | AToggleSplit | ASwapSplit
  | ASetSplitDir split_dir | ASetSplitRatio real | ASetLayout split_layout
  | AReload

fun ws_exec :: "ws_action \<Rightarrow> workspace \<Rightarrow> workspace" where
  "ws_exec (AOpen i now inp) s = fst (open_tab i now inp s)"
| "ws_exec (AClose i) s = close_tab i s"
| "ws_exec (ACloseOthers i) s = closeOthers i s"
| "ws_exec (ACloseToRight i) s = closeToRight i s"
| "ws_exec ACloseAll s = closeAll s"
| "ws_exec AReconnectAll s = reconnectAll s"
| "ws_exec ACloseErrored s = closeErrored s"
| "ws_exec (ADuplicate fresh now i) s = fst (duplicate fresh now i s)"
| "ws_exec (ARename i t) s = rename_tab i t s"
| "ws_exec (ASetActive i) s = setActive i s"
| "ws_exec (AReorder f t) s = reorder f t s"
| "ws_exec (ASetStatus i st) s = setStatus i st s"
| "ws_exec (ASetSidebar b) s = setSidebarOpen b s"
| "ws_exec AToggleSidebar s = toggleSidebar s"
| "ws_exec (ASetTreeView v) s = setTreeView v s"
| "ws_exec (ASetActivePanel p) s = setActivePanel p s"
| "ws_exec (AReopen fresh now) s = fst (reopenLastClosed fresh now s)"
| "ws_exec (ACycle d) s = cycleTab d s"
| "ws_exec (AActivateAt k) s = activateAt k s"
| "ws_exec (ASetSubTab i sub) s = setSubTab i sub s"
| "ws_exec (AToggleDock i) s = toggleDock i s"
| "ws_exec (ASetGroupingMode m) s = setGroupingMode m s"
| "ws_exec (ACreateGroup g n c) s = fst (createGroup g n c s)"
| "ws_exec (ARenameGroup g n) s = renameGroup g n s"
| "ws_exec (ARecolorGroup g c) s = recolorGroup g c s"
| "ws_exec (AToggleCollapsed g) s = toggleGroupCollapsed g s"
| "ws_exec (ADeleteGroup g) s = deleteGroup g s"
| "ws_exec (AMoveToGroup i g) s = moveTabToGroup i g s"
| "ws_exec (ATogglePin i) s = togglePin i s"
| "ws_exec (AToggleMute i) s = toggleMute i s"
| "ws_exec (ASetPoppedOut i b) s = setPoppedOut i b s"
| "ws_exec (AMarkUnread i b) s = markUnread i b s"
| "ws_exec (ASetPrefs d) s = setPrefs d s"
| "ws_exec (ASetSplit i) s = setSplit i s"
| "ws_exec AToggleSplit s = toggleSplit s"
| "ws_exec ASwapSplit s = swapSplit s"
| "ws_exec (ASetSplitDir d) s = setSplitDir d s"
| "ws_exec (ASetSplitRatio r) s = setSplitRatio r s"
| "ws_exec (ASetLayout l) s = setLayout l s"
| "ws_exec AReload s = rehydrate (partialize s)"

text \<open>An id that \<open>genId()\<close> answers is not empty and not the id of an open tab; the tab strip
  activates a tab it shows. Every other action may come at any time.\<close>

fun ws_allowed :: "ws_action \<Rightarrow> workspace \<Rightarrow> bool" where
  "ws_allowed (AOpen i now inp) s \<longleftrightarrow> i \<noteq> [] \<and> i \<notin> set (tab_ids (tabs s))"
| "ws_allowed (ADuplicate i now j) s \<longleftrightarrow> i \<noteq> [] \<and> i \<notin> set (tab_ids (tabs s))"
| "ws_allowed (AReopen i now) s \<longleftrightarrow> i \<noteq> [] \<and> i \<notin> set (tab_ids (tabs s))"
| "ws_allowed (ASetActive i) s \<longleftrightarrow> i \<in> set (tab_ids (tabs s))"
| "ws_allowed _ s \<longleftrightarrow> True"

inductive ws_reachable :: "workspace \<Rightarrow> bool" where
  ws_start: "ws_reachable init_workspace"
| ws_step: "ws_reachable s \<Longrightarrow> ws_allowed a s \<Longrightarrow> ws_reachable (ws_exec a s)"

lemma init_inv: "ws_inv init_workspace"
  by (simp add: ws_inv_def init_workspace_def split_ok_def)

lemmas ws_action_inv = close_tab_inv closeOthers_inv closeToRight_inv closeAll_inv reconnectAll_inv
  closeErrored_inv setStatus_inv deleteGroup_inv cycleTab_inv activateAt_inv setSplit_inv
  toggleSplit_inv swapSplit_inv setSplitDir_inv setSplitRatio_inv setLayout_inv reorder_inv
  rehydrate_partialize_inv tab_edit_inv view_inv

lemma ws_exec_inv: "ws_inv s \<Longrightarrow> ws_allowed a s \<Longrightarrow> ws_inv (ws_exec a s)"
  by (cases a)
    (simp_all add: ws_action_inv open_tab_inv duplicate_inv reopenLastClosed_inv setActive_inv
      del: set_map)

lemma reachable_ws_inv: "ws_reachable s \<Longrightarrow> ws_inv s"
  by (induction rule: ws_reachable.induct) (auto intro: init_inv ws_exec_inv)


definition demo_input :: open_input where
  "demo_input = \<lparr>in_nodeId = 7, in_protocol = Ssh, in_rdpBackend = None, in_title = ''web'',
     in_host = None, in_port = None, in_groupId = None, in_pinned = None\<rparr>"

definition demo :: workspace where
  "demo = ws_exec AToggleSplit (ws_exec (AOpen ''b'' 2 demo_input) (ws_exec (AOpen ''a'' 1 demo_input) init_workspace))"

lemma demo_reachable: "ws_reachable demo"
  unfolding demo_def
  by (intro ws_step ws_start) (simp_all add: init_workspace_def open_tab_def new_tab_def)

lemmas demo_simps = demo_def demo_input_def init_workspace_def open_tab_def new_tab_def
  toggleSplit_def

lemma demo_fields:
  "tab_ids (tabs demo) = [''a'', ''b'']" "activeId demo = Some ''b''"
  "layout (split demo) = Row2" "slots (split demo) = [Some ''b'', Some ''a'']"
  by (simp_all add: demo_simps)

lemma demo_tabs: "tabs demo \<noteq> []" "length (tabs demo) = 2"
  by (simp_all add: demo_simps)


section \<open>Closing\<close>

text \<open>The actions that close tabs.\<close>

fun is_close :: "ws_action \<Rightarrow> bool" where
  "is_close (AClose i) \<longleftrightarrow> True"
| "is_close (ACloseOthers i) \<longleftrightarrow> True"
| "is_close (ACloseToRight i) \<longleftrightarrow> True"
| "is_close ACloseAll \<longleftrightarrow> True"
| "is_close ACloseErrored \<longleftrightarrow> True"
| "is_close _ \<longleftrightarrow> False"

lemma mset_filter_split: "mset xs = mset (filter p xs) + mset (filter (\<lambda>x. \<not> p x) xs)"
  by (induction xs) auto

lemma filter_one:
  assumes "distinct (map f xs)" "k < length xs"
  shows "filter (\<lambda>x. f x = f (xs ! k)) xs = [xs ! k]"
  using assms
proof (induction xs arbitrary: k)
  case (Cons x xs)
  have tl: "filter (\<lambda>y. f y = f x) xs = []"
    using Cons.prems(1) by (auto simp: filter_empty_conv image_iff)
  show ?case
  proof (cases k)
    case (Suc j)
    with Cons.prems have "f x \<noteq> f (xs ! j)" "j < length xs" by (auto simp: image_iff)
    with Suc Cons.IH [of j] Cons.prems show ?thesis by simp
  qed (use tl in simp)
qed simp

definition closed_by :: "workspace \<Rightarrow> workspace \<Rightarrow> workspace_tab list \<Rightarrow> bool" where
  "closed_by s s' removed \<longleftrightarrow>
     mset (tabs s) = mset (tabs s') + mset removed \<and>
     recentlyClosed s' = take RECENT_LIMIT (removed @ recentlyClosed s) \<and>
     (\<forall>t\<in>set removed. \<not> is_pinned t)"

lemma closed_by_self: "length (recentlyClosed s) \<le> RECENT_LIMIT \<Longrightarrow> closed_by s s []"
  by (simp add: closed_by_def)

lemma close_tab_closed_by:
  assumes inv: "ws_inv s"
  shows "\<exists>r. closed_by s (close_tab i s) r"
proof (cases "tab_index i (tabs s)")
  case (Some k)
  note k = tab_index_SomeD [OF Some]
  have "filter (\<lambda>t. tab_id t = i) (tabs s) = [tabs s ! k]"
    using filter_one [OF ws_invD(1) [OF inv], of k] k by simp
  then have "mset (tabs s) = mset (filter (\<lambda>t. tab_id t \<noteq> i) (tabs s)) + {#tabs s ! k#}"
    using mset_filter_split [of "tabs s" "\<lambda>t. tab_id t = i"] by simp
  then show ?thesis
    using Some closed_by_self [OF ws_invD(5) [OF inv]]
    by (cases "is_pinned (tabs s ! k)")
      (auto simp: close_tab_def Let_def closed_by_def push_front_def simp del: take_append
        intro!: exI [of _ "[tabs s ! k]"])
qed (use closed_by_self [OF ws_invD(5) [OF inv]] in \<open>auto simp: close_tab_def\<close>)

lemma closeToRight_closed_by:
  assumes inv: "ws_inv s"
  shows "\<exists>r. closed_by s (closeToRight i s) r"
proof (cases "tab_index i (tabs s)")
  case (Some k)
  have "mset (tabs s) = mset (take (Suc k) (tabs s)) + mset (drop (Suc k) (tabs s))"
    by (metis append_take_drop_id mset_append)
  also have "mset (drop (Suc k) (tabs s)) = mset (filter is_pinned (drop (Suc k) (tabs s)))
      + mset (filter (\<lambda>t. \<not> is_pinned t) (drop (Suc k) (tabs s)))"
    by (rule mset_filter_split)
  finally have "closed_by s (closeToRight i s) (filter (\<lambda>t. \<not> is_pinned t) (drop (Suc k) (tabs s)))"
    using Some by (simp add: closeToRight_def Let_def closed_by_def push_front_def add.assoc)
  then show ?thesis ..
qed (use closed_by_self [OF ws_invD(5) [OF inv]] in \<open>auto simp: closeToRight_def\<close>)

lemma closeOthers_closed_by:
  assumes inv: "ws_inv s"
  shows "\<exists>r. closed_by s (closeOthers i s) r"
proof (cases "find_tab i (tabs s)")
  case (Some t)
  have "closed_by s (closeOthers i s) (filter (\<lambda>t. tab_id t \<noteq> i \<and> \<not> is_pinned t) (tabs s))"
    using Some mset_filter_split [of "tabs s" "\<lambda>t. tab_id t = i \<or> is_pinned t"]
    by (simp add: closeOthers_def Let_def closed_by_def push_front_def)
  then show ?thesis ..
qed (use closed_by_self [OF ws_invD(5) [OF inv]] in \<open>auto simp: closeOthers_def\<close>)

lemma closeAll_closed_by: "\<exists>r. closed_by s (closeAll s) r"
  using mset_filter_split [of "tabs s" is_pinned]
  by (intro exI [of _ "filter (\<lambda>t. \<not> is_pinned t) (tabs s)"])
    (simp add: closeAll_def Let_def closed_by_def push_front_def)

lemma closeErrored_closed_by:
  assumes inv: "ws_inv s"
  shows "\<exists>r. closed_by s (closeErrored s) r"
proof -
  have "closed_by s (closeErrored s) (filter is_errored (tabs s))"
    using mset_filter_split [of "tabs s" is_errored] ws_invD(5) [OF inv]
    by (auto simp: closeErrored_def Let_def closed_by_def push_front_def is_errored_def add.commute
        filter_empty_conv simp del: take_append)
  then show ?thesis ..
qed

text \<open>C2: closing loses nothing and never closes a pinned tab: each of the five closing actions
  splits the open tabs into those that stay and some unpinned ones that are closed, and puts the
  closed ones in front of the recently closed stack, which keeps the ten newest.\<close>

theorem closing_conserves_tabs:
  assumes "ws_reachable s" "is_close a"
  shows "\<exists>removed. closed_by s (ws_exec a s) removed"
  using reachable_ws_inv [OF assms(1)] assms(2)
  by (cases a) (auto intro: close_tab_closed_by closeOthers_closed_by closeToRight_closed_by
      closeAll_closed_by closeErrored_closed_by)

theorem closing_conserves_tabs_witness:
  "\<exists>removed. closed_by demo (ws_exec (AClose ''a'') demo) removed"
  using closing_conserves_tabs [OF demo_reachable, of "AClose ''a''"] by simp

text \<open>C3: reopening the last closed tab restores it: after an unpinned tab is closed, reopening
  appends a tab for the same node, protocol, backend, title, address and group under a fresh
  id, makes it active, and takes it off the recently closed stack.\<close>

theorem reopen_restores_closed:
  assumes "ws_reachable s" "find_tab i (tabs s) = Some t" "\<not> is_pinned t"
  shows "\<exists>s'. reopenLastClosed fresh now (close_tab i s) = (s', Some fresh) \<and>
     tabs s' = filter (\<lambda>u. tab_id u \<noteq> i) (tabs s) @
       [t\<lparr>tab_id := fresh, status := TFresh, createdAt := now, subTab := None, dockOpen := None,
          pinned := Some False, muted := Some False, poppedOut := Some False, unread := Some False\<rparr>] \<and>
     activeId s' = Some fresh \<and> recentlyClosed s' = take 9 (recentlyClosed s)"
proof -
  have dist: "distinct (tab_ids (tabs s))" by (rule ws_invD(1) [OF reachable_ws_inv [OF assms(1)]])
  have t: "t \<in> set (tabs s)" "tab_id t = i" using find_tab_SomeD [OF assms(2)] by auto
  then obtain k where k: "k < length (tabs s)" "tabs s ! k = t" by (auto simp: in_set_conv_nth)
  have idx: "tab_index i (tabs s) = Some k"
    using find_index_of_nth [OF dist k(1)] k t by (simp add: tab_index_def)
  have rc: "recentlyClosed (close_tab i s) = t # take 9 (recentlyClosed s)"
    using idx k assms(3) by (simp add: close_tab_def Let_def push_front_def RECENT_LIMIT_def)
  have tb: "tabs (close_tab i s) = filter (\<lambda>u. tab_id u \<noteq> i) (tabs s)"
    using idx k assms(3) by (simp add: close_tab_def Let_def)
  show ?thesis
    using assms(3)
    by (simp add: reopenLastClosed_def rc tb open_tab_def new_tab_def)
qed

theorem reopen_restores_closed_witness:
  "\<exists>s'. reopenLastClosed ''c'' 3 (close_tab ''a'' demo) = (s', Some ''c'') \<and>
     tab_ids (tabs s') = [''b'', ''c''] \<and> activeId s' = Some ''c''"
proof -
  let ?t = "new_tab ''a'' 1 demo_input"
  have "find_tab ''a'' (tabs demo) = Some ?t"
    by (simp add: find_tab_def demo_simps)
  from reopen_restores_closed [OF demo_reachable this, of "''c''" 3] show ?thesis
    by (auto simp: demo_simps)
qed

section \<open>Moving between tabs\<close>

lemma cycleTab_active:
  assumes "ws_inv s" "activeId s = Some a" "tab_index a (tabs s) = Some k"
  shows "cycleTab d s =
    s\<lparr>activeId := Some (tab_id (tabs s ! nat ((int k + d) mod int (length (tabs s)))))\<rparr>"
proof -
  have "a \<noteq> []" "tabs s \<noteq> []"
    using assms tab_index_SomeD [OF assms(3)] by (auto simp: ws_inv_def)
  with assms(2,3) show ?thesis by (simp add: cycleTab_def cycle_index_def)
qed

lemma active_index:
  assumes "ws_inv s" "tabs s \<noteq> []"
  shows "\<exists>a k. activeId s = Some a \<and> tab_index a (tabs s) = Some k \<and> k < length (tabs s)
    \<and> tab_id (tabs s ! k) = a"
proof -
  obtain a where a: "activeId s = Some a" "a \<in> set (tab_ids (tabs s))"
    using ws_invD(3) [OF assms(1)] assms(2) by (cases "activeId s") auto
  then obtain k where "tab_index a (tabs s) = Some k"
    by (cases "tab_index a (tabs s)") (auto simp: tab_index_None_iff simp del: set_map)
  with a tab_index_SomeD show ?thesis by blast
qed

lemma cycleTab_add:
  assumes inv: "ws_inv s"
  shows "cycleTab e (cycleTab d s) = cycleTab (d + e) s"
proof (cases "tabs s = []")
  case False
  let ?n = "int (length (tabs s))"
  obtain a k where ak: "activeId s = Some a" "tab_index a (tabs s) = Some k" "k < length (tabs s)"
    using active_index [OF inv False] by blast
  let ?j = "nat ((int k + d) mod ?n)"
  have j: "?j < length (tabs s)" using False by (simp add: nat_less_iff)
  have d: "cycleTab d s = s\<lparr>activeId := Some (tab_id (tabs s ! ?j))\<rparr>"
    by (rule cycleTab_active [OF inv ak(1,2)])
  have inv': "ws_inv (s\<lparr>activeId := Some (tab_id (tabs s ! ?j))\<rparr>)"
    using cycleTab_inv [OF inv, of d] by (simp add: d)
  have idx: "tab_index (tab_id (tabs s ! ?j)) (tabs s) = Some ?j"
    using find_index_of_nth [OF ws_invD(1) [OF inv] j] by (simp add: tab_index_def)
  have "(int ?j + e) mod ?n = (int k + (d + e)) mod ?n"
    using False by (simp add: mod_add_left_eq add.assoc)
  then show ?thesis
    using cycleTab_active [OF inv', of "tab_id (tabs s ! ?j)" ?j e] idx
      cycleTab_active [OF inv ak(1,2), of "d + e"]
    by (simp add: d)
qed (simp add: cycleTab_def)

lemma cycleTab_full_turn:
  assumes inv: "ws_inv s" and "d mod int (length (tabs s)) = 0"
  shows "cycleTab d s = s"
proof (cases "tabs s = []")
  case False
  obtain a k where ak: "activeId s = Some a" "tab_index a (tabs s) = Some k" "k < length (tabs s)"
    "tab_id (tabs s ! k) = a"
    using active_index [OF inv False] by blast
  have "(int k + d) mod int (length (tabs s)) = int k"
    using assms(2) ak(3) by (metis add.right_neutral mod_add_right_eq mod_pos_pos_trivial of_nat_0_le_iff of_nat_less_iff)
  with cycleTab_active [OF inv ak(1,2), of d] ak show ?thesis by simp
qed (simp add: cycleTab_def)

text \<open>cycling through the tabs is arithmetic modulo their number: two cycles are one by the
  sum of the steps, so cycling back undoes cycling forward, and a full turn returns to the same
  tab, whatever the sign of the steps.\<close>

theorem cycling_is_modular:
  assumes "ws_reachable s"
  shows "cycleTab e (cycleTab d s) = cycleTab (d + e) s \<and>
    cycleTab (- d) (cycleTab d s) = s \<and>
    cycleTab (int (length (tabs s))) s = s"
  using cycleTab_add [OF reachable_ws_inv [OF assms], of e d]
    cycleTab_add [OF reachable_ws_inv [OF assms], of "- d" d]
    cycleTab_full_turn [OF reachable_ws_inv [OF assms]]
  by simp_all

theorem cycling_is_modular_witness:
  "cycleTab (-3) (cycleTab 3 demo) = demo \<and> cycleTab 2 demo = demo"
  using cycling_is_modular [OF demo_reachable, of "-3" 3] by (auto simp: demo_tabs)

lemma remove_insert_at: "i \<le> length xs \<Longrightarrow> remove_at i (insert_at i x xs) = xs"
  by (simp add: remove_at_def insert_at_def min_def)

text \<open>a drag in the tab strip moves one tab and keeps the order of the others: the tab from
  position \<open>from\<close> is at position \<open>to\<close> afterwards, and without it the strip is as before.\<close>

theorem reorder_moves_one:
  assumes "0 \<le> from" "from < int (length (tabs s))" "0 \<le> to" "to < int (length (tabs s))"
  shows "tabs (reorder from to s) ! nat to = tabs s ! nat from \<and>
    remove_at (nat to) (tabs (reorder from to s)) = remove_at (nat from) (tabs s) \<and>
    activeId (reorder from to s) = activeId s"
  using assms by (auto simp: reorder_def Let_def remove_insert_at nat_less_iff)

theorem reorder_moves_one_witness:
  "tab_ids (tabs (reorder 0 1 demo)) = [''b'', ''a''] \<and>
   tabs (reorder 0 1 demo) ! nat 1 = tabs demo ! nat 0"
  using reorder_moves_one [of 0 demo 1]
  by (simp add: demo_simps reorder_def insert_at_def remove_at_def)

section \<open>The split view and the active tab\<close>

lemma shown_setActive:
  assumes "layout (split s) \<noteq> Single"
  shows "shown_slots (setActive i s) = slots (split (setActive i s))"
  using assms by (simp add: shown_slots_def setActive_def Let_def)

text \<open>activating a tab in a split view puts it into the primary pane, and every tab shown
  before stays visible unless it was in the primary pane and gave it up.\<close>

theorem setActive_mirrors:
  assumes "ws_reachable s" "layout (split s) \<noteq> Single"
  shows "slots (split (setActive i s)) ! 0 = Some i \<and> tab_visible (setActive i s) i \<and>
    (tab_visible s j \<and> slots (split s) ! 0 \<noteq> Some j \<longrightarrow> tab_visible (setActive i s) j)"
proof (intro conjI impI)
  let ?sl = "slots (split s)"
  let ?sl' = "slots (split (setActive i s))"
  have "length ?sl = SLOT_COUNT (layout (split s))"
    using ws_invD(4) [OF reachable_ws_inv [OF assms(1)]] assms(2) by (simp add: split_ok_def)
  then have len: "0 < length ?sl" by simp
  have "?sl' ! 0 = Some i \<and> length ?sl' = length ?sl \<and>
      (\<forall>x\<in>set ?sl. x \<noteq> ?sl ! 0 \<longrightarrow> x \<in> set ?sl')"
  proof (cases "find_index (\<lambda>x. x = Some i) ?sl")
    case None
    then have "?sl' = ?sl[0 := Some i]" using assms(2) len by (simp add: setActive_def Let_def)
    then show ?thesis using len by (cases ?sl) auto
  next
    case (Some k)
    then have k: "k < length ?sl" "?sl ! k = Some i" by (auto simp: find_index_Some_iff)
    have "?sl' = (if 0 < k then swap_at 0 k ?sl else ?sl)"
      using assms(2) len Some by (simp add: setActive_def Let_def)
    then show ?thesis using k len by (auto simp: nth_swap_at set_swap_at)
  qed
  then have *: "?sl' ! 0 = Some i" "0 < length ?sl'"
    "\<And>x. x \<in> set ?sl \<Longrightarrow> x \<noteq> ?sl ! 0 \<Longrightarrow> x \<in> set ?sl'"
    using len by auto
  show "?sl' ! 0 = Some i" by (rule *)
  show "tab_visible (setActive i s) i"
    using * nth_mem [of 0 ?sl'] by (simp add: tab_visible_def shown_setActive [OF assms(2)])
  show "tab_visible (setActive i s) j" if "tab_visible s j \<and> ?sl ! 0 \<noteq> Some j"
    using that *(3) [of "Some j"] assms(2)
    by (auto simp: tab_visible_def shown_setActive shown_slots_def [of s])
qed

theorem setActive_mirrors_witness:
  "slots (split (setActive ''a'' demo)) ! 0 = Some ''a'' \<and> tab_visible (setActive ''a'' demo) ''a''"
  using setActive_mirrors [OF demo_reachable, of "''a''"] by (simp add: demo_fields)

text \<open>the other ways of changing the active tab do not follow the rule that the primary pane
  mirrors it: in a split view, opening a tab, cycling and jumping to a tab leave the panes as
  they are, so a newly opened tab is active and in no pane.\<close>

theorem open_in_split_is_hidden:
  assumes "ws_reachable s" "layout (split s) \<noteq> Single" "i \<notin> set (tab_ids (tabs s))"
  shows "activeId (fst (open_tab i now inp s)) = Some i \<and>
    \<not> tab_visible (fst (open_tab i now inp s)) i \<and>
    shown_slots (cycleTab d s) = shown_slots s \<and>
    shown_slots (activateAt k s) = shown_slots s"
proof (intro conjI)
  have "Some i \<notin> set (slots (split s))"
    using ws_invD(4) [OF reachable_ws_inv [OF assms(1)]] assms(3) by (auto simp: split_ok_def)
  then show "\<not> tab_visible (fst (open_tab i now inp s)) i"
    using assms(2) by (simp add: open_tab_def tab_visible_def shown_slots_def)
qed (use assms(2) in \<open>simp_all add: open_tab_def shown_slots_def cycleTab_def activateAt_def Let_def\<close>)

theorem open_in_split_is_hidden_witness:
  "activeId (fst (open_tab ''c'' 3 demo_input demo)) = Some ''c'' \<and>
   \<not> tab_visible (fst (open_tab ''c'' 3 demo_input demo)) ''c''"
  using open_in_split_is_hidden [OF demo_reachable, of "''c''" 3 demo_input]
  by (simp add: demo_fields del: set_map)

lemma fill_push_extends: "\<exists>r. fill_push n ids i out = out @ r"
  by (auto simp: fill_push_def)

lemma fold_fill_push_extends: "\<exists>r. fold (\<lambda>x. fill_push n ids (f x)) xs out = out @ r"
proof (induction xs arbitrary: out)
  case (Cons x xs)
  obtain r where r: "fill_push n ids (f x) out = out @ r" using fill_push_extends by blast
  from Cons.IH [of "out @ r"] show ?case by (auto simp: r)
qed simp

lemma fold_fill_push_complete:
  assumes "x \<in> set xs" "f x = Some i" "i \<noteq> []" "i \<in> ids"
  shows "n \<le> length (fold (\<lambda>x. fill_push n ids (f x)) xs out)
    \<or> i \<in> set (fold (\<lambda>x. fill_push n ids (f x)) xs out)"
  using assms(1)
proof (induction xs arbitrary: out)
  case (Cons y ys)
  show ?case
  proof (cases "x \<in> set ys")
    case True
    from Cons.IH [OF True] show ?thesis by simp
  next
    case False
    with Cons.prems have "y = x" by simp
    obtain r where r: "fold (\<lambda>x. fill_push n ids (f x)) ys (fill_push n ids (f x) out)
        = fill_push n ids (f x) out @ r"
      using fold_fill_push_extends by blast
    have "n \<le> length (fill_push n ids (f x) out) \<or> i \<in> set (fill_push n ids (f x) out)"
      using assms(2-4) by (auto simp: fill_push_def)
    with r show ?thesis by (auto simp: \<open>y = x\<close>)
  qed
qed simp

lemma fillSlots_full:
  assumes dist: "distinct (tab_ids ts)" and ne: "[] \<notin> set (tab_ids ts)"
  shows "length (live (fillSlots ts a ex n)) = min n (length ts)"
proof -
  let ?ids = "set (tab_ids ts)"
  let ?o1 = "fold (fill_push n ?ids) ex (fill_push n ?ids a [])"
  let ?o2 = "fold (\<lambda>t. fill_push n ?ids (Some (tab_id t))) (rev ts) ?o1"
  have o0: "distinct (fill_push n ?ids a [])" "set (fill_push n ?ids a []) \<subseteq> ?ids"
    "length (fill_push n ?ids a []) \<le> n"
    by (rule fill_push_inv; simp)+
  have "distinct ?o1 \<and> set ?o1 \<subseteq> ?ids \<and> length ?o1 \<le> n"
    by (rule fold_fill_push_id_inv [OF o0])
  then have o2: "distinct ?o2" "set ?o2 \<subseteq> ?ids" "length ?o2 \<le> n"
    using fold_fill_push_inv [of ?o1 ?ids n "\<lambda>t. Some (tab_id t)" "rev ts"] by simp_all
  have card: "length ?o2 = card (set ?o2)" "card ?ids = length ts"
    using o2(1) dist by (simp_all add: distinct_card del: set_map)
  have "length ?o2 = min n (length ts)"
  proof (cases "n \<le> length ?o2")
    case True
    then have "length ?o2 = n" using o2(3) by simp
    moreover have "card (set ?o2) \<le> card ?ids" by (rule card_mono) (use o2(2) in auto)
    ultimately show ?thesis using card by simp
  next
    case False
    have "tab_id t \<in> set ?o2" if "t \<in> set ts" for t
      using fold_fill_push_complete [of t "rev ts" "\<lambda>t. Some (tab_id t)" "tab_id t" ?ids n ?o1]
        that ne False by force
    then have "set ?o2 = ?ids" using o2(2) by auto
    with card False show ?thesis by simp
  qed
  then show ?thesis by (simp add: fillSlots_def Let_def)
qed

lemma fillSlots_head:
  assumes "a = Some i" "i \<noteq> []" "i \<in> set (tab_ids ts)" "0 < n"
  shows "fillSlots ts a ex n ! 0 = Some i"
proof -
  let ?ids = "set (tab_ids ts)"
  have 0: "fill_push n ?ids a [] = [i]" using assms by (simp add: fill_push_def)
  obtain r1 where r1: "fold (fill_push n ?ids) ex [i] = [i] @ r1"
    using fold_fill_push_extends [of n ?ids "\<lambda>x. x" ex "[i]"] by auto
  obtain r2 where r2: "fold (\<lambda>t. fill_push n ?ids (Some (tab_id t))) (rev ts) (i # r1) = (i # r1) @ r2"
    using fold_fill_push_extends [of n ?ids "\<lambda>t. Some (tab_id t)" "rev ts" "i # r1"] by auto
  show ?thesis unfolding fillSlots_def Let_def using 0 r1 r2 by (simp del: set_map)
qed

text \<open>choosing a multi-pane layout fills it: the active tab gets the primary pane, and the
  panes show as many of the open tabs as fit, that is all of them or one in every pane.\<close>

theorem setLayout_fills:
  assumes "ws_reachable s" "l \<noteq> Single"
  shows "length (slots (split (setLayout l s))) = SLOT_COUNT l \<and>
    length (live (slots (split (setLayout l s)))) = min (SLOT_COUNT l) (length (tabs s)) \<and>
    (tabs s \<noteq> [] \<longrightarrow> slots (split (setLayout l s)) ! 0 = activeId s)"
proof (intro conjI impI)
  note inv = reachable_ws_inv [OF assms(1)]
  have sl: "slots (split (setLayout l s)) =
      fillSlots (tabs s) (activeId s) (slots (split s)) (SLOT_COUNT l)"
    using assms(2) by (simp add: setLayout_def)
  show "length (slots (split (setLayout l s))) = SLOT_COUNT l"
    using ws_invD(4) [OF setLayout_inv [OF inv, of l]] assms(2)
    by (simp add: split_ok_def setLayout_def)
  show "length (live (slots (split (setLayout l s)))) = min (SLOT_COUNT l) (length (tabs s))"
    unfolding sl by (rule fillSlots_full) (use ws_invD(1,2) [OF inv] in auto)
  show "slots (split (setLayout l s)) ! 0 = activeId s" if ne: "tabs s \<noteq> []"
  proof -
    obtain a where a: "activeId s = Some a" "a \<in> set (tab_ids (tabs s))"
      using ws_invD(3) [OF inv] ne by (cases "activeId s") auto
    moreover have "a \<noteq> []" using a(2) ws_invD(2) [OF inv] by metis
    ultimately show ?thesis unfolding sl by (simp add: fillSlots_head del: set_map)
  qed
qed

theorem setLayout_fills_witness:
  "length (slots (split (setLayout Grid4 demo))) = 4 \<and>
   length (live (slots (split (setLayout Grid4 demo)))) = 2 \<and>
   slots (split (setLayout Grid4 demo)) ! 0 = Some ''b''"
  using setLayout_fills [OF demo_reachable, of Grid4] by (simp add: demo_fields demo_tabs)

section \<open>Groups and persistence\<close>

text \<open>a new group gets a colour no other group has, as long as there is one.\<close>

theorem group_color_fresh:
  assumes "\<exists>c. c \<notin> set (map grp_color gs)"
  shows "pickNextGroupColor gs \<notin> set (map grp_color gs)"
proof -
  obtain c where c: "c \<notin> set (map grp_color gs)" using assms by blast
  have "c \<in> set GROUP_COLOR_ORDER" by (cases c) (simp_all add: GROUP_COLOR_ORDER_def)
  with c obtain d where "List.find (\<lambda>c. c \<notin> set (map grp_color gs)) GROUP_COLOR_ORDER = Some d"
    by (cases "List.find (\<lambda>c. c \<notin> set (map grp_color gs)) GROUP_COLOR_ORDER")
      (auto simp: find_None_iff_set)
  then show ?thesis using find_SomeD(2) by (fastforce simp: pickNextGroupColor_def)
qed

theorem group_color_fresh_witness:
  "pickNextGroupColor [\<lparr>grp_id = ''g'', grp_name = ''x'', grp_color = Blue, grp_collapsed = False\<rparr>]
     \<notin> {Blue}"
proof -
  let ?gs = "[\<lparr>grp_id = ''g'', grp_name = ''x'', grp_color = Blue, grp_collapsed = False\<rparr>]"
  have "\<exists>c. c \<notin> set (map grp_color ?gs)" by (rule exI [of _ Red]) simp
  from group_color_fresh [OF this] show ?thesis by simp
qed

definition flags_set :: "workspace \<Rightarrow> bool" where
  "flags_set s \<longleftrightarrow> list_all (\<lambda>t. pinned t \<noteq> None \<and> muted t \<noteq> None) (tabs s)"

lemma migrate_tab_reset: "pinned t \<noteq> None \<and> muted t \<noteq> None \<Longrightarrow> migrate_tab (transient_reset t) = transient_reset t"
  by (auto simp: migrate_tab_def transient_reset_def)

text \<open>persistence round trip. Migrating a stored payload twice is migrating it once;
  migrating what the current version stores changes nothing; and reloading brings back every
  tab, group, preference and the active tab, with only the connection state, the recently
  closed stack and the split layout reset.\<close>

theorem persistence_roundtrip:
  assumes "flags_set s"
  shows "migrate (migrate p) = migrate p \<and>
    migrate (partialize s) = partialize s \<and>
    rehydrate (migrate (partialize s)) =
      s\<lparr>tabs := map transient_reset (tabs s), recentlyClosed := [], split := single_split (split s)\<rparr>"
proof (intro conjI)
  have "map migrate_tab (map transient_reset (tabs s)) = map transient_reset (tabs s)"
    using assms by (auto simp: flags_set_def list_all_iff migrate_tab_reset)
  then show m: "migrate (partialize s) = partialize s"
    by (simp add: migrate_def partialize_def)
  show "rehydrate (migrate (partialize s)) =
      s\<lparr>tabs := map transient_reset (tabs s), recentlyClosed := [], split := single_split (split s)\<rparr>"
    by (simp add: m rehydrate_partialize)
  show "migrate (migrate p) = migrate p"
    by (simp add: migrate_def migrate_tab_def comp_def)
qed

theorem persistence_roundtrip_witness:
  "migrate (partialize demo) = partialize demo"
proof -
  have "flags_set demo" by (auto simp: flags_set_def demo_simps)
  from persistence_roundtrip [OF this] show ?thesis by simp
qed

end
