(* ===== verification/PathUtil.thy ===== *)
theory PathUtil
  imports JsString
begin

text \<open>
  The POSIX path helpers of the SFTP panel, \<open>components/sftp/pathUtil.ts\<close>: normalisation, joining,
  parent and base name, segments and file extension. The facts are about the canonical form:
  a normalised path has no empty, \<open>.\<close> or \<open>..\<close> segment, so no path the panel builds climbs out
  of the root.
\<close>

section \<open>The operations\<close>

text \<open>One turn of the loop over \<open>p.split("/")\<close>; \<open>pop\<close> of an empty array does nothing.\<close>

definition norm_step :: "string list \<Rightarrow> string \<Rightarrow> string list" where
  "norm_step out seg =
     (if seg = [] \<or> seg = ''.'' then out
      else if seg = ''..'' then butlast out
      else out @ [seg])"

definition norm_segs :: "string \<Rightarrow> string list" where
  "norm_segs p = foldl norm_step [] (split_on CHR ''/'' p)"

definition is_abs :: "string \<Rightarrow> bool" where
  "is_abs p = prefix ''/'' p"

definition normalize :: "string \<Rightarrow> string" where
  "normalize p =
     (if p = [] then ''/''
      else or_str ((if is_abs p then ''/'' else []) @ join_with ''/'' (norm_segs p)) ''/'')"

definition path_join :: "string list \<Rightarrow> string" where
  "path_join parts =
     (let merged = join_with ''/'' (filter (\<lambda>s. s \<noteq> []) parts)
      in normalize (if is_abs merged then merged else CHR ''/'' # merged))"

text \<open>\<open>s.lastIndexOf(c)\<close>, with \<open>None\<close> for \<open>-1\<close>\<close>

fun last_index :: "char \<Rightarrow> string \<Rightarrow> nat option" where
  "last_index c [] = None"
| "last_index c (x # xs) =
     (case last_index c xs of
        Some i \<Rightarrow> Some (Suc i)
      | None \<Rightarrow> if x = c then Some 0 else None)"

definition parent :: "string \<Rightarrow> string" where
  "parent p =
     (let n = normalize p in
      if n = ''/'' then ''/''
      else case last_index CHR ''/'' n of
             None \<Rightarrow> ''/''
           | Some i \<Rightarrow> if i = 0 then ''/'' else take i n)"

definition basename :: "string \<Rightarrow> string" where
  "basename p =
     (let n = normalize p in
      if n = ''/'' then ''/''
      else case last_index CHR ''/'' n of None \<Rightarrow> n | Some i \<Rightarrow> drop (Suc i) n)"

definition segments :: "string \<Rightarrow> string list" where
  "segments p = filter (\<lambda>s. s \<noteq> []) (split_on CHR ''/'' (normalize p))"

definition extension :: "string \<Rightarrow> string" where
  "extension name =
     (case last_index CHR ''.'' name of
        None \<Rightarrow> []
      | Some dot \<Rightarrow> if dot = 0 \<or> dot = length name - 1 then []
                    else toLowerCase (drop (Suc dot) name))"

section \<open>Canonical segments\<close>

definition clean :: "string \<Rightarrow> bool" where
  "clean seg \<longleftrightarrow> seg \<noteq> [] \<and> seg \<noteq> ''.'' \<and> seg \<noteq> ''..'' \<and> CHR ''/'' \<notin> set seg"

lemma norm_step_clean:
  assumes "list_all clean out" "CHR ''/'' \<notin> set seg"
  shows "list_all clean (norm_step out seg)"
  using assms by (auto simp: norm_step_def clean_def list_all_iff dest: in_set_butlastD)

lemma foldl_norm_clean:
  assumes "list_all clean out" "\<And>s. s \<in> set segs \<Longrightarrow> CHR ''/'' \<notin> set s"
  shows "list_all clean (foldl norm_step out segs)"
  using assms by (induction segs arbitrary: out) (simp_all add: norm_step_clean)

lemma norm_segs_clean: "list_all clean (norm_segs p)"
  unfolding norm_segs_def by (rule foldl_norm_clean) (auto dest: split_on_no_sep)

lemma norm_step_id: "clean s \<Longrightarrow> norm_step out s = out @ [s]"
  by (simp add: norm_step_def clean_def)

lemma foldl_norm_id: "list_all clean segs \<Longrightarrow> foldl norm_step out segs = out @ segs"
  by (induction segs arbitrary: out) (simp_all add: norm_step_id)

lemma foldl_norm_skip: "foldl norm_step out ([] # segs) = foldl norm_step out segs"
  by (simp add: norm_step_def)

text \<open>The canonical path of a list of segments.\<close>

definition canon :: "bool \<Rightarrow> string list \<Rightarrow> string" where
  "canon a segs = or_str ((if a then ''/'' else []) @ join_with ''/'' segs) ''/''"

lemma normalize_canon: "normalize p = canon (is_abs p) (norm_segs p)"
  by (cases p) (simp_all add: normalize_def canon_def norm_segs_def norm_step_def)

lemma split_join_clean:
  assumes "list_all clean segs" "segs \<noteq> []"
  shows "split_on CHR ''/'' (join_with ''/'' segs) = segs"
  using assms by (intro split_join_on) (auto simp: list_all_iff clean_def)

lemma join_clean_start:
  assumes "list_all clean segs" "segs \<noteq> []"
  shows "join_with ''/'' segs \<noteq> []" "\<not> is_abs (join_with ''/'' segs)"
proof -
  obtain s ss where segs: "segs = s # ss" using assms(2) by (cases segs) auto
  then obtain c cs where s: "s = c # cs" "c \<noteq> CHR ''/''"
    using assms(1) by (cases s) (auto simp: clean_def)
  then have "\<exists>t. join_with ''/'' segs = c # t"
    by (cases ss) (auto simp: segs)
  with s(2) show "join_with ''/'' segs \<noteq> []" "\<not> is_abs (join_with ''/'' segs)"
    by (auto simp: is_abs_def)
qed

lemma canon_abs: "canon True segs = CHR ''/'' # join_with ''/'' segs"
  by (simp add: canon_def)

lemma canon_rel:
  assumes "list_all clean segs" "segs \<noteq> []"
  shows "canon False segs = join_with ''/'' segs"
  using join_clean_start(1) [OF assms] by (cases "join_with ''/'' segs") (simp_all add: canon_def)

lemma canon_empty: "canon a [] = ''/''"
  by (simp add: canon_def)

lemma split_canon:
  assumes "list_all clean segs"
  shows "split_on CHR ''/'' (canon a segs) =
    (if segs = [] then [[], []] else if a then [] # segs else segs)"
  using assms
  by (cases a; cases "segs = []") (simp_all add: canon_abs canon_rel canon_empty split_join_clean)

lemma norm_segs_canon: "list_all clean segs \<Longrightarrow> norm_segs (canon a segs) = segs"
  by (simp add: norm_segs_def split_canon norm_step_def foldl_norm_id)

lemma is_abs_canon: "list_all clean segs \<Longrightarrow> is_abs (canon a segs) \<longleftrightarrow> a \<or> segs = []"
  using join_clean_start(2)
  by (cases a; cases "segs = []") (auto simp: canon_abs canon_rel canon_empty is_abs_def)

lemma canon_root: "normalize ''/'' = ''/''"
  by (simp add: normalize_def norm_segs_def norm_step_def is_abs_def)

lemma normalize_canon_id:
  assumes "list_all clean segs"
  shows "normalize (canon a segs) = canon a segs"
proof (cases "segs = []")
  case True
  then show ?thesis by (simp only: canon_empty canon_root)
next
  case False
  then show ?thesis using assms
    by (simp add: normalize_canon [of "canon a segs"] norm_segs_canon is_abs_canon)
qed

lemma normalize_idem: "normalize (normalize p) = normalize p"
  using normalize_canon_id [OF norm_segs_clean [of p]] by (simp only: normalize_canon [of p])

lemma norm_segs_normalize: "norm_segs (normalize p) = norm_segs p"
  by (simp only: normalize_canon [of p] norm_segs_canon [OF norm_segs_clean])

lemma segments_eq: "segments p = norm_segs p"
proof -
  have "filter (\<lambda>s. s \<noteq> []) segs = segs" if "list_all clean segs" for segs
    using that by (induction segs) (auto simp: clean_def)
  then show ?thesis
    using norm_segs_clean [of p] by (auto simp: segments_def normalize_canon split_canon)
qed

text \<open>normalising is idempotent and yields no empty, dot or dot-dot segment: \<open>segments\<close> of any
  path consists of proper names only, and normalising does not change them.\<close>

theorem normalize_canonical:
  "normalize (normalize p) = normalize p \<and> segments (normalize p) = segments p \<and>
   list_all clean (segments p)"
  by (simp add: normalize_idem segments_eq norm_segs_normalize norm_segs_clean)

text \<open>C10: whatever the parts are, dot-dot segments included, a joined path is absolute and is the
  canonical form of its segments: it cannot name anything outside the root.\<close>

theorem join_stays_in_root:
  "path_join parts = CHR ''/'' # join_with ''/'' (segments (path_join parts)) \<and>
   list_all clean (segments (path_join parts))"
proof -
  define m where "m = join_with ''/'' (filter (\<lambda>s. s \<noteq> []) parts)"
  define q where "q = (if is_abs m then m else CHR ''/'' # m)"
  have q: "is_abs q" by (auto simp: q_def is_abs_def)
  have pj: "path_join parts = canon True (norm_segs q)"
    using q by (simp add: path_join_def normalize_canon Let_def m_def [symmetric] q_def [symmetric])
  have "segments (path_join parts) = norm_segs q"
    by (simp add: pj segments_eq norm_segs_canon norm_segs_clean)
  then show ?thesis using norm_segs_clean [of q] by (simp add: pj canon_abs)
qed

lemma last_index_None: "last_index c s = None \<longleftrightarrow> c \<notin> set s"
  by (induction s) (auto split: option.splits)

lemma last_index_append: "c \<notin> set t \<Longrightarrow> last_index c (s @ c # t) = Some (length s)"
  by (induction s) (auto simp: last_index_None [THEN iffD2])

lemma join_snoc: "ss \<noteq> [] \<Longrightarrow> join_with sep (ss @ [s]) = join_with sep ss @ sep @ s"
proof (induction ss)
  case (Cons x xs)
  then show ?case by (cases xs) (simp_all add: join_with_Cons)
qed simp

lemma canon_snoc:
  "canon True (ss @ [s]) = (if ss = [] then [] else canon True ss) @ CHR ''/'' # s"
  by (simp add: canon_abs join_snoc)

lemma parent_canon_snoc:
  assumes "list_all clean ss" "clean s"
  shows "parent (canon True (ss @ [s])) = canon True ss" "basename (canon True (ss @ [s])) = s"
proof -
  have s: "CHR ''/'' \<notin> set s" "s \<noteq> []" using assms(2) by (auto simp: clean_def)
  have "normalize (canon True (ss @ [s])) = (if ss = [] then [] else canon True ss) @ CHR ''/'' # s"
    using normalize_canon_id [of "ss @ [s]" True] assms unfolding canon_snoc by simp
  moreover define x where "x = canon True (ss @ [s])"
  ultimately have norm: "normalize x = (if ss = [] then [] else canon True ss) @ CHR ''/'' # s" by simp
  show "parent (canon True (ss @ [s])) = canon True ss" "basename (canon True (ss @ [s])) = s"
    unfolding x_def [symmetric] using s by (auto simp: parent_def basename_def norm last_index_append canon_empty canon_abs Let_def)
qed

text \<open>parent and base name split an absolute path: joining them gives the normalised path
  back, for every absolute path but the root.\<close>

theorem parent_basename_join:
  assumes "is_abs p" "normalize p \<noteq> ''/''"
  shows "path_join [parent p, basename p] = normalize p \<and>
    segments (parent p) = butlast (segments p) \<and> basename p = last (segments p)"
proof -
  have n: "normalize p = canon True (norm_segs p)" using assms(1) by (simp add: normalize_canon)
  have "norm_segs p \<noteq> []" using assms(2) by (auto simp: n canon_empty)
  then obtain ss s where ns: "norm_segs p = ss @ [s]" by (cases "norm_segs p" rule: rev_cases) auto
  then have clean: "list_all clean ss" "clean s" using norm_segs_clean [of p] by auto
  then have s: "CHR ''/'' \<notin> set s" "s \<noteq> []" by (auto simp: clean_def)
  let ?h = "if ss = [] then [] else canon True ss"
  have norm: "normalize p = ?h @ CHR ''/'' # s" by (simp add: n ns canon_snoc)
  have par: "parent p = canon True ss"
    using assms(2) s by (auto simp: parent_def norm last_index_append canon_empty canon_abs Let_def)
  have base: "basename p = s"
    using assms(2) s by (auto simp: basename_def norm last_index_append Let_def)
  have segs: "segments (parent p) = ss"
    using clean by (simp add: par segments_eq norm_segs_canon)
  have "path_join [parent p, basename p] = normalize (canon True ss @ CHR ''/'' # s)"
    using s by (simp add: path_join_def par base canon_abs is_abs_def)
  also have "\<dots> = canon True (ss @ [s])"
  proof (cases "ss = []")
    case True
    then show ?thesis
      using clean(2) s(1)
      by (simp add: canon_empty canon_abs normalize_canon is_abs_def norm_segs_def
          split_on_id norm_step_def clean_def)
  next
    case False
    then have "canon True ss @ CHR ''/'' # s = canon True (ss @ [s])" by (simp add: canon_snoc)
    with clean show ?thesis by (simp add: normalize_canon_id)
  qed
  finally show ?thesis using segs by (simp add: n ns base segments_eq)
qed

theorem parent_basename_join_witness:
  "path_join [parent ''/a/../b//c'', basename ''/a/../b//c''] = ''/b/c''"
proof -
  have n: "normalize ''/a/../b//c'' = ''/b/c''"
    by (simp add: normalize_def norm_segs_def norm_step_def is_abs_def)
  have "is_abs ''/a/../b//c''" "normalize ''/a/../b//c'' \<noteq> ''/''" by (simp_all add: n is_abs_def)
  from parent_basename_join [OF this, THEN conjunct1] show ?thesis by (simp only: n)
qed

end
