(* ===== verification/RuntimeStore.thy ===== *)
theory RuntimeStore
  imports JsString
begin

text \<open>
  The non-persisted runtime store of the workspace, \<open>components/workspace/useRuntimeStore.ts\<close>:
  latency samples, approval expiry, the renewal request and the bridge that hands a command of the
  operations dock to the terminal of a tab. A record keyed by tab id is a map; a latency of \<open>null\<close>
  (unmeasurable) is \<open>Some None\<close>, an absent key \<open>None\<close>. The nonce, a clock reading plus a random
  number, is an argument.
\<close>

record ExpiryInfo =
  exp_ms :: int
  exp_deadline :: string
  exp_low :: bool

record PendingCmd =
  cmd_text :: string
  cmd_run :: bool
  cmd_nonce :: int

record RuntimeState =
  latency :: "string \<rightharpoonup> int option"
  expiry :: "string \<rightharpoonup> ExpiryInfo"
  renewTarget :: "string option"
  pendingCmd :: "string \<rightharpoonup> PendingCmd"

definition runtime_init :: RuntimeState where
  "runtime_init = \<lparr>latency = Map.empty, expiry = Map.empty, renewTarget = None, pendingCmd = Map.empty\<rparr>"

definition setLatency :: "string \<Rightarrow> int option \<Rightarrow> RuntimeState \<Rightarrow> RuntimeState" where
  "setLatency tab l s = (if latency s tab = Some l then s else s\<lparr>latency := (latency s)(tab \<mapsto> l)\<rparr>)"

definition setExpiry :: "string \<Rightarrow> ExpiryInfo option \<Rightarrow> RuntimeState \<Rightarrow> RuntimeState" where
  "setExpiry tab info s =
     (case info of
        None \<Rightarrow> s\<lparr>expiry := (expiry s)(tab := None)\<rparr>
      | Some i \<Rightarrow> s\<lparr>expiry := (expiry s)(tab \<mapsto> i)\<rparr>)"

definition requestRenew :: "string option \<Rightarrow> RuntimeState \<Rightarrow> RuntimeState" where
  "requestRenew tab s = s\<lparr>renewTarget := tab\<rparr>"

text \<open>An omitted \<open>run\<close> defaults to true.\<close>

definition sendToTerminal :: "int \<Rightarrow> string \<Rightarrow> string \<Rightarrow> bool option \<Rightarrow> RuntimeState \<Rightarrow> RuntimeState" where
  "sendToTerminal nonce tab cmd run s =
     s\<lparr>pendingCmd := (pendingCmd s)(tab \<mapsto>
        \<lparr>cmd_text = cmd, cmd_run = nullish run True, cmd_nonce = nonce\<rparr>)\<rparr>"

definition consumePendingCmd :: "string \<Rightarrow> int \<Rightarrow> RuntimeState \<Rightarrow> RuntimeState" where
  "consumePendingCmd tab nonce s =
     (case pendingCmd s tab of
        None \<Rightarrow> s
      | Some cur \<Rightarrow>
          if cmd_nonce cur \<noteq> nonce then s else s\<lparr>pendingCmd := (pendingCmd s)(tab := None)\<rparr>)"

datatype runtime_call =
    RSetLatency string "int option"
  | RSetExpiry string "ExpiryInfo option"
  | RRequestRenew "string option"
  | RSend int string string "bool option"
  | RConsume string int

fun runtime_step :: "RuntimeState \<Rightarrow> runtime_call \<Rightarrow> RuntimeState" where
  "runtime_step s (RSetLatency tab l) = setLatency tab l s"
| "runtime_step s (RSetExpiry tab i) = setExpiry tab i s"
| "runtime_step s (RRequestRenew tab) = requestRenew tab s"
| "runtime_step s (RSend nonce tab cmd run) = sendToTerminal nonce tab cmd run s"
| "runtime_step s (RConsume tab nonce) = consumePendingCmd tab nonce s"

definition runtime_run :: "runtime_call list \<Rightarrow> RuntimeState" where
  "runtime_run cs = foldl runtime_step runtime_init cs"

section \<open>Properties\<close>

text \<open>A command given to the tab, and the calls that end its wait: a newer command for the same
  tab, or a consumption that names its nonce.\<close>

definition sends :: "string \<Rightarrow> PendingCmd \<Rightarrow> runtime_call \<Rightarrow> bool" where
  "sends tab c r \<longleftrightarrow> (\<exists>run. r = RSend (cmd_nonce c) tab (cmd_text c) run \<and> nullish run True = cmd_run c)"

fun supersedes :: "string \<Rightarrow> int \<Rightarrow> runtime_call \<Rightarrow> bool" where
  "supersedes tab nonce (RSend _ tab' _ _) \<longleftrightarrow> tab' = tab"
| "supersedes tab nonce (RConsume tab' nonce') \<longleftrightarrow> tab' = tab \<and> nonce' = nonce"
| "supersedes tab nonce _ \<longleftrightarrow> False"

lemma runtime_run_snoc: "runtime_run (cs @ [r]) = runtime_step (runtime_run cs) r"
  by (simp add: runtime_run_def)

lemma pending_step:
  "pendingCmd (runtime_step s r) tab = Some c \<longleftrightarrow>
   sends tab c r \<or> pendingCmd s tab = Some c \<and> \<not> supersedes tab (cmd_nonce c) r"
  by (cases r)
    (auto simp: setLatency_def setExpiry_def requestRenew_def sendToTerminal_def consumePendingCmd_def
      sends_def split: option.splits)

lemma sends_supersedes: "sends tab c r \<Longrightarrow> supersedes tab nonce r"
  by (auto simp: sends_def)

text \<open>after any sequence of store calls a tab has exactly the command of the last send to it that
  was neither replaced by a newer send nor consumed under its own nonce: a terminal that acknowledges
  an older command never drops a newer one, and a command is not delivered twice.\<close>

theorem pending_command_is_last_unconsumed:
  "pendingCmd (runtime_run cs) tab = Some c \<longleftrightarrow>
   (\<exists>before r after. cs = before @ r # after \<and> sends tab c r \<and>
      \<not> list_ex (supersedes tab (cmd_nonce c)) after)"
proof (induction cs rule: rev_induct)
  case Nil
  then show ?case by (simp add: runtime_run_def runtime_init_def)
next
  case (snoc x cs)
  let ?q = "supersedes tab (cmd_nonce c)"
  have "(\<exists>before r after. cs @ [x] = before @ r # after \<and> sends tab c r \<and> \<not> list_ex ?q after) \<longleftrightarrow>
      sends tab c x \<or>
      (\<exists>before r after. cs = before @ r # after \<and> sends tab c r \<and> \<not> list_ex ?q after) \<and> \<not> ?q x"
    (is "?L \<longleftrightarrow> ?R")
  proof
    assume ?L
    then obtain b r a where e: "cs @ [x] = b @ r # a" "sends tab c r" "\<not> list_ex ?q a" by blast
    then show ?R by (cases a rule: rev_cases) auto
  next
    assume ?R
    then consider "sends tab c x" | b r a where "cs = b @ r # a" "sends tab c r" "\<not> list_ex ?q a" "\<not> ?q x"
      by blast
    then show ?L
    proof cases
      case 1
      then show ?thesis by (intro exI [of _ cs] exI [of _ x] exI [of _ "[]"]) simp
    next
      case (2 b r a)
      then show ?thesis by (intro exI [of _ b] exI [of _ r] exI [of _ "a @ [x]"]) simp
    qed
  qed
  then show ?case by (simp add: runtime_run_snoc pending_step snoc.IH)
qed

lemma setLatency_idem: "setLatency tab l (setLatency tab l s) = setLatency tab l s"
  by (simp add: setLatency_def)

lemma latency_step:
  "latency (runtime_step s r) tab = (case r of RSetLatency t l \<Rightarrow> if t = tab then Some l else latency s tab
     | _ \<Rightarrow> latency s tab)"
  by (cases r)
    (auto simp: setLatency_def setExpiry_def requestRenew_def sendToTerminal_def consumePendingCmd_def
      split: option.splits)

end
