(* ===== verification/CommandBar.thy ===== *)
theory CommandBar
  imports Workspace
begin

text \<open>
  The quick-connect parser of the launcher, \<open>components/workspace/lib/cmdParse.ts\<close>, and the status
  palette, \<open>components/workspace/tabStatus.ts\<close>. The alias table is a plain object literal, so a
  lookup also finds what the object inherits: the two inherited property names that survive
  \<open>toLowerCase\<close> (\<open>constructor\<close> and \<open>__proto__\<close>) yield a value that is not a string.
\<close>

datatype prefix_value = Alias string | Inherited string

definition PREFIX_ALIASES :: "(string \<times> string) list" where
  "PREFIX_ALIASES =
    [(''ssh'', ''ssh''), (''telnet'', ''telnet''), (''rdp'', ''rdp''), (''desktop'', ''rdp''),
     (''vnc'', ''vnc''), (''sftp'', ''sftp''), (''file'', ''sftp''), (''files'', ''sftp''),
     (''db'', ''db''), (''database'', ''db''), (''sql'', ''db''), (''oss'', ''oss''),
     (''tcp'', ''tcp_forward''), (''forward'', ''tcp_forward'')]"

definition alias_lookup :: "string \<Rightarrow> prefix_value option" where
  "alias_lookup w =
     (case map_of PREFIX_ALIASES w of
        Some a \<Rightarrow> Some (Alias a)
      | None \<Rightarrow> if w = ''constructor'' \<or> w = ''__proto__'' then Some (Inherited w) else None)"

record ConnectCommand =
  con_prefix :: prefix_value
  con_host :: string

text \<open>\<open>[a-zA-Z_]\<close>, the two colons, and what \<open>.\<close> does not match\<close>

definition prefix_char :: "char \<Rightarrow> bool" where
  "prefix_char c = (let b = (of_char c :: nat) in 65 \<le> b \<and> b \<le> 90 \<or> b = 95 \<or> 97 \<le> b \<and> b \<le> 122)"

definition wide_colon :: string where
  "wide_colon = utf8 [65306]"

definition drop_colon :: "string \<Rightarrow> string option" where
  "drop_colon s =
     (if prefix '':'' s then Some (drop 1 s)
      else if prefix wide_colon s then Some (drop (length wide_colon) s) else None)"

definition has_newline :: "string \<Rightarrow> bool" where
  "has_newline s =
     list_ex (str_includes s) [[CHR 0x0A], [CHR 0x0D], utf8 [8232], utf8 [8233]]"

definition parseConnectCommand :: "string \<Rightarrow> ConnectCommand option" where
  "parseConnectCommand input =
     (let s = js_trim input;
          word = takeWhile prefix_char s;
          after = trimStart (dropWhile prefix_char s)
      in if word = [] then None
         else case drop_colon after of
           None \<Rightarrow> None
         | Some r \<Rightarrow>
             (let rest = trimStart r
              in if rest = [] \<or> has_newline rest then None
                 else case alias_lookup (toLowerCase word) of
                   None \<Rightarrow> None
                 | Some p \<Rightarrow>
                     (let h = js_trim rest
                      in if h = [] then None else Some \<lparr>con_prefix = p, con_host = h\<rparr>)))"

fun protocol_value :: "protocol \<Rightarrow> string" where
  "protocol_value Ssh = ''ssh''"
| "protocol_value Telnet = ''telnet''"
| "protocol_value Dbcli = ''dbcli''"
| "protocol_value Db_studio = ''db_studio''"
| "protocol_value Rdp = ''rdp''"
| "protocol_value Rdp_next = ''rdp_next''"
| "protocol_value Vnc = ''vnc''"
| "protocol_value Sftp = ''sftp''"
| "protocol_value Oss = ''oss''"
| "protocol_value Tcp_forward = ''tcp_forward''"

definition matchProtocol :: "prefix_value \<Rightarrow> protocol list \<Rightarrow> protocol option" where
  "matchProtocol pre available =
     (if pre = Alias ''db'' then
        (case List.find (\<lambda>p. p = Dbcli) available of
           Some p \<Rightarrow> Some p | None \<Rightarrow> List.find (\<lambda>p. p = Db_studio) available)
      else if pre = Alias ''rdp'' then
        (case List.find (\<lambda>p. p = Rdp_next) available of
           Some p \<Rightarrow> Some p | None \<Rightarrow> List.find (\<lambda>p. p = Rdp) available)
      else List.find (\<lambda>p. pre = Alias (protocol_value p)) available)"

section \<open>Status palette\<close>

fun STATUS_LABEL :: "tab_status \<Rightarrow> string" where
  "STATUS_LABEL TFresh = utf8 [26410, 36830, 25509]"
| "STATUS_LABEL TConnecting = utf8 [36830, 25509, 20013]"
| "STATUS_LABEL TConnected = utf8 [24050, 36830, 25509]"
| "STATUS_LABEL TClosed = utf8 [24050, 20851, 38381]"
| "STATUS_LABEL TError = utf8 [36830, 25509, 38169, 35823]"
| "STATUS_LABEL TApproval = utf8 [24453, 23457, 25209]"

fun STATUS_DOT :: "tab_status \<Rightarrow> string" where
  "STATUS_DOT TFresh = ''bg-muted-foreground/40''"
| "STATUS_DOT TConnecting = ''bg-warning''"
| "STATUS_DOT TConnected = ''bg-success''"
| "STATUS_DOT TClosed = ''bg-muted-foreground/40''"
| "STATUS_DOT TError = ''bg-destructive''"
| "STATUS_DOT TApproval = ''bg-warning''"

fun STATUS_TEXT :: "tab_status \<Rightarrow> string" where
  "STATUS_TEXT TFresh = ''text-muted-foreground''"
| "STATUS_TEXT TConnecting = ''text-warning''"
| "STATUS_TEXT TConnected = ''text-success''"
| "STATUS_TEXT TClosed = ''text-muted-foreground''"
| "STATUS_TEXT TError = ''text-destructive''"
| "STATUS_TEXT TApproval = ''text-warning''"

definition latencyTone :: "int option \<Rightarrow> string" where
  "latencyTone ms =
     (case ms of
        None \<Rightarrow> ''text-muted-foreground/60''
      | Some m \<Rightarrow>
          if m \<le> 80 then ''text-success'' else if m \<le> 500 then ''text-warning''
          else ''text-destructive'')"

section \<open>Properties\<close>

lemma wide_colon_chars [code]: "wide_colon = [CHR 0xEF, CHR 0xBC, CHR 0x9A]"
  by (simp add: wide_colon_def utf8_def utf8_char_def char_of_eq_iff)

lemma has_newline_chars [code]:
  "has_newline s \<longleftrightarrow>
     list_ex (str_includes s) [[CHR 0x0A], [CHR 0x0D], [CHR 0xE2, CHR 0x80, CHR 0xA8], [CHR 0xE2, CHR 0x80, CHR 0xA9]]"
proof -
  have "utf8 [8232] = [CHR 0xE2, CHR 0x80, CHR 0xA8]" "utf8 [8233] = [CHR 0xE2, CHR 0x80, CHR 0xA9]"
    by (simp_all add: utf8_def utf8_char_def char_of_eq_iff)
  then show ?thesis by (simp add: has_newline_def)
qed

lemma white_not_colon:
  "w \<in> set js_white \<Longrightarrow> w \<noteq> [] \<Longrightarrow> \<not> prefix w ('':'' @ s) \<and> \<not> prefix w (wide_colon @ s)"
  by (auto simp: js_white_chars wide_colon_chars prefix_Cons)

lemma trimStart_id:
  assumes "\<And>w. w \<in> set js_white \<Longrightarrow> w \<noteq> [] \<Longrightarrow> \<not> prefix w s"
  shows "trimStart s = s"
proof -
  have "drop_prefix js_white s = None"
    using assms by (auto simp: drop_prefix_def find_None_iff_set)
  then show ?thesis by (simp add: trimStart_def trim_front_id)
qed

lemma colon_not_prefix_char: "\<not> prefix_char CHR '':''" "\<not> prefix_char (hd wide_colon)" "wide_colon \<noteq> []"
  by (simp_all add: prefix_char_def wide_colon_chars Let_def)

lemma drop_colon_sep:
  "drop_colon ('':'' @ s) = Some s" "drop_colon (wide_colon @ s) = Some s"
  by (simp_all add: drop_colon_def wide_colon_chars)

text \<open>a trimmed input that consists of an alias in any case, a half- or full-width colon and a
  one-line host is recognised, with the alias resolved and the host unchanged.\<close>

theorem quick_connect_recognised:
  assumes "list_all prefix_char w" "w \<noteq> []" "map_of PREFIX_ALIASES (toLowerCase w) = Some a"
    "sep = '':'' \<or> sep = wide_colon" "h \<noteq> []" "\<not> has_newline h"
    "trimStart h = h" "js_trim h = h" "js_trim (w @ sep @ h) = w @ sep @ h"
  shows "parseConnectCommand (w @ sep @ h) = Some \<lparr>con_prefix = Alias a, con_host = h\<rparr>"
proof -
  have ns: "\<not> prefix_char (hd (sep @ h))" "sep @ h \<noteq> []"
    using assms(4) colon_not_prefix_char by auto
  have w: "takeWhile prefix_char (w @ sep @ h) = w" "dropWhile prefix_char (w @ sep @ h) = sep @ h"
    using assms(1) ns by (cases "sep @ h"; simp add: list_all_iff takeWhile_append dropWhile_append)+
  have "trimStart (sep @ h) = sep @ h"
    using assms(4) white_not_colon by (intro trimStart_id) auto
  moreover have "drop_colon (sep @ h) = Some h" using assms(4) drop_colon_sep by auto
  ultimately show ?thesis
    using assms by (simp add: parseConnectCommand_def Let_def w alias_lookup_def)
qed

theorem quick_connect_recognised_witness:
  "parseConnectCommand (''DB:'' @ ''db01'') = Some \<lparr>con_prefix = Alias ''db'', con_host = ''db01''\<rparr>"
proof -
  have t: "trimStart ''db01'' = ''db01''" "js_trim ''db01'' = ''db01''" "js_trim (''DB'' @ '':'' @ ''db01'') = ''DB'' @ '':'' @ ''db01''"
    by code_simp+
  have "\<not> has_newline ''db01''" by code_simp
  with quick_connect_recognised [of "''DB''" "''db''" "'':''" "''db01''"] t show ?thesis
    by (simp add: prefix_char_def toLowerCase_def lower_char_def PREFIX_ALIASES_def char_of_eq_iff Let_def)
qed

text \<open>the parser does not reject every unknown prefix: the word \<open>constructor\<close> in any case names
  an inherited property of the alias table, and the command carries that value, for which no protocol
  is ever found.\<close>

theorem inherited_prefix_accepted:
  "parseConnectCommand ''Constructor:db01''
     = Some \<lparr>con_prefix = Inherited ''constructor'', con_host = ''db01''\<rparr> \<and>
   map_of PREFIX_ALIASES ''constructor'' = None \<and>
   matchProtocol (Inherited ''constructor'') available = None"
proof -
  have "parseConnectCommand ''Constructor:db01''
     = Some \<lparr>con_prefix = Inherited ''constructor'', con_host = ''db01''\<rparr>"
    by code_simp
  moreover have "matchProtocol (Inherited ''constructor'') available = None"
    by (simp add: matchProtocol_def find_None_iff_set)
  ultimately show ?thesis by (simp add: PREFIX_ALIASES_def)
qed

end
