(* ===== verification/ConnTimeline.thy ===== *)
theory ConnTimeline
  imports JsString
begin

text \<open>
  The step timeline that the desktop and the terminal connection hooks share in shape
  (\<open>components/desktop/desktop-connection.ts\<close>, \<open>components/terminal/terminal-connection.ts\<close>): an
  ordered list of connection phases, of which a prefix carries the time at which it was completed.
  The locale \<open>timeline\<close> states what both copies of \<open>advanceMarks\<close> promise; the facts proved in it
  are used for both hooks through its two interpretations. The row of the timeline that the two
  hooks render is one type.
\<close>

datatype step_state = Pending | Active | Done

record connection_step =
  cs_label :: string
  cs_hint :: string
  cs_state :: step_state
  cs_duration :: "int option"

text \<open>The marks follow the canonical order of the phases.\<close>

definition on_track :: "'k list \<Rightarrow> ('k \<times> int) list \<Rightarrow> bool" where
  "on_track ks marks \<longleftrightarrow> map fst marks = take (length marks) ks"

text \<open>The times of the marks do not decrease, start no earlier than the attempt and are not in the
  future.\<close>

definition timed :: "int \<Rightarrow> int \<Rightarrow> ('k \<times> int) list \<Rightarrow> bool" where
  "timed start now marks \<longleftrightarrow> sorted (start # map snd marks @ [now])"

lemma on_track_Nil [simp, intro]: "on_track ks []"
  by (simp add: on_track_def)

lemma on_track_length: "on_track ks marks \<Longrightarrow> length marks \<le> length ks"
  unfolding on_track_def by (metis length_map length_take min.cobounded1 min.commute)

lemma timed_Nil [simp]: "timed start now [] \<longleftrightarrow> start \<le> now"
  by (simp add: timed_def)

lemma timed_bounds: "timed start now marks \<Longrightarrow> start \<le> now"
  by (simp add: timed_def)

lemma timed_later: "timed start now marks \<Longrightarrow> now \<le> now' \<Longrightarrow> timed start now' marks"
  by (force simp: timed_def sorted_append)

text \<open>The time spent in phase \<open>i\<close>, before the display threshold: the code's
  \<open>Math.max(0, marks[i].at - start)\<close> with \<open>start\<close> the previous mark or the start of the attempt.\<close>

definition step_span :: "int \<Rightarrow> ('k \<times> int) list \<Rightarrow> nat \<Rightarrow> int" where
  "step_span start marks i =
     max 0 (snd (marks ! i) - (if i = 0 then start else snd (marks ! (i - 1))))"

lemma step_span_snoc:
  "i < length marks \<Longrightarrow> step_span start (marks @ [m]) i = step_span start marks i"
  by (auto simp: step_span_def nth_append)

lemma sum_step_span:
  assumes "timed start now marks"
  shows "(\<Sum>i<length marks. step_span start marks i)
    = (if marks = [] then 0 else snd (last marks) - start)"
  using assms
proof (induction marks rule: rev_induct)
  case (snoc m marks)
  then have t: "timed start now marks" by (auto simp: timed_def sorted_append)
  have "(\<Sum>i<length (marks @ [m]). step_span start (marks @ [m]) i)
      = (\<Sum>i<length marks. step_span start marks i) + step_span start (marks @ [m]) (length marks)"
    by (simp add: step_span_snoc)
  also have "\<dots> = snd m - start"
    using snoc t by (cases marks rule: rev_cases)
      (auto simp: step_span_def timed_def nth_append sorted_append)
  finally show ?case by simp
qed simp

locale timeline =
  fixes steps :: "'k list"
    and adv :: "('k \<times> int) list \<Rightarrow> nat \<Rightarrow> int \<Rightarrow> ('k \<times> int) list"
  assumes adv_reached: "target \<le> length marks \<Longrightarrow> adv marks target at = marks"
    and adv_extend: "length marks < target \<Longrightarrow> adv marks target at =
      marks @ map (\<lambda>k. (k, at)) (take (target - length marks) (drop (length marks) steps))"
begin

lemma adv_prefix: "prefix marks (adv marks target at)"
  by (cases "target \<le> length marks") (simp_all add: adv_reached adv_extend not_le)

lemma length_adv:
  "length marks \<le> length steps \<Longrightarrow>
   length (adv marks target at) = max (length marks) (min target (length steps))"
  by (cases "target \<le> length marks") (auto simp: adv_reached adv_extend not_le)

lemma on_track_adv:
  assumes "on_track steps marks"
  shows "on_track steps (adv marks target at)"
proof (cases "target \<le> length marks")
  case False
  have l: "length marks \<le> length steps" using assms by (rule on_track_length)
  define k where "k = target - length marks"
  have a: "adv marks target at = marks @ map (\<lambda>k. (k, at)) (take k (drop (length marks) steps))"
    using False by (simp add: adv_extend k_def)
  have len: "length (adv marks target at) = length marks + min k (length steps - length marks)"
    by (simp add: a min.commute)
  have "map fst (adv marks target at)
      = take (length marks) steps @ take k (drop (length marks) steps)"
    using assms by (simp add: a on_track_def comp_def)
  also have "\<dots> = take (length marks + k) steps" by (simp add: take_add)
  also have "\<dots> = take (length (adv marks target at)) steps"
    using l by (cases "k \<le> length steps - length marks") (auto simp: len)
  finally show ?thesis by (simp only: on_track_def)
qed (use assms in \<open>simp add: adv_reached\<close>)

lemma timed_adv:
  assumes "timed start now marks" "now \<le> at"
  shows "timed start at (adv marks target at)"
proof (cases "target \<le> length marks")
  case True
  then show ?thesis using timed_later [OF assms] by (simp add: adv_reached)
next
  case False
  have "timed start at (marks @ map (\<lambda>k. (k, at)) ks)" for ks :: "'k list"
    using timed_later [OF assms]
    by (auto simp: timed_def sorted_append comp_def sorted_replicate map_replicate_const)
  then show ?thesis using False by (simp add: adv_extend)
qed

lemma adv_all:
  assumes "on_track steps marks"
  shows "map fst (adv marks (length steps) at) = steps"
  using on_track_adv [OF assms, of "length steps" at] length_adv [of marks "length steps" at]
    on_track_length [OF assms] by (simp add: on_track_def)

lemma adv_adv:
  assumes "length marks \<le> length steps"
  shows "adv (adv marks a at) b at = adv marks (max a b) at"
proof -
  have x: "take (b - n) (drop n xs) = take (a - n) (drop n xs) @
      take (b - (n + min (a - n) (length xs - n))) (drop (n + min (a - n) (length xs - n)) xs)"
    if "a < b" "n < a" "n \<le> length xs" for n and xs :: "'k list"
  proof (cases "a \<le> length xs")
    case True
    then have "n + min (a - n) (length xs - n) = a" using that by simp
    moreover have "take (b - n) (drop n xs) = take ((a - n) + (b - a)) (drop n xs)" using that by simp
    ultimately show ?thesis using that by (simp only: take_add drop_drop) simp
  qed (use that in auto)
  consider "b \<le> a" | "a < b" "a \<le> length marks" | "a < b" "length marks < a" by linarith
  then show ?thesis
  proof cases
    case 1
    show ?thesis
    proof (cases "b \<le> length (adv marks a at)")
      case True
      with 1 show ?thesis by (simp add: adv_reached)
    next
      case False
      then have "length steps \<le> length (adv marks a at)" using 1 length_adv [OF assms, of a at] by linarith
      with 1 False show ?thesis by (simp add: adv_extend [of "adv marks a at"] not_le)
    qed
  next
    case 2
    then show ?thesis by (simp add: adv_reached [of a])
  next
    case 3
    let ?n = "length marks"
    have l: "length (adv marks a at) = ?n + min (a - ?n) (length steps - ?n)"
      using 3 length_adv [OF assms, of a at] assms by auto
    have "length (adv marks a at) < b" using 3 by (simp add: l)
    then show ?thesis
      using 3 x [OF 3(1) 3(2) assms]
      by (simp add: adv_extend [of "adv marks a at"] l) (simp add: adv_extend)
  qed
qed

end

end
