(* ===== verification/DesktopConnection.thy ===== *)
theory DesktopConnection
  imports ConnTimeline
begin

text \<open>
  The desktop connection state machine, \<open>components/desktop/desktop-connection.ts\<close>: the step table,
  link quality, error classification, the reducer behind \<open>useDesktopConnection\<close>, the values the
  hook derives for the view (steps, clocks, countdown) and the two time formats. \<open>Date.now()\<close> is an
  argument of the dispatching actions; times are integers in milliseconds.
\<close>

section \<open>Steps, link quality, errors\<close>

datatype DesktopStatus = LoadingScript | Connecting | Handshake | Connected | Reconnecting | Closed | ErrorStatus

datatype StepKey = Prepare | Session | Channel | HandshakeStep | FrameStep

definition STEP_DEFS :: "(StepKey \<times> string \<times> string) list" where
  "STEP_DEFS =
    [(Prepare, utf8 [20934, 22791, 26412, 22320, 30011, 38754], utf8 [21021, 22987, 21270, 28210, 26579, 22120, 19982, 27983, 35272, 22120, 35299, 30721, 33021, 21147]),
     (Session, utf8 [24314, 31435, 36828, 31471, 20250, 35805], utf8 [21521, 32593, 20851, 30003, 35831, 21040, 30446, 26631, 20027, 26426, 30340, 20250, 35805]),
     (Channel, utf8 [25171, 36890, 21152, 23494, 36890, 36947], utf8 [19982, 32593, 20851, 24314, 31435, 21152, 23494, 25968, 25454, 36890, 36947]),
     (HandshakeStep, utf8 [21327, 21830, 26700, 38754, 20250, 35805], utf8 [19982, 36828, 31471, 21327, 21830, 23433, 20840, 23618, 19982, 26700, 38754, 21442, 25968]),
     (FrameStep, utf8 [21576, 29616, 36828, 31471, 30011, 38754], utf8 [31561, 24453, 31532, 19968, 24103, 26700, 38754, 30011, 38754])]"

definition STEP_KEYS :: "StepKey list" where
  "STEP_KEYS = map fst STEP_DEFS"

definition TOTAL_STEPS :: nat where
  "TOTAL_STEPS = length STEP_DEFS"

lemma STEP_KEYS_eq: "STEP_KEYS = [Prepare, Session, Channel, HandshakeStep, FrameStep]"
  by (simp add: STEP_KEYS_def STEP_DEFS_def)

lemma TOTAL_STEPS_eq: "TOTAL_STEPS = 5" "length STEP_KEYS = 5"
  by (simp_all add: TOTAL_STEPS_def STEP_DEFS_def STEP_KEYS_def)

datatype QualityTone = Muted | Good | Fair | Poor

record LinkQuality =
  quality_level :: nat
  quality_label :: string
  quality_tone :: QualityTone

definition linkQuality :: "int option \<Rightarrow> LinkQuality" where
  "linkQuality latencyMs =
     (case latencyMs of
        None \<Rightarrow> \<lparr>quality_level = 0, quality_label = utf8 [27979, 37327, 20013], quality_tone = Muted\<rparr>
      | Some l \<Rightarrow>
          if l \<le> 50 then \<lparr>quality_level = 4, quality_label = utf8 [27969, 30021], quality_tone = Good\<rparr>
          else if l \<le> 110 then \<lparr>quality_level = 3, quality_label = utf8 [33391, 22909], quality_tone = Good\<rparr>
          else if l \<le> 220 then \<lparr>quality_level = 2, quality_label = utf8 [19968, 33324], quality_tone = Fair\<rparr>
          else if l \<le> 400 then \<lparr>quality_level = 1, quality_label = utf8 [36739, 24046], quality_tone = Poor\<rparr>
          else \<lparr>quality_level = 1, quality_label = utf8 [21345, 39039], quality_tone = Poor\<rparr>)"

datatype ErrorKind = Security | Auth | Network | TimeoutKind | Unsupported | Generic

record ConnError =
  err_title :: string
  err_detail :: string
  err_kind :: ErrorKind
  err_code :: "int option"
  canForceTls :: bool

definition ERR_TRANSPORT_FAILED :: int where
  "ERR_TRANSPORT_FAILED = 0x0002000d"

definition mentions :: "string \<Rightarrow> string list \<Rightarrow> bool" where
  "mentions s words = list_ex (str_includes s) words"

definition classifyError :: "string \<Rightarrow> int option \<Rightarrow> ConnError" where
  "classifyError message code =
     (let detail = or_str (js_trim message) (utf8 [26410, 30693, 38169, 35823]);
          lower = toLowerCase detail
      in if code = Some ERR_TRANSPORT_FAILED \<or> str_includes lower ''transport'' then
           \<lparr>err_title = utf8 [23433, 20840, 23618, 21327, 21830, 22833, 36133], err_detail = detail, err_kind = Security, err_code = code,
            canForceTls = True\<rparr>
         else if mentions lower [''logon'', ''credential'', ''password'',
             utf8 [25480, 26435], utf8 [35748, 35777], utf8 [30331, 24405]] then
           \<lparr>err_title = utf8 [20973, 25454, 34987, 36828, 31471, 25298, 32477], err_detail = detail, err_kind = Auth, err_code = code,
            canForceTls = False\<rparr>
         else if mentions lower [''timeout'', utf8 [36229, 26102], ''timed out''] then
           \<lparr>err_title = utf8 [36830, 25509, 36828, 31471, 36229, 26102], err_detail = detail, err_kind = TimeoutKind, err_code = code,
            canForceTls = False\<rparr>
         else if mentions lower [''refused'', ''unreachable'', ''network'', ''websocket'',
             utf8 [32593, 32476], utf8 [26029, 24320]] then
           \<lparr>err_title = utf8 [26080, 27861, 36830, 25509, 21040, 36828, 31471], err_detail = detail, err_kind = Network, err_code = code,
            canForceTls = False\<rparr>
         else if mentions lower [''unsupported'', utf8 [19981, 25903, 25345], ''gateway''] then
           \<lparr>err_title = utf8 [21518, 31471, 26410, 23601, 32490], err_detail = detail, err_kind = Unsupported, err_code = code,
            canForceTls = False\<rparr>
         else
           \<lparr>err_title = utf8 [36830, 25509, 26410, 33021, 24314, 31435], err_detail = detail, err_kind = Generic, err_code = code,
            canForceTls = (code = Some ERR_TRANSPORT_FAILED)\<rparr>)"

section \<open>The reducer\<close>

definition LATENCY_HISTORY_CAP :: nat where
  "LATENCY_HISTORY_CAP = 40"

definition DURATION_FLOOR_MS :: int where
  "DURATION_FLOOR_MS = 120"

record CoreState =
  d_status :: DesktopStatus
  startedAt :: int
  connectedAt :: "int option"
  marks :: "(StepKey \<times> int) list"
  d_error :: "ConnError option"
  attempt :: nat
  retryAt :: "int option"
  latencyMs :: "int option"
  latencyHistory :: "int list"

datatype Action =
    Restart int
  | Status DesktopStatus int
  | Mark StepKey int
  | Fail ConnError
  | Reconnect nat int
  | Latency int

text \<open>The \<open>-1\<close> of the code is \<open>None\<close>: leave the timeline frozen.\<close>

fun completedForStatus :: "DesktopStatus \<Rightarrow> nat option" where
  "completedForStatus LoadingScript = Some 0"
| "completedForStatus Connecting = Some 2"
| "completedForStatus Handshake = Some 3"
| "completedForStatus Connected = Some TOTAL_STEPS"
| "completedForStatus _ = None"

text \<open>The \<open>while\<close> loop of \<open>advanceMarks\<close>.\<close>

function push_marks :: "(StepKey \<times> int) list \<Rightarrow> nat \<Rightarrow> int \<Rightarrow> (StepKey \<times> int) list" where
  "push_marks ms target at =
     (if length ms < target \<and> length ms < TOTAL_STEPS
      then push_marks (ms @ [(STEP_KEYS ! length ms, at)]) target at else ms)"
  by pat_completeness auto
termination
  by (relation "measure (\<lambda>(ms, target, at). target - length ms)") auto

declare push_marks.simps [simp del]

definition advanceMarks :: "(StepKey \<times> int) list \<Rightarrow> nat \<Rightarrow> int \<Rightarrow> (StepKey \<times> int) list" where
  "advanceMarks ms target at = (if target \<le> length ms then ms else push_marks ms target at)"

text \<open>\<open>STEP_KEYS.indexOf(k) + 1\<close>; the type makes the \<open>-1\<close> case impossible.\<close>

definition step_number :: "StepKey \<Rightarrow> nat" where
  "step_number k = (case find_index (\<lambda>x. x = k) STEP_KEYS of None \<Rightarrow> 0 | Some i \<Rightarrow> Suc i)"

fun reducer :: "CoreState \<Rightarrow> Action \<Rightarrow> CoreState" where
  "reducer s (Restart at) =
     s\<lparr>d_status := LoadingScript, startedAt := at, connectedAt := None, marks := [], d_error := None,
       retryAt := None, latencyMs := None, latencyHistory := []\<rparr>"
| "reducer s (Status st at) =
     s\<lparr>d_status := st,
       marks := (case completedForStatus st of None \<Rightarrow> marks s | Some t \<Rightarrow> advanceMarks (marks s) t at),
       connectedAt := (if st = Connected then Some (nullish (connectedAt s) at) else connectedAt s),
       retryAt := (if st = Reconnecting then retryAt s else None),
       attempt := (if st = Connected then 0 else attempt s),
       d_error := (if st = Connected then None else d_error s)\<rparr>"
| "reducer s (Mark k at) = s\<lparr>marks := advanceMarks (marks s) (step_number k) at\<rparr>"
| "reducer s (Fail e) = s\<lparr>d_status := ErrorStatus, d_error := Some e, retryAt := None\<rparr>"
| "reducer s (Reconnect n t) = s\<lparr>d_status := Reconnecting, attempt := n, retryAt := Some t\<rparr>"
| "reducer s (Latency ms) =
     s\<lparr>latencyMs := Some ms, latencyHistory := push_capped LATENCY_HISTORY_CAP (latencyHistory s) ms\<rparr>"

definition isTransient :: "DesktopStatus \<Rightarrow> bool" where
  "isTransient st \<longleftrightarrow> st = LoadingScript \<or> st = Connecting \<or> st = Handshake \<or> st = Reconnecting"

section \<open>The hook\<close>

definition initial_core :: "int \<Rightarrow> CoreState" where
  "initial_core now =
     \<lparr>d_status = LoadingScript, startedAt = now, connectedAt = None, marks = [], d_error = None,
      attempt = 0, retryAt = None, latencyMs = None, latencyHistory = []\<rparr>"

text \<open>The calls the hook returns, each with the \<open>Date.now()\<close> it reads.\<close>

datatype hook_call =
    SetStatus DesktopStatus
  | MarkStep StepKey
  | FailWith string "int option"
  | RestartCall
  | BeginReconnect nat int
  | PushLatency int

fun to_action :: "hook_call \<Rightarrow> int \<Rightarrow> Action" where
  "to_action (SetStatus st) now = Status st now"
| "to_action (MarkStep k) now = Mark k now"
| "to_action (FailWith message code) now = Fail (classifyError message code)"
| "to_action RestartCall now = Restart now"
| "to_action (BeginReconnect n delay) now = Reconnect n (now + delay)"
| "to_action (PushLatency ms) now = Latency ms"

definition dispatch :: "CoreState \<Rightarrow> hook_call \<times> int \<Rightarrow> CoreState" where
  "dispatch s c = reducer s (to_action (fst c) (snd c))"

text \<open>The interval of the live clock effect, if one runs.\<close>

definition clock_interval :: "CoreState \<Rightarrow> int option" where
  "clock_interval s =
     (let fast = isTransient (d_status s) \<or> retryAt s \<noteq> None;
          connected = d_status s = Connected
      in if \<not> fast \<and> \<not> connected then None else Some (if fast then 250 else 1000))"

definition step_duration :: "CoreState \<Rightarrow> nat \<Rightarrow> int option" where
  "step_duration s i =
     (if i < length (marks s) then
        let start = (if i = 0 then startedAt s else snd (marks s ! (i - 1)));
            d = max 0 (snd (marks s ! i) - start)
        in if DURATION_FLOOR_MS \<le> d then Some d else None
      else None)"

definition step_view :: "CoreState \<Rightarrow> (StepKey \<times> string \<times> string) \<Rightarrow> nat \<Rightarrow> connection_step" where
  "step_view s def i =
     \<lparr>cs_label = fst (snd def), cs_hint = snd (snd def),
      cs_state =
        (if i < length (marks s) \<or> d_status s = Connected then Done
         else if i = length (marks s) \<and> isTransient (d_status s) then Active
         else Pending),
      cs_duration = step_duration s i\<rparr>"

definition view_steps :: "CoreState \<Rightarrow> connection_step list" where
  "view_steps s = map2 (step_view s) STEP_DEFS [0..<length STEP_DEFS]"

definition elapsedMs :: "CoreState \<Rightarrow> int \<Rightarrow> int" where
  "elapsedMs s now = max 0 (nullish (connectedAt s) now - startedAt s)"

definition sessionMs :: "CoreState \<Rightarrow> int \<Rightarrow> int option" where
  "sessionMs s now = map_option (\<lambda>c. max 0 (now - c)) (connectedAt s)"

definition retryInMs :: "CoreState \<Rightarrow> int \<Rightarrow> int option" where
  "retryInMs s now = map_option (\<lambda>r. max 0 (r - now)) (retryAt s)"

section \<open>Time formats\<close>

definition pad2 :: "int \<Rightarrow> string" where
  "pad2 n = (let s = show_int n in replicate (2 - length s) CHR ''0'' @ s)"

text \<open>A JavaScript remainder keeps the sign of the dividend; the spans the hook formats are not
  negative, so the argument is a natural number.\<close>

definition formatClock :: "nat \<Rightarrow> string" where
  "formatClock ms =
     (let total = ms div 1000;
          h = total div 3600;
          m = total mod 3600 div 60;
          s = total mod 60
      in if 0 < h then show_nat h @ '':'' @ pad2 (int m) @ '':'' @ pad2 (int s)
         else show_nat m @ '':'' @ pad2 (int s))"

text \<open>\<open>toFixed(1)\<close> of \<open>ms / 1000\<close> rounds the binary double to tenths, ties to the larger. Only an
  odd multiple of 50 ms lies halfway between two tenths, and no such quotient is a double: whether
  the double nearest to it (53 bits, ties to even) is below it decides the digit.\<close>

fun ilog2 :: "nat \<Rightarrow> nat" where
  "ilog2 n = (if n < 2 then 0 else Suc (ilog2 (n div 2)))"

declare ilog2.simps [simp del]

definition double_below :: "nat \<Rightarrow> bool" where
  "double_below ms =
     (let scaled = ms * 2 ^ (52 - ilog2 (ms div 1000));
          q = scaled div 1000; r = scaled mod 1000
      in r < 500 \<or> r = 500 \<and> even q)"

definition formatSeconds :: "nat \<Rightarrow> string" where
  "formatSeconds ms =
     (if ms < 1000 then show_nat ms @ ''ms''
      else let tenths = (if ms mod 100 = 50 \<and> double_below ms then ms div 100 else (ms + 50) div 100)
           in show_nat (tenths div 10) @ ''.'' @ show_nat (tenths mod 10) @ ''s'')"

section \<open>The timeline\<close>

lemma push_marks_eq:
  "push_marks ms target at = ms @ map (\<lambda>k. (k, at)) (take (target - length ms) (drop (length ms) STEP_KEYS))"
proof (induction ms target at rule: push_marks.induct)
  case (1 ms target at)
  show ?case
  proof (cases "length ms < target \<and> length ms < TOTAL_STEPS")
    case True
    then have l: "length ms < length STEP_KEYS" by (simp add: TOTAL_STEPS_eq)
    have "take (target - length ms) (drop (length ms) STEP_KEYS)
        = STEP_KEYS ! length ms # take (target - Suc (length ms)) (drop (Suc (length ms)) STEP_KEYS)"
      using True by (subst Cons_nth_drop_Suc [OF l, symmetric]) (simp add: Suc_diff_Suc take_Cons')
    then show ?thesis using 1 True by (simp add: push_marks.simps [of ms])
  next
    case False
    then show ?thesis by (auto simp: push_marks.simps [of ms] TOTAL_STEPS_eq)
  qed
qed

interpretation dt: timeline STEP_KEYS advanceMarks
  by unfold_locales (simp_all add: advanceMarks_def push_marks_eq)

lemma length_advanceMarks:
  "length ms \<le> 5 \<Longrightarrow> length (advanceMarks ms target at) = max (length ms) (min target 5)"
  using dt.length_adv [of ms target at] by (simp add: TOTAL_STEPS_eq)

text \<open>The states in which the hook can be, with the clock reading last used.\<close>

inductive conn_reach :: "CoreState \<Rightarrow> int \<Rightarrow> bool" where
  start: "conn_reach (initial_core now) now"
| call: "conn_reach s now \<Longrightarrow> now \<le> now' \<Longrightarrow> conn_reach (dispatch s (c, now')) now'"

definition conn_ok :: "CoreState \<Rightarrow> int \<Rightarrow> bool" where
  "conn_ok s now \<longleftrightarrow>
     on_track STEP_KEYS (marks s) \<and> timed (startedAt s) now (marks s) \<and>
     (case connectedAt s of None \<Rightarrow> d_status s \<noteq> Connected
      | Some c \<Rightarrow> length (marks s) = TOTAL_STEPS \<and> c \<le> now \<and> timed (startedAt s) c (marks s)) \<and>
     (d_status s = Connected \<longrightarrow> attempt s = 0 \<and> d_error s = None) \<and>
     (retryAt s \<noteq> None \<longrightarrow> d_status s = Reconnecting) \<and>
     length (latencyHistory s) \<le> LATENCY_HISTORY_CAP \<and>
     latencyMs s = (if latencyHistory s = [] then None else Some (last (latencyHistory s)))"

lemma conn_ok_initial: "conn_ok (initial_core now) now"
  by (simp add: conn_ok_def initial_core_def)

lemma advance_full: "length ms = TOTAL_STEPS \<Longrightarrow> advanceMarks ms target at = ms"
  by (simp add: advanceMarks_def push_marks.simps)

lemma conn_ok_advance:
  assumes "conn_ok s now" "now \<le> now'"
  shows "conn_ok (s\<lparr>marks := advanceMarks (marks s) target now'\<rparr>) now'"
proof (cases "connectedAt s")
  case None
  then show ?thesis
    using assms by (auto simp: conn_ok_def intro: dt.on_track_adv dt.timed_adv)
next
  case (Some c)
  then have "length (marks s) = TOTAL_STEPS" using assms(1) by (simp add: conn_ok_def)
  then show ?thesis
    using assms Some by (auto simp: conn_ok_def advance_full elim: timed_later)
qed

lemma conn_ok_later: "conn_ok s now \<Longrightarrow> now \<le> now' \<Longrightarrow> conn_ok s now'"
  by (auto simp: conn_ok_def elim: timed_later split: option.splits)

lemma advance_all_length:
  assumes "on_track STEP_KEYS ms"
  shows "length (advanceMarks ms TOTAL_STEPS at) = TOTAL_STEPS"
  using arg_cong [OF dt.adv_all [OF assms, of at], of length] by (simp add: TOTAL_STEPS_eq)

lemma conn_ok_status:
  assumes "conn_ok s now" "now \<le> now'"
  shows "conn_ok (reducer s (Status st now')) now'"
proof (cases "st = Connected")
  case False
  have *: "conn_ok (s\<lparr>marks := case completedForStatus st of None \<Rightarrow> marks s
      | Some t \<Rightarrow> advanceMarks (marks s) t now'\<rparr>) now'"
    using conn_ok_advance [OF assms] conn_ok_later [OF assms]
    by (cases "completedForStatus st") simp_all
  show ?thesis
    using * False by (cases "connectedAt s"; cases "st = Reconnecting") (auto simp: conn_ok_def)
next
  case True
  have full: "length (advanceMarks (marks s) TOTAL_STEPS now') = TOTAL_STEPS"
    using assms(1) by (simp add: conn_ok_def advance_all_length)
  show ?thesis
  proof (cases "connectedAt s")
    case None
    then show ?thesis using True assms full
      by (auto simp: conn_ok_def intro: dt.on_track_adv dt.timed_adv)
  next
    case (Some c)
    then show ?thesis using True conn_ok_advance [OF assms, of TOTAL_STEPS]
      by (auto simp: conn_ok_def)
  qed
qed

lemma conn_ok_dispatch:
  assumes "conn_ok s now" "now \<le> now'"
  shows "conn_ok (dispatch s (c, now')) now'"
proof (cases c)
  case (SetStatus st)
  with conn_ok_status [OF assms] show ?thesis by (simp add: dispatch_def)
next
  case (MarkStep k)
  with conn_ok_advance [OF assms] show ?thesis by (simp add: dispatch_def)
next
  case (PushLatency ms)
  with conn_ok_later [OF assms] show ?thesis
    by (cases "connectedAt s")
      (simp_all add: dispatch_def conn_ok_def length_push_capped last_push_capped push_capped_nonempty
        LATENCY_HISTORY_CAP_def)
next
  case (FailWith m code)
  with conn_ok_later [OF assms] show ?thesis
    by (auto simp: dispatch_def conn_ok_def split: option.splits)
next
  case (BeginReconnect n d)
  with conn_ok_later [OF assms] show ?thesis
    by (auto simp: dispatch_def conn_ok_def split: option.splits)
next
  case RestartCall
  then show ?thesis by (auto simp: dispatch_def conn_ok_def)
qed

lemma conn_reach_ok: "conn_reach s now \<Longrightarrow> conn_ok s now"
  by (induction rule: conn_reach.induct) (auto intro: conn_ok_initial conn_ok_dispatch)

section \<open>What the view shows\<close>

lemma length_view_steps [simp]: "length (view_steps s) = TOTAL_STEPS"
  by (simp add: view_steps_def TOTAL_STEPS_def)

lemma view_steps_nth:
  "i < TOTAL_STEPS \<Longrightarrow> view_steps s ! i = step_view s (STEP_DEFS ! i) i"
  by (simp add: view_steps_def TOTAL_STEPS_def)

lemma step_duration_span:
  assumes "i < length (marks s)"
  shows "nullish (step_duration s i) 0 \<le> step_span (startedAt s) (marks s) i"
  using assms by (simp add: step_duration_def step_span_def Let_def)

lemma shown_durations_le:
  assumes "timed (startedAt s) t (marks s)" "length (marks s) \<le> n"
  shows "(\<Sum>i<n. nullish (step_duration s i) 0) \<le> t - startedAt s"
proof -
  have "(\<Sum>i<n. nullish (step_duration s i) 0) = (\<Sum>i<length (marks s). nullish (step_duration s i) 0)"
    using assms(2) by (intro sum.mono_neutral_right) (auto simp: step_duration_def)
  also have "\<dots> \<le> (\<Sum>i<length (marks s). step_span (startedAt s) (marks s) i)"
    by (intro sum_mono step_duration_span) simp
  also have "\<dots> = (if marks s = [] then 0 else snd (last (marks s)) - startedAt s)"
    by (rule sum_step_span [OF assms(1)])
  also have "\<dots> \<le> t - startedAt s"
    using assms(1) by (cases "marks s" rule: rev_cases) (auto simp: timed_def sorted_append)
  finally show ?thesis .
qed

lemma view_states:
  assumes "length (marks s) \<le> TOTAL_STEPS"
  shows "map cs_state (view_steps s) =
    (let n = length (marks s) in
     if d_status s = Connected then replicate TOTAL_STEPS Done
     else if isTransient (d_status s) \<and> n < TOTAL_STEPS
     then replicate n Done @ Active # replicate (TOTAL_STEPS - Suc n) Pending
     else replicate n Done @ replicate (TOTAL_STEPS - n) Pending)"
  using assms
  by (intro nth_equalityI)
    (auto simp: Let_def view_steps_nth step_view_def nth_append nth_Cons' split: if_splits)

section \<open>Properties\<close>

text \<open>C4: whatever calls the shell makes, with a clock that does not go back, the completed steps are
  a prefix of the canonical order with times that do not decrease; the session clock is only set once
  every step is complete; a connected hook carries neither an error nor a reconnect attempt, a
  countdown is only pending while reconnecting, and the latency history is bounded with the last
  sample shown.\<close>

theorem desktop_connection_invariant:
  assumes "conn_reach s now"
  shows "on_track STEP_KEYS (marks s) \<and> timed (startedAt s) now (marks s) \<and>
    (connectedAt s \<noteq> None \<longrightarrow> length (marks s) = TOTAL_STEPS) \<and>
    (d_status s = Connected \<longrightarrow> connectedAt s \<noteq> None \<and> attempt s = 0 \<and> d_error s = None) \<and>
    (retryAt s \<noteq> None \<longrightarrow> d_status s = Reconnecting) \<and>
    length (latencyHistory s) \<le> 40 \<and>
    latencyMs s = (if latencyHistory s = [] then None else Some (last (latencyHistory s)))"
  using conn_reach_ok [OF assms]
  by (auto simp: conn_ok_def LATENCY_HISTORY_CAP_def split: option.splits)

lemma conn_reach_dispatch_list:
  "conn_reach s now \<Longrightarrow> sorted (now # map snd cs) \<Longrightarrow>
   conn_reach (foldl dispatch s cs) (last (now # map snd cs))"
proof (induction cs arbitrary: s now)
  case (Cons c cs)
  have "conn_reach (dispatch s (fst c, snd c)) (snd c)"
    using Cons.prems by (intro conn_reach.call [of s now]) simp_all
  then have "conn_reach (dispatch s c) (snd c)" by simp
  from Cons.IH [OF this] Cons.prems(2) show ?case by simp
qed simp

definition sample_session :: "(hook_call \<times> int) list" where
  "sample_session =
    [(MarkStep Session, 1300), (SetStatus Connecting, 1450), (SetStatus Handshake, 2000),
     (SetStatus Connected, 2600), (PushLatency 35, 3000), (FailWith ''WebSocket refused'' None, 9000),
     (BeginReconnect 1 1500, 9001)]"

definition sample_core :: CoreState where
  "sample_core = foldl dispatch (initial_core 1000) sample_session"

lemma sample_reach: "conn_reach sample_core 9001"
  using conn_reach_dispatch_list [OF conn_reach.start, of 1000 sample_session]
  by (simp add: sample_core_def sample_session_def)

lemma sample_fields:
  "marks sample_core = [(Prepare, 1300), (Session, 1300), (Channel, 2000), (HandshakeStep, 2600),
     (FrameStep, 2600)]"
  "connectedAt sample_core = Some 2600" "startedAt sample_core = 1000" "retryAt sample_core = Some 10501"
  "d_status sample_core = Reconnecting" "latencyHistory sample_core = [35]"
  by (simp_all add: sample_core_def sample_session_def initial_core_def dispatch_def advanceMarks_def
      push_marks_eq STEP_KEYS_eq step_number_def TOTAL_STEPS_eq push_capped_def LATENCY_HISTORY_CAP_def)

theorem desktop_connection_invariant_witness:
  "conn_reach sample_core 9001 \<and> length (marks sample_core) = TOTAL_STEPS \<and>
   d_status sample_core = Reconnecting \<and> latencyMs sample_core = Some 35"
  using desktop_connection_invariant [OF sample_reach] sample_reach
  by (simp add: sample_fields)

text \<open>the rendered timeline is a run of done steps, then at most one active step, which is there
  exactly when the status is transient and a step is left, then pending steps; and the durations shown
  add up to no more than the elapsed time the hook reports.\<close>

theorem desktop_view_timeline:
  assumes "conn_reach s now"
  shows "map cs_state (view_steps s) =
      replicate (length (marks s)) Done
      @ (if isTransient (d_status s) \<and> length (marks s) < TOTAL_STEPS
         then Active # replicate (TOTAL_STEPS - Suc (length (marks s))) Pending
         else replicate (TOTAL_STEPS - length (marks s)) Pending) \<and>
    sum_list (map (\<lambda>c. nullish (cs_duration c) 0) (view_steps s)) \<le> elapsedMs s now"
proof
  note ok = conn_reach_ok [OF assms]
  then have len: "length (marks s) \<le> TOTAL_STEPS"
    by (auto simp: conn_ok_def TOTAL_STEPS_eq dest: on_track_length)
  have "length (marks s) = TOTAL_STEPS" if "d_status s = Connected"
    using ok that by (auto simp: conn_ok_def split: option.splits)
  then show "map cs_state (view_steps s) =
      replicate (length (marks s)) Done
      @ (if isTransient (d_status s) \<and> length (marks s) < TOTAL_STEPS
         then Active # replicate (TOTAL_STEPS - Suc (length (marks s))) Pending
         else replicate (TOTAL_STEPS - length (marks s)) Pending)"
    by (auto simp: view_states [OF len] Let_def)
  have "sum_list (map (\<lambda>c. nullish (cs_duration c) 0) (view_steps s))
      = (\<Sum>i<TOTAL_STEPS. nullish (step_duration s i) 0)"
    by (subst sum_list_sum_nth) (simp add: view_steps_nth step_view_def atLeast0LessThan)
  also have "\<dots> \<le> nullish (connectedAt s) now - startedAt s"
    using ok by (intro shown_durations_le len) (auto simp: conn_ok_def split: option.splits)
  finally show "sum_list (map (\<lambda>c. nullish (cs_duration c) 0) (view_steps s)) \<le> elapsedMs s now"
    by (simp add: elapsedMs_def)
qed

theorem desktop_view_timeline_witness:
  "sum_list (map (\<lambda>c. nullish (cs_duration c) 0) (view_steps sample_core)) \<le> 1600"
  using desktop_view_timeline [OF sample_reach, THEN conjunct2] by (simp add: elapsedMs_def sample_fields)

lemma unknown_error:
  "utf8 [26410, 30693, 38169, 35823] \<noteq> []"
  "\<not> str_includes (toLowerCase (utf8 [26410, 30693, 38169, 35823])) ''transport''"
  by (simp_all add: utf8_def utf8_char_def toLowerCase_def lower_char_def Let_def)

text \<open>the force-TLS shortcut is offered exactly for a transport failure: the security error kind,
  reached by the transport code or by the word in the message whatever its case; the technical detail
  is the trimmed message and never empty, and the code is passed on.\<close>

theorem classifyError_force_tls:
  "(canForceTls (classifyError m code) \<longleftrightarrow> err_kind (classifyError m code) = Security) \<and>
   (canForceTls (classifyError m code) \<longleftrightarrow>
      code = Some ERR_TRANSPORT_FAILED \<or> str_includes (toLowerCase (js_trim m)) ''transport'') \<and>
   err_detail (classifyError m code) \<noteq> [] \<and>
   err_detail (classifyError m code) = or_str (js_trim m) (utf8 [26410, 30693, 38169, 35823]) \<and>
   err_code (classifyError m code) = code"
proof (cases "js_trim m")
  case Nil
  then show ?thesis using unknown_error
    by (auto simp: classifyError_def Let_def toLowerCase_def)
next
  case (Cons c cs)
  then show ?thesis by (auto simp: classifyError_def Let_def)
qed

end
