(* ===== verification/TerminalConnection.thy ===== *)
theory TerminalConnection
  imports ConnTimeline
begin

text \<open>
  The terminal connection state machine, \<open>components/terminal/terminal-connection.ts\<close>, and the
  classifier of disconnect reasons it uses, \<open>lib/terminal/disconnect-reasons.ts\<close>. The patterns of
  the rule table are case-insensitive regular expressions without repetition other than \<open>\s*\<close>;
  they are a datatype with a matcher. \<open>Date.now()\<close> is an argument of the dispatching calls.
\<close>

section \<open>Disconnect reasons\<close>

datatype DisconnectCategory =
    NetworkUnreachable | NetworkFlap | AuthFailed | ServerClosed | TimeoutCat | AgentUnavailable | UnknownCat

datatype DisconnectSuggestion = CheckNode | CheckCredentials | Retry | CheckAgent | ContactAdmin

record DisconnectInfo =
  info_category :: DisconnectCategory
  info_suggestion :: DisconnectSuggestion
  info_href :: "string option"
  info_raw :: string

text \<open>\<open>Lit\<close> is a literal, \<open>LitSpace a b\<close> is \<open>a\s*b\<close>, \<open>Word w\<close> is \<open>\b w \b\<close>; all of them lower case.\<close>

datatype pattern = Lit string | LitSpace string string | Word string

fun match_here :: "pattern \<Rightarrow> char option \<Rightarrow> string \<Rightarrow> bool" where
  "match_here (Lit l) prev s = prefix l s"
| "match_here (LitSpace a b) prev s = (prefix a s \<and> prefix b (trimStart (drop (length a) s)))"
| "match_here (Word w) prev s =
     (prefix w s
      \<and> (case prev of None \<Rightarrow> True | Some c \<Rightarrow> \<not> word_char c)
      \<and> (case drop (length w) s of [] \<Rightarrow> True | c # _ \<Rightarrow> \<not> word_char c))"

fun match_from :: "pattern \<Rightarrow> char option \<Rightarrow> string \<Rightarrow> bool" where
  "match_from p prev [] = match_here p prev []"
| "match_from p prev (c # cs) = (match_here p prev (c # cs) \<or> match_from p (Some c) cs)"

record disconnect_rule =
  rule_patterns :: "pattern list"
  rule_category :: DisconnectCategory
  rule_suggestion :: DisconnectSuggestion
  rule_href :: "string option"

definition rule_test :: "disconnect_rule \<Rightarrow> string \<Rightarrow> bool" where
  "rule_test r s = list_ex (\<lambda>p. match_from p None (toLowerCase s)) (rule_patterns r)"

definition RULES :: "disconnect_rule list" where
  "RULES =
    [\<lparr>rule_patterns = [Lit ''agent_unavailable''],
      rule_category = AgentUnavailable, rule_suggestion = CheckAgent, rule_href = Some ''/admin/domains''\<rparr>,
     \<lparr>rule_patterns = [LitSpace ''connectex:'' ''no connection''],
      rule_category = NetworkUnreachable, rule_suggestion = CheckNode, rule_href = Some ''/admin/nodes''\<rparr>,
     \<lparr>rule_patterns = [Lit ''econnrefused'', Lit ''connection refused''],
      rule_category = NetworkUnreachable, rule_suggestion = CheckNode, rule_href = Some ''/admin/nodes''\<rparr>,
     \<lparr>rule_patterns = [Lit ''no route to host'', Lit ''ehostunreach'', Lit ''enetunreach''],
      rule_category = NetworkUnreachable, rule_suggestion = CheckNode, rule_href = Some ''/admin/nodes''\<rparr>,
     \<lparr>rule_patterns = [Lit ''econnreset'', Lit ''connection reset''],
      rule_category = NetworkFlap, rule_suggestion = Retry, rule_href = None\<rparr>,
     \<lparr>rule_patterns = [Lit ''authentication fail'', Lit ''auth fail'', Lit ''permission denied'', Lit ''publickey''],
      rule_category = AuthFailed, rule_suggestion = CheckCredentials, rule_href = Some ''/admin/credentials''\<rparr>,
     \<lparr>rule_patterns = [Lit ''timeout'', Lit ''etimedout''],
      rule_category = TimeoutCat, rule_suggestion = Retry, rule_href = None\<rparr>,
     \<lparr>rule_patterns = [Lit ''going away'', Lit ''normal closure'', Word ''1000'', Word ''1001''],
      rule_category = ServerClosed, rule_suggestion = Retry, rule_href = None\<rparr>]"

definition inferDisconnect :: "string option \<Rightarrow> DisconnectInfo" where
  "inferDisconnect raw =
     (let r = js_trim (nullish raw [])
      in case List.find (\<lambda>rule. rule_test rule r) RULES of
           Some rule \<Rightarrow>
             \<lparr>info_category = rule_category rule, info_suggestion = rule_suggestion rule,
              info_href = rule_href rule, info_raw = r\<rparr>
         | None \<Rightarrow>
             \<lparr>info_category = UnknownCat, info_suggestion = ContactAdmin, info_href = None, info_raw = r\<rparr>)"

section \<open>The terminal's errors and steps\<close>

datatype TermStatus = TConnecting | TOpen | TReconnecting | TClosed | TError

datatype TermStep = TChannel | TAuth | TReady

definition STEP_DEFS :: "(TermStep \<times> string \<times> string) list" where
  "STEP_DEFS =
    [(TChannel, utf8 [24314, 31435, 36890, 36947], utf8 [19982, 32593, 20851, 24314, 31435, 21152, 23494, 32, 87, 101, 98, 83, 111, 99, 107, 101, 116, 32, 36890, 36947]),
     (TAuth, utf8 [30331, 24405, 20027, 26426], utf8 [22312, 36828, 31471, 20027, 26426, 19978, 23436, 25104, 36523, 20221, 35748, 35777]),
     (TReady, utf8 [20250, 35805, 23601, 32490], utf8 [31561, 24453, 36828, 31471, 32, 83, 104, 101, 108, 108, 32, 23601, 32490])]"

definition STEP_KEYS :: "TermStep list" where
  "STEP_KEYS = map fst STEP_DEFS"

definition TOTAL_STEPS :: nat where
  "TOTAL_STEPS = length STEP_DEFS"

lemma term_STEP_KEYS_eq: "STEP_KEYS = [TChannel, TAuth, TReady]"
  by (simp add: STEP_KEYS_def STEP_DEFS_def)

lemma term_TOTAL_STEPS_eq: "TOTAL_STEPS = 3" "length STEP_KEYS = 3"
  by (simp_all add: TOTAL_STEPS_def STEP_DEFS_def STEP_KEYS_def)

record TermError =
  te_title :: string
  te_detail :: string
  te_category :: DisconnectCategory
  te_suggestion :: DisconnectSuggestion
  te_href :: "string option"
  te_raw :: string

fun CATEGORY_TITLE :: "DisconnectCategory \<Rightarrow> string" where
  "CATEGORY_TITLE NetworkUnreachable = utf8 [26080, 27861, 36830, 25509, 21040, 20027, 26426]"
| "CATEGORY_TITLE NetworkFlap = utf8 [32593, 32476, 25238, 21160, 23548, 33268, 26029, 24320]"
| "CATEGORY_TITLE AuthFailed = utf8 [30331, 24405, 34987, 36828, 31471, 25298, 32477]"
| "CATEGORY_TITLE ServerClosed = utf8 [36828, 31471, 20851, 38381, 20102, 20250, 35805]"
| "CATEGORY_TITLE TimeoutCat = utf8 [36830, 25509, 20027, 26426, 36229, 26102]"
| "CATEGORY_TITLE AgentUnavailable = utf8 [32593, 22495, 26080, 22312, 32447, 32, 65, 103, 101, 110, 116]"
| "CATEGORY_TITLE UnknownCat = utf8 [36830, 25509, 24050, 26029, 24320]"

fun CATEGORY_DETAIL :: "DisconnectCategory \<Rightarrow> string" where
  "CATEGORY_DETAIL NetworkUnreachable = utf8 [20027, 26426, 19981, 21487, 36798, 12290, 30830, 35748, 23427, 22312, 32447, 12289, 31471, 21475, 21487, 36798, 65292, 20877, 37325, 35797, 12290]"
| "CATEGORY_DETAIL NetworkFlap = utf8 [38142, 36335, 30701, 26242, 20013, 26029, 12290, 22810, 25968, 24773, 20917, 19979, 37325, 36830, 21363, 21487, 24674, 22797, 12290]"
| "CATEGORY_DETAIL AuthFailed = utf8 [20973, 25454, 34987, 36828, 31471, 25298, 32477, 12290, 26680, 23545, 36134, 21495, 36164, 26009, 37324, 30340, 29992, 25143, 21517, 32, 47, 32, 23494, 30721, 32, 47, 32, 23494, 38053, 21518, 37325, 35797, 12290]"
| "CATEGORY_DETAIL ServerClosed = utf8 [36828, 31471, 20027, 21160, 32467, 26463, 20102, 20250, 35805, 65288, 21487, 33021, 26159, 36229, 26102, 25110, 27880, 38144, 65289, 12290]"
| "CATEGORY_DETAIL TimeoutCat = utf8 [31561, 24453, 36828, 31471, 21709, 24212, 36229, 26102, 12290, 21487, 33021, 26159, 20027, 26426, 32321, 24537, 25110, 32593, 32476, 25317, 22622, 12290]"
| "CATEGORY_DETAIL AgentUnavailable = utf8 [35813, 36164, 20135, 32463, 21453, 36830, 32, 65, 103, 101, 110, 116, 32, 25509, 20837, 65292, 20294, 20854, 32593, 22495, 24403, 21069, 27809, 26377, 22312, 32447, 30340, 32, 65, 103, 101, 110, 116, 12290, 35831, 22312, 32593, 22495, 39029, 28608, 27963, 25110, 26816, 26597, 32, 65, 103, 101, 110, 116, 32, 21518, 37325, 35797, 12290]"
| "CATEGORY_DETAIL UnknownCat = utf8 [36830, 25509, 22312, 20013, 36884, 26029, 24320, 12290, 37325, 35797, 36890, 24120, 21487, 24674, 22797, 12290]"

fun SUGGESTION_LABEL :: "DisconnectSuggestion \<Rightarrow> string" where
  "SUGGESTION_LABEL CheckNode = utf8 [26816, 26597, 33410, 28857]"
| "SUGGESTION_LABEL CheckCredentials = utf8 [26816, 26597, 20973, 25454]"
| "SUGGESTION_LABEL Retry = utf8 [37325, 35797]"
| "SUGGESTION_LABEL CheckAgent = utf8 [21435, 32593, 22495, 31649, 29702]"
| "SUGGESTION_LABEL ContactAdmin = utf8 [32852, 31995, 31649, 29702, 21592]"

definition classifyDisconnect :: "string \<Rightarrow> TermError" where
  "classifyDisconnect raw =
     (let info = inferDisconnect (Some raw)
      in \<lparr>te_title = CATEGORY_TITLE (info_category info),
          te_detail = CATEGORY_DETAIL (info_category info),
          te_category = info_category info,
          te_suggestion = info_suggestion info,
          te_href = info_href info,
          te_raw = info_raw info\<rparr>)"

section \<open>The reducer\<close>

definition LATENCY_HISTORY_CAP :: nat where
  "LATENCY_HISTORY_CAP = 40"

definition DURATION_FLOOR_MS :: int where
  "DURATION_FLOOR_MS = 120"

record TermCore =
  t_status :: TermStatus
  t_startedAt :: int
  t_connectedAt :: "int option"
  t_marks :: "(TermStep \<times> int) list"
  t_error :: "TermError option"
  t_attempt :: nat
  t_retryAt :: "int option"
  t_latencyMs :: "int option"
  t_latencyHistory :: "int list"

datatype TermAction =
    AStart int
  | AMark TermStep int
  | AReady int
  | AFail TermError
  | AClose
  | AReconnect nat int
  | ALatency int

text \<open>The \<open>while\<close> loop of \<open>advanceMarks\<close>.\<close>

function push_marks :: "(TermStep \<times> int) list \<Rightarrow> nat \<Rightarrow> int \<Rightarrow> (TermStep \<times> int) list" where
  "push_marks ms target at =
     (if length ms < target \<and> length ms < TOTAL_STEPS
      then push_marks (ms @ [(STEP_KEYS ! length ms, at)]) target at else ms)"
  by pat_completeness auto
termination
  by (relation "measure (\<lambda>(ms, target, at). target - length ms)") auto

declare push_marks.simps [simp del]

definition advanceMarks :: "(TermStep \<times> int) list \<Rightarrow> nat \<Rightarrow> int \<Rightarrow> (TermStep \<times> int) list" where
  "advanceMarks ms target at = (if target \<le> length ms then ms else push_marks ms target at)"

definition step_number :: "TermStep \<Rightarrow> nat" where
  "step_number k = (case find_index (\<lambda>x. x = k) STEP_KEYS of None \<Rightarrow> 0 | Some i \<Rightarrow> Suc i)"

fun reducer :: "TermCore \<Rightarrow> TermAction \<Rightarrow> TermCore" where
  "reducer s (AStart at) =
     s\<lparr>t_status := TConnecting, t_startedAt := at, t_connectedAt := None, t_marks := [], t_error := None,
       t_attempt := 0, t_retryAt := None, t_latencyMs := None, t_latencyHistory := []\<rparr>"
| "reducer s (AMark k at) = s\<lparr>t_marks := advanceMarks (t_marks s) (step_number k) at\<rparr>"
| "reducer s (AReady at) =
     s\<lparr>t_status := TOpen, t_marks := advanceMarks (t_marks s) TOTAL_STEPS at,
       t_connectedAt := Some (nullish (t_connectedAt s) at), t_attempt := 0, t_retryAt := None,
       t_error := None\<rparr>"
| "reducer s (AFail e) = s\<lparr>t_status := TError, t_error := Some e, t_retryAt := None\<rparr>"
| "reducer s AClose = s\<lparr>t_status := TClosed, t_retryAt := None\<rparr>"
| "reducer s (AReconnect n t) = s\<lparr>t_status := TReconnecting, t_attempt := n, t_retryAt := Some t\<rparr>"
| "reducer s (ALatency ms) =
     s\<lparr>t_latencyMs := Some ms,
       t_latencyHistory := push_capped LATENCY_HISTORY_CAP (t_latencyHistory s) ms\<rparr>"

definition isTransient :: "TermStatus \<Rightarrow> bool" where
  "isTransient st \<longleftrightarrow> st = TConnecting \<or> st = TReconnecting"

section \<open>The hook\<close>

definition initial_core :: "int \<Rightarrow> TermCore" where
  "initial_core now =
     \<lparr>t_status = TConnecting, t_startedAt = now, t_connectedAt = None, t_marks = [], t_error = None,
      t_attempt = 0, t_retryAt = None, t_latencyMs = None, t_latencyHistory = []\<rparr>"

datatype term_call =
    Start
  | MarkOpen
  | MarkReady
  | FailRaw string
  | CloseCall
  | BeginReconnect nat int
  | PushLatency int

fun to_action :: "term_call \<Rightarrow> int \<Rightarrow> TermAction" where
  "to_action Start now = AStart now"
| "to_action MarkOpen now = AMark TChannel now"
| "to_action MarkReady now = AReady now"
| "to_action (FailRaw raw) now = AFail (classifyDisconnect raw)"
| "to_action CloseCall now = AClose"
| "to_action (BeginReconnect n delay) now = AReconnect n (now + delay)"
| "to_action (PushLatency ms) now = ALatency ms"

definition dispatch :: "TermCore \<Rightarrow> term_call \<times> int \<Rightarrow> TermCore" where
  "dispatch s c = reducer s (to_action (fst c) (snd c))"

definition clock_interval :: "TermCore \<Rightarrow> int option" where
  "clock_interval s =
     (let fast = isTransient (t_status s) \<or> t_retryAt s \<noteq> None;
          opened = t_status s = TOpen
      in if \<not> fast \<and> \<not> opened then None else Some (if fast then 250 else 1000))"

definition step_duration :: "TermCore \<Rightarrow> nat \<Rightarrow> int option" where
  "step_duration s i =
     (if i < length (t_marks s) then
        let start = (if i = 0 then t_startedAt s else snd (t_marks s ! (i - 1)));
            d = max 0 (snd (t_marks s ! i) - start)
        in if DURATION_FLOOR_MS \<le> d then Some d else None
      else None)"

definition step_view :: "TermCore \<Rightarrow> (TermStep \<times> string \<times> string) \<Rightarrow> nat \<Rightarrow> connection_step" where
  "step_view s def i =
     \<lparr>cs_label = fst (snd def), cs_hint = snd (snd def),
      cs_state =
        (if i < length (t_marks s) \<or> t_status s = TOpen then Done
         else if i = length (t_marks s) \<and> isTransient (t_status s) then Active
         else Pending),
      cs_duration = step_duration s i\<rparr>"

definition view_steps :: "TermCore \<Rightarrow> connection_step list" where
  "view_steps s = map2 (step_view s) STEP_DEFS [0..<length STEP_DEFS]"

definition elapsedMs :: "TermCore \<Rightarrow> int \<Rightarrow> int" where
  "elapsedMs s now = max 0 (nullish (t_connectedAt s) now - t_startedAt s)"

definition sessionMs :: "TermCore \<Rightarrow> int \<Rightarrow> int option" where
  "sessionMs s now = map_option (\<lambda>c. max 0 (now - c)) (t_connectedAt s)"

definition retryInMs :: "TermCore \<Rightarrow> int \<Rightarrow> int option" where
  "retryInMs s now = map_option (\<lambda>r. max 0 (r - now)) (t_retryAt s)"

section \<open>The classifier\<close>

text \<open>What the table promises: the suggestion and its link are those of the category.\<close>

fun category_action :: "DisconnectCategory \<Rightarrow> DisconnectSuggestion \<times> string option" where
  "category_action AgentUnavailable = (CheckAgent, Some ''/admin/domains'')"
| "category_action NetworkUnreachable = (CheckNode, Some ''/admin/nodes'')"
| "category_action AuthFailed = (CheckCredentials, Some ''/admin/credentials'')"
| "category_action NetworkFlap = (Retry, None)"
| "category_action TimeoutCat = (Retry, None)"
| "category_action ServerClosed = (Retry, None)"
| "category_action UnknownCat = (ContactAdmin, None)"

lemma RULES_actions:
  "r \<in> set RULES \<Longrightarrow>
   category_action (rule_category r) = (rule_suggestion r, rule_href r) \<and> rule_category r \<noteq> UnknownCat"
  by (auto simp: RULES_def)

lemma inferDisconnect_find:
  assumes "List.find (\<lambda>rule. rule_test rule (js_trim raw)) RULES = Some rule"
  shows "inferDisconnect (Some raw) =
    \<lparr>info_category = rule_category rule, info_suggestion = rule_suggestion rule,
     info_href = rule_href rule, info_raw = js_trim raw\<rparr>" "rule \<in> set RULES"
  using assms find_SomeD [OF assms] by (simp_all add: inferDisconnect_def)

text \<open>a disconnect reason gets the category of the first rule of the table that matches its
  trimmed text, and the unknown category exactly when no rule matches; the suggested action and its
  link are those of the category, and the raw text is passed on.\<close>

theorem disconnect_first_match:
  "(case List.find (\<lambda>rule. rule_test rule (js_trim raw)) RULES of
      None \<Rightarrow> te_category (classifyDisconnect raw) = UnknownCat
    | Some rule \<Rightarrow> te_category (classifyDisconnect raw) = rule_category rule \<and> rule_category rule \<noteq> UnknownCat) \<and>
   (te_suggestion (classifyDisconnect raw), te_href (classifyDisconnect raw))
     = category_action (te_category (classifyDisconnect raw)) \<and>
   te_title (classifyDisconnect raw) = CATEGORY_TITLE (te_category (classifyDisconnect raw)) \<and>
   te_raw (classifyDisconnect raw) = js_trim raw"
proof (cases "List.find (\<lambda>rule. rule_test rule (js_trim raw)) RULES")
  case None
  then show ?thesis by (simp add: classifyDisconnect_def inferDisconnect_def)
next
  case (Some rule)
  from inferDisconnect_find [OF Some] RULES_actions [of rule] Some show ?thesis
    by (simp add: classifyDisconnect_def Let_def)
qed

section \<open>The timeline\<close>

lemma term_push_marks_eq:
  "push_marks ms target at = ms @ map (\<lambda>k. (k, at)) (take (target - length ms) (drop (length ms) STEP_KEYS))"
proof (induction ms target at rule: push_marks.induct)
  case (1 ms target at)
  show ?case
  proof (cases "length ms < target \<and> length ms < TOTAL_STEPS")
    case True
    then have l: "length ms < length STEP_KEYS" by (simp add: term_TOTAL_STEPS_eq)
    have "take (target - length ms) (drop (length ms) STEP_KEYS)
        = STEP_KEYS ! length ms # take (target - Suc (length ms)) (drop (Suc (length ms)) STEP_KEYS)"
      using True by (subst Cons_nth_drop_Suc [OF l, symmetric]) (simp add: Suc_diff_Suc take_Cons')
    then show ?thesis using 1 True by (simp add: push_marks.simps [of ms])
  next
    case False
    then show ?thesis by (auto simp: push_marks.simps [of ms] term_TOTAL_STEPS_eq)
  qed
qed

interpretation tt: timeline STEP_KEYS advanceMarks
  by unfold_locales (simp_all add: advanceMarks_def term_push_marks_eq)

inductive term_reach :: "TermCore \<Rightarrow> int \<Rightarrow> bool" where
  start: "term_reach (initial_core now) now"
| call: "term_reach s now \<Longrightarrow> now \<le> now' \<Longrightarrow> term_reach (dispatch s (c, now')) now'"

definition term_ok :: "TermCore \<Rightarrow> int \<Rightarrow> bool" where
  "term_ok s now \<longleftrightarrow>
     on_track STEP_KEYS (t_marks s) \<and> timed (t_startedAt s) now (t_marks s) \<and>
     (case t_connectedAt s of None \<Rightarrow> t_status s \<noteq> TOpen
      | Some c \<Rightarrow> length (t_marks s) = TOTAL_STEPS \<and> c \<le> now \<and> timed (t_startedAt s) c (t_marks s)) \<and>
     (t_status s = TOpen \<longrightarrow> t_attempt s = 0 \<and> t_error s = None) \<and>
     (t_status s = TError \<longrightarrow> t_error s \<noteq> None) \<and>
     (t_retryAt s \<noteq> None \<longleftrightarrow> t_status s = TReconnecting) \<and>
     length (t_latencyHistory s) \<le> LATENCY_HISTORY_CAP \<and>
     t_latencyMs s = (if t_latencyHistory s = [] then None else Some (last (t_latencyHistory s)))"

lemma term_ok_initial: "term_ok (initial_core now) now"
  by (simp add: term_ok_def initial_core_def)

lemma term_advance_full: "length ms = TOTAL_STEPS \<Longrightarrow> advanceMarks ms target at = ms"
  by (simp add: advanceMarks_def push_marks.simps)

lemma term_ok_later: "term_ok s now \<Longrightarrow> now \<le> now' \<Longrightarrow> term_ok s now'"
  by (auto simp: term_ok_def elim: timed_later split: option.splits)

lemma term_ok_advance:
  assumes "term_ok s now" "now \<le> now'"
  shows "term_ok (s\<lparr>t_marks := advanceMarks (t_marks s) target now'\<rparr>) now'"
proof (cases "t_connectedAt s")
  case None
  then show ?thesis
    using assms by (auto simp: term_ok_def intro: tt.on_track_adv tt.timed_adv)
next
  case (Some c)
  then have "length (t_marks s) = TOTAL_STEPS" using assms(1) by (simp add: term_ok_def)
  then show ?thesis
    using assms Some by (auto simp: term_ok_def term_advance_full elim: timed_later)
qed

lemma term_ok_ready:
  assumes "term_ok s now" "now \<le> now'"
  shows "term_ok (reducer s (AReady now')) now'"
proof -
  have "length (advanceMarks (t_marks s) TOTAL_STEPS now') = TOTAL_STEPS"
    using arg_cong [OF tt.adv_all [of "t_marks s" now'], of length] assms(1)
    by (simp add: term_TOTAL_STEPS_eq term_ok_def)
  with term_ok_advance [OF assms, of TOTAL_STEPS] show ?thesis
    by (cases "t_connectedAt s") (auto simp: term_ok_def)
qed

lemma term_ok_dispatch:
  assumes "term_ok s now" "now \<le> now'"
  shows "term_ok (dispatch s (c, now')) now'"
proof (cases c)
  case MarkReady
  with term_ok_ready [OF assms] show ?thesis by (simp add: dispatch_def)
next
  case MarkOpen
  with term_ok_advance [OF assms] show ?thesis by (simp add: dispatch_def)
next
  case (PushLatency ms)
  with term_ok_later [OF assms] show ?thesis
    by (cases "t_connectedAt s")
      (simp_all add: dispatch_def term_ok_def length_push_capped last_push_capped push_capped_nonempty
        LATENCY_HISTORY_CAP_def)
next
  case (FailRaw raw)
  with term_ok_later [OF assms] show ?thesis
    by (auto simp: dispatch_def term_ok_def split: option.splits)
next
  case CloseCall
  with term_ok_later [OF assms] show ?thesis
    by (auto simp: dispatch_def term_ok_def split: option.splits)
next
  case (BeginReconnect n d)
  with term_ok_later [OF assms] show ?thesis
    by (auto simp: dispatch_def term_ok_def split: option.splits)
next
  case Start
  then show ?thesis by (auto simp: dispatch_def term_ok_def)
qed

lemma term_reach_ok: "term_reach s now \<Longrightarrow> term_ok s now"
  by (induction rule: term_reach.induct) (auto intro: term_ok_initial term_ok_dispatch)

text \<open>in every state the terminal hook reaches with a clock that does not go back, the completed
  steps are a prefix of channel, login, ready with times that do not decrease; the session clock runs
  only when all three are complete; an open session has no error and no attempt, an error status
  always carries its explanation, and a countdown is pending exactly while reconnecting.\<close>

theorem terminal_connection_invariant:
  assumes "term_reach s now"
  shows "on_track STEP_KEYS (t_marks s) \<and> timed (t_startedAt s) now (t_marks s) \<and>
    (t_connectedAt s \<noteq> None \<longrightarrow> length (t_marks s) = TOTAL_STEPS) \<and>
    (t_status s = TOpen \<longrightarrow> t_connectedAt s \<noteq> None \<and> t_attempt s = 0 \<and> t_error s = None) \<and>
    (t_status s = TError \<longrightarrow> t_error s \<noteq> None) \<and>
    (t_retryAt s \<noteq> None \<longleftrightarrow> t_status s = TReconnecting) \<and>
    length (t_latencyHistory s) \<le> 40"
  using term_reach_ok [OF assms]
  by (auto simp: term_ok_def LATENCY_HISTORY_CAP_def split: option.splits)

lemma term_reach_calls:
  "term_reach s now \<Longrightarrow> sorted (now # map snd cs) \<Longrightarrow>
   term_reach (foldl dispatch s cs) (last (now # map snd cs))"
proof (induction cs arbitrary: s now)
  case (Cons c cs)
  have "term_reach (dispatch s (fst c, snd c)) (snd c)"
    using Cons.prems by (intro term_reach.call [of s now]) simp_all
  then have "term_reach (dispatch s c) (snd c)" by simp
  from Cons.IH [OF this] Cons.prems(2) show ?case by simp
qed simp

definition sample_calls :: "(term_call \<times> int) list" where
  "sample_calls = [(MarkOpen, 150), (MarkReady, 700), (PushLatency 12, 800), (BeginReconnect 2 3000, 5000)]"

theorem terminal_connection_invariant_witness:
  "t_status (foldl dispatch (initial_core 0) sample_calls) = TReconnecting \<and>
   length (t_marks (foldl dispatch (initial_core 0) sample_calls)) = TOTAL_STEPS \<and>
   t_retryAt (foldl dispatch (initial_core 0) sample_calls) \<noteq> None"
proof -
  have "term_reach (foldl dispatch (initial_core 0) sample_calls) 5000"
    using term_reach_calls [OF term_reach.start, of 0 sample_calls] by (simp add: sample_calls_def)
  moreover have "t_status (foldl dispatch (initial_core 0) sample_calls) = TReconnecting"
    "t_connectedAt (foldl dispatch (initial_core 0) sample_calls) = Some 700"
    by (simp_all add: sample_calls_def initial_core_def dispatch_def)
  ultimately show ?thesis
    using terminal_connection_invariant [of "foldl dispatch (initial_core 0) sample_calls" 5000] by simp
qed

end
