(* ===== verification/Forest.thy ===== *)
theory Forest
  imports JsString
begin

text \<open>
  What the two tree builders of the administration pages share (\<open>access-tree/tree-model.ts\<close> and
  \<open>lib/asset-tree/build.ts\<close>): bucketing rows by the key of their parent, \<open>Array.sort\<close> with a
  comparator, and the locale \<open>forest\<close>: a list of folders whose children are found by the id of the
  parent, with \<open>0\<close> for the root. Its laws (a folder has one parent, ids are distinct and not \<open>0\<close>)
  make the chain from a folder up to the root unique and bound its length, which is why the recursive
  walks of the code return.
\<close>

section \<open>Buckets\<close>

text \<open>\<open>for (const x of xs) { const arr = m.get(k) ?? []; arr.push(x); m.set(k, arr) }\<close>\<close>

definition bucket_add :: "('a \<Rightarrow> 'k) \<Rightarrow> ('k \<rightharpoonup> 'a list) \<Rightarrow> 'a \<Rightarrow> ('k \<rightharpoonup> 'a list)" where
  "bucket_add key m x = m(key x \<mapsto> nullish (m (key x)) [] @ [x])"

definition bucket_by :: "('a \<Rightarrow> 'k) \<Rightarrow> 'a list \<Rightarrow> ('k \<rightharpoonup> 'a list)" where
  "bucket_by key xs = foldl (bucket_add key) Map.empty xs"

lemma bucket_by_snoc: "bucket_by key (xs @ [x]) = bucket_add key (bucket_by key xs) x"
  by (simp add: bucket_by_def)

lemma bucket_get: "nullish (bucket_by key xs k) [] = filter (\<lambda>x. key x = k) xs"
proof (induction xs rule: rev_induct)
  case (snoc x xs)
  then show ?case by (auto simp: bucket_by_snoc bucket_add_def)
qed (simp add: bucket_by_def)

section \<open>Sorting\<close>

text \<open>\<open>xs.slice().sort(cmp)\<close> is stable: an element is put after those it does not precede.\<close>

fun insert_cmp :: "('a \<Rightarrow> 'a \<Rightarrow> int) \<Rightarrow> 'a \<Rightarrow> 'a list \<Rightarrow> 'a list" where
  "insert_cmp cmp x [] = [x]"
| "insert_cmp cmp x (y # ys) = (if cmp x y \<le> 0 then x # y # ys else y # insert_cmp cmp x ys)"

definition js_sort :: "('a \<Rightarrow> 'a \<Rightarrow> int) \<Rightarrow> 'a list \<Rightarrow> 'a list" where
  "js_sort cmp xs = foldr (insert_cmp cmp) xs []"

lemma mset_insert_cmp [simp]: "mset (insert_cmp cmp x xs) = add_mset x (mset xs)"
  by (induction xs) auto

lemma mset_js_sort [simp]: "mset (js_sort cmp xs) = mset xs"
  by (induction xs) (simp_all add: js_sort_def)

lemma set_js_sort [simp]: "set (js_sort cmp xs) = set xs"
  by (metis mset_js_sort set_mset_mset)

lemma length_js_sort [simp]: "length (js_sort cmp xs) = length xs"
  by (metis mset_js_sort size_mset)

lemma js_sort_Nil [simp]: "js_sort cmp [] = []"
  by (simp add: js_sort_def)

lemma distinct_map_js_sort [simp]: "distinct (map f (js_sort cmp xs)) = distinct (map f xs)"
  by (metis mset_js_sort mset_map mset_eq_imp_distinct_iff)

lemma sum_list_js_sort [simp]:
  fixes g :: "'a \<Rightarrow> nat"
  shows "sum_list (map g (js_sort cmp xs)) = sum_list (map g xs)"
  by (metis mset_js_sort mset_map sum_mset_sum_list)

section \<open>Collecting optional results\<close>

text \<open>All results of a loop whose steps may run out of fuel\<close>

fun collect :: "'a option list \<Rightarrow> 'a list option" where
  "collect [] = Some []"
| "collect (None # xs) = None"
| "collect (Some x # xs) = map_option (Cons x) (collect xs)"

lemma collect_Some_iff: "collect xs = Some ys \<longleftrightarrow> xs = map Some ys"
  by (induction xs arbitrary: ys rule: collect.induct) auto

lemma collect_total: "(\<And>x. x \<in> set xs \<Longrightarrow> x \<noteq> None) \<Longrightarrow> \<exists>ys. collect xs = Some ys"
proof (induction xs rule: collect.induct)
  case (3 x xs)
  then have "\<exists>ys. collect xs = Some ys" by simp
  then show ?case by auto
qed auto

lemma collect_mono:
  assumes "collect (map f xs) = Some ys" "\<And>x y. x \<in> set xs \<Longrightarrow> f x = Some y \<Longrightarrow> g x = Some y"
  shows "collect (map g xs) = Some ys"
proof -
  have e: "map f xs = map Some ys" using assms(1) by (simp add: collect_Some_iff)
  then have "map g xs = map Some ys"
    using assms(2) by (auto simp: list_eq_iff_nth_eq)
  then show ?thesis by (simp add: collect_Some_iff)
qed

section \<open>The shape of a folder forest\<close>

locale forest =
  fixes ok :: "'f list \<Rightarrow> bool"
    and kids :: "'f list \<Rightarrow> int \<Rightarrow> 'f list"
    and ident :: "'f \<Rightarrow> int"
  assumes kid_listed: "f \<in> set (kids fs k) \<Longrightarrow> f \<in> set fs"
    and one_parent: "f \<in> set (kids fs a) \<Longrightarrow> f \<in> set (kids fs b) \<Longrightarrow> a = b"
    and kids_distinct: "ok fs \<Longrightarrow> distinct (kids fs k)"
    and listed_once: "ok fs \<Longrightarrow> distinct fs"
    and ident_inj: "ok fs \<Longrightarrow> f \<in> set fs \<Longrightarrow> g \<in> set fs \<Longrightarrow> ident f = ident g \<Longrightarrow> f = g"
    and ident_root: "ok fs \<Longrightarrow> f \<in> set fs \<Longrightarrow> ident f \<noteq> 0"
begin

text \<open>A chain of folders from one of them up to a child of the root.\<close>

inductive chain :: "'f list \<Rightarrow> 'f list \<Rightarrow> bool" for fs where
  top: "f \<in> set (kids fs 0) \<Longrightarrow> chain fs [f]"
| below: "chain fs (f # p) \<Longrightarrow> g \<in> set (kids fs (ident f)) \<Longrightarrow> chain fs (g # f # p)"

inductive_cases chain_NilE: "chain fs []"
inductive_cases chain_oneE: "chain fs [f]"
inductive_cases chain_stepE: "chain fs (g # f # p)"

lemma chain_listed: "chain fs p \<Longrightarrow> set p \<subseteq> set fs"
  by (induction rule: chain.induct) (auto dest: kid_listed)

lemma chain_unique:
  assumes "ok fs" "chain fs p" "chain fs q" "hd p = hd q"
  shows "p = q"
  using assms(2-)
proof (induction arbitrary: q rule: chain.induct)
  case (top f)
  then show ?case
  proof (cases rule: chain.cases [OF top(2)])
    case (2 g r h)
    then have "ident g = 0" using one_parent [of f fs 0 "ident g"] top by simp
    moreover have "g \<in> set fs" using chain_listed [OF 2(2)] by simp
    ultimately show ?thesis using ident_root [OF assms(1)] by blast
  qed auto
next
  case (below f p g)
  show ?case
  proof (cases rule: chain.cases [OF below(4)])
    case (1 h)
    then have "ident f = 0" using one_parent [of g fs 0 "ident f"] below by simp
    moreover have "f \<in> set fs" using chain_listed [OF below(1)] by simp
    ultimately show ?thesis using ident_root [OF assms(1)] by blast
  next
    case (2 h r k)
    have "ident h = ident f" using one_parent [of g fs "ident h" "ident f"] below 2 by simp
    moreover have "h \<in> set fs" "f \<in> set fs" using chain_listed [OF 2(2)] chain_listed [OF below(1)] by auto
    ultimately have "h = f" using ident_inj [OF assms(1)] by blast
    with below.IH [OF 2(2)] 2 below.prems show ?thesis by simp
  qed
qed

lemma chain_suffix: "chain fs p \<Longrightarrow> p = a @ g # b \<Longrightarrow> chain fs (g # b)"
proof (induction arbitrary: a rule: chain.induct)
  case (top f)
  then show ?case by (cases a) (auto intro: chain.top)
next
  case (below f p h)
  then show ?case by (cases a) (auto intro: chain.below)
qed

lemma chain_distinct:
  assumes "ok fs"
  shows "chain fs p \<Longrightarrow> distinct p"
proof (induction rule: chain.induct)
  case (below f p g)
  have "g \<notin> set (f # p)"
  proof
    assume "g \<in> set (f # p)"
    then obtain a b where ab: "f # p = a @ g # b" by (meson split_list)
    then have "chain fs (g # b)" using chain_suffix below.hyps(1) by blast
    then have "g # f # p = g # b"
      using chain_unique [OF assms] chain.below [OF below.hyps] by (metis list.sel(1))
    then show False using ab by (metis append_eq_conv_conj impossible_Cons length_append le_add2 list.sel(3))
  qed
  with below.IH show ?case by simp
qed simp

lemma chain_bounded: "ok fs \<Longrightarrow> chain fs p \<Longrightarrow> length p \<le> length fs"
  by (metis card_length card_mono chain_distinct chain_listed distinct_card finite_set order_trans)

lemma chain_head_unique:
  assumes "ok fs" "chain fs (a @ f # p)" "chain fs (b @ g # p)" "hd (a @ [f]) = hd (b @ [g])"
  shows "f = g"
proof -
  have "hd (a @ f # p) = hd (b @ g # p)" using assms(4) by (cases a; cases b) auto
  then have "a @ f # p = b @ g # p" using chain_unique [OF assms(1-3)] by simp
  then have "(a @ [f]) @ p = (b @ [g]) @ p" by simp
  then show ?thesis by (simp only: append_same_eq) simp
qed

text \<open>The folders of a subtree, in preorder; the fuel bounds the depth.\<close>

fun subtree :: "'f list \<Rightarrow> nat \<Rightarrow> 'f \<Rightarrow> 'f list" where
  "subtree fs 0 f = []"
| "subtree fs (Suc n) f = f # concat (map (subtree fs n) (kids fs (ident f)))"

lemma subtree_chain:
  "chain fs (f # p) \<Longrightarrow> g \<in> set (subtree fs n f) \<Longrightarrow> \<exists>a. chain fs (a @ f # p) \<and> g = hd (a @ [f])"
proof (induction n arbitrary: f p)
  case (Suc n)
  show ?case
  proof (cases "g = f")
    case True
    then show ?thesis using Suc.prems by (intro exI [of _ "[]"]) simp
  next
    case False
    then obtain h where h: "h \<in> set (kids fs (ident f))" "g \<in> set (subtree fs n h)"
      using Suc.prems by auto
    obtain a where "chain fs (a @ h # f # p)" "g = hd (a @ [h])"
      using Suc.IH [OF chain.below [OF Suc.prems(1) h(1)] h(2)] by blast
    then show ?thesis by (intro exI [of _ "a @ [h]"]) (cases a; simp)
  qed
qed simp

lemma subtree_disjoint:
  assumes "ok fs" "chain fs (f # p)" "chain fs (g # p)" "f \<noteq> g"
  shows "set (subtree fs n f) \<inter> set (subtree fs n g) = {}"
proof (rule Int_emptyI)
  fix x assume "x \<in> set (subtree fs n f)" "x \<in> set (subtree fs n g)"
  then obtain a b where "chain fs (a @ f # p)" "x = hd (a @ [f])" "chain fs (b @ g # p)" "x = hd (b @ [g])"
    using subtree_chain assms(2,3) by meson
  then show False using chain_head_unique [OF assms(1)] assms(4) by metis
qed

lemma distinct_subtrees:
  assumes "distinct xs" "\<And>x. x \<in> set xs \<Longrightarrow> distinct (h x)"
    "\<And>x y. x \<in> set xs \<Longrightarrow> y \<in> set xs \<Longrightarrow> x \<noteq> y \<Longrightarrow> set (h x) \<inter> set (h y) = {}"
  shows "distinct (concat (map h xs))"
  using assms
proof (induction xs)
  case (Cons x xs)
  have "set (h x) \<inter> set (h y) = {}" if "y \<in> set xs" for y
    using Cons.prems(1,3) that by (metis distinct.simps(2) list.set_intros(1) list.set_intros(2))
  moreover have "distinct (concat (map h xs))" using Cons by simp
  ultimately show ?case using Cons.prems(2) by auto
qed simp

lemma distinct_subtree: "ok fs \<Longrightarrow> chain fs (f # p) \<Longrightarrow> distinct (subtree fs n f)"
proof (induction n arbitrary: f p)
  case (Suc n)
  have kid: "chain fs (h # f # p)" if "h \<in> set (kids fs (ident f))" for h
    using chain.below [OF Suc.prems(2) that] .
  have "distinct (concat (map (subtree fs n) (kids fs (ident f))))"
    using kids_distinct [OF Suc.prems(1)] Suc.IH [OF Suc.prems(1) kid] subtree_disjoint [OF Suc.prems(1) kid kid]
    by (intro distinct_subtrees) auto
  moreover have "f \<notin> set (subtree fs n h)" if hin: "h \<in> set (kids fs (ident f))" for h
  proof
    assume "f \<in> set (subtree fs n h)"
    then obtain a where a: "chain fs (a @ h # f # p)" "f = hd (a @ [h])"
      using subtree_chain [OF kid [OF hin]] by blast
    have "f \<in> set (a @ [h])" using a(2) by (cases a) auto
    then show False using chain_distinct [OF Suc.prems(1) a(1)] by auto
  qed
  ultimately show ?case by auto
qed simp

lemma subtree_complete:
  "ok fs \<Longrightarrow> chain fs (a @ f # p) \<Longrightarrow> length fs \<le> n + length p \<Longrightarrow> hd (a @ [f]) \<in> set (subtree fs n f)"
proof (induction n arbitrary: a f p)
  case 0
  have "length (a @ f # p) \<le> length fs" using chain_bounded [OF 0(1,2)] .
  with 0 show ?case by simp
next
  case (Suc n)
  show ?case
  proof (cases a rule: rev_cases)
    case (snoc b h)
    have "chain fs (h # f # p)" using chain_suffix [OF Suc.prems(2), of b h "f # p"] snoc by simp
    then have h: "h \<in> set (kids fs (ident f))" by (rule chain_stepE)
    have "hd (b @ [h]) \<in> set (subtree fs n h)"
      using Suc.prems snoc by (intro Suc.IH [of b h "f # p"]) auto
    moreover have "hd (a @ [f]) = hd (b @ [h])" using snoc by (cases b) auto
    ultimately show ?thesis using h by auto
  qed simp
qed

lemma subtree_fuel:
  "ok fs \<Longrightarrow> chain fs (f # p) \<Longrightarrow> length fs \<le> n + length p \<Longrightarrow> length fs \<le> m + length p \<Longrightarrow>
   subtree fs n f = subtree fs m f"
proof (induction n arbitrary: m f p)
  case 0
  have "length (f # p) \<le> length fs" using chain_bounded [OF 0(1,2)] .
  with 0 show ?case by simp
next
  case (Suc n)
  have "length (f # p) \<le> length fs" using chain_bounded [OF Suc.prems(1,2)] .
  then obtain k where m: "m = Suc k" using Suc.prems(4) by (cases m) auto
  have "subtree fs n h = subtree fs k h" if "h \<in> set (kids fs (ident f))" for h
    using Suc.prems m by (intro Suc.IH [OF _ chain.below [OF Suc.prems(2) that]]) auto
  then have "map (subtree fs n) (kids fs (ident f)) = map (subtree fs k) (kids fs (ident f))" by simp
  then show ?case by (simp only: m subtree.simps)
qed

lemma chain_root: "chain fs p \<Longrightarrow> \<exists>a f. p = a @ [f] \<and> f \<in> set (kids fs 0)"
proof (induction rule: chain.induct)
  case (top f)
  then show ?case by (intro exI [of _ "[]"]) auto
next
  case (below f p g)
  then obtain a h where "f # p = a @ [h]" "h \<in> set (kids fs 0)" by blast
  then show ?case by (intro exI [of _ "g # a"] exI [of _ h]) simp
qed

text \<open>When every folder hangs on the root, the subtrees of the root folders contain each folder once.\<close>

lemma subtrees_partition:
  assumes "ok fs" "\<And>f. f \<in> set fs \<Longrightarrow> \<exists>p. chain fs (f # p)"
  shows "mset (concat (map (subtree fs (length fs)) (kids fs 0))) = mset fs"
proof -
  let ?all = "concat (map (subtree fs (length fs)) (kids fs 0))"
  have top: "chain fs (f # [])" if "f \<in> set (kids fs 0)" for f using chain.top [OF that] .
  have "distinct ?all"
    using kids_distinct [OF assms(1)] distinct_subtree [OF assms(1) top] subtree_disjoint [OF assms(1) top top]
    by (intro distinct_subtrees) auto
  moreover have "set ?all = set fs"
  proof
    show "set ?all \<subseteq> set fs"
    proof
      fix x assume "x \<in> set ?all"
      then obtain f where f: "f \<in> set (kids fs 0)" "x \<in> set (subtree fs (length fs) f)" by auto
      obtain a where a: "chain fs (a @ f # [])" "x = hd (a @ [f])" using subtree_chain [OF top [OF f(1)] f(2)] by blast
      have "x \<in> set (a @ f # [])" using a(2) by (cases a) auto
      then show "x \<in> set fs" using chain_listed [OF a(1)] by blast
    qed
    show "set fs \<subseteq> set ?all"
    proof
      fix x assume "x \<in> set fs"
      then obtain p where c: "chain fs (x # p)" using assms(2) by blast
      then obtain a f where a: "x # p = a @ [f]" "f \<in> set (kids fs 0)" using chain_root by blast
      have "hd (a @ [f]) \<in> set (subtree fs (length fs) f)"
        using c a(1) by (intro subtree_complete [OF assms(1), where p = "[]"]) auto
      moreover have "hd (a @ [f]) = x" using a(1) by (metis list.sel(1))
      ultimately show "x \<in> set ?all" using a(2) by auto
    qed
  qed
  ultimately show ?thesis using listed_once [OF assms(1)] set_eq_iff_mset_eq_distinct by blast
qed

end

end
