(* ===== verification/ApiTypes.thy ===== *)
theory ApiTypes
  imports JsString
begin

text \<open>
  The records of \<open>lib/api/types.ts\<close> that the modelled components read. Ids are integers; a protocol
  is kept as its string value; optional fields are options. The presentation lists of a node
  (\<open>proxy_names\<close>, \<open>tag_list\<close>) are never read by the modelled code and are kept opaque as strings.
\<close>

datatype GranteeKind = GUser | GRole | GGroup | GDepartment

record GranteeRef =
  gr_type :: GranteeKind
  gr_id :: int

record NodeAccess =
  na_node_id :: int
  na_actions :: "string list"
  na_sources :: "GranteeRef list"
  na_valid_to :: "string option"
  na_group_ids :: "int list option"

record AccessFolder =
  af_id :: int
  af_owner_type :: GranteeKind
  af_owner_id :: int
  af_name :: string
  af_parent_id :: "int option"
  af_path :: string
  af_icon :: "string option"
  af_sort_order :: "int option"
  af_actions :: "string option"
  af_valid_from :: "string option"
  af_valid_to :: "string option"

record AccessItem =
  ai_id :: int
  ai_owner_type :: GranteeKind
  ai_owner_id :: int
  ai_folder_id :: int
  ai_node_id :: int
  ai_actions :: "string option"
  ai_valid_from :: "string option"
  ai_valid_to :: "string option"
  ai_sort_order :: "int option"

record AssetGroup =
  ag_id :: int
  ag_name :: string
  ag_parent_id :: "int option"
  ag_path :: string
  ag_description :: "string option"
  ag_node_ids :: "int list option"

record Node =
  nd_id :: int
  nd_name :: string
  nd_protocol :: string
  nd_host :: string
  nd_port :: int
  nd_username :: string
  nd_credential_id :: int
  nd_proxy_chain :: string
  nd_domain_id :: "int option"
  nd_proto_options :: "string option"
  nd_tags :: "string option"
  nd_icon :: "string option"
  nd_region :: "string option"
  nd_description :: "string option"
  nd_disabled :: "bool option"
  nd_requires_approval_for_connect :: "bool option"
  nd_requires_approval_for_file_xfer :: "bool option"
  nd_credential_name :: "string option"
  nd_proxy_names :: "string option"
  nd_tag_list :: "string option"
  nd_created_at :: "string option"
  nd_updated_at :: "string option"

end
