(* ===== verification/AccessTree.thy ===== *)
theory AccessTree
  imports Forest ApiTypes Complex_Main
begin

text \<open>
  The pure logic of the authorisation-tree workbench,
  \<open>app/(app)/admin/asset-grants/access-tree/tree-model.ts\<close>: flattening the folder and item tree into
  display rows, hiding the subtree of a dragged folder, projecting a drag onto a parent and depth,
  the effective permission of an item after inheritance, and the insight totals. Locale comparison of
  names is a parameter. The recursive \<open>walk\<close> carries fuel: each call goes one level down.
\<close>

section \<open>Rows\<close>

datatype FlatKind = KFolder | KItem

record 'n FlatRow =
  row_id :: string
  row_kind :: FlatKind
  row_fid :: "int option"
  row_folder :: "AccessFolder option"
  row_item :: "AccessItem option"
  row_node :: "'n option"
  row_parent :: "string option"
  row_depth :: int
  hasChildren :: bool
  collapsed :: bool

definition fId :: "int \<Rightarrow> string" where
  "fId i = ''folder:'' @ show_int i"

definition iId :: "int \<Rightarrow> string" where
  "iId i = ''item:'' @ show_int i"

definition bySort :: "(string \<Rightarrow> string \<Rightarrow> int) \<Rightarrow> AccessFolder \<Rightarrow> AccessFolder \<Rightarrow> int" where
  "bySort localeCompare a b =
     (let d = nullish (af_sort_order a) 0 - nullish (af_sort_order b) 0
      in if d \<noteq> 0 then d else localeCompare (af_name a) (af_name b))"

definition by_order :: "AccessItem \<Rightarrow> AccessItem \<Rightarrow> int" where
  "by_order a b = nullish (ai_sort_order a) 0 - nullish (ai_sort_order b) 0"

text \<open>The key under which a folder is filed: its parent if that folder exists, else the root \<open>0\<close>.\<close>

definition folder_key :: "AccessFolder list \<Rightarrow> AccessFolder \<Rightarrow> int" where
  "folder_key folders f =
     (case af_parent_id f of
        Some p \<Rightarrow> if p \<in> af_id ` set folders then p else 0
      | None \<Rightarrow> 0)"

definition childFolders :: "AccessFolder list \<Rightarrow> int \<Rightarrow> AccessFolder list" where
  "childFolders folders k = nullish (bucket_by (folder_key folders) folders k) []"

definition itemsByFolder :: "AccessItem list \<Rightarrow> int \<Rightarrow> AccessItem list" where
  "itemsByFolder items k = nullish (bucket_by ai_folder_id items k) []"

definition folder_row ::
    "AccessFolder list \<Rightarrow> AccessItem list \<Rightarrow> int set \<Rightarrow> int \<Rightarrow> string option \<Rightarrow> AccessFolder \<Rightarrow> 'n FlatRow" where
  "folder_row folders items shut depth parentRow f =
     \<lparr>row_id = fId (af_id f), row_kind = KFolder, row_fid = Some (af_id f), row_folder = Some f,
      row_item = None, row_node = None, row_parent = parentRow, row_depth = depth,
      hasChildren = (0 < length (childFolders folders (af_id f))
        \<or> 0 < length (js_sort by_order (itemsByFolder items (af_id f)))),
      collapsed = (af_id f \<in> shut)\<rparr>"

definition item_row :: "(int \<rightharpoonup> 'n) \<Rightarrow> int \<Rightarrow> string \<Rightarrow> AccessItem \<Rightarrow> 'n FlatRow" where
  "item_row nodeById depth parentRow it =
     \<lparr>row_id = iId (ai_id it), row_kind = KItem, row_fid = None, row_folder = None,
      row_item = Some it, row_node = nodeById (ai_node_id it), row_parent = Some parentRow,
      row_depth = depth, hasChildren = False, collapsed = False\<rparr>"

text \<open>The recursive closure \<open>walk\<close> of \<open>flatten\<close>; \<open>None\<close> when the fuel runs out.\<close>

fun walk ::
    "(string \<Rightarrow> string \<Rightarrow> int) \<Rightarrow> AccessFolder list \<Rightarrow> AccessItem list \<Rightarrow> (int \<rightharpoonup> 'n) \<Rightarrow> int set \<Rightarrow>
     nat \<Rightarrow> int \<Rightarrow> int \<Rightarrow> string option \<Rightarrow> 'n FlatRow list option" where
  "walk lc folders items nodeById shut 0 parentId depth parentRow = None"
| "walk lc folders items nodeById shut (Suc n) parentId depth parentRow =
     map_option concat (collect (map (\<lambda>f.
       (if af_id f \<in> shut then Some [folder_row folders items shut depth parentRow f]
        else map_option (\<lambda>sub.
            folder_row folders items shut depth parentRow f # sub
            @ map (item_row nodeById (depth + 1) (fId (af_id f)))
                (js_sort by_order (itemsByFolder items (af_id f))))
          (walk lc folders items nodeById shut n (af_id f) (depth + 1) (Some (fId (af_id f))))))
       (js_sort (bySort lc) (childFolders folders parentId))))"

definition flatten ::
    "(string \<Rightarrow> string \<Rightarrow> int) \<Rightarrow> AccessFolder list \<Rightarrow> AccessItem list \<Rightarrow> (int \<rightharpoonup> 'n) \<Rightarrow> int set \<Rightarrow>
     'n FlatRow list option" where
  "flatten lc folders items nodeById shut =
     walk lc folders items nodeById shut (Suc (length folders)) 0 0 None"

section \<open>Dragging\<close>

text \<open>The two sets of \<open>removeChildrenOf\<close>: \<open>(exclude, excludeParents)\<close>\<close>

definition exclude_step :: "string set \<times> string set \<Rightarrow> 'n FlatRow \<Rightarrow> string set \<times> string set" where
  "exclude_step st r =
     (case row_parent r of
        Some p \<Rightarrow>
          if p \<noteq> [] \<and> (p \<in> snd st \<or> p \<in> fst st)
          then (insert (row_id r) (fst st),
                if hasChildren r then insert (row_id r) (snd st) else snd st)
          else st
      | None \<Rightarrow> st)"

definition removeChildrenOf :: "'n FlatRow list \<Rightarrow> string list \<Rightarrow> 'n FlatRow list" where
  "removeChildrenOf rows ids =
     (let exclude = fst (foldl exclude_step ({}, set ids) rows)
      in filter (\<lambda>r. row_id r \<notin> exclude) rows)"

definition clamp :: "int \<Rightarrow> int \<Rightarrow> int \<Rightarrow> int" where
  "clamp n mn mx = max mn (min n mx)"

definition arrayMoveLite :: "'a list \<Rightarrow> nat \<Rightarrow> nat \<Rightarrow> 'a list" where
  "arrayMoveLite arr from to = insert_at to (arr ! from) (remove_at from arr)"

record Projection =
  pr_depth :: int
  pr_parent :: "string option"

definition js_round :: "real \<Rightarrow> int" where
  "js_round x = \<lfloor>x + 1 / 2\<rfloor>"

text \<open>An array read that may be out of range: \<open>undefined\<close> is \<open>None\<close>.\<close>

definition at_index :: "'a list \<Rightarrow> int \<Rightarrow> 'a option" where
  "at_index xs i = (if 0 \<le> i \<and> nat i < length xs then Some (xs ! nat i) else None)"

definition is_folder_id :: "string \<Rightarrow> bool" where
  "is_folder_id s = prefix ''folder:'' s"

text \<open>The closure \<open>getParentId\<close>\<close>

definition projected_parent :: "'n FlatRow list \<Rightarrow> 'n FlatRow option \<Rightarrow> int \<Rightarrow> string option" where
  "projected_parent before previous depth =
     (case previous of
        None \<Rightarrow> None
      | Some p \<Rightarrow>
          if depth = 0 then None
          else if depth = row_depth p then row_parent p
          else if row_depth p < depth then
            (if row_kind p = KFolder then Some (row_id p) else row_parent p)
          else (case List.find (\<lambda>r. row_depth r = depth) (rev before) of
                  Some r \<Rightarrow> row_parent r
                | None \<Rightarrow> None))"

definition getProjection ::
    "'n FlatRow list \<Rightarrow> string \<Rightarrow> string \<Rightarrow> real \<Rightarrow> real \<Rightarrow> Projection option" where
  "getProjection rows activeId overId dragOffsetX indent =
     (case (find_index (\<lambda>r. row_id r = overId) rows, find_index (\<lambda>r. row_id r = activeId) rows) of
        (Some overIndex, Some activeIndex) \<Rightarrow>
          (let active = rows ! activeIndex;
               newRows = arrayMoveLite rows activeIndex overIndex;
               previous = at_index newRows (int overIndex - 1);
               next = at_index newRows (int overIndex + 1);
               projectedDepth = row_depth active + js_round (dragOffsetX / indent);
               maxDepth = (case previous of
                   Some p \<Rightarrow> if row_kind p = KFolder then row_depth p + 1 else row_depth p
                 | None \<Rightarrow> 0);
               minDepth = (case next of Some r \<Rightarrow> row_depth r | None \<Rightarrow> 0);
               depth = clamp projectedDepth minDepth maxDepth;
               before = take overIndex newRows;
               parentId = projected_parent before previous depth
           in if row_kind active = KItem then
                (if (case parentId of None \<Rightarrow> True | Some p \<Rightarrow> \<not> is_folder_id p) then
                   (case List.find (\<lambda>r. row_kind r = KFolder) (rev before) of
                      None \<Rightarrow> None
                    | Some folderAbove \<Rightarrow>
                        Some \<lparr>pr_depth = max 1 (row_depth folderAbove + 1),
                              pr_parent = Some (row_id folderAbove)\<rparr>)
                 else Some \<lparr>pr_depth = depth, pr_parent = parentId\<rparr>)
              else
                (if (case parentId of None \<Rightarrow> False | Some p \<Rightarrow> \<not> is_folder_id p)
                 then Some \<lparr>pr_depth = depth, pr_parent = None\<rparr>
                 else Some \<lparr>pr_depth = depth, pr_parent = parentId\<rparr>))
      | _ \<Rightarrow> None)"

section \<open>Effective permission\<close>

record Eff =
  eff_actions :: "string list"
  eff_validTo :: "string option"
  inheritedActions :: bool
  inheritedValid :: bool

definition csv_parts :: "string \<Rightarrow> string list" where
  "csv_parts s = filter (\<lambda>p. p \<noteq> []) (split_on CHR '','' s)"

text \<open>One turn of the loop that walks up the folder chain, before the \<open>break\<close> test.\<close>

definition inherit_step :: "Eff \<Rightarrow> AccessFolder \<Rightarrow> Eff" where
  "inherit_step e cur =
     (let e1 = (if eff_actions e = [] \<and> truthy_str (af_actions cur)
                then e\<lparr>eff_actions := csv_parts (the (af_actions cur)), inheritedActions := True\<rparr> else e)
      in if eff_validTo e1 = None \<and> truthy_str (af_valid_to cur)
         then e1\<lparr>eff_validTo := af_valid_to cur, inheritedValid := True\<rparr> else e1)"

text \<open>\<open>while (cur && guard++ < 64)\<close>: the first argument is what is left of the guard.\<close>

fun inherit_loop :: "nat \<Rightarrow> (int \<rightharpoonup> AccessFolder) \<Rightarrow> AccessFolder option \<Rightarrow> Eff \<Rightarrow> Eff" where
  "inherit_loop 0 folderById cur e = e"
| "inherit_loop (Suc n) folderById None e = e"
| "inherit_loop (Suc n) folderById (Some cur) e =
     (let e' = inherit_step e cur
      in if eff_actions e' \<noteq> [] \<and> eff_validTo e' \<noteq> None then e'
         else inherit_loop n folderById
                (case af_parent_id cur of Some p \<Rightarrow> folderById p | None \<Rightarrow> None) e')"

definition effectiveForItem :: "AccessItem \<Rightarrow> (int \<rightharpoonup> AccessFolder) \<Rightarrow> Eff" where
  "effectiveForItem it folderById =
     (let e0 = \<lparr>eff_actions = csv_parts (nullish (ai_actions it) []), eff_validTo = ai_valid_to it,
                inheritedActions = False, inheritedValid = False\<rparr>;
          e1 = (if eff_actions e0 = [] \<or> eff_validTo e0 = None
                then inherit_loop 64 folderById (folderById (ai_folder_id it)) e0 else e0)
      in if eff_actions e1 = [] then e1\<lparr>eff_actions := [''connect'']\<rparr> else e1)"

section \<open>Insight\<close>

record Insight =
  ins_assets :: nat
  ins_byAction :: "string \<rightharpoonup> nat"
  ins_expiring :: nat

definition bump :: "(string \<rightharpoonup> nat) \<Rightarrow> string \<Rightarrow> (string \<rightharpoonup> nat)" where
  "bump m a = m(a \<mapsto> nullish (m a) 0 + 1)"

definition insight_step ::
    "(int \<rightharpoonup> AccessFolder) \<Rightarrow> int set \<times> (string \<rightharpoonup> nat) \<times> nat \<Rightarrow> AccessItem \<Rightarrow>
     int set \<times> (string \<rightharpoonup> nat) \<times> nat" where
  "insight_step folderById st it =
     (case st of (nodes, byAction, expiring) \<Rightarrow>
        let eff = effectiveForItem it folderById
        in (insert (ai_node_id it) nodes, foldl bump byAction (eff_actions eff),
            if truthy_str (eff_validTo eff) then expiring + 1 else expiring))"

definition computeInsight :: "AccessItem list \<Rightarrow> (int \<rightharpoonup> AccessFolder) \<Rightarrow> Insight" where
  "computeInsight items folderById =
     (case foldl (insight_step folderById) ({}, Map.empty, 0) items of
        (nodes, byAction, expiring) \<Rightarrow>
          \<lparr>ins_assets = card nodes, ins_byAction = byAction, ins_expiring = expiring\<rparr>)"

section \<open>Flattening\<close>

definition folders_ok :: "AccessFolder list \<Rightarrow> bool" where
  "folders_ok folders \<longleftrightarrow> distinct (map af_id folders) \<and> 0 \<notin> af_id ` set folders"

lemma childFolders_eq: "childFolders folders k = filter (\<lambda>f. folder_key folders f = k) folders"
  by (simp add: childFolders_def bucket_get)

lemma itemsByFolder_eq: "itemsByFolder items k = filter (\<lambda>it. ai_folder_id it = k) items"
  by (simp add: itemsByFolder_def bucket_get)

interpretation ft: forest folders_ok childFolders af_id
  by unfold_locales (auto simp: childFolders_eq folders_ok_def distinct_map inj_on_def)

text \<open>The rows are an outline: a folder is followed by the rows below it, one level deeper and
  filed under it; items are leaves and never at the root.\<close>

inductive outline :: "string option \<Rightarrow> int \<Rightarrow> 'n FlatRow list \<Rightarrow> bool" where
  outline_Nil: "outline p d []"
| outline_item: "row_kind r = KItem \<Longrightarrow> row_parent r = Some q \<Longrightarrow> row_depth r = d \<Longrightarrow> \<not> hasChildren r \<Longrightarrow>
    outline (Some q) d rest \<Longrightarrow> outline (Some q) d (r # rest)"
| outline_folder: "row_kind r = KFolder \<Longrightarrow> is_folder_id (row_id r) \<Longrightarrow> row_parent r = p \<Longrightarrow> row_depth r = d \<Longrightarrow>
    (sub \<noteq> [] \<Longrightarrow> hasChildren r) \<Longrightarrow> outline (Some (row_id r)) (d + 1) sub \<Longrightarrow> outline p d rest \<Longrightarrow>
    outline p d (r # sub @ rest)"

lemma outline_append: "outline p d a \<Longrightarrow> outline p d b \<Longrightarrow> outline p d (a @ b)"
  by (induction rule: outline.induct) (auto intro: outline.intros)

lemma outline_concat: "(\<And>b. b \<in> set bs \<Longrightarrow> outline p d b) \<Longrightarrow> outline p d (concat bs)"
  by (induction bs) (auto intro: outline.intros outline_append)

lemma outline_items:
  "outline (Some q) d (map (item_row nodeById d q) its)"
  by (induction its) (auto simp: item_row_def intro!: outline.intros)

lemma outline_single:
  "row_kind r = KFolder \<Longrightarrow> is_folder_id (row_id r) \<Longrightarrow> outline (row_parent r) (row_depth r) [r]"
  using outline_folder [of r "row_parent r" "row_depth r" "[]" "[]"] by (simp add: outline_Nil)

lemma is_folder_fId [simp]: "is_folder_id (fId i)" "\<not> is_folder_id (iId i)"
  by (simp_all add: is_folder_id_def fId_def iId_def)

lemma fId_inject [simp]: "fId i = fId j \<longleftrightarrow> i = j" "iId i = iId j \<longleftrightarrow> i = j"
  by (simp_all add: fId_def iId_def show_int_inject)

lemma fId_iId [simp]: "fId i \<noteq> iId j" "iId j \<noteq> fId i" "fId i \<noteq> []"
  by (simp_all add: fId_def iId_def)

lemma folder_row_simps [simp]:
  "row_id (folder_row fs its sh d p f) = fId (af_id f)"
  "row_kind (folder_row fs its sh d p f) = KFolder"
  "row_parent (folder_row fs its sh d p f) = p"
  "row_depth (folder_row fs its sh d p f) = d"
  "row_folder (folder_row fs its sh d p f) = Some f"
  by (simp_all add: folder_row_def)

lemma item_row_simps [simp]:
  "row_id (item_row nb d p it) = iId (ai_id it)"
  "row_kind (item_row nb d p it) = KItem"
  "row_parent (item_row nb d p it) = Some p"
  "row_depth (item_row nb d p it) = d"
  "row_folder (item_row nb d p it) = None"
  "row_item (item_row nb d p it) = Some it"
  by (simp_all add: item_row_def)

text \<open>The block of rows that \<open>walk\<close> produces for one folder\<close>

definition block_of ::
    "(string \<Rightarrow> string \<Rightarrow> int) \<Rightarrow> AccessFolder list \<Rightarrow> AccessItem list \<Rightarrow> (int \<rightharpoonup> 'n) \<Rightarrow> int set \<Rightarrow>
     nat \<Rightarrow> int \<Rightarrow> string option \<Rightarrow> AccessFolder \<Rightarrow> 'n FlatRow list option" where
  "block_of lc folders items nodeById shut n depth parentRow f =
     (if af_id f \<in> shut then Some [folder_row folders items shut depth parentRow f]
      else map_option (\<lambda>sub.
          folder_row folders items shut depth parentRow f # sub
          @ map (item_row nodeById (depth + 1) (fId (af_id f)))
              (js_sort by_order (itemsByFolder items (af_id f))))
        (walk lc folders items nodeById shut n (af_id f) (depth + 1) (Some (fId (af_id f)))))"

lemma walk_Suc:
  "walk lc fs its nb sh (Suc n) pid d prow =
   map_option concat (collect (map (block_of lc fs its nb sh n d prow)
     (js_sort (bySort lc) (childFolders fs pid))))"
  by (simp add: block_of_def [abs_def])

lemma walk_SucE:
  assumes "walk lc fs its nb sh (Suc n) pid d prow = Some rs"
  obtains bs where "rs = concat bs"
    "map (block_of lc fs its nb sh n d prow) (js_sort (bySort lc) (childFolders fs pid)) = map Some bs"
  using assms by (auto simp only: walk_Suc map_option_eq_Some collect_Some_iff)

lemma walk_subtree_nonempty:
  assumes "walk lc fs its nb sh n (af_id f) d prow = Some rs" "rs \<noteq> []"
  shows "hasChildren (folder_row fs its sh' d' p' f)"
proof (cases n)
  case (Suc m)
  obtain bs where bs: "rs = concat bs"
    "map (block_of lc fs its nb sh m d prow) (js_sort (bySort lc) (childFolders fs (af_id f))) = map Some bs"
    using walk_SucE [OF assms(1) [unfolded Suc]] .
  from bs(1) assms(2) have "bs \<noteq> []" by auto
  with bs(2) have "childFolders fs (af_id f) \<noteq> []" by auto
  then show ?thesis by (simp add: folder_row_def)
qed (use assms in simp)

lemma walk_outline:
  "walk lc fs its nb sh n pid d prow = Some rs \<Longrightarrow> outline prow d rs"
proof (induction n arbitrary: pid d prow rs)
  case (Suc n)
  obtain bs where bs: "rs = concat bs"
    "map (block_of lc fs its nb sh n d prow) (js_sort (bySort lc) (childFolders fs pid)) = map Some bs"
    using walk_SucE [OF Suc.prems] .
  have "outline prow d b" if "b \<in> set bs" for b
  proof -
    from that bs(2) obtain f where f: "block_of lc fs its nb sh n d prow f = Some b"
      by (metis (no_types, lifting) imageE image_eqI list.set_map)
    let ?row = "folder_row fs its sh d prow f"
    let ?its = "js_sort by_order (itemsByFolder its (af_id f))"
    show ?thesis
    proof (cases "af_id f \<in> sh")
      case True
      then have "b = [?row]" using f by (simp add: block_of_def)
      then show ?thesis using outline_single [of ?row] by simp
    next
      case False
      then obtain sub where sub: "walk lc fs its nb sh n (af_id f) (d + 1) (Some (fId (af_id f))) = Some sub"
        "b = ?row # sub @ map (item_row nb (d + 1) (fId (af_id f))) ?its"
        using f by (auto simp: block_of_def)
      let ?below = "sub @ map (item_row nb (d + 1) (fId (af_id f))) ?its"
      have below: "outline (Some (fId (af_id f))) (d + 1) ?below"
        by (intro outline_append Suc.IH [OF sub(1)] outline_items)
      have "hasChildren ?row" if "?below \<noteq> []"
        using that walk_subtree_nonempty [OF sub(1)] by (cases "sub = []") (auto simp: folder_row_def)
      then have "outline prow d (?row # ?below @ [])"
        by (intro outline_folder outline_Nil) (use below in simp_all)
      then show ?thesis by (simp add: sub(2))
    qed
  qed
  then show ?case by (simp add: bs(1) outline_concat)
qed simp

lemma walk_total:
  assumes "folders_ok fs"
  shows "(\<And>f. f \<in> set (childFolders fs pid) \<Longrightarrow> ft.chain fs (f # p)) \<Longrightarrow>
    p = [] \<or> ft.chain fs p \<Longrightarrow> length fs < n + length p \<Longrightarrow>
    \<exists>rs. walk lc fs its nb sh n pid d prow = Some rs"
proof (induction n arbitrary: p pid d prow)
  case 0
  then have "ft.chain fs p" by auto
  then show ?case using ft.chain_bounded [OF assms] 0 by fastforce
next
  case (Suc n)
  have "block_of lc fs its nb sh n d prow f \<noteq> None" if "f \<in> set (childFolders fs pid)" for f
  proof -
    have c: "ft.chain fs (f # p)" using Suc.prems(1) that by blast
    then have "\<exists>rs. walk lc fs its nb sh n (af_id f) (d + 1) (Some (fId (af_id f))) = Some rs"
      using Suc.prems(3) by (intro Suc.IH [of "af_id f" "f # p"]) (auto intro: ft.below)
    then show ?thesis by (auto simp: block_of_def)
  qed
  then have "\<exists>bs. collect (map (block_of lc fs its nb sh n d prow)
      (js_sort (bySort lc) (childFolders fs pid))) = Some bs"
    by (intro collect_total) auto
  then show ?case by (auto simp only: walk_Suc)
qed

lemma flatten_total: "folders_ok fs \<Longrightarrow> \<exists>rs. flatten lc fs its nb sh = Some rs"
  unfolding flatten_def
  by (rule walk_total [of fs 0 "[]"]) (auto intro: ft.chain.intros)

lemma walk_more_fuel:
  "walk lc fs its nb sh n pid d prow = Some rs \<Longrightarrow> walk lc fs its nb sh (Suc n) pid d prow = Some rs"
proof (induction n arbitrary: pid d prow rs)
  case (Suc n)
  have "block_of lc fs its nb sh (Suc n) d prow f = Some b"
    if "block_of lc fs its nb sh n d prow f = Some b" for f b
    using that Suc.IH by (auto simp: block_of_def split: if_splits simp del: walk.simps)
  then have "collect (map (block_of lc fs its nb sh (Suc n) d prow) xs) = Some bs"
    if "collect (map (block_of lc fs its nb sh n d prow) xs) = Some bs" for xs bs
    using collect_mono [OF that] by blast
  with Suc.prems show ?case by (auto simp only: walk_Suc map_option_eq_Some)
qed simp

text \<open>The folders that are on display: no folder above them is collapsed.\<close>

inductive shown :: "AccessFolder list \<Rightarrow> int set \<Rightarrow> AccessFolder \<Rightarrow> bool" for fs sh where
  shown_root: "f \<in> set (childFolders fs 0) \<Longrightarrow> shown fs sh f"
| shown_kid: "shown fs sh f \<Longrightarrow> af_id f \<notin> sh \<Longrightarrow> g \<in> set (childFolders fs (af_id f)) \<Longrightarrow> shown fs sh g"

lemma map_SomeE:
  assumes "map g xs = map Some bs"
  shows "x \<in> set xs \<Longrightarrow> \<exists>b \<in> set bs. g x = Some b" "b \<in> set bs \<Longrightarrow> \<exists>x \<in> set xs. g x = Some b"
proof -
  have e: "g ` set xs = Some ` set bs" using arg_cong [OF assms, of set] by simp
  show "\<exists>b \<in> set bs. g x = Some b" if "x \<in> set xs"
  proof -
    have "g x \<in> Some ` set bs" using e that by blast
    then show ?thesis by auto
  qed
  show "\<exists>x \<in> set xs. g x = Some b" if "b \<in> set bs"
  proof -
    have "Some b \<in> g ` set xs" using e that by simp
    then show ?thesis by auto
  qed
qed

lemma walk_kid:
  assumes "walk lc fs its nb sh n pid d prow = Some rs" "f \<in> set (childFolders fs pid)"
  shows "\<exists>m b. block_of lc fs its nb sh m d prow f = Some b \<and> set b \<subseteq> set rs"
proof (cases n)
  case (Suc m)
  obtain bs where bs: "rs = concat bs"
    "map (block_of lc fs its nb sh m d prow) (js_sort (bySort lc) (childFolders fs pid)) = map Some bs"
    using walk_SucE [OF assms(1) [unfolded Suc]] .
  obtain b where b: "b \<in> set bs" "block_of lc fs its nb sh m d prow f = Some b"
    using map_SomeE(1) [OF bs(2), of f] assms(2) by auto
  then have "set b \<subseteq> set rs" unfolding bs(1) by auto
  with b show ?thesis by blast
qed (use assms in simp)

lemma walk_row:
  assumes "walk lc fs its nb sh (Suc m) pid d prow = Some rs" "r \<in> set rs"
  shows "\<exists>f b. f \<in> set (childFolders fs pid) \<and> block_of lc fs its nb sh m d prow f = Some b \<and> r \<in> set b"
proof -
  obtain bs where bs: "rs = concat bs"
    "map (block_of lc fs its nb sh m d prow) (js_sort (bySort lc) (childFolders fs pid)) = map Some bs"
    using walk_SucE [OF assms(1)] .
  obtain b where b: "b \<in> set bs" "r \<in> set b" using assms(2) bs(1) by auto
  show ?thesis using map_SomeE(2) [OF bs(2) b(1)] b(2) by auto
qed

lemma block_cases:
  assumes "block_of lc fs its nb sh m d prow f = Some b" "r \<in> set b"
  obtains (head) "r = folder_row fs its sh d prow f"
  | (sub) sub where "af_id f \<notin> sh" "walk lc fs its nb sh m (af_id f) (d + 1) (Some (fId (af_id f))) = Some sub"
      "r \<in> set sub"
  | (leaf) it where "af_id f \<notin> sh" "it \<in> set its" "ai_folder_id it = af_id f"
      "r = item_row nb (d + 1) (fId (af_id f)) it"
proof (cases "af_id f \<in> sh")
  case True
  then have "r = folder_row fs its sh d prow f" using assms by (auto simp: block_of_def)
  then show ?thesis by (rule head)
next
  case False
  then obtain sub' where s: "walk lc fs its nb sh m (af_id f) (d + 1) (Some (fId (af_id f))) = Some sub'"
    "b = folder_row fs its sh d prow f # sub'
      @ map (item_row nb (d + 1) (fId (af_id f))) (js_sort by_order (itemsByFolder its (af_id f)))"
    using assms(1) by (auto simp: block_of_def simp del: walk.simps)
  then consider "r = folder_row fs its sh d prow f" | "r \<in> set sub'"
    | "r \<in> item_row nb (d + 1) (fId (af_id f)) ` set (itemsByFolder its (af_id f))"
    using assms(2) by auto
  then show ?thesis
  proof cases
    case 1
    then show ?thesis by (rule head)
  next
    case 2
    with False s(1) show ?thesis by (rule sub)
  next
    case 3
    with False show ?thesis by (auto simp: itemsByFolder_eq intro: leaf)
  qed
qed

lemma walk_sound:
  "walk lc fs its nb sh n pid d prow = Some rs \<Longrightarrow> (\<And>f. f \<in> set (childFolders fs pid) \<Longrightarrow> shown fs sh f) \<Longrightarrow>
   r \<in> set rs \<Longrightarrow>
   (\<exists>f. row_kind r = KFolder \<and> row_folder r = Some f \<and> row_id r = fId (af_id f) \<and> shown fs sh f) \<or>
   (\<exists>it g. row_kind r = KItem \<and> row_item r = Some it \<and> row_folder r = None \<and> row_id r = iId (ai_id it) \<and>
      it \<in> set its \<and> shown fs sh g \<and> af_id g \<notin> sh \<and> ai_folder_id it = af_id g)"
proof (induction n arbitrary: pid d prow rs)
  case (Suc n)
  obtain f b where f: "f \<in> set (childFolders fs pid)" "block_of lc fs its nb sh n d prow f = Some b" "r \<in> set b"
    using walk_row [OF Suc.prems(1,3)] by blast
  have sf: "shown fs sh f" using Suc.prems(2) f(1) by blast
  from f(2,3) show ?case
  proof (cases rule: block_cases)
    case (sub sub)
    have kids: "shown fs sh h" if "h \<in> set (childFolders fs (af_id f))" for h
      using shown_kid [OF sf sub(1) that] .
    show ?thesis by (rule Suc.IH [OF sub(2) kids sub(3)])
  qed (use sf in auto)
qed simp

lemma walk_complete:
  assumes "walk lc fs its nb sh n 0 d prow = Some rs" "shown fs sh f"
  shows "(\<exists>d' prow'. folder_row fs its sh d' prow' f \<in> set rs) \<and>
    (af_id f \<notin> sh \<longrightarrow> (\<exists>m d' prow' sub. walk lc fs its nb sh m (af_id f) d' prow' = Some sub \<and> set sub \<subseteq> set rs) \<and>
      (\<forall>it \<in> set its. ai_folder_id it = af_id f \<longrightarrow> (\<exists>d' q. item_row nb d' q it \<in> set rs)))"
  using assms(2)
proof (induction rule: shown.induct)
  case (shown_root f)
  obtain m b where b: "block_of lc fs its nb sh m d prow f = Some b" "set b \<subseteq> set rs"
    using walk_kid [OF assms(1) shown_root] by blast
  then show ?case
    by (fastforce simp: block_of_def itemsByFolder_eq split: if_splits)
next
  case (shown_kid f g)
  then obtain m d' prow' sub where sub: "walk lc fs its nb sh m (af_id f) d' prow' = Some sub" "set sub \<subseteq> set rs"
    by blast
  obtain m2 b where b: "block_of lc fs its nb sh m2 d' prow' g = Some b" "set b \<subseteq> set sub"
    using walk_kid [OF sub(1) shown_kid.hyps(3)] by blast
  then have "set b \<subseteq> set rs" using sub(2) by blast
  with b(1) show ?case
    by (fastforce simp: block_of_def itemsByFolder_eq split: if_splits)
qed

definition home :: "'n FlatRow \<Rightarrow> AccessFolder \<Rightarrow> bool" where
  "home r g \<longleftrightarrow> row_id r = fId (af_id g) \<or>
     (\<exists>it. row_item r = Some it \<and> row_id r = iId (ai_id it) \<and> ai_folder_id it = af_id g)"

lemma walk_home:
  "walk lc fs its nb sh n pid d prow = Some rs \<Longrightarrow> (\<And>f. f \<in> set (childFolders fs pid) \<Longrightarrow> ft.chain fs (f # p)) \<Longrightarrow>
   r \<in> set rs \<Longrightarrow>
   \<exists>a f. f \<in> set (childFolders fs pid) \<and> ft.chain fs (a @ f # p) \<and> home r (hd (a @ [f])) \<and>
     (row_item r = None \<or> the (row_item r) \<in> set its)"
proof (induction n arbitrary: pid p d prow rs)
  case (Suc n)
  obtain f b where f: "f \<in> set (childFolders fs pid)" "block_of lc fs its nb sh n d prow f = Some b" "r \<in> set b"
    using walk_row [OF Suc.prems(1,3)] by blast
  have cf: "ft.chain fs (f # p)" using Suc.prems(2) f(1) by blast
  from f(2,3) show ?case
  proof (cases rule: block_cases)
    case head
    then have "home r f" "row_item r = None" by (auto simp: home_def folder_row_def)
    then show ?thesis using f(1) cf by (intro exI [of _ "[]"] exI [of _ f]) simp
  next
    case (leaf it)
    then have "home r f" by (auto simp: home_def)
    then show ?thesis using f(1) cf leaf by (intro exI [of _ "[]"] exI [of _ f]) simp
  next
    case (sub sub)
    have "ft.chain fs (h # f # p)" if "h \<in> set (childFolders fs (af_id f))" for h
      using ft.below [OF cf that] .
    from Suc.IH [OF sub(2) this sub(3)] obtain a h where
      "ft.chain fs (a @ h # f # p)" "home r (hd (a @ [h]))" "row_item r = None \<or> the (row_item r) \<in> set its"
      by blast
    then show ?thesis using f(1) by (intro exI [of _ "a @ [h]"] exI [of _ f]) (cases a; simp)
  qed
qed simp

lemma home_unique:
  assumes "folders_ok fs" "distinct (map ai_id its)" "home r g" "home r' g'" "row_id r = row_id r'"
    "g \<in> set fs" "g' \<in> set fs" "row_item r = None \<or> the (row_item r) \<in> set its"
    "row_item r' = None \<or> the (row_item r') \<in> set its"
  shows "g = g'"
proof -
  have "af_id g = af_id g'"
    using assms(3) unfolding home_def
  proof (elim disjE exE conjE)
    assume r: "row_id r = fId (af_id g)"
    with assms(4,5) show ?thesis by (auto simp: home_def)
  next
    fix it assume it: "row_item r = Some it" "row_id r = iId (ai_id it)" "ai_folder_id it = af_id g"
    from assms(4,5) it(2) obtain it' where it': "row_item r' = Some it'" "ai_id it' = ai_id it"
      "ai_folder_id it' = af_id g'"
      by (auto simp: home_def)
    have "it' = it"
      using assms(2,8,9) it(1) it'(1,2) by (simp add: distinct_map inj_on_def)
    with it(3) it'(3) show ?thesis by simp
  qed
  then show ?thesis using ft.ident_inj [OF assms(1)] assms(6,7) by blast
qed

lemma distinct_blocks:
  assumes "distinct xs" "map g xs = map Some bs"
    "\<And>x b. x \<in> set xs \<Longrightarrow> g x = Some b \<Longrightarrow> distinct (map h b)"
    "\<And>x y b c. x \<in> set xs \<Longrightarrow> y \<in> set xs \<Longrightarrow> x \<noteq> y \<Longrightarrow> g x = Some b \<Longrightarrow> g y = Some c \<Longrightarrow> h ` set b \<inter> h ` set c = {}"
  shows "distinct (map h (concat bs))"
  using assms
proof (induction xs arbitrary: bs)
  case (Cons x xs)
  then obtain b cs where bs: "bs = b # cs" "g x = Some b" "map g xs = map Some cs" by auto
  have "distinct (map h (concat cs))"
  proof (rule Cons.IH [OF _ bs(3)])
    show "distinct xs" using Cons.prems(1) by simp
    show "distinct (map h b)" if "y \<in> set xs" "g y = Some b" for y b
      using Cons.prems(3) [of y b] that by simp
    show "h ` set b \<inter> h ` set c = {}" if "y \<in> set xs" "z \<in> set xs" "y \<noteq> z" "g y = Some b" "g z = Some c" for y z b c
      using Cons.prems(4) [of y z b c] that by simp
  qed
  moreover have "h ` set b \<inter> h ` set c = {}" if c: "c \<in> set cs" for c
  proof -
    obtain y where y: "y \<in> set xs" "g y = Some c" using map_SomeE(2) [OF bs(3) c] by blast
    have "x \<noteq> y" using y(1) Cons.prems(1) by auto
    then show ?thesis
      using Cons.prems(4) [of x y b c] y bs(2) by simp
  qed
  ultimately show ?case
    using Cons.prems(3) [of x b] by (auto simp: bs)
qed simp

lemma walk_distinct:
  assumes ok: "folders_ok fs" "distinct (map ai_id its)"
  shows "walk lc fs its nb sh n pid d prow = Some rs \<Longrightarrow>
    (\<And>f. f \<in> set (childFolders fs pid) \<Longrightarrow> ft.chain fs (f # p)) \<Longrightarrow> distinct (map row_id rs)"
proof (induction n arbitrary: pid p d prow rs)
  case (Suc n)
  obtain bs where bs: "rs = concat bs"
    "map (block_of lc fs its nb sh n d prow) (js_sort (bySort lc) (childFolders fs pid)) = map Some bs"
    using walk_SucE [OF Suc.prems(1)] .
  have homes: "\<exists>a. ft.chain fs (a @ f # p) \<and> home r (hd (a @ [f])) \<and>
      (row_item r = None \<or> the (row_item r) \<in> set its)"
    if f: "f \<in> set (childFolders fs pid)" "block_of lc fs its nb sh n d prow f = Some b" "r \<in> set b" for f b r
  proof -
    have cf: "ft.chain fs (f # p)" using Suc.prems(2) f(1) by blast
    from f(2,3) show ?thesis
    proof (cases rule: block_cases)
      case head
      then show ?thesis using cf by (intro exI [of _ "[]"]) (simp add: home_def folder_row_def)
    next
      case (leaf it)
      then show ?thesis using cf by (intro exI [of _ "[]"]) (simp add: home_def)
    next
      case (sub sub)
      have "ft.chain fs (h # f # p)" if "h \<in> set (childFolders fs (af_id f))" for h
        using ft.below [OF cf that] .
      from walk_home [OF sub(2) this sub(3)] obtain a h where
        "ft.chain fs (a @ h # f # p)" "home r (hd (a @ [h]))" "row_item r = None \<or> the (row_item r) \<in> set its"
        by blast
      then show ?thesis by (intro exI [of _ "a @ [h]"]) (cases a; simp)
    qed
  qed
  have hd_in: "hd (a @ [f]) \<in> set fs" if "ft.chain fs (a @ f # p)" for a f
    using ft.chain_listed [OF that] by (cases a) auto
  show ?case
    unfolding bs(1)
  proof (rule distinct_blocks [OF _ bs(2)])
    have "distinct (map af_id (childFolders fs pid))"
      using ok(1) by (simp add: childFolders_eq folders_ok_def distinct_map_filter)
    then show "distinct (js_sort (bySort lc) (childFolders fs pid))"
      by (metis distinct_map_js_sort distinct_map)
  next
    fix f b assume f: "f \<in> set (js_sort (bySort lc) (childFolders fs pid))"
      and b: "block_of lc fs its nb sh n d prow f = Some b"
    then have cf: "ft.chain fs (f # p)" using Suc.prems(2) by simp
    show "distinct (map row_id b)"
    proof (cases "af_id f \<in> sh")
      case True
      then show ?thesis using b by (auto simp: block_of_def)
    next
      case False
      let ?its = "js_sort by_order (itemsByFolder its (af_id f))"
      obtain sub where sub: "walk lc fs its nb sh n (af_id f) (d + 1) (Some (fId (af_id f))) = Some sub"
        "b = folder_row fs its sh d prow f # sub @ map (item_row nb (d + 1) (fId (af_id f))) ?its"
        using b False by (auto simp: block_of_def)
      have kids: "ft.chain fs (h # f # p)" if "h \<in> set (childFolders fs (af_id f))" for h
        using ft.below [OF cf that] .
      have apart: "\<not> home r f" if r: "r \<in> set sub" for r
      proof
        assume hf: "home r f"
        obtain a h where a: "ft.chain fs (a @ h # f # p)" "home r (hd (a @ [h]))"
          "row_item r = None \<or> the (row_item r) \<in> set its"
          using walk_home [OF sub(1) kids r] by blast
        have in_fs: "set (a @ h # f # p) \<subseteq> set fs" using ft.chain_listed [OF a(1)] .
        have mem: "hd (a @ [h]) \<in> set (a @ [h])" by (cases a) auto
        then have "f = hd (a @ [h])"
          using in_fs by (intro home_unique [OF ok hf a(2) refl _ _ a(3) a(3)]) auto
        then show False using ft.chain_distinct [OF ok(1) a(1)] mem by (cases a) auto
      qed
      have "distinct (map (\<lambda>it. iId (ai_id it)) its)"
        using ok(2) by (simp add: distinct_map inj_on_def)
      then have "distinct (map (\<lambda>it. iId (ai_id it)) ?its)"
        by (simp only: distinct_map_js_sort itemsByFolder_eq distinct_filter_map)
      moreover have "distinct (map row_id sub)" using Suc.IH [OF sub(1) kids] .
      moreover have "fId (af_id f) \<notin> row_id ` set sub"
        using apart by (fastforce simp: home_def)
      moreover have apart_item: "row_id r \<noteq> iId (ai_id it)" if r: "r \<in> set sub" and it: "it \<in> set ?its" for r it
      proof
        assume e: "row_id r = iId (ai_id it)"
        obtain a h where a: "home r (hd (a @ [h]))" "row_item r = None \<or> the (row_item r) \<in> set its"
          using walk_home [OF sub(1) kids r] by blast
        then obtain it' where "row_item r = Some it'" "ai_id it' = ai_id it" "it' \<in> set its"
          using e by (auto simp: home_def)
        moreover have "it \<in> set its" "ai_folder_id it = af_id f" using it by (auto simp: itemsByFolder_eq)
        ultimately have "row_item r = Some it" using ok(2) by (auto simp: distinct_map inj_on_def)
        then have "home r f" using e \<open>ai_folder_id it = af_id f\<close> by (auto simp: home_def)
        then show False using apart [OF r] by blast
      qed
      moreover have "row_id ` set sub \<inter> (\<lambda>it. iId (ai_id it)) ` set ?its = {}"
        using apart_item by blast
      moreover have "fId (af_id f) \<notin> (\<lambda>it. iId (ai_id it)) ` set ?its" by auto
      ultimately show ?thesis unfolding sub(2) by (simp add: comp_def)
    qed
  next
    fix f g b c
    assume fg: "f \<in> set (js_sort (bySort lc) (childFolders fs pid))" "g \<in> set (js_sort (bySort lc) (childFolders fs pid))"
      and ne: "f \<noteq> g" and b: "block_of lc fs its nb sh n d prow f = Some b" "block_of lc fs its nb sh n d prow g = Some c"
    show "row_id ` set b \<inter> row_id ` set c = {}"
    proof (rule ccontr)
      assume "row_id ` set b \<inter> row_id ` set c \<noteq> {}"
      then obtain r s where rs: "r \<in> set b" "s \<in> set c" "row_id r = row_id s" by auto
      obtain a1 where a1: "ft.chain fs (a1 @ f # p)" "home r (hd (a1 @ [f]))" "row_item r = None \<or> the (row_item r) \<in> set its"
        using homes [of f b r] fg b rs by auto
      obtain a2 where a2: "ft.chain fs (a2 @ g # p)" "home s (hd (a2 @ [g]))" "row_item s = None \<or> the (row_item s) \<in> set its"
        using homes [of g c s] fg b rs by auto
      have "hd (a1 @ [f]) = hd (a2 @ [g])"
        by (rule home_unique [OF ok a1(2) a2(2) rs(3) hd_in [OF a1(1)] hd_in [OF a2(1)] a1(3) a2(3)])
      then have "f = g" by (rule ft.chain_head_unique [OF ok(1) a1(1) a2(1)])
      with ne show False by simp
    qed
  qed
qed simp

lemma walk_folder_item:
  "walk lc fs its nb sh n pid d prow = Some rs \<Longrightarrow> r \<in> set rs \<Longrightarrow> row_kind r = KFolder \<Longrightarrow> row_item r = None"
proof (induction n arbitrary: pid d prow rs)
  case (Suc n)
  obtain f b where f: "f \<in> set (childFolders fs pid)" "block_of lc fs its nb sh n d prow f = Some b" "r \<in> set b"
    using walk_row [OF Suc.prems(1,2)] by blast
  from f(2,3) show ?case
  proof (cases rule: block_cases)
    case (sub sub)
    show ?thesis by (rule Suc.IH [OF sub(2,3) Suc.prems(3)])
  qed (use Suc.prems in \<open>auto simp: folder_row_def\<close>)
qed simp


definition sample_folder :: "int \<Rightarrow> int option \<Rightarrow> AccessFolder" where
  "sample_folder i p =
     \<lparr>af_id = i, af_owner_type = GUser, af_owner_id = 1, af_name = ''f'', af_parent_id = p, af_path = [],
      af_icon = None, af_sort_order = None, af_actions = (if i = 1 then Some ''connect,upload'' else None),
      af_valid_from = None, af_valid_to = None\<rparr>"

definition sample_item :: "int \<Rightarrow> int \<Rightarrow> AccessItem" where
  "sample_item i f =
     \<lparr>ai_id = i, ai_owner_type = GUser, ai_owner_id = 1, ai_folder_id = f, ai_node_id = 10 + i,
      ai_actions = None, ai_valid_from = None, ai_valid_to = None, ai_sort_order = None\<rparr>"

text \<open>A root folder with a subfolder and an item, and two folders that are each other's parent.\<close>

definition sample_folders :: "AccessFolder list" where
  "sample_folders = [sample_folder 1 None, sample_folder 2 (Some 1), sample_folder 3 (Some 4), sample_folder 4 (Some 3)]"

lemma sample_folders_ok: "folders_ok sample_folders"
  by (simp add: folders_ok_def sample_folders_def sample_folder_def)


section \<open>Effective permission\<close>

text \<open>The folders the loop may visit: the chain from the item's folder up, at most 64 of them.\<close>

fun ancestors :: "nat \<Rightarrow> (int \<rightharpoonup> AccessFolder) \<Rightarrow> AccessFolder option \<Rightarrow> AccessFolder list" where
  "ancestors 0 m cur = []"
| "ancestors (Suc n) m None = []"
| "ancestors (Suc n) m (Some cur) =
     cur # ancestors n m (case af_parent_id cur of Some p \<Rightarrow> m p | None \<Rightarrow> None)"

text \<open>The first non-empty list of actions, and the first expiry that is set.\<close>

definition first_actions :: "string list \<Rightarrow> AccessFolder list \<Rightarrow> string list" where
  "first_actions own chain =
     nullish (List.find (\<lambda>a. a \<noteq> []) (own # map (\<lambda>f. csv_parts (nullish (af_actions f) [])) chain)) []"

definition first_valid :: "string option \<Rightarrow> AccessFolder list \<Rightarrow> string option" where
  "first_valid own chain =
     (case own of Some v \<Rightarrow> Some v
      | None \<Rightarrow> map_option (\<lambda>f. the (af_valid_to f)) (List.find (\<lambda>f. truthy_str (af_valid_to f)) chain))"

lemma csv_parts_Nil [simp]: "csv_parts [] = []"
  by (simp add: csv_parts_def)

lemma inherit_step_fields:
  "eff_actions (inherit_step e f) =
     (if eff_actions e = [] then csv_parts (nullish (af_actions f) []) else eff_actions e)"
  "eff_validTo (inherit_step e f) =
     (if eff_validTo e = None \<and> truthy_str (af_valid_to f) then af_valid_to f else eff_validTo e)"
  by (cases "af_actions f"; auto simp: inherit_step_def Let_def)+

lemma inherit_loop_spec:
  "eff_actions (inherit_loop n m cur e) = first_actions (eff_actions e) (ancestors n m cur) \<and>
   eff_validTo (inherit_loop n m cur e) = first_valid (eff_validTo e) (ancestors n m cur)"
proof (induction n m cur e rule: inherit_loop.induct)
  case (3 n m cur e)
  show ?case
  proof (cases "eff_actions (inherit_step e cur) \<noteq> [] \<and> eff_validTo (inherit_step e cur) \<noteq> None")
    case True
    then have "inherit_loop (Suc n) m (Some cur) e = inherit_step e cur" by simp
    with True show ?thesis
      by (auto simp: inherit_step_fields first_actions_def first_valid_def truthy_str_iff
          split: option.splits if_splits)
  next
    case False
    with 3 have "eff_actions (inherit_loop (Suc n) m (Some cur) e)
        = first_actions (eff_actions (inherit_step e cur)) (ancestors n m (case af_parent_id cur of Some p \<Rightarrow> m p | None \<Rightarrow> None))"
      "eff_validTo (inherit_loop (Suc n) m (Some cur) e)
        = first_valid (eff_validTo (inherit_step e cur)) (ancestors n m (case af_parent_id cur of Some p \<Rightarrow> m p | None \<Rightarrow> None))"
      by auto
    then show ?thesis
      by (auto simp: inherit_step_fields first_actions_def first_valid_def truthy_str_iff
          split: option.splits if_splits)
  qed
qed (auto simp: first_actions_def first_valid_def split: option.splits)

text \<open>C7: an item's effective actions are its own, else those of the nearest of up to 64 folders
  above it that lists any, else the right to connect; its expiry is its own, else that of the nearest
  of these folders that has one.\<close>

theorem effective_is_nearest:
  "eff_actions (effectiveForItem it m) =
     (let a = first_actions (csv_parts (nullish (ai_actions it) [])) (ancestors 64 m (m (ai_folder_id it)))
      in if a = [] then [''connect''] else a) \<and>
   eff_validTo (effectiveForItem it m) = first_valid (ai_valid_to it) (ancestors 64 m (m (ai_folder_id it)))"
proof -
  let ?e0 = "\<lparr>eff_actions = csv_parts (nullish (ai_actions it) []), eff_validTo = ai_valid_to it,
                inheritedActions = False, inheritedValid = False\<rparr>"
  let ?ch = "ancestors 64 m (m (ai_folder_id it))"
  let ?e1 = "if eff_actions ?e0 = [] \<or> eff_validTo ?e0 = None
    then inherit_loop 64 m (m (ai_folder_id it)) ?e0 else ?e0"
  have "eff_actions ?e1 = first_actions (csv_parts (nullish (ai_actions it) [])) ?ch"
    "eff_validTo ?e1 = first_valid (ai_valid_to it) ?ch"
    using inherit_loop_spec [of 64 m "m (ai_folder_id it)" ?e0]
    by (auto simp: first_actions_def first_valid_def split: option.splits)
  moreover have "effectiveForItem it m = (if eff_actions ?e1 = [] then ?e1\<lparr>eff_actions := [''connect'']\<rparr> else ?e1)"
    by (simp only: effectiveForItem_def Let_def)
  ultimately show ?thesis by (simp add: Let_def)
qed

section \<open>Insight\<close>

lemma foldl_bump: "nullish (foldl bump m as a) 0 = nullish (m a) 0 + count_list as a"
  by (induction as arbitrary: m) (auto simp: bump_def)

lemma insight_step_apply:
  "insight_step m (nodes, by, n) it =
    (insert (ai_node_id it) nodes, foldl bump by (eff_actions (effectiveForItem it m)),
     if truthy_str (eff_validTo (effectiveForItem it m)) then n + 1 else n)"
  by (simp add: insight_step_def Let_def)

lemma insight_fold:
  "foldl (insight_step m) (nodes, by, n) items = (nodes', by', n') \<Longrightarrow>
   nodes' = nodes \<union> ai_node_id ` set items \<and>
   nullish (by' a) 0 = nullish (by a) 0 + (\<Sum>it\<leftarrow>items. count_list (eff_actions (effectiveForItem it m)) a) \<and>
   n' = n + length (filter (\<lambda>it. truthy_str (eff_validTo (effectiveForItem it m))) items)"
proof (induction items arbitrary: nodes "by" n)
  case (Cons it items)
  let ?eff = "effectiveForItem it m"
  have "foldl (insight_step m) (insert (ai_node_id it) nodes, foldl bump by (eff_actions ?eff),
      if truthy_str (eff_validTo ?eff) then n + 1 else n) items = (nodes', by', n')"
    using Cons.prems by (simp only: foldl.simps insight_step_apply)
  from Cons.IH [OF this] show ?case by (auto simp: foldl_bump)
qed simp

text \<open>the insight strip counts each connectable node once, every item under each of its effective
  actions, and as expiring exactly the items with an effective expiry.\<close>

theorem insight_counts:
  "ins_assets (computeInsight items m) = card (ai_node_id ` set items) \<and>
   nullish (ins_byAction (computeInsight items m) a) 0
     = (\<Sum>it\<leftarrow>items. count_list (eff_actions (effectiveForItem it m)) a) \<and>
   ins_expiring (computeInsight items m)
     = length (filter (\<lambda>it. truthy_str (eff_validTo (effectiveForItem it m))) items)"
proof -
  obtain nodes' by' n' where f: "foldl (insight_step m) ({}, Map.empty, 0) items = (nodes', by', n')"
    using prod_cases3 by blast
  from insight_fold [OF f, of a] show ?thesis by (simp add: computeInsight_def f)
qed

end
