(* ===== verification/AccessDrag.thy ===== *)
theory AccessDrag
  imports AccessTree
begin

text \<open>
  Dragging a row of the authorisation tree: hiding the dragged folder's subtree keeps the rows an
  outline and makes the dragged row a leaf, and on such rows the projected depth and parent always
  fit together. The operations are those of \<open>AccessTree\<close>.
\<close>

section \<open>Facts about outlines\<close>

lemma outline_hd: "outline p d rows \<Longrightarrow> rows \<noteq> [] \<Longrightarrow> row_parent (hd rows) = p \<and> row_depth (hd rows) = d"
  by (cases rule: outline.cases) auto

lemma outline_depth: "outline p d rows \<Longrightarrow> r \<in> set rows \<Longrightarrow> d \<le> row_depth r"
  by (induction rule: outline.induct) auto

lemma outline_next:
  "outline p d (a @ r # s # b) \<Longrightarrow>
   row_depth s \<le> row_depth r + (if row_kind r = KFolder then 1 else 0)"
proof (induction p d "a @ r # s # b" arbitrary: a b rule: outline.induct)
  case (outline_item r' q d rest)
  then show ?case using outline_hd [OF outline_item.hyps(5)] by (cases a) auto
next
  case (outline_folder r' p d sub rest)
  show ?case
  proof (cases a)
    case Nil
    then have e: "r = r'" "s # b = sub @ rest" using outline_folder.hyps by auto
    have "row_depth s = d \<or> row_depth s = d + 1"
      using e(2) outline_hd [OF outline_folder.hyps(6)] outline_hd [OF outline_folder.hyps(8)]
      by (cases sub) auto
    then show ?thesis using e(1) outline_folder.hyps(1,4) by auto
  next
    case (Cons x a')
    then have e: "sub @ rest = a' @ r # s # b" using outline_folder.hyps by auto
    then consider c where "sub = a' @ r # s # c" | "sub = a' @ [r]" "rest = s # b" | c where "rest = c @ r # s # b"
      by (auto simp: append_eq_append_conv2 append_eq_Cons_conv Cons_eq_append_conv)
    then show ?thesis
    proof cases
      case 1
      then show ?thesis using outline_folder.hyps(7) by blast
    next
      case 2
      have "row_depth s = d" using outline_hd [OF outline_folder.hyps(8)] 2 by simp
      moreover have "d + 1 \<le> row_depth r" using outline_depth [OF outline_folder.hyps(6)] 2 by simp
      ultimately show ?thesis by simp
    next
      case 3
      then show ?thesis using outline_folder.hyps(9) by blast
    qed
  qed
qed simp

text \<open>The parent of a row stands before it, one level up, and is a folder.\<close>

lemma outline_parent:
  "outline p d (a @ r # b) \<Longrightarrow>
   row_depth r = d \<and> row_parent r = p \<or>
   d < row_depth r \<and> (\<exists>q \<in> set a. row_kind q = KFolder \<and> is_folder_id (row_id q) \<and> row_parent r = Some (row_id q) \<and>
      row_depth r = row_depth q + 1)"
proof (induction p d "a @ r # b" arbitrary: a b rule: outline.induct)
  case (outline_item r' q d rest)
  show ?case
  proof (cases a)
    case (Cons x a')
    then have "rest = a' @ r # b" using outline_item.hyps by auto
    then show ?thesis using outline_item.hyps(6) Cons by auto
  qed (use outline_item.hyps in auto)
next
  case (outline_folder r' p d sub rest)
  show ?case
  proof (cases a)
    case Nil
    then show ?thesis using outline_folder.hyps by auto
  next
    case (Cons x a')
    then have e: "x = r'" "sub @ rest = a' @ r # b" using outline_folder.hyps by auto
    then consider c where "sub = a' @ r # c" | c where "a' = sub @ c" "rest = c @ r # b"
      by (auto simp: append_eq_append_conv2 append_eq_Cons_conv Cons_eq_append_conv)
    then show ?thesis
    proof cases
      case 1
      have "row_depth r = d + 1 \<and> row_parent r = Some (row_id r') \<or>
         d + 1 < row_depth r \<and> (\<exists>q \<in> set a'. row_kind q = KFolder \<and> is_folder_id (row_id q) \<and>
            row_parent r = Some (row_id q) \<and> row_depth r = row_depth q + 1)"
        using outline_folder.hyps(7) [OF 1] .
      then show ?thesis using Cons e(1) outline_folder.hyps(1,2,4) by auto
    next
      case 2
      then show ?thesis using outline_folder.hyps(9) [of c b] Cons by auto
    qed
  qed
qed simp

text \<open>Below the top level, every smaller depth occurs at or before a row.\<close>

lemma outline_depths:
  assumes "outline p d rows" "rows = a @ r # b" "d \<le> k" "k \<le> row_depth r"
  shows "\<exists>s \<in> set (a @ [r]). row_depth s = k"
  using assms
proof (induction "length a" arbitrary: a r b rule: less_induct)
  case less
  show ?case
  proof (cases "k = row_depth r")
    case False
    then have "row_depth r \<noteq> d" using less.prems by auto
    then obtain q where q: "q \<in> set a" "row_depth r = row_depth q + 1"
      using outline_parent [of p d a r b] less.prems by auto
    then obtain a1 a2 where a: "a = a1 @ q # a2" by (meson split_list)
    then have "\<exists>s \<in> set (a1 @ [q]). row_depth s = k"
      using less.hyps [of a1 q "a2 @ r # b"] less.prems q False by auto
    then show ?thesis using a by auto
  qed auto
qed

lemma outline_remove_leaf:
  "outline p d (a @ r # b) \<Longrightarrow> (\<And>s. s \<in> set (a @ r # b) \<Longrightarrow> row_parent s \<noteq> Some (row_id r)) \<Longrightarrow>
   outline p d (a @ b)"
proof (induction p d "a @ r # b" arbitrary: a b rule: outline.induct)
  case (outline_item r' q d rest)
  show ?case
  proof (cases a)
    case (Cons x a')
    then have "rest = a' @ r # b" "x = r'" using outline_item.hyps by auto
    then show ?thesis using outline_item Cons by (auto intro!: outline.outline_item)
  qed (use outline_item.hyps in auto)
next
  case (outline_folder r' p d sub rest)
  show ?case
  proof (cases a)
    case Nil
    then have e: "r = r'" "b = sub @ rest" using outline_folder.hyps by auto
    have "sub = []"
      using outline_hd [OF outline_folder.hyps(6)] outline_folder.prems e by (cases sub) auto
    then show ?thesis using Nil e outline_folder.hyps(8) by simp
  next
    case (Cons x a')
    then have e: "x = r'" "sub @ rest = a' @ r # b" using outline_folder.hyps by auto
    then consider c where "sub = a' @ r # c" "b = c @ rest" | c where "a' = sub @ c" "rest = c @ r # b"
      by (auto simp: append_eq_append_conv2 append_eq_Cons_conv Cons_eq_append_conv)
    then show ?thesis
    proof cases
      case 1
      then have "outline (Some (row_id r')) (d + 1) (a' @ c)"
        using outline_folder.hyps(7) outline_folder.prems Cons by auto
      moreover have "a' @ c \<noteq> [] \<Longrightarrow> hasChildren r'" using 1 outline_folder.hyps(5) by auto
      ultimately have "outline p d (r' # (a' @ c) @ rest)"
        using outline_folder.hyps by (intro outline.outline_folder) auto
      then show ?thesis using Cons e 1 by simp
    next
      case 2
      then have "outline p d (c @ b)"
        using outline_folder.hyps(9) outline_folder.prems Cons by auto
      then have "outline p d (r' # sub @ (c @ b))"
        using outline_folder.hyps by (intro outline.outline_folder) auto
      then show ?thesis using Cons e 2 by simp
    qed
  qed
qed simp

section \<open>Hiding the dragged subtree\<close>

definition excluded :: "string set \<times> string set \<Rightarrow> 'n FlatRow list \<Rightarrow> string set \<times> string set" where
  "excluded st rows = foldl exclude_step st rows"

lemma excluded_simps [simp]:
  "excluded st [] = st"
  "excluded st (r # rows) = excluded (exclude_step st r) rows"
  "excluded st (a @ b) = excluded (excluded st a) b"
  by (simp_all add: excluded_def)

lemma exclude_step_grow:
  "fst st \<subseteq> fst (exclude_step st r)" "snd st \<subseteq> snd (exclude_step st r)"
  "fst (exclude_step st r) \<subseteq> insert (row_id r) (fst st)" "snd (exclude_step st r) \<subseteq> insert (row_id r) (snd st)"
  by (auto simp: exclude_step_def split: option.splits)

lemma excluded_bounds:
  "fst st \<subseteq> fst (excluded st rows) \<and> snd st \<subseteq> snd (excluded st rows) \<and>
   fst (excluded st rows) \<subseteq> fst st \<union> row_id ` set rows \<and> snd (excluded st rows) \<subseteq> snd st \<union> row_id ` set rows"
proof (induction rows arbitrary: st)
  case (Cons r rows)
  have u: "insert (row_id r) A \<union> row_id ` set rows = A \<union> row_id ` set (r # rows)" for A by auto
  show ?case
    unfolding u [symmetric] using exclude_step_grow [of st r] Cons.IH [of "exclude_step st r"]
    by (simp only: excluded_simps) (meson Un_mono subset_refl subset_trans)
qed simp

lemmas excluded_grow = excluded_bounds [THEN conjunct1] excluded_bounds [THEN conjunct2, THEN conjunct1]
  excluded_bounds [THEN conjunct2, THEN conjunct2, THEN conjunct1]
  excluded_bounds [THEN conjunct2, THEN conjunct2, THEN conjunct2]

lemma step_disjoint:
  "row_id r \<notin> A \<Longrightarrow> fst st \<inter> A = {} \<Longrightarrow> fst (exclude_step st r) \<inter> A = {}"
  using exclude_step_grow(3) [of st r] by blast

lemma exclude_step_hit:
  "row_parent r = Some p \<Longrightarrow> p \<noteq> [] \<Longrightarrow> p \<in> fst st \<union> snd st \<Longrightarrow> row_id r \<in> fst (exclude_step st r)"
  by (auto simp: exclude_step_def)

lemma excluded_child:
  assumes "r \<in> set rows" "row_parent r = Some p" "p \<noteq> []" "p \<in> snd st"
  shows "row_id r \<in> fst (excluded st rows)"
proof -
  obtain a b where rows: "rows = a @ r # b" using assms(1) by (meson split_list)
  have "p \<in> snd (excluded st a)" using excluded_grow(2) assms(4) by blast
  then have "row_id r \<in> fst (exclude_step (excluded st a) r)" using assms(2,3) by (simp add: exclude_step_hit)
  then show ?thesis using excluded_grow(1) [of "exclude_step (excluded st a) r" b] by (auto simp: rows)
qed

lemma folder_id_nonempty: "is_folder_id q \<Longrightarrow> q \<noteq> []"
  by (auto simp: is_folder_id_def)

text \<open>Below an excluded folder every row is excluded.\<close>

lemma excluded_all:
  "outline (Some p) d rows \<Longrightarrow> p \<noteq> [] \<Longrightarrow> p \<in> fst st \<union> snd st \<Longrightarrow> row_id ` set rows \<subseteq> fst (excluded st rows)"
proof (induction "Some p" d rows arbitrary: p st rule: outline.induct)
  case (outline_item r p d rest)
  have hit: "row_id r \<in> fst (exclude_step st r)" by (rule exclude_step_hit [OF outline_item.hyps(2) outline_item.prems])
  have "p \<in> fst (exclude_step st r) \<union> snd (exclude_step st r)"
    using exclude_step_grow(1,2) [of st r] outline_item.prems(2) by (meson Un_mono subsetD)
  then have "row_id ` set rest \<subseteq> fst (excluded (exclude_step st r) rest)"
    by (rule outline_item.hyps(6) [OF outline_item.prems(1)])
  moreover have "row_id r \<in> fst (excluded (exclude_step st r) rest)"
    using hit excluded_grow(1) by blast
  ultimately show ?case by simp
next
  case (outline_folder r d sub rest)
  let ?s1 = "exclude_step st r" and ?s2 = "excluded (exclude_step st r) sub"
  have hit: "row_id r \<in> fst ?s1" by (rule exclude_step_hit [OF outline_folder.hyps(3) outline_folder.prems])
  have sub: "row_id ` set sub \<subseteq> fst ?s2"
    using outline_folder.hyps(7) [of ?s1] hit folder_id_nonempty [OF outline_folder.hyps(2)] by blast
  have "p \<in> fst ?s2 \<union> snd ?s2"
    using exclude_step_grow(1,2) [of st r] excluded_grow(1,2) [of ?s1 sub] outline_folder.prems(2)
    by (meson Un_mono subset_trans subsetD)
  then have rest: "row_id ` set rest \<subseteq> fst (excluded ?s2 rest)"
    using outline_folder.hyps(9) outline_folder.prems by blast
  have "fst ?s1 \<subseteq> fst ?s2" "fst ?s2 \<subseteq> fst (excluded ?s2 rest)" by (rule excluded_grow)+
  then have "row_id r \<in> fst (excluded ?s2 rest)" "row_id ` set sub \<subseteq> fst (excluded ?s2 rest)"
    using hit sub by blast+
  then show ?case using rest by (simp add: image_Un)
qed simp

lemma filter_excluded_later:
  assumes "fst (excluded st rest) \<subseteq> fst st \<union> row_id ` set rest" "row_id ` set rows \<inter> row_id ` set rest = {}"
  shows "filter (\<lambda>r. row_id r \<notin> fst (excluded st rest)) rows = filter (\<lambda>r. row_id r \<notin> fst st) rows"
  using assms excluded_grow(1) [of st rest] by (intro filter_cong) auto

lemma outline_filter:
  "outline p d rows \<Longrightarrow> distinct (map row_id rows) \<Longrightarrow> fst st \<inter> row_id ` set rows = {} \<Longrightarrow>
   outline p d (filter (\<lambda>r. row_id r \<notin> fst (excluded st rows)) rows)"
proof (induction arbitrary: st rule: outline.induct)
  case (outline_item r q d rest)
  let ?s1 = "exclude_step st r"
  have d: "row_id r \<notin> row_id ` set rest" using outline_item.prems by simp
  have ih: "outline (Some q) d (filter (\<lambda>r. row_id r \<notin> fst (excluded ?s1 rest)) rest)"
  proof (intro outline_item.IH)
    show "distinct (map row_id rest)" using outline_item.prems by simp
    show "fst ?s1 \<inter> row_id ` set rest = {}"
      using outline_item.prems(2) by (intro step_disjoint d) auto
  qed
  show ?case
    using ih outline_item.hyps by (auto intro: outline.outline_item)
next
  case (outline_folder r p d sub rest)
  let ?s1 = "exclude_step st r" and ?s2 = "excluded (exclude_step st r) sub"
  have dist: "row_id r \<notin> row_id ` set sub" "row_id r \<notin> row_id ` set rest"
    "row_id ` set sub \<inter> row_id ` set rest = {}" "distinct (map row_id sub)" "distinct (map row_id rest)"
    using outline_folder.prems by auto
  have s1: "fst ?s1 \<inter> row_id ` set sub = {}" "fst ?s1 \<inter> row_id ` set rest = {}"
    using outline_folder.prems(2) by (intro step_disjoint dist; auto)+
  have s2: "fst ?s2 \<inter> row_id ` set rest = {}" using excluded_grow(3) [of ?s1 sub] s1(2) dist(3) by blast
  have sub: "outline (Some (row_id r)) (d + 1) (filter (\<lambda>r. row_id r \<notin> fst ?s2) sub)"
    using outline_folder.IH(1) [OF dist(4) s1(1)] .
  have rest: "outline p d (filter (\<lambda>r. row_id r \<notin> fst (excluded ?s2 rest)) rest)"
    using outline_folder.IH(2) [OF dist(5) s2] .
  have sub_eq: "filter (\<lambda>r. row_id r \<notin> fst (excluded ?s2 rest)) sub = filter (\<lambda>r. row_id r \<notin> fst ?s2) sub"
    by (intro filter_excluded_later excluded_grow dist)
  let ?keep = "\<lambda>r. row_id r \<notin> fst (excluded ?s2 rest)"
  have fil: "filter (\<lambda>x. row_id x \<notin> fst (excluded st (r # sub @ rest))) (r # sub @ rest)
      = (if row_id r \<in> fst (excluded ?s2 rest) then [] else [r]) @ filter ?keep sub @ filter ?keep rest"
    by simp
  show ?case
  proof (cases "row_id r \<in> fst ?s1")
    case True
    then have "row_id ` set sub \<subseteq> fst ?s2"
      using excluded_all [OF outline_folder.hyps(6)] folder_id_nonempty [OF outline_folder.hyps(2)] by blast
    then have "filter ?keep sub = []" unfolding sub_eq by (auto simp: filter_empty_conv)
    moreover have "row_id r \<in> fst (excluded ?s2 rest)"
      using True excluded_grow(1) [of ?s1 sub] excluded_grow(1) [of ?s2 rest] by blast
    ultimately show ?thesis unfolding fil using rest by simp
  next
    case False
    then have "row_id r \<notin> fst (excluded ?s2 rest)"
      using excluded_grow(3) [of ?s1 sub] excluded_grow(3) [of ?s2 rest] dist by blast
    moreover have "hasChildren r" if "filter ?keep sub \<noteq> []"
      using outline_folder.hyps(5) that by (cases sub) auto
    then have "outline p d (r # filter ?keep sub @ filter ?keep rest)"
      using sub rest unfolding sub_eq
      by (intro outline.outline_folder outline_folder.hyps(1-4)) auto
    ultimately show ?thesis unfolding fil by simp
  qed
qed (auto intro: outline.outline_Nil)

lemma removeChildrenOf_eq:
  "removeChildrenOf rows ids = filter (\<lambda>r. row_id r \<notin> fst (excluded ({}, set ids) rows)) rows"
  by (simp add: removeChildrenOf_def excluded_def)

lemma removeChildrenOf_outline:
  assumes "outline None 0 rows" "distinct (map row_id rows)"
  shows "outline None 0 (removeChildrenOf rows ids)" "distinct (map row_id (removeChildrenOf rows ids))"
  unfolding removeChildrenOf_eq
  using outline_filter [OF assms] assms(2) by (simp_all add: distinct_filter_map)

lemma removeChildrenOf_leaf:
  assumes "r \<in> set (removeChildrenOf rows ids)" "row_parent r = Some p" "p \<in> set ids"
  shows "p = []"
  using assms excluded_child [of r rows p "({}, set ids)"] by (auto simp: removeChildrenOf_eq)

section \<open>The projection\<close>

lemma move_split:
  assumes "i < length rows" "j < length rows"
  shows "arrayMoveLite rows i j = take j (remove_at i rows) @ rows ! i # drop j (remove_at i rows)"
    "take j (arrayMoveLite rows i j) = take j (remove_at i rows)"
    "at_index (arrayMoveLite rows i j) (int j + 1) =
      (if j < length rows - 1 then Some (remove_at i rows ! j) else None)"
    "at_index (arrayMoveLite rows i j) (int j - 1) =
      (if j = 0 then None else Some (remove_at i rows ! (j - 1)))"
proof -
  have len: "length (remove_at i rows) = length rows - 1" using assms by simp
  show e: "arrayMoveLite rows i j = take j (remove_at i rows) @ rows ! i # drop j (remove_at i rows)"
    by (simp add: arrayMoveLite_def insert_at_def)
  have m: "min (length (remove_at i rows)) j = j" using assms len by simp
  show "take j (arrayMoveLite rows i j) = take j (remove_at i rows)" using assms by (simp add: e len)
  show "at_index (arrayMoveLite rows i j) (int j + 1) =
      (if j < length rows - 1 then Some (remove_at i rows ! j) else None)"
  proof -
    have "nat (int j + 1) = Suc j" by simp
    moreover have "(arrayMoveLite rows i j) ! Suc j = drop j (remove_at i rows) ! 0"
      using assms by (simp add: e nth_append len)
    ultimately show ?thesis using assms len by (auto simp: at_index_def e)
  qed
  show "at_index (arrayMoveLite rows i j) (int j - 1) =
      (if j = 0 then None else Some (remove_at i rows ! (j - 1)))"
  proof (cases j)
    case (Suc k)
    then have "nat (int j - 1) = k" by simp
    moreover have "(arrayMoveLite rows i j) ! k = remove_at i rows ! k"
      using assms Suc len by (simp add: e [unfolded Suc] nth_append) 
    moreover have "length (arrayMoveLite rows i j) = length rows"
      using assms len by (simp add: arrayMoveLite_def)
    ultimately show ?thesis using assms Suc by (simp add: at_index_def)
  qed (simp add: at_index_def)
qed

text \<open>What a projection must promise on the rows \<open>base\<close> without the dragged row: a root position or a
  folder of \<open>base\<close> with the depth just below it.\<close>

definition fits :: "'n FlatRow list \<Rightarrow> int \<Rightarrow> string option \<Rightarrow> bool" where
  "fits base depth par \<longleftrightarrow>
     (case par of None \<Rightarrow> depth = 0
      | Some q \<Rightarrow> \<exists>r \<in> set base. row_kind r = KFolder \<and> is_folder_id (row_id r) \<and> row_id r = q \<and> depth = row_depth r + 1)"

lemma fits_row:
  assumes "outline None 0 base" "r \<in> set base"
  shows "fits base (row_depth r) (row_parent r)"
proof -
  obtain a b where "base = a @ r # b" using assms(2) by (meson split_list)
  then show ?thesis using outline_parent [of None 0 a r b] assms(1) by (auto simp: fits_def)
qed

lemma folder_row_id:
  assumes "outline None 0 base" "r \<in> set base" "row_kind r = KFolder"
  shows "is_folder_id (row_id r)"
proof -
  have "outline p d base \<Longrightarrow> r \<in> set base \<Longrightarrow> row_kind r = KFolder \<Longrightarrow> is_folder_id (row_id r)" for p d
    by (induction rule: outline.induct) auto
  with assms show ?thesis by blast
qed

lemma projected_parent_fits:
  assumes base: "outline None 0 base" "base = before @ rest"
    and prev: "previous = (if before = [] then None else Some (last before))"
    and depth: "0 \<le> depth"
      "depth \<le> (case previous of Some p \<Rightarrow> if row_kind p = KFolder then row_depth p + 1 else row_depth p | None \<Rightarrow> 0)"
  shows "fits base depth (projected_parent before previous depth)"
proof (cases "before = []")
  case True
  then show ?thesis using prev depth by (simp add: projected_parent_def fits_def)
next
  case False
  let ?p = "last before"
  have p: "?p \<in> set base" "previous = Some ?p" using False base(2) prev by auto
  show ?thesis
  proof (cases "depth = 0 \<or> row_depth ?p \<le> depth")
    case True
    then consider "depth = 0" | "depth = row_depth ?p" "depth \<noteq> 0"
      | "row_depth ?p < depth" "depth \<noteq> 0" by linarith
    then show ?thesis
    proof cases
      case 1
      then show ?thesis using p by (simp add: projected_parent_def fits_def)
    next
      case 2
      then show ?thesis using p fits_row [OF base(1) p(1)] by (simp add: projected_parent_def)
    next
      case 3
      then have k: "row_kind ?p = KFolder" "depth = row_depth ?p + 1"
        using depth(2) p(2) by (auto split: if_splits)
      then show ?thesis
        using p 3 folder_row_id [OF base(1) p(1) k(1)] by (auto simp: projected_parent_def fits_def)
    qed
  next
    case lower: False
    have e: "base = butlast before @ ?p # rest" using False base(2) by simp
    obtain s where s: "s \<in> set (butlast before @ [?p])" "row_depth s = depth"
      using outline_depths [OF base(1) e, of depth] depth(1) lower by auto
    then have "s \<in> set (rev before)" using False by simp
    then obtain r where r: "List.find (\<lambda>r. row_depth r = depth) (rev before) = Some r"
      using s(2) by (cases "List.find (\<lambda>r. row_depth r = depth) (rev before)") (auto simp: find_None_iff)
    have "r \<in> set base" "row_depth r = depth" using find_SomeD [OF r] base(2) by auto
    then show ?thesis
      using fits_row [OF base(1)] lower p r by (auto simp: projected_parent_def)
  qed
qed

lemma nth_split_remove:
  assumes "distinct (map row_id rows)" "i < length rows"
  shows "set (remove_at i rows) = set rows - {rows ! i}"
    "\<And>r. r \<in> set (remove_at i rows) \<Longrightarrow> row_id r \<noteq> row_id (rows ! i)"
proof -
  have e: "rows = take i rows @ rows ! i # drop (Suc i) rows" using assms(2) by (rule id_take_nth_drop)
  have "distinct (map row_id (take i rows @ rows ! i # drop (Suc i) rows))"
    using assms(1) by (simp only: e [symmetric])
  then show "\<And>r. r \<in> set (remove_at i rows) \<Longrightarrow> row_id r \<noteq> row_id (rows ! i)"
    by (auto simp: remove_at_def image_iff)
  then show "set (remove_at i rows) = set rows - {rows ! i}"
    using arg_cong [OF e, of set] by (fastforce simp: remove_at_def)
qed

lemma clamp_bounds:
  "mn \<le> mx \<Longrightarrow> mn \<le> clamp n mn mx \<and> clamp n mn mx \<le> mx"
  by (auto simp: clamp_def)

text \<open>The depth and parent computed before the constraint on items is applied fit.\<close>

lemma raw_projection_fits:
  assumes rows: "outline None 0 rows" "distinct (map row_id rows)" and ij: "i < length rows" "j < length rows"
    and leaf: "\<And>s. s \<in> set rows \<Longrightarrow> row_parent s \<noteq> Some (row_id (rows ! i))"
    and p: "previous = at_index (arrayMoveLite rows i j) (int j - 1)"
    and n: "next = at_index (arrayMoveLite rows i j) (int j + 1)"
    and d: "depth = clamp k (case next of Some r \<Rightarrow> row_depth r | None \<Rightarrow> 0)
      (case previous of Some p \<Rightarrow> if row_kind p = KFolder then row_depth p + 1 else row_depth p | None \<Rightarrow> 0)"
  shows "fits (remove_at i rows) depth (projected_parent (take j (arrayMoveLite rows i j)) previous depth)"
proof -
  let ?base = "remove_at i rows"
  have e: "rows = take i rows @ rows ! i # drop (Suc i) rows" using ij(1) by (rule id_take_nth_drop)
  have o: "outline None 0 ?base"
    unfolding remove_at_def
  proof (rule outline_remove_leaf [of None 0 _ "rows ! i"])
    show "outline None 0 (take i rows @ rows ! i # drop (Suc i) rows)"
      using rows(1) by (simp only: e [symmetric])
    show "row_parent s \<noteq> Some (row_id (rows ! i))" if "s \<in> set (take i rows @ rows ! i # drop (Suc i) rows)" for s
      by (rule leaf) (use that in \<open>simp only: e [symmetric]\<close>)
  qed
  have len: "length ?base = length rows - 1" using ij by simp
  have pe: "previous = (if take j ?base = [] then None else Some (last (take j ?base)))"
  proof (cases "j = 0")
    case False
    have l: "length (take j ?base) = j" using ij len by simp
    have ne: "take j ?base \<noteq> []"
    proof
      assume "take j ?base = []"
      with l False show False by (simp only: list.size)
    qed
    moreover have "last (take j ?base) = ?base ! (j - 1)"
      unfolding last_conv_nth [OF ne] l using False by simp
    ultimately show ?thesis using False by (simp add: p move_split(4) [OF ij])
  qed (simp add: p at_index_def)
  have ne: "next = (if j < length ?base then Some (?base ! j) else None)"
    by (simp add: n move_split(3) [OF ij] len)
  let ?mx = "case previous of Some p \<Rightarrow> if row_kind p = KFolder then row_depth p + 1 else row_depth p | None \<Rightarrow> 0"
  let ?mn = "case next of Some r \<Rightarrow> row_depth r | None \<Rightarrow> 0"
  have nonneg: "0 \<le> row_depth r" if "r \<in> set ?base" for r using outline_depth [OF o that] .
  have mn0: "0 \<le> ?mn" using ne nonneg by (auto split: option.splits)
  have "?mn \<le> ?mx"
  proof (cases "j = 0")
    case True
    then have "?mx = 0" using pe by simp
    moreover have "?mn = 0"
      using True ne outline_hd [OF o] by (cases ?base) auto
    ultimately show ?thesis by simp
  next
    case False
    then obtain h where h: "j = Suc h" by (cases j) auto
    then have hl: "h < length ?base" using ij len by auto
    have prev: "previous = Some (?base ! h)" unfolding p move_split(4) [OF ij] by (simp add: h)
    show ?thesis
    proof (cases "j < length ?base")
      case True
      then have "?base = take h ?base @ ?base ! h # ?base ! j # drop (Suc j) ?base"
        using h id_take_nth_drop [OF hl] by (simp add: Cons_nth_drop_Suc)
      then have "row_depth (?base ! j) \<le> row_depth (?base ! h) + (if row_kind (?base ! h) = KFolder then 1 else 0)"
        using outline_next o by metis
      then show ?thesis using True ne prev by auto
    next
      case False
      then show ?thesis using ne prev nonneg [OF nth_mem [OF hl]] by auto
    qed
  qed
  then have b: "0 \<le> depth" "depth \<le> ?mx"
    using clamp_bounds [of ?mn ?mx k] mn0 by (simp_all add: d)
  show ?thesis
    unfolding move_split(2) [OF ij]
    by (rule projected_parent_fits [OF o append_take_drop_id [symmetric] pe b])
qed

lemma getProjection_fits:
  assumes rows: "outline None 0 rows" "distinct (map row_id rows)"
    and leaf: "\<And>s. s \<in> set rows \<Longrightarrow> row_parent s \<noteq> Some active"
    and pr: "getProjection rows active over x indent = Some pr"
  obtains r where "r \<in> set rows" "row_id r = active"
    "fits (filter (\<lambda>r. row_id r \<noteq> active) rows) (pr_depth pr) (pr_parent pr)"
    "row_kind r = KItem \<Longrightarrow> pr_parent pr \<noteq> None"
proof -
  obtain i j where ij: "find_index (\<lambda>r. row_id r = active) rows = Some i"
    "find_index (\<lambda>r. row_id r = over) rows = Some j"
    using pr by (auto simp: getProjection_def split: option.splits prod.splits)
  note i = find_index_SomeD [OF ij(1)] and j = find_index_SomeD [OF ij(2)]
  define newRows where "newRows = arrayMoveLite rows i j"
  define previous where "previous = at_index newRows (int j - 1)"
  define next' where "next' = at_index newRows (int j + 1)"
  define depth where "depth = clamp (row_depth (rows ! i) + js_round (x / indent))
      (case next' of Some r \<Rightarrow> row_depth r | None \<Rightarrow> 0)
      (case previous of Some p \<Rightarrow> if row_kind p = KFolder then row_depth p + 1 else row_depth p | None \<Rightarrow> 0)"
  define par where "par = projected_parent (take j newRows) previous depth"
  let ?base = "filter (\<lambda>r. row_id r \<noteq> active) rows"
  have set_eq: "set (remove_at i rows) = set ?base"
    using nth_split_remove [OF rows(2) i(1)] i(2) by auto
  have "fits (remove_at i rows) depth par"
    unfolding par_def newRows_def
    by (rule raw_projection_fits [OF rows i(1) j(1) _ _ _ depth_def])
      (use leaf i(2) in \<open>simp_all add: previous_def next'_def newRows_def\<close>)
  then have f: "fits ?base depth par" by (simp only: fits_def set_eq)
  have fid: "is_folder_id q" if "par = Some q" for q using f that by (auto simp: fits_def)
  note unfolded = pr [unfolded getProjection_def ij prod.case option.case Let_def,
      folded newRows_def, folded previous_def next'_def, folded depth_def, folded par_def]
  show ?thesis
  proof (cases "row_kind (rows ! i) = KItem \<and> par = None")
    case True
    then obtain a where a: "List.find (\<lambda>r. row_kind r = KFolder) (rev (take j newRows)) = Some a"
      "pr = \<lparr>pr_depth = max 1 (row_depth a + 1), pr_parent = Some (row_id a)\<rparr>"
      using unfolded by (auto split: option.splits)
    have "a \<in> set (take j newRows)" using find_SomeD(1) [OF a(1)] by simp
    then have ab: "a \<in> set (remove_at i rows)"
      unfolding newRows_def move_split(2) [OF i(1) j(1)] by (rule in_set_takeD)
    then have "a \<in> set rows" "a \<in> set ?base" using set_eq by auto
    then have "is_folder_id (row_id a)" "0 \<le> row_depth a"
      using folder_row_id [OF rows(1)] find_SomeD(2) [OF a(1)] outline_depth [OF rows(1)] by auto
    then have "fits ?base (pr_depth pr) (pr_parent pr)"
      using a(2) find_SomeD(2) [OF a(1)] \<open>a \<in> set ?base\<close> by (auto simp: fits_def)
    then show ?thesis using that [OF i(3,2)] a(2) by simp
  next
    case False
    then have "pr = \<lparr>pr_depth = depth, pr_parent = par\<rparr>"
      using unfolded fid by (auto split: option.splits if_splits)
    then show ?thesis using that [OF i(3,2)] f False by auto
  qed
qed

text \<open>C6: on the rows that are on display while a row is dragged (its subtree hidden), every accepted
  drop position names the root with depth \<open>0\<close> or a folder on display other than the dragged row with
  the depth just below that folder; an asset is never dropped at the root.\<close>

theorem projection_fits:
  assumes "folders_ok fs" "distinct (map ai_id its)" "flatten lc fs its nb sh = Some all"
    "rows = removeChildrenOf all [active]" "active \<noteq> []"
    "getProjection rows active over x indent = Some pr"
  shows "(case pr_parent pr of
      None \<Rightarrow> pr_depth pr = 0 \<and> (\<exists>r \<in> set rows. row_id r = active \<and> row_kind r = KFolder)
    | Some q \<Rightarrow> q \<noteq> active \<and>
        (\<exists>r \<in> set rows. row_id r = q \<and> row_kind r = KFolder \<and> pr_depth pr = row_depth r + 1))"
proof -
  note w = assms(3) [unfolded flatten_def]
  have "outline None 0 all" by (rule walk_outline [OF w])
  moreover have "distinct (map row_id all)"
    by (rule walk_distinct [OF assms(1,2) w]) (rule ft.top)
  ultimately have r: "outline None 0 rows" "distinct (map row_id rows)"
    unfolding assms(4) by (rule removeChildrenOf_outline)+
  have leaf: "row_parent s \<noteq> Some active" if "s \<in> set rows" for s
    using removeChildrenOf_leaf [of s all "[active]" active] that assms(4,5) by auto
  obtain r where "r \<in> set rows" "row_id r = active"
    "fits (filter (\<lambda>r. row_id r \<noteq> active) rows) (pr_depth pr) (pr_parent pr)"
    "row_kind r = KItem \<Longrightarrow> pr_parent pr \<noteq> None"
    using getProjection_fits [OF r leaf assms(6)] by blast
  then show ?thesis by (cases "row_kind r") (auto simp: fits_def split: option.splits)
qed

theorem projection_fits_witness:
  "\<exists>rows pr. flatten (\<lambda>_ _. 0) sample_folders [sample_item 7 2] (\<lambda>_. None :: unit option) {} = Some rows \<and>
     getProjection (removeChildrenOf rows [''item:7'']) ''item:7'' ''folder:2'' (-40) 20 = Some pr \<and>
     pr_depth pr = 1 \<and> pr_parent pr = Some ''folder:1'' \<and> ''folder:1'' \<noteq> ''item:7''"
proof -
  let ?rows = "[folder_row sample_folders [sample_item 7 2] {} 0 None (sample_folder 1 None),
    folder_row sample_folders [sample_item 7 2] {} 1 (Some ''folder:1'') (sample_folder 2 (Some 1)),
    item_row (\<lambda>_. None :: unit option) 2 ''folder:2'' (sample_item 7 2)]"
  have kids: "childFolders sample_folders 0 = [sample_folder 1 None]"
    "childFolders sample_folders 1 = [sample_folder 2 (Some 1)]" "childFolders sample_folders 2 = []"
    by (simp_all add: childFolders_eq folder_key_def sample_folders_def sample_folder_def)
  have ids: "fId 1 = ''folder:1''" "fId 2 = ''folder:2''" "iId 7 = ''item:7''"
    by (simp_all add: fId_def iId_def show_int_def show_nat.simps char_of_eq_iff)
  have ai: "af_id (sample_folder i p) = i" "ai_folder_id (sample_item j f) = f" "ai_id (sample_item j f) = j" for i p j f
    by (simp_all add: sample_folder_def sample_item_def)
  have fl: "flatten (\<lambda>_ _. 0) sample_folders [sample_item 7 2] (\<lambda>_. None :: unit option) {} = Some ?rows"
    by (simp add: flatten_def sample_folders_def [THEN arg_cong [where f = length]] kids ids ai js_sort_def
        itemsByFolder_eq eval_nat_numeral)
  have rm: "removeChildrenOf ?rows [''item:7''] = ?rows"
    by (simp add: removeChildrenOf_def exclude_step_def folder_row_def item_row_def ids ai)
  let ?pr = "\<lparr>pr_depth = 1, pr_parent = Some ''folder:1''\<rparr>"
  have pr: "getProjection (removeChildrenOf ?rows [''item:7'']) ''item:7'' ''folder:2'' (-40) 20 = Some ?pr"
    unfolding rm
    by (simp add: getProjection_def ids ai arrayMoveLite_def remove_at_def insert_at_def at_index_def
        clamp_def js_round_def projected_parent_def is_folder_id_def Let_def eval_nat_numeral)
  have "distinct (map ai_id [sample_item 7 2])" by simp
  from projection_fits [OF sample_folders_ok this fl refl _ pr] show ?thesis
    using fl pr by (intro exI [of _ ?rows] exI [of _ ?pr]) simp
qed

end
