(* ===== verification/Permissions.thy ===== *)
theory Permissions
  imports JsString "HOL-Library.List_Lexorder" "HOL-Library.Char_ord"
begin

text \<open>
  The vocabulary of permission actions, \<open>lib/access/permissions.ts\<close>, and the label of an action list
  in the tree workbench (\<open>presetLabel\<close> of \<open>tree-model.ts\<close>). The default order of \<open>Array.sort\<close> is the
  order of the encoded strings; it agrees with the order of UTF-16 units on strings without
  characters outside the basic plane.
\<close>

definition ALL_ACTIONS :: "string list" where
  "ALL_ACTIONS = [''connect'', ''sftp_read'', ''sftp_write'', ''port_forward'', ''upload'', ''download'']"

definition ACTION_LABELS :: "string \<rightharpoonup> string" where
  "ACTION_LABELS = map_of
    [(''connect'', utf8 [36830, 25509]), (''sftp_read'', utf8 [83, 70, 84, 80, 32, 35835, 21462]), (''sftp_write'', utf8 [83, 70, 84, 80, 32, 20889, 20837]),
     (''port_forward'', utf8 [31471, 21475, 36716, 21457]), (''upload'', utf8 [25991, 20214, 19978, 20256]), (''download'', utf8 [25991, 20214, 19979, 36733]),
     (''*'', utf8 [20840, 37096, 26435, 38480])]"

definition actionLabel :: "string \<Rightarrow> string" where
  "actionLabel code = nullish (ACTION_LABELS code) code"

record Preset =
  ps_key :: string
  ps_label :: string
  ps_desc :: string
  ps_actions :: "string list"

definition PRESETS :: "Preset list" where
  "PRESETS =
    [\<lparr>ps_key = ''readonly'', ps_label = utf8 [21482, 35835, 36816, 32500], ps_desc = utf8 [36830, 25509, 32, 43, 32, 35835, 21462, 25991, 20214],
      ps_actions = [''connect'', ''sftp_read'']\<rparr>,
     \<lparr>ps_key = ''operate'', ps_label = utf8 [36816, 32500, 25805, 20316], ps_desc = utf8 [36830, 25509, 32, 43, 32, 35835, 20889, 25991, 20214, 32, 43, 32, 31471, 21475, 36716, 21457],
      ps_actions = [''connect'', ''sftp_read'', ''sftp_write'', ''port_forward'']\<rparr>,
     \<lparr>ps_key = ''files'', ps_label = utf8 [20165, 25991, 20214, 20256, 36755], ps_desc = utf8 [19978, 20256, 32, 47, 32, 19979, 36733, 32, 47, 32, 35835, 20889, 25991, 20214],
      ps_actions = [''sftp_read'', ''sftp_write'', ''upload'', ''download'']\<rparr>,
     \<lparr>ps_key = ''full'', ps_label = utf8 [23436, 20840, 35775, 38382], ps_desc = utf8 [35813, 36164, 20135, 30340, 25152, 26377, 26435, 38480],
      ps_actions = [''*'']\<rparr>]"

record ActionMeta =
  am_code :: string
  am_label :: string
  am_hint :: string

record ActionGroup =
  agr_key :: string
  agr_label :: string
  agr_actions :: "ActionMeta list"

definition ACTION_GROUPS :: "ActionGroup list" where
  "ACTION_GROUPS =
    [\<lparr>agr_key = ''session'', agr_label = utf8 [20250, 35805],
      agr_actions = [\<lparr>am_code = ''connect'', am_label = utf8 [36830, 25509], am_hint = utf8 [25171, 24320, 32456, 31471, 32, 47, 32, 36828, 31243, 26700, 38754, 32, 47, 32, 25968, 25454, 24211, 20250, 35805]\<rparr>]\<rparr>,
     \<lparr>agr_key = ''file'', agr_label = utf8 [25991, 20214, 20256, 36755],
      agr_actions =
       [\<lparr>am_code = ''sftp_read'', am_label = utf8 [83, 70, 84, 80, 32, 35835, 21462], am_hint = utf8 [27983, 35272, 12289, 19979, 36733, 36828, 31471, 25991, 20214]\<rparr>,
        \<lparr>am_code = ''sftp_write'', am_label = utf8 [83, 70, 84, 80, 32, 20889, 20837], am_hint = utf8 [20462, 25913, 12289, 21024, 38500, 36828, 31471, 25991, 20214]\<rparr>,
        \<lparr>am_code = ''upload'', am_label = utf8 [25991, 20214, 19978, 20256], am_hint = utf8 [19978, 20256, 25991, 20214, 21040, 36828, 31471]\<rparr>,
        \<lparr>am_code = ''download'', am_label = utf8 [25991, 20214, 19979, 36733], am_hint = utf8 [20174, 36828, 31471, 19979, 36733, 25991, 20214]\<rparr>]\<rparr>,
     \<lparr>agr_key = ''network'', agr_label = utf8 [32593, 32476],
      agr_actions = [\<lparr>am_code = ''port_forward'', am_label = utf8 [31471, 21475, 36716, 21457], am_hint = utf8 [32463, 35813, 36164, 20135, 20570, 32, 84, 67, 80, 32, 31471, 21475, 36716, 21457]\<rparr>]\<rparr>]"

definition norm :: "string list \<Rightarrow> string" where
  "norm a = join_with '','' (sort (uniq a))"

definition matchPreset :: "string list \<Rightarrow> string option" where
  "matchPreset actions =
     map_option ps_key (List.find (\<lambda>p. norm (ps_actions p) = norm actions) PRESETS)"

definition summarizeActions :: "string list \<Rightarrow> string" where
  "summarizeActions actions =
     (if ''*'' \<in> set actions then utf8 [20840, 37096, 26435, 38480]
      else let labels = map actionLabel actions
           in if length labels \<le> 3 then join_with (utf8 [12289]) labels
              else join_with (utf8 [12289]) (take 3 labels) @ utf8 [32, 31561, 32] @ show_nat (length labels) @ utf8 [32, 39033])"

definition presetLabel :: "string list \<Rightarrow> string" where
  "presetLabel actions =
     (let key = join_with '','' (sort actions)
      in case List.find (\<lambda>p. join_with '','' (sort (ps_actions p)) = key) PRESETS of
           Some p \<Rightarrow> ps_label p
         | None \<Rightarrow> join_with (utf8 [32, 183, 32]) (map actionLabel actions))"

section \<open>Properties\<close>

definition action_code :: "string \<Rightarrow> bool" where
  "action_code a \<longleftrightarrow> a \<noteq> [] \<and> CHR '','' \<notin> set a"

lemma join_codes_inject:
  assumes "list_all action_code xs" "list_all action_code ys" "join_with '','' xs = join_with '','' ys"
  shows "xs = ys"
proof -
  have split: "split_on CHR '','' (join_with '','' zs) = zs" if "list_all action_code zs" "zs \<noteq> []" for zs
    using that by (intro split_join_on) (auto simp: list_all_iff action_code_def)
  have nonempty: "join_with '','' zs \<noteq> []" if "list_all action_code zs" "zs \<noteq> []" for zs
    using that by (cases zs rule: list.exhaust; cases "tl zs") (auto simp: action_code_def)
  show ?thesis
  proof (cases "xs = [] \<or> ys = []")
    case True
    then show ?thesis using assms nonempty by (metis join_with.simps(1))
  next
    case False
    then show ?thesis using split assms by metis
  qed
qed

lemma norm_eq_iff:
  assumes "list_all action_code xs" "list_all action_code ys"
  shows "norm xs = norm ys \<longleftrightarrow> set xs = set ys"
proof
  assume "norm xs = norm ys"
  then have "sort (uniq xs) = sort (uniq ys)"
    unfolding norm_def using assms by (intro join_codes_inject) (simp_all add: list_all_iff)
  then show "set xs = set ys" by (metis set_sort set_uniq)
next
  assume "set xs = set ys"
  then have "sort (uniq xs) = sort (uniq ys)"
    by (intro sorted_distinct_set_unique) simp_all
  then show "norm xs = norm ys" by (simp add: norm_def)
qed

lemma PRESETS_codes: "p \<in> set PRESETS \<Longrightarrow> list_all action_code (ps_actions p)"
  by (auto simp: PRESETS_def action_code_def)

lemma PRESETS_actions:
  "map ps_actions PRESETS =
    [[''connect'', ''sftp_read''], [''connect'', ''sftp_read'', ''sftp_write'', ''port_forward''],
     [''sftp_read'', ''sftp_write'', ''upload'', ''download''], [''*'']]"
  by (simp add: PRESETS_def)

lemma PRESETS_sets: "distinct (map (\<lambda>p. set (ps_actions p)) PRESETS)"
proof -
  have "distinct (map set (map ps_actions PRESETS))"
    unfolding PRESETS_actions by code_simp
  then show ?thesis by (simp add: comp_def)
qed

lemma PRESETS_keys: "distinct (map ps_key PRESETS)"
  by (simp add: PRESETS_def)

text \<open>a list of action codes matches a preset exactly when it contains the same actions, in any
  order and with any repetitions; no list matches two presets.\<close>

theorem matchPreset_set:
  assumes "list_all action_code actions" "p \<in> set PRESETS"
  shows "matchPreset actions = Some (ps_key p) \<longleftrightarrow> set actions = set (ps_actions p)"
proof
  assume "matchPreset actions = Some (ps_key p)"
  then obtain q where q: "List.find (\<lambda>p. norm (ps_actions p) = norm actions) PRESETS = Some q"
    "ps_key q = ps_key p" by (auto simp: matchPreset_def)
  note f = find_SomeD [OF q(1)]
  have "q = p" using q(2) f(1) assms(2) PRESETS_keys by (simp add: distinct_map inj_on_def)
  then show "set actions = set (ps_actions p)"
    using f(2) norm_eq_iff [OF PRESETS_codes [OF assms(2)] assms(1)] by auto
next
  assume e: "set actions = set (ps_actions p)"
  have "norm (ps_actions q) = norm actions \<longleftrightarrow> q = p" if "q \<in> set PRESETS" for q
    using norm_eq_iff [OF PRESETS_codes [OF that] assms(1)] e that assms(2) PRESETS_sets
    by (simp add: distinct_map inj_on_def) blast
  then have "List.find (\<lambda>p. norm (ps_actions p) = norm actions) PRESETS = List.find (\<lambda>q. q = p) PRESETS"
    by (intro find_cong) auto
  also have "\<dots> = Some p"
    using assms(2) by (cases "List.find (\<lambda>q. q = p) PRESETS") (auto simp: find_None_iff_set dest: find_SomeD)
  finally show "matchPreset actions = Some (ps_key p)" by (simp add: matchPreset_def)
qed

theorem matchPreset_set_witness:
  "matchPreset [''sftp_read'', ''connect'', ''sftp_read''] = Some ''readonly''"
proof -
  have "hd PRESETS \<in> set PRESETS" by (simp add: PRESETS_def)
  from matchPreset_set [of "[''sftp_read'', ''connect'', ''sftp_read'']", OF _ this]
  show ?thesis by (auto simp: action_code_def PRESETS_def)
qed

end
