(* ===== verification/AssetTree.thy ===== *)
theory AssetTree
  imports Forest ApiTypes
begin

text \<open>
  The tree of a grantee's reachable assets, \<open>lib/asset-tree/build.ts\<close>: the reachable nodes are hung on
  the group hierarchy, empty groups are pruned, and nodes in no group of the hierarchy go under a
  synthetic folder. Locale comparison is a parameter. The two recursive closures carry fuel, one unit
  per level; \<open>None\<close> is running out of it.
\<close>

section \<open>Rows\<close>

datatype AccessTreeRow =
    RGroup string int string string nat "AccessTreeRow list"
  | RUngrouped string string nat "AccessTreeRow list"
  | RNode string int "Node option" "NodeAccess option" string

definition byNodeName :: "(string \<Rightarrow> string \<Rightarrow> int) \<Rightarrow> (int \<rightharpoonup> Node) \<Rightarrow> AccessTreeRow \<Rightarrow> AccessTreeRow \<Rightarrow> int" where
  "byNodeName localeCompare nodeById a b =
     (let name_of = (\<lambda>r. case r of
            RNode _ nid _ _ _ \<Rightarrow> (case nodeById nid of Some n \<Rightarrow> nd_name n | None \<Rightarrow> [])
          | _ \<Rightarrow> [])
      in localeCompare (name_of a) (name_of b))"

definition accessByNode :: "NodeAccess list \<Rightarrow> (int \<rightharpoonup> NodeAccess)" where
  "accessByNode reach = foldl (\<lambda>m a. m(na_node_id a \<mapsto> a)) Map.empty reach"

text \<open>The group ids of a node that are in scope.\<close>

definition scoped_groups :: "AssetGroup list \<Rightarrow> NodeAccess \<Rightarrow> int list" where
  "scoped_groups groups a = filter (\<lambda>g. g \<in> ag_id ` set groups) (nullish (na_group_ids a) [])"

definition push_member :: "int \<Rightarrow> (int \<rightharpoonup> int list) \<Rightarrow> int \<Rightarrow> (int \<rightharpoonup> int list)" where
  "push_member nid m gid = m(gid \<mapsto> nullish (m gid) [] @ [nid])"

text \<open>One turn of the loop that fills \<open>directMembers\<close> and \<open>ungrouped\<close>.\<close>

definition member_step ::
    "AssetGroup list \<Rightarrow> (int \<rightharpoonup> int list) \<times> int list \<Rightarrow> NodeAccess \<Rightarrow> (int \<rightharpoonup> int list) \<times> int list" where
  "member_step groups st a =
     (let gids = scoped_groups groups a
      in if length gids = 0 then (fst st, snd st @ [na_node_id a])
         else (foldl (push_member (na_node_id a)) (fst st) gids, snd st))"

definition members :: "AssetGroup list \<Rightarrow> NodeAccess list \<Rightarrow> (int \<rightharpoonup> int list) \<times> int list" where
  "members groups reach = foldl (member_step groups) (Map.empty, []) reach"

definition directMembers :: "AssetGroup list \<Rightarrow> NodeAccess list \<Rightarrow> int \<Rightarrow> int list" where
  "directMembers groups reach gid = nullish (fst (members groups reach) gid) []"

definition group_key :: "AssetGroup list \<Rightarrow> AssetGroup \<Rightarrow> int" where
  "group_key groups g =
     (case ag_parent_id g of
        Some p \<Rightarrow> if p \<in> ag_id ` set groups then p else 0
      | None \<Rightarrow> 0)"

definition childrenOf :: "AssetGroup list \<Rightarrow> int \<Rightarrow> AssetGroup list" where
  "childrenOf groups k = nullish (bucket_by (group_key groups) groups k) []"

text \<open>\<open>computeTotal\<close> returns the count and records it in \<open>subtreeTotal\<close>.\<close>

fun sum_children ::
    "(AssetGroup \<Rightarrow> (int \<rightharpoonup> nat) \<Rightarrow> (nat \<times> (int \<rightharpoonup> nat)) option) \<Rightarrow> AssetGroup list \<Rightarrow>
     nat \<Rightarrow> (int \<rightharpoonup> nat) \<Rightarrow> (nat \<times> (int \<rightharpoonup> nat)) option" where
  "sum_children ct [] n m = Some (n, m)"
| "sum_children ct (c # cs) n m =
     (case ct c m of None \<Rightarrow> None | Some (k, m') \<Rightarrow> sum_children ct cs (n + k) m')"

primrec computeTotal ::
    "AssetGroup list \<Rightarrow> NodeAccess list \<Rightarrow> nat \<Rightarrow> AssetGroup \<Rightarrow> (int \<rightharpoonup> nat) \<Rightarrow>
     (nat \<times> (int \<rightharpoonup> nat)) option" where
  "computeTotal groups reach 0 g m = None"
| "computeTotal groups reach (Suc fuel) g m =
     (case sum_children (computeTotal groups reach fuel) (childrenOf groups (ag_id g))
             (length (directMembers groups reach (ag_id g))) m of
        None \<Rightarrow> None
      | Some (n, m') \<Rightarrow> Some (n, m'(ag_id g \<mapsto> n)))"

definition node_row_id :: "string \<Rightarrow> int \<Rightarrow> string" where
  "node_row_id parentKey nid = parentKey @ '':n:'' @ show_int nid"

definition makeNodeRow ::
    "NodeAccess list \<Rightarrow> (int \<rightharpoonup> Node) \<Rightarrow> string \<Rightarrow> int \<Rightarrow> AccessTreeRow" where
  "makeNodeRow reach nodeById parentKey nid =
     RNode (node_row_id parentKey nid) nid (nodeById nid) (accessByNode reach nid) parentKey"

definition by_name :: "(string \<Rightarrow> string \<Rightarrow> int) \<Rightarrow> AssetGroup \<Rightarrow> AssetGroup \<Rightarrow> int" where
  "by_name localeCompare a b = localeCompare (ag_name a) (ag_name b)"

text \<open>The rows that are not \<open>null\<close>\<close>

definition present :: "'a option list \<Rightarrow> 'a list" where
  "present xs = map the (filter (\<lambda>x. x \<noteq> None) xs)"

primrec makeGroup ::
    "(string \<Rightarrow> string \<Rightarrow> int) \<Rightarrow> AssetGroup list \<Rightarrow> NodeAccess list \<Rightarrow> (int \<rightharpoonup> Node) \<Rightarrow> (int \<rightharpoonup> nat) \<Rightarrow>
     nat \<Rightarrow> AssetGroup \<Rightarrow> AccessTreeRow option option" where
  "makeGroup lc groups reach nodeById subtreeTotal 0 g = None"
| "makeGroup lc groups reach nodeById subtreeTotal (Suc fuel) g =
     (if nullish (subtreeTotal (ag_id g)) 0 = 0 then Some None
      else let key = ''g:'' @ show_int (ag_id g)
           in map_option (\<lambda>rows.
                Some (RGroup key (ag_id g) (ag_name g) (ag_path g) (nullish (subtreeTotal (ag_id g)) 0)
                  (present rows
                   @ js_sort (byNodeName lc nodeById)
                       (map (makeNodeRow reach nodeById key) (directMembers groups reach (ag_id g))))))
              (collect (map (makeGroup lc groups reach nodeById subtreeTotal fuel)
                (js_sort (by_name lc) (childrenOf groups (ag_id g))))))"

definition UNGROUPED_LABEL :: string where
  "UNGROUPED_LABEL = utf8 [26410, 20998, 32452, 32, 47, 32, 30452, 25509, 25480, 26435]"

definition buildAccessTree ::
    "(string \<Rightarrow> string \<Rightarrow> int) \<Rightarrow> AssetGroup list \<Rightarrow> NodeAccess list \<Rightarrow> (int \<rightharpoonup> Node) \<Rightarrow>
     AccessTreeRow list option" where
  "buildAccessTree lc groups reach nodeById =
     (let fuel = length groups;
          ungrouped = snd (members groups reach)
      in case sum_children (computeTotal groups reach fuel) (childrenOf groups 0) 0 Map.empty of
           None \<Rightarrow> None
         | Some (_, subtreeTotal) \<Rightarrow>
             map_option (\<lambda>rows.
               present rows
               @ (if 0 < length ungrouped
                  then [RUngrouped ''ungrouped'' UNGROUPED_LABEL (length ungrouped)
                          (js_sort (byNodeName lc nodeById) (map (makeNodeRow reach nodeById ''ungrouped'') ungrouped))]
                  else []))
             (collect (map (makeGroup lc groups reach nodeById subtreeTotal fuel)
               (js_sort (by_name lc) (childrenOf groups 0)))))"

fun collectGroupRowIds :: "AccessTreeRow list \<Rightarrow> string list" where
  "collectGroupRowIds [] = []"
| "collectGroupRowIds (RGroup i _ _ _ _ ch # rows) = i # collectGroupRowIds ch @ collectGroupRowIds rows"
| "collectGroupRowIds (RUngrouped i _ _ ch # rows) = i # collectGroupRowIds ch @ collectGroupRowIds rows"
| "collectGroupRowIds (RNode _ _ _ _ _ # rows) = collectGroupRowIds rows"

fun childrenOfRow :: "AccessTreeRow \<Rightarrow> AccessTreeRow list option" where
  "childrenOfRow (RNode _ _ _ _ _) = None"
| "childrenOfRow (RGroup _ _ _ _ _ ch) = Some ch"
| "childrenOfRow (RUngrouped _ _ _ ch) = Some ch"

section \<open>The groups as a forest\<close>

definition groups_ok :: "AssetGroup list \<Rightarrow> bool" where
  "groups_ok groups \<longleftrightarrow> distinct (map ag_id groups) \<and> 0 \<notin> ag_id ` set groups"

lemma childrenOf_eq: "childrenOf groups k = filter (\<lambda>g. group_key groups g = k) groups"
  by (simp add: childrenOf_def bucket_get)

interpretation gf: forest groups_ok childrenOf ag_id
  by unfold_locales (auto simp: childrenOf_eq groups_ok_def distinct_map inj_on_def)

section \<open>Members\<close>

lemma push_members:
  "nullish (foldl (push_member nid) m gids gid) [] = nullish (m gid) [] @ replicate (count_list gids gid) nid"
proof (induction gids arbitrary: m)
  case (Cons g gids)
  then show ?case by (auto simp: push_member_def replicate_app_Cons_same)
qed simp

text \<open>The group memberships of the reachable nodes, in the order of the list.\<close>

definition memberships :: "AssetGroup list \<Rightarrow> NodeAccess list \<Rightarrow> (int \<times> int) list" where
  "memberships groups reach = concat (map (\<lambda>a. map (\<lambda>g. (g, na_node_id a)) (scoped_groups groups a)) reach)"

definition loose_nodes :: "AssetGroup list \<Rightarrow> NodeAccess list \<Rightarrow> int list" where
  "loose_nodes groups reach = map na_node_id (filter (\<lambda>a. scoped_groups groups a = []) reach)"

lemma filter_pairs:
  "map snd (filter (\<lambda>p. fst p = gid) (map (\<lambda>g. (g, n)) gids)) = replicate (count_list gids gid) n"
  by (induction gids) auto

lemma members_eq:
  "nullish (fst (members groups reach) gid) [] = map snd (filter (\<lambda>p. fst p = gid) (memberships groups reach))"
  "snd (members groups reach) = loose_nodes groups reach"
proof (induction reach rule: rev_induct)
  case Nil
  show "nullish (fst (members groups []) gid) [] = map snd (filter (\<lambda>p. fst p = gid) (memberships groups []))"
    "snd (members groups []) = loose_nodes groups []"
    by (simp_all add: members_def memberships_def loose_nodes_def)
next
  case (snoc a reach)
  have s: "members groups (reach @ [a]) = member_step groups (members groups reach) a"
    by (simp add: members_def)
  show "nullish (fst (members groups (reach @ [a])) gid) []
      = map snd (filter (\<lambda>p. fst p = gid) (memberships groups (reach @ [a])))"
    using snoc(1) by (cases "scoped_groups groups a = []")
      (auto simp: s member_step_def Let_def push_members memberships_def filter_pairs)
  show "snd (members groups (reach @ [a])) = loose_nodes groups (reach @ [a])"
    using snoc(2) by (auto simp: s member_step_def Let_def loose_nodes_def)
qed

lemma directMembers_eq:
  "directMembers groups reach gid = map snd (filter (\<lambda>p. fst p = gid) (memberships groups reach))"
  by (simp add: directMembers_def members_eq)

lemma memberships_scope: "(g, n) \<in> set (memberships groups reach) \<Longrightarrow> g \<in> ag_id ` set groups"
  by (auto simp: memberships_def scoped_groups_def)

section \<open>Totals\<close>

abbreviation sub :: "AssetGroup list \<Rightarrow> AssetGroup \<Rightarrow> AssetGroup list" where
  "sub groups g \<equiv> gf.subtree groups (length groups) g"

definition tot :: "AssetGroup list \<Rightarrow> NodeAccess list \<Rightarrow> AssetGroup \<Rightarrow> nat" where
  "tot groups reach g = (\<Sum>h\<leftarrow>sub groups g. length (directMembers groups reach (ag_id h)))"

text \<open>The map has the totals of the groups in \<open>S\<close> and is unchanged elsewhere.\<close>

definition recorded ::
    "AssetGroup list \<Rightarrow> NodeAccess list \<Rightarrow> AssetGroup set \<Rightarrow> (int \<rightharpoonup> nat) \<Rightarrow> (int \<rightharpoonup> nat) \<Rightarrow> bool" where
  "recorded groups reach S m m' \<longleftrightarrow>
     (\<forall>h \<in> S. m' (ag_id h) = Some (tot groups reach h)) \<and> (\<forall>k. k \<notin> ag_id ` S \<longrightarrow> m' k = m k)"

lemma recorded_refl: "recorded groups reach {} m m"
  by (simp add: recorded_def)

lemma recorded_trans:
  assumes "groups_ok groups" "recorded groups reach S m m1" "recorded groups reach T m1 m2"
    "S \<subseteq> set groups" "T \<subseteq> set groups"
  shows "recorded groups reach (S \<union> T) m m2"
proof -
  have "m2 (ag_id h) = Some (tot groups reach h)" if h: "h \<in> S" for h
  proof (cases "ag_id h \<in> ag_id ` T")
    case True
    then obtain h' where "h' \<in> T" "ag_id h = ag_id h'" by blast
    moreover from this have "h = h'" using gf.ident_inj [OF assms(1)] h assms(4,5) by blast
    ultimately show ?thesis using assms(3) by (simp add: recorded_def)
  next
    case False
    then show ?thesis using assms(2,3) h by (simp add: recorded_def)
  qed
  then show ?thesis using assms(2,3) by (simp add: recorded_def image_Un ball_Un)
qed

lemma sum_children_spec:
  assumes "groups_ok groups" "set cs \<subseteq> set groups"
    "\<And>c m. c \<in> set cs \<Longrightarrow> \<exists>m'. ct c m = Some (tot groups reach c, m') \<and> recorded groups reach (set (sub groups c)) m m'"
    "\<And>c. c \<in> set cs \<Longrightarrow> set (sub groups c) \<subseteq> set groups"
  shows "\<exists>m'. sum_children ct cs n m = Some (n + (\<Sum>c\<leftarrow>cs. tot groups reach c), m') \<and>
    recorded groups reach (\<Union>c \<in> set cs. set (sub groups c)) m m'"
  using assms(2-)
proof (induction cs arbitrary: n m)
  case (Cons c cs)
  obtain m1 where m1: "ct c m = Some (tot groups reach c, m1)" "recorded groups reach (set (sub groups c)) m m1"
    using Cons.prems(2) [of c m] by auto
  have "\<exists>m'. sum_children ct cs (n + tot groups reach c) m1
      = Some (n + tot groups reach c + (\<Sum>c\<leftarrow>cs. tot groups reach c), m') \<and>
    recorded groups reach (\<Union>c \<in> set cs. set (sub groups c)) m1 m'"
    using Cons.prems by (intro Cons.IH) auto
  then obtain m2 where m2: "sum_children ct cs (n + tot groups reach c) m1
      = Some (n + tot groups reach c + (\<Sum>c\<leftarrow>cs. tot groups reach c), m2)"
    "recorded groups reach (\<Union>c \<in> set cs. set (sub groups c)) m1 m2" by blast
  have "recorded groups reach (set (sub groups c) \<union> (\<Union>c \<in> set cs. set (sub groups c))) m m2"
    using Cons.prems(3) by (intro recorded_trans [OF assms(1) m1(2) m2(2)]) auto
  then show ?case by (simp add: m1(1) m2(1) add.assoc)
qed (simp add: recorded_refl)

lemma sub_listed: "gf.chain groups (g # p) \<Longrightarrow> set (gf.subtree groups n g) \<subseteq> set groups"
proof
  fix x assume "gf.chain groups (g # p)" "x \<in> set (gf.subtree groups n g)"
  then obtain a where "gf.chain groups (a @ g # p)" "x = hd (a @ [g])" using gf.subtree_chain by blast
  then show "x \<in> set groups" using gf.chain_listed by (cases a) fastforce+
qed

lemma sub_unfold:
  assumes "groups_ok groups" "gf.chain groups (g # p)"
  shows "sub groups g = g # concat (map (sub groups) (childrenOf groups (ag_id g)))"
proof -
  have l: "length (g # p) \<le> length groups" using gf.chain_bounded [OF assms] .
  then obtain k where k: "length groups = Suc k" by (cases "length groups") auto
  have "map (gf.subtree groups k) (childrenOf groups (ag_id g)) = map (sub groups) (childrenOf groups (ag_id g))"
    using l k by (intro map_cong refl gf.subtree_fuel [OF assms(1) gf.below [OF assms(2)]]) auto
  then have "gf.subtree groups (Suc k) g = g # concat (map (sub groups) (childrenOf groups (ag_id g)))"
    by (simp only: gf.subtree.simps(2))
  then show ?thesis by (simp only: k)
qed

lemma tot_unfold:
  assumes "groups_ok groups" "gf.chain groups (g # p)"
  shows "tot groups reach g = length (directMembers groups reach (ag_id g))
    + (\<Sum>c\<leftarrow>childrenOf groups (ag_id g). tot groups reach c)"
proof -
  have "(\<Sum>h\<leftarrow>concat (map f cs). x h) = (\<Sum>c\<leftarrow>cs. \<Sum>h\<leftarrow>f c. x h)" for f cs and x :: "AssetGroup \<Rightarrow> nat"
    by (induction cs) auto
  then show ?thesis by (simp add: tot_def sub_unfold [OF assms])
qed

lemma computeTotal_spec:
  "groups_ok groups \<Longrightarrow> gf.chain groups (g # p) \<Longrightarrow> length groups \<le> n + length p \<Longrightarrow>
   \<exists>m'. computeTotal groups reach n g m = Some (tot groups reach g, m') \<and>
     recorded groups reach (set (sub groups g)) m m'"
proof (induction n arbitrary: g p m)
  case 0
  have "length (g # p) \<le> length groups" using gf.chain_bounded [OF 0(1,2)] .
  with 0 show ?case by simp
next
  case (Suc n)
  let ?cs = "childrenOf groups (ag_id g)"
  have kid: "gf.chain groups (h # g # p)" if "h \<in> set ?cs" for h
    using gf.below [OF Suc.prems(2) that] .
  have "\<exists>m'. sum_children (computeTotal groups reach n) ?cs (length (directMembers groups reach (ag_id g))) m
      = Some (length (directMembers groups reach (ag_id g)) + (\<Sum>c\<leftarrow>?cs. tot groups reach c), m') \<and>
    recorded groups reach (\<Union>c \<in> set ?cs. set (sub groups c)) m m'"
  proof (rule sum_children_spec [OF Suc.prems(1)])
    show "set ?cs \<subseteq> set groups" by (auto simp: childrenOf_eq)
    show "\<exists>m'. computeTotal groups reach n c m = Some (tot groups reach c, m') \<and>
        recorded groups reach (set (sub groups c)) m m'" if "c \<in> set ?cs" for c m
      using Suc.prems(3) by (intro Suc.IH [OF Suc.prems(1) kid [OF that]]) auto
    show "set (sub groups c) \<subseteq> set groups" if "c \<in> set ?cs" for c
      using sub_listed [OF kid [OF that]] .
  qed
  then obtain m1 where m1: "sum_children (computeTotal groups reach n) ?cs (length (directMembers groups reach (ag_id g))) m
      = Some (tot groups reach g, m1)" "recorded groups reach (\<Union>c \<in> set ?cs. set (sub groups c)) m m1"
    using tot_unfold [OF Suc.prems(1,2)] by auto
  have "recorded groups reach {g} m1 (m1(ag_id g \<mapsto> tot groups reach g))"
    by (auto simp: recorded_def)
  moreover have "(\<Union>c \<in> set ?cs. set (sub groups c)) \<subseteq> set groups"
    using sub_listed [OF kid] by blast
  moreover have "g \<in> set groups" using gf.chain_listed [OF Suc.prems(2)] by simp
  ultimately have "recorded groups reach ((\<Union>c \<in> set ?cs. set (sub groups c)) \<union> {g}) m (m1(ag_id g \<mapsto> tot groups reach g))"
    by (intro recorded_trans [OF Suc.prems(1) m1(2)]) auto
  moreover have "set (sub groups g) = (\<Union>c \<in> set ?cs. set (sub groups c)) \<union> {g}"
    by (simp add: sub_unfold [OF Suc.prems(1,2)])
  ultimately show ?case by (simp add: m1(1))
qed

section \<open>Rows of a subtree\<close>

text \<open>The leaves of a row, each with the key of its parent.\<close>

fun leaves :: "AccessTreeRow \<Rightarrow> (string \<times> int) list" where
  "leaves (RNode _ nid _ _ pk) = [(pk, nid)]"
| "leaves (RGroup _ _ _ _ _ ch) = concat (map leaves ch)"
| "leaves (RUngrouped _ _ _ ch) = concat (map leaves ch)"

text \<open>Every folder row states the number of leaves below it, and there are some.\<close>

fun counted :: "AccessTreeRow \<Rightarrow> bool" where
  "counted (RNode _ _ _ _ _) = True"
| "counted (RGroup i g l p t ch) \<longleftrightarrow> t = length (leaves (RGroup i g l p t ch)) \<and> 0 < t \<and> list_all counted ch"
| "counted (RUngrouped i l t ch) \<longleftrightarrow> t = length (leaves (RUngrouped i l t ch)) \<and> 0 < t \<and> list_all counted ch"

definition group_row_key :: "int \<Rightarrow> string" where
  "group_row_key g = ''g:'' @ show_int g"

definition own_leaves :: "AssetGroup list \<Rightarrow> NodeAccess list \<Rightarrow> AssetGroup \<Rightarrow> (string \<times> int) list" where
  "own_leaves groups reach g =
     map (\<lambda>n. (group_row_key (ag_id g), n)) (directMembers groups reach (ag_id g))"

lemma leaves_nodes: "concat (map leaves (map (makeNodeRow reach nb key) nids)) = map (\<lambda>n. (key, n)) nids"
  by (induction nids) (auto simp: makeNodeRow_def)

lemma counted_nodes: "list_all counted (js_sort cmp (map (makeNodeRow reach nb key) nids))"
  by (auto simp: list_all_iff makeNodeRow_def)

lemma mset_concat_map: "mset xs = mset ys \<Longrightarrow> mset (concat (map f xs)) = mset (concat (map f ys))"
  by (metis mset_concat mset_map sum_mset_sum_list)

lemma mset_concat_cong:
  "(\<And>x. x \<in> set xs \<Longrightarrow> mset (f x) = mset (g x)) \<Longrightarrow> mset (concat (map f xs)) = mset (concat (map g xs))"
  by (induction xs) auto

definition leaves_opt :: "AccessTreeRow option \<Rightarrow> (string \<times> int) list" where
  "leaves_opt r = (case r of None \<Rightarrow> [] | Some row \<Rightarrow> leaves row)"

lemma leaves_present: "concat (map leaves (present rs)) = concat (map leaves_opt rs)"
  by (induction rs) (auto simp: present_def leaves_opt_def)

lemma counted_present: "list_all counted (present rs) \<longleftrightarrow> (\<forall>row. Some row \<in> set rs \<longrightarrow> counted row)"
  by (force simp: present_def list_all_iff)

lemma concat_map_concat: "concat (map (\<lambda>c. concat (map f (g c))) cs) = concat (map f (concat (map g cs)))"
  by (induction cs) auto

lemma length_concat_map: "length (concat (map f xs)) = (\<Sum>x\<leftarrow>xs. length (f x))"
  by (simp add: length_concat comp_def)

lemma tot_leaves: "tot groups reach g = length (concat (map (own_leaves groups reach) (sub groups g)))"
  by (simp add: tot_def length_concat_map own_leaves_def)

text \<open>What one call of \<open>makeGroup\<close> returns for a group, given its recorded totals.\<close>

definition group_result :: "AssetGroup list \<Rightarrow> NodeAccess list \<Rightarrow> AssetGroup \<Rightarrow> AccessTreeRow option \<Rightarrow> bool" where
  "group_result groups reach g r \<longleftrightarrow>
     (\<forall>row. r = Some row \<longrightarrow> counted row) \<and>
     mset (leaves_opt r) = mset (concat (map (own_leaves groups reach) (sub groups g)))"

lemma collect_results:
  assumes "\<And>c. c \<in> set cs \<Longrightarrow> \<exists>r. mk c = Some r \<and> group_result groups reach c r"
  shows "\<exists>rs. collect (map mk (js_sort cmp cs)) = Some rs \<and> list_all counted (present rs) \<and>
    mset (concat (map leaves (present rs)))
      = mset (concat (map (own_leaves groups reach) (concat (map (sub groups) cs))))"
proof -
  let ?cs = "js_sort cmp cs"
  let ?rs = "map (the \<circ> mk) ?cs"
  have c: "mk c = Some (the (mk c))" "group_result groups reach c (the (mk c))" if "c \<in> set cs" for c
    using assms [OF that] by auto
  have "collect (map mk ?cs) = Some ?rs" using c by (auto simp: collect_Some_iff)
  moreover have "list_all counted (present ?rs)"
    using c(2) by (fastforce simp: counted_present group_result_def)
  moreover have "mset (concat (map leaves (present ?rs)))
      = mset (concat (map (own_leaves groups reach) (concat (map (sub groups) cs))))"
  proof -
    have "mset (concat (map leaves (present ?rs))) = mset (concat (map (\<lambda>c. leaves_opt (the (mk c))) ?cs))"
      by (simp add: leaves_present comp_def)
    also have "\<dots> = mset (concat (map (\<lambda>c. concat (map (own_leaves groups reach) (sub groups c))) ?cs))"
      using c(2) by (intro mset_concat_cong) (simp add: group_result_def)
    also have "\<dots> = mset (concat (map (\<lambda>c. concat (map (own_leaves groups reach) (sub groups c))) cs))"
      by (rule mset_concat_map) simp
    also have "\<dots> = mset (concat (map (own_leaves groups reach) (concat (map (sub groups) cs))))"
      by (simp only: concat_map_concat)
    finally show ?thesis .
  qed
  ultimately show ?thesis by blast
qed

lemma makeGroup_spec:
  "groups_ok groups \<Longrightarrow> gf.chain groups (g # p) \<Longrightarrow> length groups \<le> n + length p \<Longrightarrow>
   (\<And>h. h \<in> set (sub groups g) \<Longrightarrow> totals (ag_id h) = Some (tot groups reach h)) \<Longrightarrow>
   \<exists>r. makeGroup lc groups reach nb totals n g = Some r \<and> group_result groups reach g r"
proof (induction n arbitrary: g p)
  case 0
  have "length (g # p) \<le> length groups" using gf.chain_bounded [OF 0(1,2)] .
  with 0 show ?case by simp
next
  case (Suc n)
  let ?cs = "childrenOf groups (ag_id g)"
  let ?own = "own_leaves groups reach g"
  note unf = sub_unfold [OF Suc.prems(1,2)]
  have tg: "totals (ag_id g) = Some (tot groups reach g)" using Suc.prems(4) by (simp add: unf)
  show ?case
  proof (cases "tot groups reach g = 0")
    case True
    then have "makeGroup lc groups reach nb totals (Suc n) g = Some None" by (simp add: tg)
    moreover have "group_result groups reach g None"
      using True by (simp only: group_result_def tot_leaves leaves_opt_def length_0_conv) simp
    ultimately show ?thesis by blast
  next
    case False
    have "\<exists>r. makeGroup lc groups reach nb totals n c = Some r \<and> group_result groups reach c r"
      if c: "c \<in> set ?cs" for c
    proof (rule Suc.IH [OF Suc.prems(1) gf.below [OF Suc.prems(2) c]])
      show "length groups \<le> n + length (g # p)" using Suc.prems(3) by simp
      show "totals (ag_id h) = Some (tot groups reach h)" if "h \<in> set (sub groups c)" for h
        using that c by (intro Suc.prems(4)) (auto simp: unf)
    qed
    from collect_results [OF this, of ?cs "by_name lc"] obtain rs where
      rs: "collect (map (makeGroup lc groups reach nb totals n) (js_sort (by_name lc) ?cs)) = Some rs"
        "list_all counted (present rs)"
        "mset (concat (map leaves (present rs)))
          = mset (concat (map (own_leaves groups reach) (concat (map (sub groups) ?cs))))"
      by blast
    let ?nodes = "js_sort (byNodeName lc nb)
      (map (makeNodeRow reach nb (group_row_key (ag_id g))) (directMembers groups reach (ag_id g)))"
    let ?row = "RGroup (group_row_key (ag_id g)) (ag_id g) (ag_name g) (ag_path g) (tot groups reach g)
      (present rs @ ?nodes)"
    have mk: "makeGroup lc groups reach nb totals (Suc n) g = Some (Some ?row)"
      using False by (simp add: tg rs(1) group_row_key_def Let_def)
    have "mset (concat (map leaves ?nodes))
        = mset (concat (map leaves (map (makeNodeRow reach nb (group_row_key (ag_id g)))
            (directMembers groups reach (ag_id g)))))"
      by (rule mset_concat_map) simp
    also have "\<dots> = mset ?own" by (simp only: leaves_nodes own_leaves_def)
    finally have m: "mset (leaves ?row) = mset (concat (map (own_leaves groups reach) (sub groups g)))"
      using rs(3) by (simp add: unf)
    then have "length (leaves ?row) = tot groups reach g" unfolding tot_leaves by (rule mset_eq_length)
    then have "counted ?row" using False rs(2) counted_nodes by simp
    then have "group_result groups reach g (Some ?row)" using m
      by (simp add: group_result_def leaves_opt_def del: counted.simps leaves.simps)
    with mk show ?thesis by blast
  qed
qed

section \<open>The whole tree\<close>

text \<open>The groups that hang on a root group; the others lie on a cycle of parents.\<close>

inductive hangs :: "AssetGroup list \<Rightarrow> AssetGroup \<Rightarrow> bool" for groups where
  hangs_root: "g \<in> set (childrenOf groups 0) \<Longrightarrow> hangs groups g"
| hangs_below: "hangs groups g \<Longrightarrow> h \<in> set (childrenOf groups (ag_id g)) \<Longrightarrow> hangs groups h"

lemma hangs_chain: "hangs groups g \<Longrightarrow> \<exists>p. gf.chain groups (g # p)"
  by (induction rule: hangs.induct) (auto intro: gf.chain.intros)

lemma group_by_key:
  assumes "distinct ks" "f ` set xs \<subseteq> set ks"
  shows "mset (concat (map (\<lambda>k. filter (\<lambda>x. f x = k) xs) ks)) = mset xs"
  using assms(2)
proof (induction xs)
  case (Cons x xs)
  have "mset (concat (map (\<lambda>k. filter (\<lambda>x. f x = k) (x # xs)) ks))
      = (if f x \<in> set ks then {#x#} else {#}) + mset (concat (map (\<lambda>k. filter (\<lambda>x. f x = k) xs) ks))"
    using assms(1) by (induction ks) auto
  with Cons show ?case by simp
qed simp

lemma own_leaves_all:
  assumes "groups_ok groups"
  shows "mset (concat (map (own_leaves groups reach) groups))
    = mset (map (\<lambda>(g, n). (group_row_key g, n)) (memberships groups reach))"
proof -
  let ?ms = "memberships groups reach"
  let ?key = "\<lambda>(g, n). (group_row_key g, n)"
  have own: "own_leaves groups reach g = map ?key (filter (\<lambda>x. fst x = ag_id g) ?ms)" for g
    unfolding own_leaves_def directMembers_eq by (induction ?ms) auto
  have "concat (map (own_leaves groups reach) groups)
      = map ?key (concat (map (\<lambda>k. filter (\<lambda>x. fst x = k) ?ms) (map ag_id groups)))"
    by (simp add: own [THEN ext] map_concat comp_def)
  moreover have "mset (concat (map (\<lambda>k. filter (\<lambda>x. fst x = k) ?ms) (map ag_id groups))) = mset ?ms"
  proof (rule group_by_key)
    show "distinct (map ag_id groups)" using assms by (simp add: groups_ok_def)
    show "fst ` set ?ms \<subseteq> set (map ag_id groups)" using memberships_scope by fastforce
  qed
  ultimately show ?thesis by (metis mset_map)
qed


definition sample_group :: "int \<Rightarrow> int option \<Rightarrow> AssetGroup" where
  "sample_group i p = \<lparr>ag_id = i, ag_name = ''g'', ag_parent_id = p, ag_path = [], ag_description = None,
     ag_node_ids = None\<rparr>"

definition sample_access :: "int \<Rightarrow> int list \<Rightarrow> NodeAccess" where
  "sample_access n gs = \<lparr>na_node_id = n, na_actions = [], na_sources = [], na_valid_to = None, na_group_ids = Some gs\<rparr>"


end
