(* ===== verification/AssetExport.thy ===== *)
theory AssetExport
  imports ApiTypes
begin

text \<open>
  The CSV export of the asset tree, \<open>lib/asset-tree/export.ts\<close>. The facts relate it to a reader of
  RFC 4180 records defined here: reading the export back gives the header and the fields of every
  node, whatever commas, quotes and line breaks they contain.
\<close>

section \<open>The export\<close>

definition COLUMNS :: "(string \<times> string \<times> (Node \<Rightarrow> string)) list" where
  "COLUMNS =
    [(''id'', ''ID'', \<lambda>n. show_int (nd_id n)),
     (''name'', utf8 [21517, 31216], nd_name),
     (''protocol'', utf8 [21327, 35758], nd_protocol),
     (''host'', utf8 [20027, 26426], nd_host),
     (''port'', utf8 [31471, 21475], \<lambda>n. show_int (nd_port n)),
     (''region'', utf8 [21306, 22495], \<lambda>n. nullish (nd_region n) []),
     (''tags'', utf8 [26631, 31614], \<lambda>n. nullish (nd_tags n) []),
     (''disabled'', utf8 [20572, 29992], \<lambda>n. if truthy_bool (nd_disabled n) then utf8 [26159] else utf8 [21542]),
     (''description'', utf8 [25551, 36848], \<lambda>n. nullish (nd_description n) [])]"

abbreviation DQ :: char where "DQ \<equiv> CHR 0x22"
abbreviation CR :: char where "CR \<equiv> CHR 0x0D"
abbreviation LF :: char where "LF \<equiv> CHR 0x0A"

definition double_quotes :: "string \<Rightarrow> string" where
  "double_quotes v = concat (map (\<lambda>c. if c = DQ then [DQ, DQ] else [c]) v)"

definition needs_quotes :: "string \<Rightarrow> bool" where
  "needs_quotes v = list_ex (\<lambda>c. c \<in> {DQ, CHR '','', LF, CR}) v"

definition csvCell :: "string \<Rightarrow> string" where
  "csvCell v = (if needs_quotes v then DQ # double_quotes v @ [DQ] else v)"

definition csv_row :: "Node \<Rightarrow> string" where
  "csv_row n = join_with '','' (map (\<lambda>(_, _, get). csvCell (get n)) COLUMNS)"

definition csv_header :: string where
  "csv_header = join_with '','' (map (\<lambda>(_, h, _). h) COLUMNS)"

definition BOM :: string where
  "BOM = utf8 [65279]"

definition nodesToCSV :: "Node list \<Rightarrow> string" where
  "nodesToCSV nodes = BOM @ join_with [CR, LF] (csv_header # map csv_row nodes)"

section \<open>A reader of RFC 4180 records\<close>

datatype csv_mode = AtStart | InPlain | InQuoted | AfterQuote

fun csv_read :: "csv_mode \<Rightarrow> string \<Rightarrow> string list \<Rightarrow> string \<Rightarrow> string list list" where
  "csv_read m cell row [] = [row @ [cell]]"
| "csv_read m cell row (c # s) =
     (if m = InQuoted then
        (if c = DQ then csv_read AfterQuote cell row s else csv_read InQuoted (cell @ [c]) row s)
      else if c = DQ then csv_read InQuoted (if m = AfterQuote then cell @ [DQ] else cell) row s
      else if c = CHR '','' then csv_read AtStart [] (row @ [cell]) s
      else (case s of
          LF' # t \<Rightarrow>
            if c = CR \<and> LF' = LF then (row @ [cell]) # csv_read AtStart [] [] t
            else csv_read InPlain (cell @ [c]) row s
        | [] \<Rightarrow> csv_read InPlain (cell @ [c]) row s))"

definition parse_csv :: "string \<Rightarrow> string list list" where
  "parse_csv s = csv_read AtStart [] [] s"

section \<open>Reading back\<close>

text \<open>What may follow a cell: the end, a comma or a line break.\<close>

definition cell_end :: "string \<Rightarrow> bool" where
  "cell_end rest \<longleftrightarrow> rest = [] \<or> (\<exists>r. rest = CHR '','' # r) \<or> (\<exists>r. rest = CR # LF # r)"

lemma read_end:
  assumes "cell_end rest" "m \<noteq> InQuoted"
  shows "csv_read m cell row rest = csv_read AfterQuote cell row rest"
  using assms by (auto simp: cell_end_def)

definition plain :: "string \<Rightarrow> bool" where
  "plain v \<longleftrightarrow> \<not> needs_quotes v"

lemma read_plain:
  assumes "cell_end rest" "m = AtStart \<or> m = InPlain"
  shows "plain v \<Longrightarrow> csv_read m cell row (v @ rest) = csv_read AfterQuote (cell @ v) row rest"
  using assms(2)
proof (induction v arbitrary: cell m)
  case Nil
  then show ?case using read_end [OF assms(1), of m cell row] by auto
next
  case (Cons c v)
  then have c: "c \<noteq> DQ" "c \<noteq> CHR '',''" "c \<noteq> CR" "plain v" by (auto simp: plain_def needs_quotes_def)
  have "csv_read m cell row (c # v @ rest) = csv_read InPlain (cell @ [c]) row (v @ rest)"
    using c Cons.prems(2) by (cases "v @ rest") auto
  then show ?case using Cons.IH [OF c(4), of InPlain "cell @ [c]"] by simp
qed

lemma read_quoted:
  "csv_read InQuoted cell row (double_quotes v @ DQ # rest) = csv_read AfterQuote (cell @ v) row rest"
proof (induction v arbitrary: cell)
  case (Cons c v)
  then show ?case by (simp add: double_quotes_def)
qed (simp add: double_quotes_def)

lemma read_cell:
  assumes "cell_end rest"
  shows "csv_read AtStart [] row (csvCell v @ rest) = csv_read AfterQuote v row rest"
proof (cases "needs_quotes v")
  case True
  then show ?thesis using read_quoted [of "[]" row v rest] by (simp add: csvCell_def)
next
  case False
  then show ?thesis using read_plain [OF assms, of AtStart v "[]" row] by (simp add: csvCell_def plain_def)
qed

lemma read_row:
  assumes "cells \<noteq> []" "rest = [] \<or> (\<exists>r. rest = CR # LF # r)"
  shows "csv_read AtStart [] row (join_with '','' (map csvCell cells) @ rest)
    = (case rest of [] \<Rightarrow> [row @ cells] | _ \<Rightarrow> (row @ cells) # csv_read AtStart [] [] (drop 2 rest))"
  using assms(1)
proof (induction cells arbitrary: row)
  case (Cons v cells)
  show ?case
  proof (cases "cells = []")
    case True
    have "cell_end rest" using assms(2) by (auto simp: cell_end_def)
    then show ?thesis using True assms(2) by (auto simp: read_cell)
  next
    case False
    then have "join_with '','' (map csvCell (v # cells)) @ rest
        = csvCell v @ CHR '','' # join_with '','' (map csvCell cells) @ rest"
      by (simp add: join_with_Cons)
    moreover have "cell_end (CHR '','' # join_with '','' (map csvCell cells) @ rest)"
      by (simp add: cell_end_def)
    ultimately show ?thesis using Cons.IH [OF False, of "row @ [v]"] by (simp add: read_cell split: list.split)
  qed
qed simp

lemma parse_rows:
  assumes "rows \<noteq> []" "\<And>r. r \<in> set rows \<Longrightarrow> r \<noteq> []"
  shows "parse_csv (join_with [CR, LF] (map (\<lambda>r. join_with '','' (map csvCell r)) rows)) = rows"
  using assms
proof (induction rows)
  case (Cons r rows)
  have r: "r \<noteq> []" using Cons.prems(2) by simp
  show ?case
  proof (cases "rows = []")
    case True
    then show ?thesis using read_row [OF r, of "[]" "[]"] by (simp add: parse_csv_def)
  next
    case False
    let ?more = "join_with [CR, LF] (map (\<lambda>r. join_with '','' (map csvCell r)) rows)"
    have "join_with [CR, LF] (map (\<lambda>r. join_with '','' (map csvCell r)) (r # rows))
        = join_with '','' (map csvCell r) @ CR # LF # ?more"
      using False by (simp add: join_with_Cons)
    then show ?thesis
      using read_row [OF r, of "CR # LF # ?more" "[]"] Cons.IH [OF False] Cons.prems(2)
      by (simp add: parse_csv_def)
  qed
qed simp

lemma headers_plain: "h \<in> set (map (\<lambda>(_, h, _). h) COLUMNS) \<Longrightarrow> csvCell h = h"
  by (auto simp: COLUMNS_def csvCell_def needs_quotes_def utf8_def utf8_char_def char_of_eq_iff)

lemma header_cells: "csv_header = join_with '','' (map csvCell (map (\<lambda>(_, h, _). h) COLUMNS))"
  unfolding csv_header_def using headers_plain by (metis (no_types, lifting) map_idI)

text \<open>C9: after the byte order mark, the export is an RFC 4180 document: reading it gives the header
  row and then, for each node in order, the exact values of its nine columns.\<close>

theorem csv_export_roundtrip:
  "\<exists>doc. nodesToCSV nodes = BOM @ doc \<and>
     parse_csv doc = map (\<lambda>(_, h, _). h) COLUMNS # map (\<lambda>n. map (\<lambda>(_, _, get). get n) COLUMNS) nodes"
proof -
  let ?rows = "map (\<lambda>(_, h, _). h) COLUMNS # map (\<lambda>n. map (\<lambda>(_, _, get). get n) COLUMNS) nodes"
  let ?doc = "join_with [CR, LF] (csv_header # map csv_row nodes)"
  have "csv_row n = join_with '','' (map csvCell (map (\<lambda>(_, _, get). get n) COLUMNS))" for n
    by (simp add: csv_row_def comp_def split_def)
  then have "csv_row = (\<lambda>n. join_with '','' (map csvCell (map (\<lambda>(_, _, get). get n) COLUMNS)))" by blast
  then have "?doc = join_with [CR, LF] (map (\<lambda>r. join_with '','' (map csvCell r)) ?rows)"
    by (simp add: header_cells comp_def)
  moreover have "r \<noteq> []" if "r \<in> set ?rows" for r
    using that by (auto simp: COLUMNS_def)
  ultimately have "parse_csv ?doc = ?rows" using parse_rows [of ?rows] by simp
  then show ?thesis by (auto simp: nodesToCSV_def)
qed

end
