(* ===== verification/SqlFormat.thy ===== *)
theory SqlFormat
  imports Forest
begin

text \<open>
  The SQL formatter of the database studio, \<open>lib/sql-format.ts\<close>: splitting the text into segments
  that are kept (strings, comments, dollar quotes) and code, reformatting the code, and the final
  clean-up of the joined output. Regular expressions are written out as scanners; positions of a
  \<open>while\<close> loop over an index are the part of the text still to be read.
\<close>

section \<open>Keywords\<close>

definition MAJOR_KEYWORDS :: "string list" where
  "MAJOR_KEYWORDS =
    [''WITH'', ''SELECT'', ''FROM'', ''WHERE'', ''GROUP BY'', ''ORDER BY'', ''HAVING'',
     ''LIMIT'', ''OFFSET'', ''UNION'', ''UNION ALL'', ''EXCEPT'', ''INTERSECT'',
     ''INSERT INTO'', ''VALUES'', ''ON CONFLICT'', ''ON DUPLICATE KEY UPDATE'',
     ''UPDATE'', ''SET'', ''DELETE FROM'', ''RETURNING'',
     ''CREATE TABLE'', ''CREATE INDEX'', ''CREATE VIEW'', ''ALTER TABLE'',
     ''DROP TABLE'', ''DROP INDEX'', ''DROP VIEW'', ''TRUNCATE'',
     ''BEGIN'', ''COMMIT'', ''ROLLBACK'', ''SAVEPOINT'', ''RELEASE SAVEPOINT'',
     ''EXPLAIN'', ''EXPLAIN ANALYZE'']"

definition JOIN_KEYWORDS :: "string list" where
  "JOIN_KEYWORDS =
    [''LEFT JOIN'', ''RIGHT JOIN'', ''INNER JOIN'', ''FULL JOIN'',
     ''FULL OUTER JOIN'', ''LEFT OUTER JOIN'', ''RIGHT OUTER JOIN'',
     ''CROSS JOIN'', ''JOIN'']"

definition ALL_BREAKS :: "string list" where
  "ALL_BREAKS = js_sort (\<lambda>a b. int (length b) - int (length a)) (MAJOR_KEYWORDS @ JOIN_KEYWORDS)"

definition SECONDARY_KEYWORDS :: "string list" where
  "SECONDARY_KEYWORDS =
    [''AND'', ''OR'', ''ON'', ''USING'', ''AS'', ''DESC'', ''ASC'',
     ''IN'', ''NOT IN'', ''EXISTS'', ''BETWEEN'', ''LIKE'', ''ILIKE'', ''IS NULL'', ''IS NOT NULL'',
     ''CASE'', ''WHEN'', ''THEN'', ''ELSE'', ''END'',
     ''DISTINCT'', ''ALL'']"

section \<open>Segments\<close>

abbreviation NL :: char where "NL \<equiv> CHR 0x0A"
abbreviation TAB :: char where "TAB \<equiv> CHR 0x09"
abbreviation SQ :: char where "SQ \<equiv> CHR 0x27"
abbreviation DQUOTE :: char where "DQUOTE \<equiv> CHR 0x22"
abbreviation BQ :: char where "BQ \<equiv> CHR 0x60"
abbreviation BSL :: char where "BSL \<equiv> CHR 0x5C"

datatype Segment = Keep string | Code string

fun seg_text :: "Segment \<Rightarrow> string" where
  "seg_text (Keep t) = t"
| "seg_text (Code t) = t"

text \<open>Splitting after, or before, the first occurrence of a pattern, or at the end without one.\<close>

fun split_after :: "string \<Rightarrow> string \<Rightarrow> string \<times> string" where
  "split_after pat [] = ([], [])"
| "split_after pat (c # s) =
     (if prefix pat (c # s) then (pat, drop (length pat) (c # s))
      else let (a, b) = split_after pat s in (c # a, b))"

text \<open>The loop over a quoted string, after its opening quote.\<close>

fun scan_quote :: "char \<Rightarrow> string \<Rightarrow> string \<times> string" where
  "scan_quote q [] = ([], [])"
| "scan_quote q [c] = ([c], [])"
| "scan_quote q (c # d # s) =
     (if c = BSL then (let (a, b) = scan_quote q s in (c # d # a, b))
      else if c = q then
        (if d = q then (let (a, b) = scan_quote q s in (c # d # a, b)) else ([c], d # s))
      else (let (a, b) = scan_quote q (d # s) in (c # a, b)))"

text \<open>\<open>/^\$([a-zA-Z_][a-zA-Z0-9_]*)?\$/\<close>\<close>

definition dollar_tag :: "string \<Rightarrow> string option" where
  "dollar_tag s =
     (case s of
        [] \<Rightarrow> None
      | c # r \<Rightarrow>
          (let name = takeWhile word_char r; after = dropWhile word_char r
           in if c = CHR ''$'' \<and> prefix ''$'' after
                \<and> (name = [] \<or> \<not> (48 \<le> (of_char (hd name) :: nat) \<and> (of_char (hd name) :: nat) \<le> 57))
              then Some (''$'' @ name @ ''$'') else None))"

definition flush_code :: "string \<Rightarrow> Segment list" where
  "flush_code code = (if code = [] then [] else [Code code])"

text \<open>The kept segment that starts here, if one does, and the text after it.\<close>

definition keep_here :: "string \<Rightarrow> (string \<times> string) option" where
  "keep_here s =
     (if prefix ''/*'' s then
        (let (a, b) = split_after ''*/'' (drop 2 s) in Some (''/*'' @ a, b))
      else if prefix ''--'' s then Some (takeWhile (\<lambda>c. c \<noteq> NL) s, dropWhile (\<lambda>c. c \<noteq> NL) s)
      else case s of
        [] \<Rightarrow> None
      | c # r \<Rightarrow>
          if c = SQ \<or> c = DQUOTE \<or> c = BQ then (let (a, b) = scan_quote c r in Some (c # a, b))
          else (case dollar_tag s of
                  None \<Rightarrow> None
                | Some tag \<Rightarrow>
                    (let (a, b) = split_after tag (drop (length tag) s) in Some (tag @ a, b))))"

lemma split_after_append: "split_after pat s = (a, b) \<Longrightarrow> a @ b = s"
proof (induction pat s arbitrary: a b rule: split_after.induct)
  case (2 pat c s)
  show ?case
  proof (cases "prefix pat (c # s)")
    case True
    with "2.prems" show ?thesis by (auto simp: prefix_def)
  next
    case False
    with 2 show ?thesis by (auto split: prod.splits)
  qed
qed simp

lemma scan_quote_append: "scan_quote q s = (a, b) \<Longrightarrow> a @ b = s"
  by (induction q s arbitrary: a b rule: scan_quote.induct) (auto split: prod.splits if_splits)

lemma dollar_tag_prefix: "dollar_tag s = Some tag \<Longrightarrow> prefix tag s \<and> tag \<noteq> []"
proof (cases s)
  case (Cons c r)
  assume a: "dollar_tag s = Some tag"
  then have t: "tag = ''$'' @ takeWhile word_char r @ ''$''" "c = CHR ''$''" "prefix ''$'' (dropWhile word_char r)"
    by (auto simp: dollar_tag_def Cons Let_def split: if_splits)
  then obtain u where "dropWhile word_char r = ''$'' @ u" by (auto simp: prefix_def)
  then have "r = takeWhile word_char r @ ''$'' @ u" by (metis takeWhile_dropWhile_id)
  then have "s = tag @ u" using t(1,2) Cons by (metis append_Cons append_Nil append_assoc)
  then show ?thesis using t(1) by simp
qed (simp add: dollar_tag_def)

lemma split_after_kept:
  "(case split_after pat u of (x, y) \<Rightarrow> Some (tag @ x, y)) = Some (a, b) \<Longrightarrow> tag \<noteq> [] \<Longrightarrow> a @ b = tag @ u \<and> a \<noteq> []"
  using split_after_append [of pat u] by (auto split: prod.splits)

lemma keep_here_append:
  assumes k: "keep_here s = Some (a, b)"
  shows "a @ b = s \<and> a \<noteq> []"
proof (cases "prefix ''/*'' s")
  case True
  then obtain t where "s = ''/*'' @ t" by (auto simp: prefix_def)
  then show ?thesis
    using k split_after_kept [where pat = "''*/''" and u = t and tag = "''/*''"] by (simp add: keep_here_def Let_def)
next
  case nc: False
  show ?thesis
  proof (cases "prefix ''--'' s")
    case True
    then obtain t where "s = CHR ''-'' # t" by (auto simp: prefix_def)
    moreover have "a = takeWhile (\<lambda>c. c \<noteq> NL) s" "b = dropWhile (\<lambda>c. c \<noteq> NL) s"
      using k nc True by (simp_all add: keep_here_def)
    ultimately show ?thesis by simp
  next
    case nl: False
    obtain c r where s: "s = c # r" using k nc nl by (cases s) (simp_all add: keep_here_def)
    show ?thesis
    proof (cases "c = SQ \<or> c = DQUOTE \<or> c = BQ")
      case True
      then have "keep_here s = (case scan_quote c r of (a, b) \<Rightarrow> Some (c # a, b))"
        using nc nl s by (simp only: keep_here_def if_False list.case if_True Let_def)
      then have "(case scan_quote c r of (x, y) \<Rightarrow> Some (c # x, y)) = Some (a, b)" using k by simp
      then show ?thesis using scan_quote_append [of c r] s by (auto split: prod.splits)
    next
      case False
      then have ks: "keep_here s = (case dollar_tag s of None \<Rightarrow> None
          | Some tag \<Rightarrow> (case split_after tag (drop (length tag) s) of (x, y) \<Rightarrow> Some (tag @ x, y)))"
        using nc nl s by (simp only: keep_here_def if_False list.case Let_def)
      obtain tag where tag: "dollar_tag s = Some tag"
        "(case split_after tag (drop (length tag) s) of (x, y) \<Rightarrow> Some (tag @ x, y)) = Some (a, b)"
        using k ks by (cases "dollar_tag s") simp_all
      then obtain u where "s = tag @ u" "tag \<noteq> []" using dollar_tag_prefix by (auto simp: prefix_def)
      then show ?thesis using split_after_kept [OF tag(2)] by simp
    qed
  qed
qed

lemma keep_here_shorter: "keep_here s = Some (a, b) \<Longrightarrow> length b < length s"
  using keep_here_append [of s a b] by (metis length_append length_greater_0_conv less_add_same_cancel2)

text \<open>The scan of \<open>splitSegments\<close>; the first argument is the code read since the last flush.\<close>

function split_from :: "string \<Rightarrow> string \<Rightarrow> Segment list" where
  "split_from code s =
     (case s of
        [] \<Rightarrow> flush_code code
      | c # r \<Rightarrow>
          (case keep_here s of
             Some (a, b) \<Rightarrow> flush_code code @ Keep a # split_from [] b
           | None \<Rightarrow> split_from (code @ [c]) r))"
  by pat_completeness auto
termination
  by (relation "measure (\<lambda>(code, s). length s)") (auto dest: keep_here_shorter)

declare split_from.simps [simp del]

definition splitSegments :: "string \<Rightarrow> Segment list" where
  "splitSegments sql = split_from [] sql"

section \<open>Code\<close>

text \<open>\<open>s.replace(/\s+/g, " ")\<close>\<close>

function collapse_white :: "string \<Rightarrow> string" where
  "collapse_white s =
     (case s of
        [] \<Rightarrow> []
      | c # r \<Rightarrow>
          (case drop_prefix js_white s of
             Some t \<Rightarrow> CHR '' '' # collapse_white (trim_front js_white t)
           | None \<Rightarrow> c # collapse_white r))"
  by pat_completeness auto
termination
proof (relation "measure length")
  fix s c r t assume "s = c # r" "drop_prefix js_white s = Some t"
  then have "length t < length s" by (blast intro: drop_prefix_shorter)
  moreover have "length (trim_front js_white t) \<le> length t"
    using suffix_length_le [OF trim_front_suffix] .
  ultimately show "(trim_front js_white t, s) \<in> measure length" by simp
qed simp_all

declare collapse_white.simps [simp del]

text \<open>The keyword at this position as \<open>\b kw \b\<close> with flag \<open>i\<close>, given the character before it.\<close>

definition word_at :: "string \<Rightarrow> char option \<Rightarrow> string \<Rightarrow> bool" where
  "word_at kw prev s \<longleftrightarrow>
     toUpperCase (take (length kw) s) = toUpperCase kw
     \<and> (case prev of None \<Rightarrow> True | Some c \<Rightarrow> \<not> word_char c)
     \<and> (case drop (length kw) s of [] \<Rightarrow> True | c # _ \<Rightarrow> \<not> word_char c)"

fun ci_prefix :: "string \<Rightarrow> string \<Rightarrow> bool" where
  "ci_prefix [] s = True"
| "ci_prefix (k # kw) [] = False"
| "ci_prefix (k # kw) (c # s) = (upper_char c = upper_char k \<and> ci_prefix kw s)"

lemma ci_prefix_iff: "toUpperCase (take (length kw) s) = toUpperCase kw \<longleftrightarrow> ci_prefix kw s"
  by (induction kw s rule: ci_prefix.induct) (auto simp: toUpperCase_def)

lemma word_at_code [code]:
  "word_at kw prev s \<longleftrightarrow> ci_prefix kw s
     \<and> (case prev of None \<Rightarrow> True | Some c \<Rightarrow> \<not> word_char c)
     \<and> (case drop (length kw) s of [] \<Rightarrow> True | c # _ \<Rightarrow> \<not> word_char c)"
  by (simp add: word_at_def ci_prefix_iff)

text \<open>\<open>s.replace(re, f)\<close> for such a global expression\<close>

function replace_word :: "string \<Rightarrow> (string \<Rightarrow> string) \<Rightarrow> char option \<Rightarrow> string \<Rightarrow> string" where
  "replace_word kw f prev s =
     (case s of
        [] \<Rightarrow> []
      | c # r \<Rightarrow>
          if kw \<noteq> [] \<and> word_at kw prev s
          then f (take (length kw) s) @ replace_word kw f (Some (last (take (length kw) s))) (drop (length kw) s)
          else c # replace_word kw f (Some c) r)"
  by pat_completeness auto
termination
  by (relation "measure (\<lambda>(kw, f, prev, s). length s)") auto

declare replace_word.simps [simp del]

definition is_join :: "string \<Rightarrow> bool" where
  "is_join kw = list_ex (\<lambda>j. toUpperCase j = toUpperCase kw) JOIN_KEYWORDS"

definition break_keyword :: "string \<Rightarrow> string \<Rightarrow> string" where
  "break_keyword s kw =
     replace_word kw (\<lambda>m. (if is_join kw then NL # ''  '' else [NL]) @ toUpperCase m) None s"

definition upper_keyword :: "string \<Rightarrow> string \<Rightarrow> string" where
  "upper_keyword s kw = replace_word kw toUpperCase None s"

text \<open>The loop over a quoted string inside \<open>splitTopLevel\<close>: the text up to and including the closing
  quote, and the rest.\<close>

fun skip_quote :: "char \<Rightarrow> string \<Rightarrow> string \<times> string" where
  "skip_quote q [] = ([], [])"
| "skip_quote q (c # s) =
     (if c = q then ([c], s)
      else if c = BSL then
        (case s of
           [] \<Rightarrow> ([c], [])
         | d # t \<Rightarrow> (let (a, b) = skip_quote q t in (c # d # a, b)))
      else (let (a, b) = skip_quote q s in (c # a, b)))"

lemma skip_quote_append: "skip_quote q s = (a, b) \<Longrightarrow> a @ b = s"
  by (induction q s arbitrary: a b rule: skip_quote.induct) (auto split: prod.splits if_splits list.splits)

lemma skip_quote_shorter: "length (snd (skip_quote q s)) \<le> length s"
  using skip_quote_append [of q s] by (metis length_append le_add2 prod.collapse)

text \<open>\<open>splitTopLevel(s, delim)\<close>: the depth, the item read so far, the rest.\<close>

function split_top :: "char \<Rightarrow> int \<Rightarrow> string \<Rightarrow> string \<Rightarrow> string list" where
  "split_top delim depth cur s =
     (case s of
        [] \<Rightarrow> if cur = [] then [] else [cur]
      | c # r \<Rightarrow>
          if c \<in> {CHR ''('', CHR ''['', CHR ''{''} then split_top delim (depth + 1) (cur @ [c]) r
          else if c \<in> {CHR '')'', CHR '']'', CHR ''}''} then split_top delim (depth - 1) (cur @ [c]) r
          else if c \<in> {SQ, DQUOTE, BQ} then
            split_top delim depth (cur @ c # fst (skip_quote c r)) (snd (skip_quote c r))
          else if c = delim \<and> depth = 0 then cur # split_top delim depth [] r
          else split_top delim depth (cur @ [c]) r)"
  by pat_completeness auto
termination
  by (relation "measure (\<lambda>(delim, depth, cur, s). length s)")
    (auto simp: less_Suc_eq_le skip_quote_shorter)

declare split_top.simps [simp del]

definition splitTopLevel :: "string \<Rightarrow> char \<Rightarrow> string list" where
  "splitTopLevel s delim = split_top delim 0 [] s"

text \<open>The lazy body of \<open>/^\nSELECT (.+?)(?=\nFROM\b|\n[A-Z])/ms\<close>: at least one character, up to a
  line break that is followed by a capital letter.\<close>

definition body_stops :: "string \<Rightarrow> bool" where
  "body_stops s =
     (case s of
        c # d # _ \<Rightarrow> c = NL \<and> 65 \<le> (of_char d :: nat) \<and> (of_char d :: nat) \<le> 90
      | _ \<Rightarrow> False)"

fun lazy_body :: "string \<Rightarrow> (string \<times> string) option" where
  "lazy_body [] = None"
| "lazy_body (c # s) =
     (if body_stops s then Some ([c], s)
      else map_option (\<lambda>(a, b). (c # a, b)) (lazy_body s))"

definition line_end :: "string \<Rightarrow> bool" where
  "line_end before \<longleftrightarrow>
     before = [] \<or> last before = NL \<or> last before = CHR 0x0D
     \<or> suffix (utf8 [8232]) before \<or> suffix (utf8 [8233]) before"

lemma line_end_chars [code]:
  "line_end before \<longleftrightarrow>
     before = [] \<or> last before = NL \<or> last before = CHR 0x0D
     \<or> suffix [CHR 0xE2, CHR 0x80, CHR 0xA8] before \<or> suffix [CHR 0xE2, CHR 0x80, CHR 0xA9] before"
proof -
  have "utf8 [8232] = [CHR 0xE2, CHR 0x80, CHR 0xA8]" "utf8 [8233] = [CHR 0xE2, CHR 0x80, CHR 0xA9]"
    by (simp_all add: utf8_def utf8_char_def char_of_eq_iff)
  then show ?thesis by (simp add: line_end_def)
qed

definition wrap_items :: "string \<Rightarrow> string" where
  "wrap_items body =
     (let items = splitTopLevel body CHR '',''
      in if length items \<le> 1 then NL # ''SELECT '' @ body
         else NL # ''SELECT'' @ NL # ''  '' @ join_with ('','' @ NL # ''  '') (map js_trim items))"

text \<open>Replacing the first match; the first argument is the text before the position.\<close>

fun wrap_select :: "string \<Rightarrow> string \<Rightarrow> string" where
  "wrap_select before [] = []"
| "wrap_select before (c # s) =
     (if line_end before \<and> prefix (NL # ''SELECT '') (c # s) \<and> lazy_body (drop 8 (c # s)) \<noteq> None
      then (case the (lazy_body (drop 8 (c # s))) of (body, after) \<Rightarrow> wrap_items body @ after)
      else c # wrap_select (before @ [c]) s)"

definition formatCode :: "string \<Rightarrow> string" where
  "formatCode code =
     (let s = js_trim (collapse_white code)
      in if s = [] then code
         else let s1 = foldl break_keyword s ALL_BREAKS;
                  s2 = foldl upper_keyword s1 SECONDARY_KEYWORDS;
                  s3 = wrap_select [] s2
              in js_trim s3)"

section \<open>The whole text\<close>

text \<open>\<open>.replace(/[ \t]+\n/g, "\n")\<close>: blanks that run up to a line break go.\<close>

fun strip_line_ends :: "string \<Rightarrow> string \<Rightarrow> string" where
  "strip_line_ends blanks [] = blanks"
| "strip_line_ends blanks (c # s) =
     (if c = CHR '' '' \<or> c = TAB then strip_line_ends (blanks @ [c]) s
      else if c = NL then NL # strip_line_ends [] s
      else blanks @ c # strip_line_ends [] s)"

text \<open>\<open>.replace(/\n{3,}/g, "\n\n")\<close>: the first argument counts the line breaks just before.\<close>

fun squeeze_newlines :: "nat \<Rightarrow> string \<Rightarrow> string" where
  "squeeze_newlines n [] = []"
| "squeeze_newlines n (c # s) =
     (if c = NL then (if n < 2 then c # squeeze_newlines (Suc n) s else squeeze_newlines n s)
      else c # squeeze_newlines 0 s)"

definition format_segment :: "Segment \<Rightarrow> string" where
  "format_segment seg = (case seg of Keep t \<Rightarrow> t | Code t \<Rightarrow> formatCode t)"

definition formatSQL :: "string \<Rightarrow> string" where
  "formatSQL sql =
     js_trim (squeeze_newlines 0 (strip_line_ends [] (concat (map format_segment (splitSegments sql)))))"

end
