(* ===== verification/SqlFormatProps.thy ===== *)
theory SqlFormatProps
  imports SqlFormat
begin

text \<open>
  What the SQL formatter keeps and what it does not: splitting is lossless, code is only changed in
  white space and letter case (but for one comma), and four places where the output is not what the
  header of the file promises.
\<close>

section \<open>White space as units\<close>

definition cont :: "char \<Rightarrow> bool" where
  "cont c \<longleftrightarrow> (let b = (of_char c :: nat) in 128 \<le> b \<and> b < 192)"

definition ascii :: "char \<Rightarrow> bool" where
  "ascii c \<longleftrightarrow> (of_char c :: nat) < 128"

lemma white_shape:
  "w \<in> set js_white \<Longrightarrow> w \<noteq> [] \<and> \<not> cont (hd w) \<and> list_all cont (tl w) \<and> (ascii (hd w) \<longrightarrow> tl w = [])"
  by (auto simp: js_white_chars cont_def ascii_def)

lemma white_prefix_free:
  "w \<in> set js_white \<Longrightarrow> v \<in> set js_white \<Longrightarrow> prefix w s \<Longrightarrow> prefix v s \<Longrightarrow> w = v"
proof -
  assume a: "w \<in> set js_white" "v \<in> set js_white" "prefix w s" "prefix v s"
  have "\<forall>w \<in> set js_white. \<forall>v \<in> set js_white. prefix w v \<longrightarrow> w = v"
    by (simp add: js_white_chars)
  with a show "w = v" using prefix_same_cases by blast
qed

text \<open>No white space starts here.\<close>

definition no_white :: "string \<Rightarrow> bool" where
  "no_white s \<longleftrightarrow> (\<forall>w \<in> set js_white. \<not> prefix w s)"

lemma drop_prefix_white: "w \<in> set js_white \<Longrightarrow> drop_prefix js_white (w @ s) = Some s"
proof -
  assume w: "w \<in> set js_white"
  then have "List.find (\<lambda>v. v \<noteq> [] \<and> prefix v (w @ s)) js_white \<noteq> None"
    using white_shape [OF w] by (auto simp: find_None_iff)
  then obtain v where v: "List.find (\<lambda>v. v \<noteq> [] \<and> prefix v (w @ s)) js_white = Some v" by auto
  from find_SomeD [OF v] have "v = w" using white_prefix_free [of v w "w @ s"] w by simp
  then show ?thesis by (simp add: drop_prefix_def v)
qed

lemma drop_prefix_none: "drop_prefix js_white s = None \<longleftrightarrow> no_white s"
proof -
  have "(\<forall>w \<in> set js_white. \<not> (w \<noteq> [] \<and> prefix w s)) \<longleftrightarrow> no_white s"
    using white_shape by (auto simp: no_white_def)
  then show ?thesis by (simp add: drop_prefix_def find_None_iff_set)
qed

text \<open>Case analysis on the next unit.\<close>

lemma unit_cases [case_names nil white char]:
  assumes "s = [] \<Longrightarrow> P" "\<And>w r. s = w @ r \<Longrightarrow> w \<in> set js_white \<Longrightarrow> P"
    "\<And>c r. s = c # r \<Longrightarrow> no_white s \<Longrightarrow> P"
  shows P
proof (cases "s = [] \<or> no_white s")
  case True
  then show ?thesis using assms by (cases s) auto
next
  case False
  then obtain w r where "w \<in> set js_white" "s = w @ r" by (auto simp: no_white_def prefix_def)
  then show ?thesis using assms(2) by blast
qed

text \<open>The text without white space and in upper case\<close>

function squash :: "string \<Rightarrow> string" where
  "squash s =
     (case s of
        [] \<Rightarrow> []
      | c # r \<Rightarrow> (case drop_prefix js_white s of Some t \<Rightarrow> squash t | None \<Rightarrow> upper_char c # squash r))"
  by pat_completeness auto
termination
  by (relation "measure length") (auto dest: drop_prefix_shorter)

declare squash.simps [simp del]

lemma squash_Nil [simp]: "squash [] = []"
  by (simp add: squash.simps)

lemma squash_white: "w \<in> set js_white \<Longrightarrow> squash (w @ s) = squash s"
  using white_shape [of w] drop_prefix_white [of w s]
  by (subst squash.simps) (auto split: list.split)

lemma squash_char: "no_white (c # s) \<Longrightarrow> squash (c # s) = upper_char c # squash s"
  using drop_prefix_none [of "c # s"] by (simp add: squash.simps [of "c # s"])

lemma blank_white: "[CHR '' ''] \<in> set js_white" "[NL] \<in> set js_white" "[TAB] \<in> set js_white"
  by (simp_all add: js_white_chars)

lemma squash_blank [simp]: "squash (CHR '' '' # s) = squash s" "squash (NL # s) = squash s"
  using squash_white [of "[CHR '' '']" s] squash_white [of "[NL]" s] blank_white by simp_all

text \<open>A string is self-contained before \<open>y\<close> when no white space unit straddles the border.\<close>

lemma prefix_unit_append:
  assumes "w \<in> set js_white" "s \<noteq> []" "y = [] \<or> \<not> cont (hd y) \<or> list_all ascii s"
  shows "prefix w (s @ y) \<longleftrightarrow> prefix w s"
proof
  assume p: "prefix w (s @ y)"
  show "prefix w s"
  proof (rule ccontr)
    assume "\<not> prefix w s"
    then obtain y1 where y1: "w = s @ y1" "prefix y1 y" using p by (auto simp: prefix_append)
    have "y1 \<noteq> []" using \<open>\<not> prefix w s\<close> y1(1) by auto
    then obtain c y2 where c: "y1 = c # y2" "y \<noteq> []" "hd y = c" using y1(2) by (cases y1) (auto simp: prefix_def)
    have "c \<in> set (tl w)" using y1(1) c assms(2) by (cases s) auto
    then have "cont c" "\<not> ascii (hd w)" using white_shape [OF assms(1)] by (auto simp: list_all_iff)
    then show False using assms(2,3) c y1(1) by (cases s) auto
  qed
qed simp

lemma squash_append:
  "y = [] \<or> \<not> cont (hd y) \<or> list_all ascii s \<Longrightarrow> squash (s @ y) = squash s @ squash y"
proof (induction "length s" arbitrary: s rule: less_induct)
  case less
  show ?case
  proof (cases s rule: unit_cases)
    case (white w r)
    then have "length r < length s" using white_shape [of w] by (cases w) auto
    then have "squash (r @ y) = squash r @ squash y"
      using less white(1) by (intro less.hyps) auto
    then show ?thesis using white squash_white by simp
  next
    case (char c r)
    have "squash (r @ y) = squash r @ squash y"
      using less char(1) by (intro less.hyps) auto
    moreover have "no_white (s @ y)"
      using char prefix_unit_append [of _ s y] less.prems by (auto simp: no_white_def)
    ultimately show ?thesis using char squash_char by simp
  qed simp
qed

lemma squash_ascii: "list_all ascii s \<Longrightarrow> squash (s @ y) = squash s @ squash y"
  by (rule squash_append) simp

lemma squash_trim_front: "squash (trim_front js_white s) = squash s"
proof (induction "length s" arbitrary: s rule: less_induct)
  case less
  show ?case
  proof (cases s rule: unit_cases)
    case (white w r)
    then have "length r < length s" using white_shape [of w] by (cases w) auto
    then show ?thesis
      using less.hyps [of r] white squash_white
      by (simp add: trim_front.simps [of _ "w @ r"] drop_prefix_white)
  next
    case (char c r)
    then have "drop_prefix js_white s = None" by (simp only: drop_prefix_none)
    then show ?thesis by (simp add: trim_front_id)
  qed simp
qed

lemma trim_front_split: "\<exists>us. set us \<subseteq> set ws \<and> s = concat us @ trim_front ws s"
proof (induction ws s rule: trim_front.induct)
  case (1 ws s)
  show ?case
  proof (cases "drop_prefix ws s")
    case None
    then show ?thesis by (intro exI [of _ "[]"]) (simp add: trim_front_id)
  next
    case (Some t)
    then obtain w where f: "List.find (\<lambda>w. w \<noteq> [] \<and> prefix w s) ws = Some w" "t = drop (length w) s"
      by (auto simp: drop_prefix_def)
    from find_SomeD [OF f(1)] f(2) have w: "w \<in> set ws" "s = w @ t"
      by (auto simp: prefix_def)
    obtain us where us: "set us \<subseteq> set ws" "t = concat us @ trim_front ws t" using 1 [OF Some] by blast
    have tf: "trim_front ws s = trim_front ws t" using Some by (simp add: trim_front.simps [of ws s])
    have "s = concat (w # us) @ trim_front ws s" unfolding tf using w us(2) by simp
    then show ?thesis using w us(1) by (intro exI [of _ "w # us"]) simp
  qed
qed

lemma squash_whites: "set us \<subseteq> set js_white \<Longrightarrow> squash (concat us) = []"
  by (induction us) (auto simp: squash_white)

lemma squash_trimEnd: "squash (trimEnd s) = squash s"
proof -
  obtain us where us: "set us \<subseteq> set (map rev js_white)"
    "rev s = concat us @ trim_front (map rev js_white) (rev s)"
    using trim_front_split by blast
  let ?vs = "map rev (rev us)"
  have vs: "set ?vs \<subseteq> set js_white" using us(1) by auto
  have "s = trimEnd s @ concat ?vs"
    using arg_cong [OF us(2), of rev] by (simp add: trimEnd_def rev_concat rev_map)
  moreover have "concat ?vs = [] \<or> \<not> cont (hd (concat ?vs))"
  proof (cases ?vs)
    case (Cons v vs')
    then have "v \<in> set js_white" using vs by simp
    then show ?thesis using white_shape [of v] Cons by simp
  qed simp
  ultimately have "squash s = squash (trimEnd s) @ squash (concat ?vs)" by (metis squash_append)
  then show ?thesis using squash_whites [OF vs] by simp
qed

lemma squash_js_trim [simp]: "squash (js_trim s) = squash s"
  by (simp add: js_trim_def trimStart_def squash_trimEnd squash_trim_front)

section \<open>The stages of formatting code\<close>

text \<open>A stage keeps continuation bytes where they are.\<close>

definition cont_stable :: "(string \<Rightarrow> string) \<Rightarrow> bool" where
  "cont_stable f \<longleftrightarrow> (\<forall>u s. list_all cont u \<longrightarrow> prefix u (f s) \<longrightarrow> prefix u s)"

lemma no_white_stable:
  assumes "\<And>u. list_all cont u \<Longrightarrow> prefix u t \<Longrightarrow> prefix u r" "no_white (c # r)"
  shows "no_white (c # t)"
proof -
  have "\<not> prefix w (c # t)" if w: "w \<in> set js_white" for w
  proof
    assume p: "prefix w (c # t)"
    then obtain u where u: "w = c # u" using white_shape [OF w] by (cases w) auto
    then have "list_all cont u" "prefix u t" using white_shape [OF w] p by auto
    then have "prefix w (c # r)" using assms(1) u by simp
    then show False using assms(2) w by (auto simp: no_white_def)
  qed
  then show ?thesis by (simp add: no_white_def)
qed

lemma not_cont_blank: "\<not> cont CHR '' ''" "\<not> cont NL"
  by (simp_all add: cont_def)

lemma collapse_unit:
  "collapse_white [] = []"
  "w \<in> set js_white \<Longrightarrow> collapse_white (w @ r) = CHR '' '' # collapse_white (trim_front js_white r)"
  "no_white (c # r) \<Longrightarrow> collapse_white (c # r) = c # collapse_white r"
  using white_shape [of w] drop_prefix_white [of w r] drop_prefix_none [of "c # r"]
  by (subst collapse_white.simps; auto split: list.split)+

lemma collapse_cont: "list_all cont u \<Longrightarrow> prefix u (collapse_white s) \<Longrightarrow> prefix u s"
proof (induction u arbitrary: s)
  case (Cons x u)
  show ?case
  proof (cases s rule: unit_cases)
    case nil
    then show ?thesis using Cons.prems by (simp add: collapse_unit)
  next
    case (white w r)
    then show ?thesis using Cons.prems not_cont_blank by (auto simp: collapse_unit)
  next
    case (char c r)
    then show ?thesis using Cons by (auto simp: collapse_unit)
  qed
qed simp

lemma squash_collapse [simp]: "squash (collapse_white s) = squash s"
proof (induction "length s" arbitrary: s rule: less_induct)
  case less
  show ?case
  proof (cases s rule: unit_cases)
    case (white w r)
    have "length (trim_front js_white r) \<le> length r" using suffix_length_le [OF trim_front_suffix] .
    then have "length (trim_front js_white r) < length s" using white white_shape [of w] by (cases w) auto
    then have "squash (collapse_white (trim_front js_white r)) = squash r"
      using less.hyps squash_trim_front by metis
    then show ?thesis using white by (simp add: collapse_unit squash_white)
  next
    case (char c r)
    have "no_white (c # collapse_white r)"
      using no_white_stable [of "collapse_white r" r c] collapse_cont char by blast
    then show ?thesis using less.hyps [of r] char by (simp add: collapse_unit squash_char)
  qed (simp add: collapse_unit)
qed

text \<open>Keywords start with an ASCII character and consist of ASCII characters.\<close>

definition keyword :: "string \<Rightarrow> bool" where
  "keyword kw \<longleftrightarrow> kw \<noteq> [] \<and> list_all ascii kw"

lemma upper_ascii: "ascii (upper_char c) \<longleftrightarrow> ascii c"
  by (cases c) (simp add: upper_char_bits ascii_def)

lemma match_ascii:
  assumes "keyword kw" "word_at kw prev s"
  shows "list_all ascii (take (length kw) s)" "take (length kw) s \<noteq> []"
proof -
  have e: "map upper_char (take (length kw) s) = map upper_char kw"
    using assms(2) by (simp add: word_at_def toUpperCase_def)
  then have "list_all ascii (map upper_char (take (length kw) s))"
    using assms(1) by (simp add: keyword_def list_all_iff upper_ascii)
  then show "list_all ascii (take (length kw) s)" by (auto simp: list_all_iff upper_ascii)
  show "take (length kw) s \<noteq> []" using e assms(1) by (cases "take (length kw) s") (auto simp: keyword_def)
qed

lemma cont_not_ascii: "cont c \<Longrightarrow> \<not> ascii c"
  by (simp add: cont_def ascii_def Let_def)

lemma no_match_cont: "keyword kw \<Longrightarrow> \<not> ascii c \<Longrightarrow> \<not> word_at kw prev (c # s)"
  using match_ascii [of kw prev "c # s"] by (cases kw) (auto simp: keyword_def)

lemma replace_unit:
  "replace_word kw f prev [] = []"
  "keyword kw \<Longrightarrow> word_at kw prev s \<Longrightarrow> replace_word kw f prev s
     = f (take (length kw) s) @ replace_word kw f (Some (last (take (length kw) s))) (drop (length kw) s)"
  "\<not> word_at kw prev (c # s) \<Longrightarrow> replace_word kw f prev (c # s) = c # replace_word kw f (Some c) s"
proof -
  show "replace_word kw f prev [] = []" by (simp add: replace_word.simps)
  show "\<not> word_at kw prev (c # s) \<Longrightarrow> replace_word kw f prev (c # s) = c # replace_word kw f (Some c) s"
    by (simp add: replace_word.simps)
  assume "keyword kw" "word_at kw prev s"
  then show "replace_word kw f prev s
     = f (take (length kw) s) @ replace_word kw f (Some (last (take (length kw) s))) (drop (length kw) s)"
    using match_ascii(2) [of kw prev s]
    by (cases s) (simp_all add: replace_word.simps keyword_def)
qed

text \<open>The replacements of the formatter: blanks, then the keyword in upper case.\<close>

definition raising :: "(string \<Rightarrow> string) \<Rightarrow> bool" where
  "raising f \<longleftrightarrow> (\<exists>pre. set pre \<subseteq> {NL, CHR '' ''} \<and> (\<forall>m. f m = pre @ toUpperCase m))"

lemma raising_head:
  assumes "raising f" "list_all ascii m" "m \<noteq> []"
  shows "f m \<noteq> [] \<and> \<not> cont (hd (f m))"
proof -
  obtain pre where pre: "set pre \<subseteq> {NL, CHR '' ''}" "f m = pre @ toUpperCase m"
    using assms(1) by (auto simp: raising_def)
  have "\<not> cont (upper_char (hd m))"
    using assms(2,3) cont_not_ascii upper_ascii by (cases m) auto
  then show ?thesis
    using pre assms(3) not_cont_blank by (cases pre; cases m) (auto simp: toUpperCase_def)
qed

lemma replace_cont:
  assumes "keyword kw" "raising f"
  shows "list_all cont u \<Longrightarrow> prefix u (replace_word kw f prev s) \<Longrightarrow> prefix u s"
proof (induction u arbitrary: prev s)
  case (Cons x u)
  show ?case
  proof (cases "word_at kw prev s")
    case True
    note m = match_ascii [OF assms(1) True]
    have "hd (replace_word kw f prev s) = hd (f (take (length kw) s))" "\<not> cont (hd (f (take (length kw) s)))"
      using raising_head [OF assms(2) m] by (simp_all add: replace_unit(2) [OF assms(1) True])
    then show ?thesis using Cons.prems by (cases "replace_word kw f prev s") auto
  next
    case False
    then show ?thesis using Cons
      by (cases s) (auto simp: replace_unit)
  qed
qed simp

lemma replace_conts:
  assumes "keyword kw"
  shows "list_all (\<lambda>c. \<not> ascii c) u \<Longrightarrow> u \<noteq> [] \<Longrightarrow>
    replace_word kw f prev (u @ s) = u @ replace_word kw f (Some (last u)) s"
proof (induction u arbitrary: prev)
  case (Cons c u)
  then have "\<not> word_at kw prev (c # u @ s)" using no_match_cont [OF assms] by simp
  then show ?case using Cons by (cases "u = []") (auto simp: replace_unit)
qed simp

lemma squash_upper_blank:
  assumes "set pre \<subseteq> {NL, CHR '' ''}"
  shows "squash (pre @ s) = squash s"
  using assms by (induction pre) auto

lemma toUpperCase_idem: "map upper_char (toUpperCase m) = map upper_char m"
proof -
  have "upper_char (upper_char c) = upper_char c" for c
    by (cases c) (simp add: upper_char_bits)
  then show ?thesis by (simp add: toUpperCase_def)
qed

lemma squash_toUpper: "list_all ascii m \<Longrightarrow> squash (toUpperCase m) = squash m"
proof (induction m)
  case (Cons c m)
  have idem: "upper_char (upper_char c) = upper_char c"
    by (cases c) (simp add: upper_char_bits)
  have w1: "no_white (d # t) \<longleftrightarrow> [d] \<notin> set js_white" if "ascii d" for d t
    using white_shape that by (fastforce simp: no_white_def prefix_Cons)
  have up: "[upper_char c] \<in> set js_white \<longleftrightarrow> [c] \<in> set js_white"
    by (cases c) (auto simp: upper_char_bits js_white_chars letter_bits_def)
  show ?case
  proof (cases "[c] \<in> set js_white")
    case True
    then show ?thesis
      using Cons up squash_white [of "[c]" m] squash_white [of "[upper_char c]" "toUpperCase m"]
      by (simp add: toUpperCase_def)
  next
    case False
    then show ?thesis
      using Cons up w1 [of c] w1 [of "upper_char c"] idem
      by (simp add: toUpperCase_def squash_char upper_ascii)
  qed
qed (simp add: toUpperCase_def)

lemma squash_raising:
  assumes "raising f" "list_all ascii m"
  shows "squash (f m @ y) = squash m @ squash y"
proof -
  obtain pre where pre: "set pre \<subseteq> {NL, CHR '' ''}" "f m = pre @ toUpperCase m"
    using assms(1) by (auto simp: raising_def)
  have "list_all ascii (toUpperCase m)" using assms(2) by (simp add: toUpperCase_def list_all_iff upper_ascii)
  then show ?thesis
    using pre squash_upper_blank [OF pre(1)] squash_ascii squash_toUpper [OF assms(2)] by simp
qed

lemma squash_replace:
  assumes kw: "keyword kw" and f: "raising f"
  shows "squash (replace_word kw f prev s) = squash s"
proof (induction "length s" arbitrary: s prev rule: less_induct)
  case less
  show ?case
  proof (cases "word_at kw prev s")
    case True
    note m = match_ascii [OF kw True]
    have "length (drop (length kw) s) < length s" using m(2) kw by (cases s) (auto simp: keyword_def)
    then have "squash (replace_word kw f p (drop (length kw) s)) = squash (drop (length kw) s)" for p
      using less.hyps by blast
    then have "squash (replace_word kw f prev s) = squash (take (length kw) s) @ squash (drop (length kw) s)"
      using squash_raising [OF f m(1)] by (simp add: replace_unit(2) [OF kw True])
    also have "\<dots> = squash s" using squash_ascii [OF m(1), of "drop (length kw) s"] by simp
    finally show ?thesis .
  next
    case False
    show ?thesis
    proof (cases s rule: unit_cases)
      case (white w r)
      have l: "length r < length s" using white white_shape [of w] by (cases w) auto
      have "\<exists>p. replace_word kw f prev (w @ r) = w @ replace_word kw f p r"
      proof (cases "ascii (hd w)")
        case True
        then obtain c where "w = [c]" using white_shape [OF white(2)] by (cases w) auto
        then show ?thesis using False white(1) by (auto simp: replace_unit)
      next
        case na: False
        then have "list_all (\<lambda>c. \<not> ascii c) w"
          using white_shape [OF white(2)] cont_not_ascii by (cases w) (auto simp: list_all_iff)
        then show ?thesis using replace_conts [OF kw] white_shape [OF white(2)] by blast
      qed
      then show ?thesis using less.hyps [OF l] white squash_white by auto
    next
      case (char c r)
      have "no_white (c # replace_word kw f (Some c) r)"
        using no_white_stable [of "replace_word kw f (Some c) r" r c] replace_cont [OF kw f] char by blast
      then show ?thesis
        using less.hyps [of r] char False by (simp add: replace_unit squash_char)
    qed (simp add: replace_unit)
  qed
qed

lemma all_keywords: "kw \<in> set ALL_BREAKS \<union> set SECONDARY_KEYWORDS \<Longrightarrow> keyword kw"
  by (auto simp: ALL_BREAKS_def MAJOR_KEYWORDS_def JOIN_KEYWORDS_def SECONDARY_KEYWORDS_def
      keyword_def ascii_def)

lemma squash_breaks:
  "set kws \<subseteq> set ALL_BREAKS \<Longrightarrow> squash (foldl break_keyword s kws) = squash s"
proof (induction kws arbitrary: s)
  case (Cons kw kws)
  have "raising (\<lambda>m. (if is_join kw then NL # ''  '' else [NL]) @ toUpperCase m)"
    unfolding raising_def by (intro exI [of _ "if is_join kw then NL # ''  '' else [NL]"]) auto
  then have "squash (break_keyword s kw) = squash s"
    using Cons.prems all_keywords unfolding break_keyword_def by (intro squash_replace) auto
  then show ?case using Cons by simp
qed simp

lemma squash_uppers:
  "set kws \<subseteq> set SECONDARY_KEYWORDS \<Longrightarrow> squash (foldl upper_keyword s kws) = squash s"
proof (induction kws arbitrary: s)
  case (Cons kw kws)
  have "raising toUpperCase" unfolding raising_def by (intro exI [of _ "[]"]) auto
  then have "squash (upper_keyword s kw) = squash s"
    using Cons.prems all_keywords unfolding upper_keyword_def by (intro squash_replace) auto
  then show ?case using Cons by simp
qed simp

section \<open>Wrapping the select list\<close>

lemma split_top_step:
  "split_top d depth cur [] = (if cur = [] then [] else [cur])"
  "split_top d depth cur (c # r) =
     (if c \<in> {CHR ''('', CHR ''['', CHR ''{''} then split_top d (depth + 1) (cur @ [c]) r
      else if c \<in> {CHR '')'', CHR '']'', CHR ''}''} then split_top d (depth - 1) (cur @ [c]) r
      else if c \<in> {SQ, DQUOTE, BQ} then
        split_top d depth (cur @ c # fst (skip_quote c r)) (snd (skip_quote c r))
      else if c = d \<and> depth = 0 then cur # split_top d depth [] r
      else split_top d depth (cur @ [c]) r)"
  by (subst split_top.simps, simp)+

lemma split_top_Nil: "split_top d depth cur s = [] \<longleftrightarrow> cur = [] \<and> s = []"
proof (induction d depth cur s rule: split_top.induct)
  case (1 d depth cur s)
  show ?case
  proof (cases s)
    case Nil
    then show ?thesis by (simp add: split_top_step)
  next
    case (Cons c r)
    note ih = 1 [OF Cons]
    show ?thesis
      unfolding Cons split_top_step(2) using ih by (simp split: if_splits)
  qed
qed

lemma split_top_join:
  "join_with [d] (split_top d depth cur s) = cur @ s \<or> join_with [d] (split_top d depth cur s) @ [d] = cur @ s"
proof (induction d depth cur s rule: split_top.induct)
  case (1 d depth cur s)
  show ?case
  proof (cases s)
    case Nil
    then show ?thesis by (simp add: split_top_step)
  next
    case (Cons c r)
    consider (opn) "c \<in> {CHR ''('', CHR ''['', CHR ''{''}"
      | (cls) "c \<notin> {CHR ''('', CHR ''['', CHR ''{''}" "c \<in> {CHR '')'', CHR '']'', CHR ''}''}"
      | (quo) "c \<notin> {CHR ''('', CHR ''['', CHR ''{''}" "c \<notin> {CHR '')'', CHR '']'', CHR ''}''}" "c \<in> {SQ, DQUOTE, BQ}"
      | (dlm) "c \<notin> {CHR ''('', CHR ''['', CHR ''{''}" "c \<notin> {CHR '')'', CHR '']'', CHR ''}''}" "c \<notin> {SQ, DQUOTE, BQ}"
          "c = d \<and> depth = 0"
      | (oth) "c \<notin> {CHR ''('', CHR ''['', CHR ''{''}" "c \<notin> {CHR '')'', CHR '']'', CHR ''}''}" "c \<notin> {SQ, DQUOTE, BQ}"
          "\<not> (c = d \<and> depth = 0)"
      by satx
    then show ?thesis
    proof cases
      case opn
      from 1(1) [OF Cons opn] opn Cons show ?thesis by (simp add: split_top_step)
    next
      case cls
      from 1(2) [OF Cons cls] cls Cons show ?thesis by (simp add: split_top_step)
    next
      case quo
      have "fst (skip_quote c r) @ snd (skip_quote c r) = r"
        using skip_quote_append [OF prod.collapse [symmetric]] .
      with 1(3) [OF Cons quo] quo Cons show ?thesis by (simp add: split_top_step)
    next
      case dlm
      have e: "split_top d depth cur s = cur # split_top d depth [] r"
        using dlm Cons by (simp add: split_top_step)
      show ?thesis
      proof (cases "split_top d depth [] r = []")
        case True
        then show ?thesis using e Cons dlm split_top_Nil [of d depth "[]" r] by simp
      next
        case False
        then show ?thesis using 1(4) [OF Cons dlm] e Cons dlm by (auto simp: join_with_Cons)
      qed
    next
      case oth
      then have "split_top d depth cur s = split_top d depth (cur @ [c]) r"
        by (simp only: Cons split_top_step if_False)
      with 1(5) [OF Cons oth] Cons show ?thesis by simp
    qed
  qed
qed

lemma comma_ascii: "ascii CHR '',''" "\<not> cont CHR '',''"
  by (simp_all add: ascii_def cont_def)

lemma squash_comma: "squash (CHR '','' # s) = CHR '','' # squash s"
proof -
  have "no_white (CHR '','' # s)" by (auto simp: no_white_def js_white_chars)
  then show ?thesis by (simp add: squash_char upper_char_def Let_def)
qed

lemma squash_join_items:
  "squash (join_with ('','' @ NL # ''  '') (map js_trim items)) = squash (join_with '','' items)"
proof (induction items)
  case (Cons p ps)
  show ?case
  proof (cases "ps = []")
    case False
    have "squash (js_trim p @ CHR '','' # x) = squash p @ CHR '','' # squash x"
      "squash (p @ CHR '','' # x) = squash p @ CHR '','' # squash x" for x
      using comma_ascii by (simp_all add: squash_append squash_comma)
    then show ?thesis using Cons False by (simp add: join_with_Cons)
  qed simp
qed simp

text \<open>Equal but for at most one comma that is missing on the left\<close>

definition but_one_comma :: "string \<Rightarrow> string \<Rightarrow> bool" where
  "but_one_comma s t \<longleftrightarrow> s = t \<or> (\<exists>x y. t = x @ CHR '','' # y \<and> s = x @ y)"

lemma but_one_comma_refl: "but_one_comma s s"
  by (simp add: but_one_comma_def)

lemma but_one_comma_append: "but_one_comma s t \<Longrightarrow> but_one_comma (a @ s @ b) (a @ t @ b)"
  unfolding but_one_comma_def by (metis append.assoc append_Cons)

lemma but_one_comma_Cons: "but_one_comma s t \<Longrightarrow> but_one_comma (c # s) (c # t)"
  using but_one_comma_append [of s t "[c]" "[]"] by simp

lemma squash_select: "squash (NL # ''SELECT '' @ s) = ''SELECT'' @ squash s"
  "squash (NL # ''SELECT'' @ NL # ''  '' @ s) = ''SELECT'' @ squash s"
proof -
  have a: "list_all ascii ''SELECT''" by (simp add: ascii_def)
  have "squash ''SELECT'' = ''SELECT''"
    by (subst squash_char | simp add: no_white_def js_white_chars upper_char_def Let_def)+
  then have x: "squash (''SELECT'' @ y) = ''SELECT'' @ squash y" for y
    using squash_ascii [OF a, of y] by simp
  show "squash (NL # ''SELECT '' @ s) = ''SELECT'' @ squash s"
    using x [of "CHR '' '' # s"] by simp
  show "squash (NL # ''SELECT'' @ NL # ''  '' @ s) = ''SELECT'' @ squash s"
    using x [of "NL # ''  '' @ s"] by simp
qed

lemma squash_wrap_items: "but_one_comma (squash (wrap_items body)) (squash (NL # ''SELECT '' @ body))"
proof (cases "length (splitTopLevel body CHR '','') \<le> 1")
  case True
  then show ?thesis by (simp add: wrap_items_def but_one_comma_refl del: append.simps)
next
  case False
  let ?items = "splitTopLevel body CHR '',''"
  have s: "squash (wrap_items body) = ''SELECT'' @ squash (join_with '','' ?items)"
    using False squash_join_items by (simp only: wrap_items_def Let_def if_False squash_select)
  have "but_one_comma (squash (join_with '','' ?items)) (squash body)"
  proof -
    consider "join_with '','' ?items = body" | "join_with '','' ?items @ '','' = body"
      using split_top_join [of "CHR '',''" 0 "[]" body] by (auto simp: splitTopLevel_def)
    then show ?thesis
    proof cases
      case 1
      then show ?thesis by (simp add: but_one_comma_refl)
    next
      case 2
      then have "squash body = squash (join_with '','' ?items) @ '',''"
        using squash_append [of "'',''" "join_with '','' ?items"] comma_ascii squash_comma [of "[]"] by simp
      then show ?thesis unfolding but_one_comma_def by (metis append_Nil2)
    qed
  qed
  from but_one_comma_append [OF this, of "''SELECT''" "[]"] show ?thesis
    unfolding s squash_select by simp
qed

lemma lazy_body_split: "lazy_body s = Some (a, b) \<Longrightarrow> s = a @ b \<and> body_stops b"
  by (induction s arbitrary: a b) (auto split: if_splits)

lemma wrap_match:
  assumes "prefix (NL # ''SELECT '') s" "lazy_body (drop 8 s) = Some (body, after)"
  shows "s = (NL # ''SELECT '' @ body) @ after" "hd after = NL" "after \<noteq> []"
proof -
  obtain t where "s = NL # ''SELECT '' @ t" using assms(1) by (auto simp: prefix_def)
  moreover note lazy_body_split [OF assms(2)]
  ultimately show "s = (NL # ''SELECT '' @ body) @ after" "hd after = NL" "after \<noteq> []"
    by (auto simp: body_stops_def split: list.splits)
qed

lemma wrap_head: "wrap_items body = NL # tl (wrap_items body)"
  by (simp add: wrap_items_def Let_def)

lemma wrap_cont: "list_all cont u \<Longrightarrow> prefix u (wrap_select before s) \<Longrightarrow> prefix u s"
proof (induction u arbitrary: before s)
  case (Cons x u)
  show ?case
  proof (cases s)
    case (Cons c r)
    show ?thesis
    proof (cases "line_end before \<and> prefix (NL # ''SELECT '') (c # r) \<and> lazy_body (drop 8 (c # r)) \<noteq> None")
      case True
      then obtain body after where "wrap_select before s = wrap_items body @ after"
        using Cons by (auto split: prod.splits)
      then have "hd (wrap_select before s) = NL" by (subst (asm) wrap_head) simp
      then show ?thesis using Cons.prems not_cont_blank by (cases "wrap_select before s") auto
    next
      case False
      then have "wrap_select before s = c # wrap_select (before @ [c]) r" using Cons by (simp only: wrap_select.simps if_False)
      then show ?thesis using Cons.IH Cons.prems Cons by auto
    qed
  qed (use Cons.prems in simp)
qed simp

lemma squash_wrap: "but_one_comma (squash (wrap_select before s)) (squash s)"
proof (induction "length s" arbitrary: before s rule: less_induct)
  case less
  show ?case
  proof (cases s)
    case Nil
    then show ?thesis by (simp add: but_one_comma_refl)
  next
    case (Cons c r)
    show ?thesis
    proof (cases "line_end before \<and> prefix (NL # ''SELECT '') (c # r) \<and> lazy_body (drop 8 (c # r)) \<noteq> None")
      case True
      then obtain body after where lb: "lazy_body (drop 8 (c # r)) = Some (body, after)" by auto
      note m = wrap_match [OF conjunct1 [OF conjunct2 [OF True]] lb]
      have w: "wrap_select before s = wrap_items body @ after" using True lb Cons by (simp only: wrap_select.simps) simp
      have nc: "\<not> cont (hd after)" using m(2) not_cont_blank by simp
      have "squash (wrap_select before s) = squash (wrap_items body) @ squash after"
        unfolding w using nc by (intro squash_append) simp
      moreover have "squash s = squash (NL # ''SELECT '' @ body) @ squash after"
        unfolding Cons m(1) using nc by (intro squash_append) simp
      ultimately show ?thesis
        using but_one_comma_append [OF squash_wrap_items, of "[]" body "squash after"] by simp
    next
      case False
      then have w: "wrap_select before s = c # wrap_select (before @ [c]) r"
        using Cons by (simp only: wrap_select.simps if_False)
      show ?thesis
      proof (cases s rule: unit_cases)
        case (white v t)
        have walk: "\<exists>b. wrap_select before (v @ t) = v @ wrap_select b t"
        proof (cases "tl v = []")
          case True
          then have "v = [c]" using white Cons white_shape [of v] by (cases v) auto
          then show ?thesis using w Cons white by auto
        next
          case tl: False
          have stay: "\<exists>b. wrap_select before (u @ t) = u @ wrap_select b t" if "NL \<notin> set u" for u before
            using that
          proof (induction u arbitrary: before)
            case (Cons d u)
            then have "wrap_select before (d # u @ t) = d # wrap_select (before @ [d]) (u @ t)" by simp
            then show ?case using Cons by auto
          qed auto
          have "NL \<notin> set v" using tl white(2) by (auto simp: js_white_chars)
          then show ?thesis by (rule stay)
        qed
        have "length t < length s" using white white_shape [of v] by (cases v) auto
        then show ?thesis using walk less.hyps white by (auto simp: squash_white)
      next
        case (char d t)
        have "no_white (c # wrap_select (before @ [c]) r)"
          using no_white_stable [of "wrap_select (before @ [c]) r" r c] wrap_cont char Cons by blast
        then show ?thesis
          using less.hyps [of r "before @ [c]"] char Cons w by (simp add: squash_char but_one_comma_Cons)
      qed (use Cons in simp)
    qed
  qed
qed

section \<open>Properties\<close>


lemma split_from_step:
  "split_from code [] = flush_code code"
  "keep_here (c # r) = None \<Longrightarrow> split_from code (c # r) = split_from (code @ [c]) r"
  "keep_here (c # r) = Some (a, b) \<Longrightarrow> split_from code (c # r) = flush_code code @ Keep a # split_from [] b"
  by (subst split_from.simps, simp)+

lemma split_from_text: "concat (map seg_text (split_from code s)) = code @ s"
proof (induction code s rule: split_from.induct)
  case (1 code s)
  show ?case
  proof (cases s)
    case Nil
    then show ?thesis by (simp add: split_from_step flush_code_def)
  next
    case (Cons c r)
    show ?thesis
    proof (cases "keep_here s")
      case None
      with 1 Cons show ?thesis by (simp add: split_from_step)
    next
      case (Some ab)
      then obtain a b where ab: "keep_here s = Some (a, b)" by (cases ab) auto
      with 1(2) [OF Cons ab refl] Cons keep_here_append [OF ab] show ?thesis
        by (simp add: split_from_step flush_code_def)
    qed
  qed
qed

lemma split_from_nonempty: "t \<in> set (split_from code s) \<Longrightarrow> seg_text t \<noteq> []"
proof (induction code s rule: split_from.induct)
  case (1 code s)
  show ?case
  proof (cases s)
    case Nil
    then show ?thesis using 1(3) by (auto simp: split_from_step flush_code_def split: if_splits)
  next
    case (Cons c r)
    show ?thesis
    proof (cases "keep_here s")
      case None
      with 1 Cons show ?thesis by (simp add: split_from_step)
    next
      case (Some ab)
      then obtain a b where ab: "keep_here s = Some (a, b)" by (cases ab) auto
      then have "split_from code s = flush_code code @ Keep a # split_from [] b"
        using Cons by (simp add: split_from_step)
      with 1(2) [OF Cons ab refl] 1(3) keep_here_append [OF ab] show ?thesis
        by (auto simp: flush_code_def split: if_splits)
    qed
  qed
qed

text \<open>splitting the text is lossless: the segments, none of them empty, put together are the text;
  and so is splitting a select list at its top-level commas, up to one comma at its end.\<close>

theorem splitting_is_lossless:
  "concat (map seg_text (splitSegments sql)) = sql \<and>
   list_all (\<lambda>t. seg_text t \<noteq> []) (splitSegments sql) \<and>
   join_with [d] (splitTopLevel list d) \<in> {list, butlast list}"
  using split_from_text [of "[]" sql] split_from_nonempty [of _ "[]" sql] split_top_join [of d 0 "[]" list]
  by (auto simp: splitSegments_def splitTopLevel_def list_all_iff dest: arg_cong [of _ _ butlast])

text \<open>four inputs on which the formatter does not do what its header says: the line break after a
  line comment is dropped, so that the statement becomes part of the comment; a two-word join is broken
  apart; blanks inside a string literal are removed; and a select list loses its trailing comma.\<close>

theorem formatter_breaks:
  "formatSQL (''--c'' @ [NL] @ ''commit'') = ''--cCOMMIT'' \<and>
   formatSQL ''a left join b'' = ''a'' @ [NL] @ ''  LEFT'' @ [NL] @ ''  JOIN b'' \<and>
   formatSQL ([SQ] @ '' '' @ [NL] @ [SQ]) = [SQ, NL, SQ] \<and>
   formatCode ''select a,b,from t'' = ''SELECT'' @ [NL] @ ''  a,'' @ [NL] @ ''  b'' @ [NL] @ ''FROM t''"
proof (intro conjI)
  show "formatSQL (''--c'' @ [NL] @ ''commit'') = ''--cCOMMIT''" by code_simp
  show "formatSQL ''a left join b'' = ''a'' @ [NL] @ ''  LEFT'' @ [NL] @ ''  JOIN b''" by code_simp
  show "formatSQL ([SQ] @ '' '' @ [NL] @ [SQ]) = [SQ, NL, SQ]" by code_simp
  show "formatCode ''select a,b,from t'' = ''SELECT'' @ [NL] @ ''  a,'' @ [NL] @ ''  b'' @ [NL] @ ''FROM t''"
    by code_simp
qed

end
