(* ===== verification/WebPlatform.thy ===== *)
theory WebPlatform
  imports JsString
begin

text \<open>
  What the transport clients use of the browser: JSON values and \<open>JSON.stringify\<close>, the
  \<open>WebSocket\<close> objects with their ready state and the messages put on the wire, and
  \<open>setInterval\<close>. The socket store and the timers are the record \<open>web\<close>, which each client
  extends by its own fields, so that the operations below act on the state of every client.
\<close>

section \<open>JSON values\<close>

datatype json =
    JNull | JBool bool | JNum int | JStr string | JArr "json list" | JObj "(string \<times> json) list"

text \<open>\<open>f.k\<close>; reading a property of \<open>null\<close> raises, which the callers test for.\<close>

definition member :: "string \<Rightarrow> json \<Rightarrow> json option" where
  "member k j = (case j of JObj ps \<Rightarrow> map_of ps k | _ \<Rightarrow> None)"

definition hex_digit :: "nat \<Rightarrow> char" where
  "hex_digit n = ''0123456789abcdef'' ! n"

definition escape_char :: "char \<Rightarrow> string" where
  "escape_char c =
     (if c = CHR 0x22 then [CHR 0x5C, CHR 0x22]
      else if c = CHR 0x5C then [CHR 0x5C, CHR 0x5C]
      else if c = CHR 0x08 then CHR 0x5C # ''b''
      else if c = CHR 0x0C then CHR 0x5C # ''f''
      else if c = CHR 0x0A then CHR 0x5C # ''n''
      else if c = CHR 0x0D then CHR 0x5C # ''r''
      else if c = CHR 0x09 then CHR 0x5C # ''t''
      else if (of_char c :: nat) < 32 then
        CHR 0x5C # ''u00'' @ [hex_digit (of_char c div 16), hex_digit (of_char c mod 16)]
      else [c])"

definition quote_string :: "string \<Rightarrow> string" where
  "quote_string s = CHR 0x22 # concat (map escape_char s) @ [CHR 0x22]"

text \<open>\<open>JSON.stringify\<close>\<close>

fun stringify :: "json \<Rightarrow> string" where
  "stringify JNull = ''null''"
| "stringify (JBool b) = (if b then ''true'' else ''false'')"
| "stringify (JNum n) = show_int n"
| "stringify (JStr s) = quote_string s"
| "stringify (JArr xs) = ''['' @ join_with '','' (map stringify xs) @ '']''"
| "stringify (JObj ps) =
     CHR 0x7B # join_with '','' (map (\<lambda>p. quote_string (fst p) @ '':'' @ stringify (snd p)) ps) @ [CHR 0x7D]"

text \<open>\<open>o[k] = v\<close> and \<open>{...o, ...p}\<close> on objects as lists of their properties in order\<close>

fun obj_set :: "'k \<Rightarrow> 'v \<Rightarrow> ('k \<times> 'v) list \<Rightarrow> ('k \<times> 'v) list" where
  "obj_set k v [] = [(k, v)]"
| "obj_set k v (p # ps) = (if fst p = k then (k, v) # ps else p # obj_set k v ps)"

definition spread :: "('k \<times> 'v) list \<Rightarrow> ('k \<times> 'v) list \<Rightarrow> ('k \<times> 'v) list" where
  "spread a b = fold (\<lambda>(k, v). obj_set k v) b a"

lemma map_of_obj_set [simp]: "map_of (obj_set k v ps) = (map_of ps)(k \<mapsto> v)"
  by (induction ps) auto

text \<open>\<open>String(v)\<close>\<close>

fun js_String :: "json \<Rightarrow> string" where
  "js_String JNull = ''null''"
| "js_String (JBool b) = (if b then ''true'' else ''false'')"
| "js_String (JNum n) = show_int n"
| "js_String (JStr s) = s"
| "js_String (JArr xs) = join_with '','' (map (\<lambda>x. if x = JNull then [] else js_String x) xs)"
| "js_String (JObj ps) = ''[object Object]''"

section \<open>Sockets\<close>

datatype ReadyState = WsConnecting | WsOpen | WsClosing | WsClosed

record socket =
  ready :: ReadyState
  address :: "string \<times> (string \<times> string) list"
  wire :: "string list"

record 't web =
  sockets :: "socket list"
  intervals :: "(nat \<times> 't) list"
  next_interval :: nat

definition ready_state :: "nat \<Rightarrow> ('t, 'm) web_scheme \<Rightarrow> ReadyState" where
  "ready_state i w = (if i < length (sockets w) then ready (sockets w ! i) else WsClosed)"

definition wire_of :: "nat \<Rightarrow> ('t, 'm) web_scheme \<Rightarrow> string list" where
  "wire_of i w = (if i < length (sockets w) then wire (sockets w ! i) else [])"

definition set_ready :: "nat \<Rightarrow> ReadyState \<Rightarrow> ('t, 'm) web_scheme \<Rightarrow> ('t, 'm) web_scheme" where
  "set_ready i r w = w\<lparr>sockets := (sockets w)[i := (sockets w ! i)\<lparr>ready := r\<rparr>]\<rparr>"

text \<open>\<open>new WebSocket(url)\<close>\<close>

definition new_socket :: "string \<times> (string \<times> string) list \<Rightarrow> ('t, 'm) web_scheme \<Rightarrow> ('t, 'm) web_scheme" where
  "new_socket a w = w\<lparr>sockets := sockets w @ [\<lparr>ready = WsConnecting, address = a, wire = []\<rparr>]\<rparr>"

text \<open>
  \<open>ws.send\<close>: on a connecting socket it raises (\<open>None\<close>), on an open one the message goes out, on
  a closing or closed one it is discarded.
\<close>

definition socket_send :: "nat \<Rightarrow> string \<Rightarrow> ('t, 'm) web_scheme \<Rightarrow> ('t, 'm) web_scheme option" where
  "socket_send i d w =
     (case ready_state i w of
        WsConnecting \<Rightarrow> None
      | WsOpen \<Rightarrow> Some (w\<lparr>sockets := (sockets w)[i := (sockets w ! i)\<lparr>wire := wire (sockets w ! i) @ [d]\<rparr>]\<rparr>)
      | _ \<Rightarrow> Some w)"

text \<open>\<open>ws.close()\<close>\<close>

definition socket_close :: "nat \<Rightarrow> ('t, 'm) web_scheme \<Rightarrow> ('t, 'm) web_scheme" where
  "socket_close i w =
     (if ready_state i w \<in> {WsConnecting, WsOpen} then set_ready i WsClosing w else w)"

section \<open>Timers\<close>

text \<open>\<open>setInterval\<close> answers the id of the new timer; \<open>clearInterval\<close> removes it.\<close>

definition set_interval :: "'t \<Rightarrow> ('t, 'm) web_scheme \<Rightarrow> nat \<times> ('t, 'm) web_scheme" where
  "set_interval t w =
     (next_interval w, w\<lparr>intervals := intervals w @ [(next_interval w, t)], next_interval := Suc (next_interval w)\<rparr>)"

definition clear_interval :: "nat \<Rightarrow> ('t, 'm) web_scheme \<Rightarrow> ('t, 'm) web_scheme" where
  "clear_interval n w = w\<lparr>intervals := filter (\<lambda>p. fst p \<noteq> n) (intervals w)\<rparr>"

section \<open>Their laws\<close>

lemma ready_state_new [simp]:
  "ready_state i (new_socket a w) = (if i = length (sockets w) then WsConnecting else ready_state i w)"
  by (auto simp: ready_state_def new_socket_def nth_append)

lemma wire_of_new [simp]: "wire_of i (new_socket a w) = wire_of i w"
  by (auto simp: wire_of_def new_socket_def nth_append)

lemma length_new_socket [simp]: "length (sockets (new_socket a w)) = Suc (length (sockets w))"
  by (simp add: new_socket_def)

lemma ready_state_set [simp]:
  "ready_state j (set_ready i r w) = (if j = i \<and> i < length (sockets w) then r else ready_state j w)"
  by (auto simp: ready_state_def set_ready_def)

lemma wire_of_set [simp]: "wire_of j (set_ready i r w) = wire_of j w"
  by (cases "i = j") (auto simp: wire_of_def set_ready_def)

lemma length_set_ready [simp]: "length (sockets (set_ready i r w)) = length (sockets w)"
  by (simp add: set_ready_def)

lemma no_sockets_set_ready [simp]: "sockets (set_ready i r w) = [] \<longleftrightarrow> sockets w = []"
  by (simp add: set_ready_def)

lemma socket_send_None [simp]: "socket_send i d w = None \<longleftrightarrow> ready_state i w = WsConnecting"
  by (auto simp: socket_send_def split: ReadyState.splits)

lemma ready_state_valid: "ready_state i w \<noteq> WsClosed \<Longrightarrow> i < length (sockets w)"
  by (auto simp: ready_state_def split: if_splits)

lemma socket_send_open:
  assumes "ready_state i w = WsOpen"
  shows "\<exists>v. socket_send i d w = Some v \<and> wire_of i v = wire_of i w @ [d]
    \<and> (\<forall>j. j \<noteq> i \<longrightarrow> wire_of j v = wire_of j w) \<and> (\<forall>j. ready_state j v = ready_state j w)"
proof -
  have i: "i < length (sockets w)" using assms ready_state_valid [of i w] by simp
  let ?v = "w\<lparr>sockets := (sockets w)[i := (sockets w ! i)\<lparr>wire := wire (sockets w ! i) @ [d]\<rparr>]\<rparr>"
  have "socket_send i d w = Some ?v" by (simp add: socket_send_def assms)
  moreover have "wire_of i ?v = wire_of i w @ [d]" using i by (simp add: wire_of_def)
  moreover have "\<forall>j. j \<noteq> i \<longrightarrow> wire_of j ?v = wire_of j w" by (simp add: wire_of_def)
  moreover have "ready_state j ?v = ready_state j w" for j
    using i by (cases "j = i") (simp_all add: ready_state_def)
  ultimately show ?thesis by blast
qed

lemma socket_send_ready:
  "socket_send i d w = Some v \<Longrightarrow> ready_state j v = ready_state j w \<and> length (sockets v) = length (sockets w)"
  by (cases "i = j") (auto simp: socket_send_def ready_state_def split: ReadyState.splits)

lemma ready_state_close:
  "ready_state j (socket_close i w) =
     (if j = i \<and> ready_state i w \<in> {WsConnecting, WsOpen} then WsClosing else ready_state j w)"
  using ready_state_valid [of i w] by (auto simp: socket_close_def)

lemma wire_of_close [simp]: "wire_of j (socket_close i w) = wire_of j w"
  by (simp add: socket_close_def)

lemma length_close [simp]: "length (sockets (socket_close i w)) = length (sockets w)"
  by (simp add: socket_close_def)

text \<open>Each operation leaves the other half of the record, and every extension, alone.\<close>

lemma web_frame [simp]:
  "intervals (new_socket a w) = intervals w" "next_interval (new_socket a w) = next_interval w"
  "intervals (set_ready i r w) = intervals w" "next_interval (set_ready i r w) = next_interval w"
  "intervals (socket_close i w) = intervals w" "next_interval (socket_close i w) = next_interval w"
  "sockets (clear_interval n w) = sockets w" "next_interval (clear_interval n w) = next_interval w"
  "web.more (new_socket a w) = web.more w" "web.more (set_ready i r w) = web.more w"
  "web.more (socket_close i w) = web.more w" "web.more (clear_interval n w) = web.more w"
  by (simp_all add: new_socket_def set_ready_def socket_close_def clear_interval_def)

lemma socket_send_frame:
  "socket_send i d w = Some v \<Longrightarrow>
     intervals v = intervals w \<and> next_interval v = next_interval w \<and> web.more v = web.more w"
  by (auto simp: socket_send_def split: ReadyState.splits)

lemma ready_of_sockets: "sockets v = sockets w \<Longrightarrow> ready_state i v = ready_state i w"
  by (simp add: ready_state_def)

lemma wire_of_sockets: "sockets v = sockets w \<Longrightarrow> wire_of i v = wire_of i w"
  by (simp add: wire_of_def)

lemma socket_send_update:
  "socket_send i d s = Some v \<Longrightarrow> \<exists>xs. v = s\<lparr>sockets := xs\<rparr> \<and> length xs = length (sockets s)"
proof -
  assume sent: "socket_send i d s = Some v"
  show ?thesis
  proof (cases "ready_state i s = WsOpen")
    case True
    then have "v = s\<lparr>sockets := (sockets s)[i := (sockets s ! i)\<lparr>wire := wire (sockets s ! i) @ [d]\<rparr>]\<rparr>"
      using sent by (simp add: socket_send_def)
    then show ?thesis by (intro exI [of _ "(sockets s)[i := (sockets s ! i)\<lparr>wire := wire (sockets s ! i) @ [d]\<rparr>]"]) simp
  next
    case False
    then have "v = s\<lparr>sockets := sockets s\<rparr>"
      using sent by (cases "ready_state i s") (simp_all add: socket_send_def)
    then show ?thesis by blast
  qed
qed

text \<open>Keys of a JSON object literal.\<close>

lemma member_simps [simp]:
  "member k (JObj ps) = map_of ps k"
  "member k JNull = None" "member k (JBool b) = None" "member k (JNum n) = None"
  "member k (JStr s) = None" "member k (JArr xs) = None"
  by (simp_all add: member_def)

lemma quote_string_cases: "\<exists>s'. quote_string s = CHR 0x22 # s'"
  by (simp add: quote_string_def)

end
