(* ===== verification/Base64.thy ===== *)
theory Base64
  imports JsString
begin

text \<open>
  Base64 as the browser has it: \<open>btoa\<close> on a binary string (one character per byte) and the
  forgiving \<open>atob\<close>, which skips white space, accepts missing padding and raises an exception
  (\<open>None\<close>) on anything else. The transports of the front end wrap every payload in these two
  functions, so their round trip is what makes the payloads arrive.
\<close>

section \<open>The alphabet\<close>

definition B64 :: string where
  "B64 = ''ABCDEFGHIJKLMNOPQRSTUVWXYZabcdefghijklmnopqrstuvwxyz0123456789+/''"

definition b64_digit :: "nat \<Rightarrow> char" where
  "b64_digit n = B64 ! n"

definition b64_value :: "char \<Rightarrow> nat option" where
  "b64_value c = find_index (\<lambda>d. d = c) B64"

lemma length_B64 [simp]: "length B64 = 64"
  by (simp add: B64_def)

lemma distinct_B64: "distinct B64"
  by (simp add: B64_def)

lemma b64_value_digit [simp]: "n < 64 \<Longrightarrow> b64_value (b64_digit n) = Some n"
  using find_index_of_nth [of "\<lambda>x. x" B64 n] distinct_B64
  by (simp add: b64_value_def b64_digit_def)

lemma b64_value_less: "b64_value c = Some n \<Longrightarrow> n < 64"
  by (auto simp: b64_value_def find_index_Some_iff)

lemma b64_digit_in: "n < 64 \<Longrightarrow> b64_digit n \<in> set B64"
  by (simp add: b64_digit_def)

lemma b64_special:
  "CHR ''='' \<notin> set B64" "CHR '' '' \<notin> set B64" "CHR ''-'' \<notin> set B64" "CHR ''_'' \<notin> set B64"
  "CHR ''.'' \<notin> set B64"
  by (simp_all add: B64_def)

section \<open>Groups of three bytes\<close>

definition digits3 :: "nat \<Rightarrow> nat \<Rightarrow> nat \<Rightarrow> nat list" where
  "digits3 a b c =
     [a div 4, a mod 4 * 16 + b div 16, b mod 16 * 4 + c div 64, c mod 64]"

fun btoa_bytes :: "nat list \<Rightarrow> string" where
  "btoa_bytes [] = []"
| "btoa_bytes [a] = map b64_digit (take 2 (digits3 a 0 0)) @ ''==''"
| "btoa_bytes [a, b] = map b64_digit (take 3 (digits3 a b 0)) @ ''=''"
| "btoa_bytes (a # b # c # r) = map b64_digit (digits3 a b c) @ btoa_bytes r"

text \<open>The bytes of a group of digits; the bits beyond the last whole byte are dropped.\<close>

fun digit_bytes :: "nat list \<Rightarrow> nat list option" where
  "digit_bytes [] = Some []"
| "digit_bytes [p] = None"
| "digit_bytes [p, q] = Some [p * 4 + q div 16]"
| "digit_bytes [p, q, r] = Some [p * 4 + q div 16, q mod 16 * 16 + r div 4]"
| "digit_bytes (p # q # r # s # ds) =
     map_option ((@) [p * 4 + q div 16, q mod 16 * 16 + r div 4, r mod 4 * 64 + s]) (digit_bytes ds)"

definition bytes_of :: "string \<Rightarrow> nat list" where
  "bytes_of s = map of_char s"

definition chars_of :: "nat list \<Rightarrow> string" where
  "chars_of ns = map char_of ns"

lemma bytes_of_less: "n \<in> set (bytes_of s) \<Longrightarrow> n < 256"
  by (auto simp: bytes_of_def)

lemma chars_of_bytes [simp]: "chars_of (bytes_of s) = s"
  by (simp add: chars_of_def bytes_of_def)

lemma digits3_less:
  assumes "a < 256" "b < 256" "c < 256"
  shows "\<forall>d \<in> set (digits3 a b c). d < 64"
proof -
  have "a div 4 < 64" "b div 16 < 16" "c div 64 < 4" "a mod 4 < 4" "b mod 16 < 16"
    using assms by auto
  then show ?thesis by (auto simp: digits3_def)
qed

lemma byte_split: "(a::nat) div 4 * 4 + (a mod 4 * 16 + b div 16) div 16 = a" if "b < 256"
proof -
  have "(a mod 4 * 16 + b div 16) div 16 = a mod 4" using that by auto
  then show ?thesis by simp
qed

lemma byte_split2: "(a mod 4 * 16 + b div 16) mod 16 * 16 + (b mod 16 * 4 + c div 64) div 4 = b"
  if "(b::nat) < 256" "c < 256"
proof -
  have "(a mod 4 * 16 + b div 16) mod 16 = b div 16" using that by auto
  moreover have "(b mod 16 * 4 + c div 64) div 4 = b mod 16" using that by auto
  ultimately show ?thesis by simp
qed

lemma byte_split3: "(b mod 16 * 4 + c div 64) mod 4 * 64 + c mod 64 = c" if "(c::nat) < 256"
proof -
  have "(b mod 16 * 4 + c div 64) mod 4 = c div 64" using that by auto
  then show ?thesis by simp
qed

section \<open>\<open>btoa\<close> and \<open>atob\<close>\<close>

definition btoa :: "string \<Rightarrow> string" where
  "btoa s = btoa_bytes (bytes_of s)"

definition ascii_white :: "char \<Rightarrow> bool" where
  "ascii_white c \<longleftrightarrow> c \<in> {CHR '' '', CHR 0x09, CHR 0x0A, CHR 0x0C, CHR 0x0D}"

text \<open>Padding is removed from a text whose length is a multiple of four.\<close>

definition strip_pad :: "string \<Rightarrow> string" where
  "strip_pad s =
     (if length s mod 4 = 0 then
        (if s \<noteq> [] \<and> last s = CHR ''='' then
           (if butlast s \<noteq> [] \<and> last (butlast s) = CHR ''='' then butlast (butlast s) else butlast s)
         else s)
      else s)"

definition atob :: "string \<Rightarrow> string option" where
  "atob t =
     (let s = strip_pad (filter (\<lambda>c. \<not> ascii_white c) t)
      in if list_all (\<lambda>c. b64_value c \<noteq> None) s
         then map_option chars_of (digit_bytes (map (\<lambda>c. the (b64_value c)) s))
         else None)"

text \<open>The digits without the padding.\<close>

fun core_digits :: "nat list \<Rightarrow> nat list" where
  "core_digits [] = []"
| "core_digits [a] = take 2 (digits3 a 0 0)"
| "core_digits [a, b] = take 3 (digits3 a b 0)"
| "core_digits (a # b # c # r) = digits3 a b c @ core_digits r"

fun pad :: "nat list \<Rightarrow> string" where
  "pad [] = []"
| "pad [a] = ''==''"
| "pad [a, b] = ''=''"
| "pad (a # b # c # r) = pad r"

lemma btoa_bytes_core: "btoa_bytes ns = map b64_digit (core_digits ns) @ pad ns"
  by (induction ns rule: btoa_bytes.induct) (simp_all add: digits3_def)

lemma length_btoa_bytes: "length (btoa_bytes ns) mod 4 = 0"
proof (induction ns rule: btoa_bytes.induct)
  case (4 a b c r)
  then show ?case by (simp add: digits3_def)
qed (simp_all add: digits3_def)

lemma core_digits_less: "\<forall>n \<in> set ns. n < 256 \<Longrightarrow> \<forall>d \<in> set (core_digits ns). d < 64"
proof (induction ns rule: core_digits.induct)
  case (2 a)
  then show ?case using digits3_less [of a 0 0] by (auto dest!: in_set_takeD)
next
  case (3 a b)
  then show ?case using digits3_less [of a b 0] by (auto dest!: in_set_takeD)
next
  case (4 a b c r)
  then show ?case using digits3_less [of a b c] by auto
qed simp

lemma take_3: "take 3 (p # q # r # s) = [p, q, r]"
  by (simp add: numeral_3_eq_3)

lemma digit_bytes_core:
  "\<forall>n \<in> set ns. n < 256 \<Longrightarrow> digit_bytes (core_digits ns) = Some ns"
proof (induction ns rule: core_digits.induct)
  case (2 a)
  have "take 2 (digits3 a 0 0) = [a div 4, a mod 4 * 16 + 0 div 16]" by (simp add: digits3_def)
  then show ?case using byte_split [of 0 a] by (simp only: core_digits.simps digit_bytes.simps zero_less_numeral)
next
  case (3 a b)
  then show ?case
    using byte_split [of b a] byte_split2 [of b 0 a] by (simp add: digits3_def take_3)
next
  case (4 a b c r)
  then show ?case
    using byte_split [of b a] byte_split2 [of b c a] byte_split3 [of c b] by (simp add: digits3_def)
qed simp

lemma white_chars_not_B64: "list_all (\<lambda>c. c \<notin> {CHR '' '', CHR 0x09, CHR 0x0A, CHR 0x0C, CHR 0x0D}) B64"
  by (simp add: B64_def)

lemma alphabet_not_white: "c \<in> set B64 \<Longrightarrow> \<not> ascii_white c"
  using white_chars_not_B64 unfolding list_all_iff ascii_white_def by blast

lemma pad_not_white: "c \<in> set (pad ns) \<Longrightarrow> \<not> ascii_white c"
  by (induction ns rule: pad.induct) (simp_all add: ascii_white_def)

lemma core_in_B64:
  assumes "\<forall>n \<in> set ns. n < 256"
  shows "set (map b64_digit (core_digits ns)) \<subseteq> set B64"
  using core_digits_less [OF assms] b64_digit_in by fastforce

lemma btoa_no_white:
  assumes "\<forall>n \<in> set ns. n < 256"
  shows "filter (\<lambda>c. \<not> ascii_white c) (btoa_bytes ns) = btoa_bytes ns"
proof -
  have "\<forall>c \<in> set (btoa_bytes ns). \<not> ascii_white c"
    unfolding btoa_bytes_core set_append
    using core_in_B64 [OF assms] alphabet_not_white pad_not_white by blast
  then show ?thesis by (simp only: filter_id_conv)
qed

lemma pad_cases: "pad ns = [] \<or> pad ns = ''='' \<or> pad ns = ''==''"
  by (induction ns rule: pad.induct) auto

lemma strip_pad_core:
  assumes "s = [] \<or> last s \<noteq> CHR ''=''" "length (s @ p) mod 4 = 0"
    and "p = [] \<or> p = ''='' \<or> p = ''==''"
  shows "strip_pad (s @ p) = s"
  using assms(3)
proof (elim disjE)
  assume "p = []" then show ?thesis using assms(1) by (auto simp: strip_pad_def)
next
  assume "p = ''=''" then show ?thesis using assms(1,2) by (auto simp: strip_pad_def)
next
  assume p: "p = ''==''"
  have "last (s @ p) = CHR ''=''" "butlast (s @ p) = s @ ''=''" by (simp_all add: p butlast_append)
  then show ?thesis using assms(2) by (simp add: strip_pad_def p)
qed

lemma strip_pad_btoa:
  assumes "\<forall>n \<in> set ns. n < 256"
  shows "strip_pad (btoa_bytes ns) = map b64_digit (core_digits ns)"
proof -
  have "map b64_digit (core_digits ns) = [] \<or> last (map b64_digit (core_digits ns)) \<noteq> CHR ''=''"
    using core_in_B64 [OF assms] b64_special(1) last_in_set [of "map b64_digit (core_digits ns)"] by fastforce
  then show ?thesis
    unfolding btoa_bytes_core
    by (rule strip_pad_core [OF _ _ pad_cases]) (rule length_btoa_bytes [of ns, unfolded btoa_bytes_core])
qed

lemma atob_btoa [simp]: "atob (btoa s) = Some s"
proof -
  let ?ns = "bytes_of s"
  have small: "\<forall>n \<in> set ?ns. n < 256" using bytes_of_less by blast
  let ?d = "core_digits ?ns"
  have less: "\<forall>d \<in> set ?d. d < 64" by (rule core_digits_less [OF small])
  have "list_all (\<lambda>c. b64_value c \<noteq> None) (map b64_digit ?d)"
    using less by (simp add: list_all_iff)
  moreover have "map (\<lambda>c. the (b64_value c)) (map b64_digit ?d) = ?d"
    using less by (simp add: map_idI)
  ultimately show ?thesis
    by (simp only: atob_def btoa_def btoa_no_white [OF small] strip_pad_btoa [OF small] Let_def
        digit_bytes_core [OF small] if_True option.simps chars_of_bytes)
qed

lemma btoa_inject: "btoa s = btoa t \<longleftrightarrow> s = t"
  by (metis atob_btoa option.inject)

lemma length_digit_bytes: "digit_bytes ds = Some ns \<Longrightarrow> length ns = length ds * 3 div 4"
  by (induction ds arbitrary: ns rule: digit_bytes.induct) auto

text \<open>Decoding fails on a text with a character outside the alphabet.\<close>

lemma atob_bad_char:
  assumes "c \<in> set t" "\<not> ascii_white c" "c \<noteq> CHR ''=''" "c \<notin> set B64"
  shows "atob t = None"
proof -
  let ?f = "filter (\<lambda>c. \<not> ascii_white c) t"
  have "c \<in> set ?f" using assms by simp
  moreover have "x \<in> set (butlast xs)" if "x \<in> set xs" "x \<noteq> last xs" for x :: char and xs
    using that by (metis append_butlast_last_id empty_iff empty_set in_set_butlast_appendI rotate1.simps(2) set_ConsD set_rotate1 list.set_cases)
  ultimately have "c \<in> set (strip_pad ?f)"
    using assms(3) unfolding strip_pad_def by (auto split: if_splits)
  moreover have "b64_value c = None"
    using assms(4) by (auto simp: b64_value_def find_index_None_iff)
  ultimately show ?thesis by (auto simp: atob_def list_all_iff Let_def)
qed

end
