(* ===== verification/WebSsh.thy ===== *)
theory WebSsh
  imports WebPlatform Base64 Complex_Main
begin

text \<open>
  The WebSocket client of the terminals, \<open>lib/ws/webssh-client.ts\<close>. The connection object is the
  record \<open>WebSSHConnection\<close>, an extension of the browser state; the callbacks it makes are
  appended to \<open>events\<close>. \<open>JSON.parse\<close> is the argument \<open>parse\<close>, \<open>performance.now()\<close> an argument of the
  ticks and messages. A callback may call the connection again: \<open>onOpen\<close> is the only one with
  code after it, so the calls it makes are an argument of that event; the calls made from the
  other callbacks, which come last in their handlers, are the inputs that follow.
\<close>

datatype tick = PingTick | StatsTick

datatype event =
    OnOutput "nat list" | OnOpen | OnReady | OnClose string | OnError string
  | OnStats nat nat | OnLatency int | OnResize int int | Uncaught

record WebSSHConnection = "tick web" +
  base :: string
  path :: string
  wants_stats :: bool
  ws :: "nat option"
  pingTimer :: "nat option"
  pendingPingAt :: "real option"
  bytes_in :: nat
  bytes_out :: nat
  statsTimer :: "nat option"
  outbox :: "string list"
  events :: "event list"

definition new_connection :: "string \<Rightarrow> string \<Rightarrow> bool \<Rightarrow> WebSSHConnection" where
  "new_connection b p stats =
     \<lparr>sockets = [], intervals = [], next_interval = 1, base = b, path = p, wants_stats = stats,
      ws = None, pingTimer = None, pendingPingAt = None, bytes_in = 0, bytes_out = 0,
      statsTimer = None, outbox = [], events = []\<rparr>"

definition MAX_OUTBOX :: nat where
  "MAX_OUTBOX = 256"

definition emit :: "event \<Rightarrow> WebSSHConnection \<Rightarrow> WebSSHConnection" where
  "emit e s = s\<lparr>events := events s @ [e]\<rparr>"

section \<open>Sending\<close>

definition send :: "json \<Rightarrow> WebSSHConnection \<Rightarrow> WebSSHConnection" where
  "send frame s =
     (case ws s of
        None \<Rightarrow> s
      | Some i \<Rightarrow>
          let data = stringify frame in
          if ready_state i s = WsOpen then
            (case socket_send i data s of None \<Rightarrow> s | Some v \<Rightarrow> v)
          else if ready_state i s = WsConnecting then
            s\<lparr>outbox := (if length (outbox s) \<ge> MAX_OUTBOX then tl (outbox s) else outbox s) @ [data]\<rparr>
          else s)"

text \<open>A string is represented by its UTF-8 bytes, so that encoding it is the identity.\<close>

definition unicodeToLatin1 :: "string \<Rightarrow> string" where
  "unicodeToLatin1 s = chars_of (bytes_of s)"

definition input_frame :: "string \<Rightarrow> json" where
  "input_frame x = JObj [(''t'', JStr ''input''), (''d'', JStr (btoa (unicodeToLatin1 x)))]"

definition sendInput :: "string \<Rightarrow> WebSSHConnection \<Rightarrow> WebSSHConnection" where
  "sendInput x s = send (input_frame x) (s\<lparr>bytes_out := bytes_out s + length (unicodeToLatin1 x)\<rparr>)"

definition resize_frame :: "int \<Rightarrow> int \<Rightarrow> json" where
  "resize_frame cols rows = JObj [(''t'', JStr ''resize''), (''cols'', JNum cols), (''rows'', JNum rows)]"

definition resize :: "int \<Rightarrow> int \<Rightarrow> WebSSHConnection \<Rightarrow> WebSSHConnection" where
  "resize cols rows s = send (resize_frame cols rows) s"

definition sendPing :: "real \<Rightarrow> WebSSHConnection \<Rightarrow> WebSSHConnection" where
  "sendPing now s =
     (if pendingPingAt s \<noteq> None then s
      else send (JObj [(''t'', JStr ''ping'')]) (s\<lparr>pendingPingAt := Some now\<rparr>))"

section \<open>Opening and closing\<close>

definition clear_ping :: "WebSSHConnection \<Rightarrow> WebSSHConnection" where
  "clear_ping s = (case pingTimer s of None \<Rightarrow> s | Some n \<Rightarrow> (clear_interval n s)\<lparr>pingTimer := None\<rparr>)"

definition clear_stats :: "WebSSHConnection \<Rightarrow> WebSSHConnection" where
  "clear_stats s = (case statsTimer s of None \<Rightarrow> s | Some n \<Rightarrow> (clear_interval n s)\<lparr>statsTimer := None\<rparr>)"

definition stopTimers :: "WebSSHConnection \<Rightarrow> WebSSHConnection" where
  "stopTimers s = clear_stats (clear_ping s)"

definition close :: "WebSSHConnection \<Rightarrow> WebSSHConnection" where
  "close s =
     (let s1 = (stopTimers s)\<lparr>outbox := []\<rparr>;
          s2 = (case ws s1 of None \<Rightarrow> s1 | Some i \<Rightarrow> socket_close i s1)
      in s2\<lparr>ws := None\<rparr>)"

text \<open>The query of the caller, its undefined values left out; it overrides the token.\<close>

definition stringify_query :: "(string \<times> json option) list \<Rightarrow> (string \<times> string) list" where
  "stringify_query q =
     fold (\<lambda>(k, v) out. case v of None \<Rightarrow> out | Some x \<Rightarrow> obj_set k (js_String x) out) q []"

definition open_ws ::
  "string option \<Rightarrow> (string \<times> json option) list \<Rightarrow> string option \<Rightarrow> WebSSHConnection \<Rightarrow> WebSSHConnection" where
  "open_ws stored query tokenOverride s =
     (let token = nullish tokenOverride (nullish stored []);
          qs = spread [(''token'', token)] (stringify_query query);
          s1 = new_socket (base s @ ''/api/v1'' @ path s, qs) s
      in s1\<lparr>ws := Some (length (sockets s))\<rparr>)"

datatype call =
    Input string | Resize int int | Close
  | Open "string option" "(string \<times> json option) list" "string option"

fun run_call :: "call \<Rightarrow> WebSSHConnection \<Rightarrow> WebSSHConnection" where
  "run_call (Input x) s = sendInput x s"
| "run_call (Resize c r) s = resize c r s"
| "run_call Close s = close s"
| "run_call (Open t q ov) s = open_ws t q ov s"

section \<open>The handlers of the socket's events\<close>

definition flush :: "nat \<Rightarrow> string list \<Rightarrow> WebSSHConnection \<Rightarrow> WebSSHConnection" where
  "flush i queued s = fold (\<lambda>frame s. case socket_send i frame s of None \<Rightarrow> s | Some v \<Rightarrow> v) queued s"

definition start_timers :: "WebSSHConnection \<Rightarrow> WebSSHConnection" where
  "start_timers s =
     (let (n, s1) = set_interval PingTick s;
          s2 = s1\<lparr>pingTimer := Some n\<rparr>
      in if wants_stats s2 then
           (let (m, s3) = set_interval StatsTick s2 in s3\<lparr>statsTimer := Some m\<rparr>)
         else s2)"

definition onopen :: "nat \<Rightarrow> call list \<Rightarrow> WebSSHConnection \<Rightarrow> WebSSHConnection" where
  "onopen i reactions s =
     (let s1 = fold run_call reactions (emit OnOpen s);
          queued = outbox s1
      in start_timers (flush i queued (s1\<lparr>outbox := []\<rparr>)))"

definition onclose :: "string \<Rightarrow> WebSSHConnection \<Rightarrow> WebSSHConnection" where
  "onclose reason s = emit (OnClose (or_str reason ''closed'')) (stopTimers s)"

datatype data = Text string | Binary "nat list"

definition on_output :: "json option \<Rightarrow> WebSSHConnection \<Rightarrow> WebSSHConnection" where
  "on_output d s =
     (case d of
        Some (JStr x) \<Rightarrow>
          (case atob x of
             None \<Rightarrow> emit Uncaught s
           | Some bin \<Rightarrow>
               let buf = bytes_of bin
               in emit (OnOutput buf) (s\<lparr>bytes_in := bytes_in s + length buf\<rparr>))
      | _ \<Rightarrow> s)"

definition on_resize :: "json option \<Rightarrow> json option \<Rightarrow> WebSSHConnection \<Rightarrow> WebSSHConnection" where
  "on_resize c r s =
     (case (c, r) of (Some (JNum cols), Some (JNum rows)) \<Rightarrow> emit (OnResize cols rows) s | _ \<Rightarrow> s)"

text \<open>\<open>Math.round(x)\<close> is the floor of \<open>x + 1/2\<close>.\<close>

definition on_pong :: "real \<Rightarrow> WebSSHConnection \<Rightarrow> WebSSHConnection" where
  "on_pong now s =
     (case pendingPingAt s of
        None \<Rightarrow> s
      | Some t \<Rightarrow> emit (OnLatency \<lfloor>now - t + 1 / 2\<rfloor>) (s\<lparr>pendingPingAt := None\<rparr>))"

text \<open>\<open>f.msg ?? d\<close>: null counts as missing.\<close>

definition message_or :: "string \<Rightarrow> json \<Rightarrow> string" where
  "message_or d f =
     (case member ''msg'' f of None \<Rightarrow> d | Some JNull \<Rightarrow> d | Some m \<Rightarrow> js_String m)"

definition dispatch_frame :: "json \<Rightarrow> real \<Rightarrow> WebSSHConnection \<Rightarrow> WebSSHConnection" where
  "dispatch_frame f now s =
     (let t = member ''t'' f in
      if t = Some (JStr ''ready'') then emit OnReady s
      else if t = Some (JStr ''output'') then on_output (member ''d'' f) s
      else if t = Some (JStr ''resize'') then on_resize (member ''cols'' f) (member ''rows'' f) s
      else if t = Some (JStr ''pong'') then on_pong now s
      else if t = Some (JStr ''error'') then emit (OnError (message_or ''unknown'' f)) s
      else if t = Some (JStr ''close'') then emit (OnClose (message_or [] f)) s
      else s)"

definition handle ::
  "(string \<Rightarrow> json option) \<Rightarrow> data \<Rightarrow> real \<Rightarrow> WebSSHConnection \<Rightarrow> WebSSHConnection" where
  "handle parse d now s =
     (case d of
        Binary _ \<Rightarrow> s
      | Text x \<Rightarrow>
          (case parse x of
             None \<Rightarrow> s
           | Some f \<Rightarrow> if f = JNull then emit Uncaught s else dispatch_frame f now s))"

definition on_tick :: "tick \<Rightarrow> real \<Rightarrow> WebSSHConnection \<Rightarrow> WebSSHConnection" where
  "on_tick t now s =
     (case t of PingTick \<Rightarrow> sendPing now s | StatsTick \<Rightarrow> emit (OnStats (bytes_in s) (bytes_out s)) s)"

section \<open>Runs\<close>

text \<open>
  What can happen: a call, an event of a socket (the browser opens only a connecting socket,
  delivers messages only on an open one and closes each once), or a tick of a live timer.
  \<open>None\<close> is an input that cannot happen in that state.
\<close>

datatype inp =
    Call call | Opened nat "call list" | Message nat data real | Errored nat | Closed nat string
  | Tick nat real

fun perform :: "(string \<Rightarrow> json option) \<Rightarrow> inp \<Rightarrow> WebSSHConnection \<Rightarrow> WebSSHConnection option" where
  "perform parse (Call c) s = Some (run_call c s)"
| "perform parse (Opened i rs) s =
     (if ready_state i s = WsConnecting then Some (onopen i rs (set_ready i WsOpen s)) else None)"
| "perform parse (Message i d now) s =
     (if ready_state i s = WsOpen then Some (handle parse d now s) else None)"
| "perform parse (Errored i) s =
     (if i < length (sockets s) then Some (emit (OnError ''connection error'') s) else None)"
| "perform parse (Closed i reason) s =
     (if ready_state i s \<noteq> WsClosed then Some (onclose reason (set_ready i WsClosed s)) else None)"
| "perform parse (Tick n now) s =
     (case map_of (intervals s) n of None \<Rightarrow> None | Some t \<Rightarrow> Some (on_tick t now s))"

fun run :: "(string \<Rightarrow> json option) \<Rightarrow> inp list \<Rightarrow> WebSSHConnection \<Rightarrow> WebSSHConnection option" where
  "run parse [] s = Some s"
| "run parse (i # inps) s = (case perform parse i s of None \<Rightarrow> None | Some s' \<Rightarrow> run parse inps s')"

end
