(* ===== verification/WebSshProps.thy ===== *)
theory WebSshProps
  imports WebSsh
begin

text \<open>
  Properties of the terminal's WebSocket client: the order in which frames reach the wire, the
  invariant of every run and the silence after \<open>close\<close>.
\<close>

section \<open>What each operation leaves alone\<close>

named_theorems ssh_frame \<open>fields an operation of the connection does not touch\<close>

lemma send_shape:
  "\<exists>xs ob. send f s = s\<lparr>sockets := xs, outbox := ob\<rparr> \<and> length xs = length (sockets s)
     \<and> (length (outbox s) \<le> MAX_OUTBOX \<longrightarrow> length ob \<le> MAX_OUTBOX)"
proof (cases "ws s")
  case None
  then have "send f s = s\<lparr>sockets := sockets s, outbox := outbox s\<rparr>" by (simp add: send_def)
  then show ?thesis by blast
next
  case (Some i)
  consider "ready_state i s = WsOpen" | "ready_state i s = WsConnecting"
    | "ready_state i s = WsClosing \<or> ready_state i s = WsClosed"
    by (cases "ready_state i s") auto
  then show ?thesis
  proof cases
    case 1
    then obtain v where v: "socket_send i (stringify f) s = Some v" using socket_send_open by blast
    then obtain xs where "v = s\<lparr>sockets := xs\<rparr>" "length xs = length (sockets s)"
      using socket_send_update by blast
    then have "send f s = s\<lparr>sockets := xs, outbox := outbox s\<rparr>" using 1 v Some by (simp add: send_def)
    with \<open>length xs = length (sockets s)\<close> show ?thesis by blast
  next
    case 2
    let ?ob = "(if length (outbox s) \<ge> MAX_OUTBOX then tl (outbox s) else outbox s) @ [stringify f]"
    have "send f s = s\<lparr>sockets := sockets s, outbox := ?ob\<rparr>" using 2 Some by (simp add: send_def)
    moreover have "length (outbox s) \<le> MAX_OUTBOX \<longrightarrow> length ?ob \<le> MAX_OUTBOX"
      by (auto simp: MAX_OUTBOX_def)
    ultimately show ?thesis by blast
  next
    case 3
    then have "send f s = s\<lparr>sockets := sockets s, outbox := outbox s\<rparr>" using Some by (auto simp: send_def)
    then show ?thesis by blast
  qed
qed

lemma send_frame [simp, ssh_frame]:
  "ws (send f s) = ws s" "events (send f s) = events s" "intervals (send f s) = intervals s"
  "next_interval (send f s) = next_interval s" "pingTimer (send f s) = pingTimer s"
  "statsTimer (send f s) = statsTimer s" "pendingPingAt (send f s) = pendingPingAt s"
  "bytes_in (send f s) = bytes_in s" "bytes_out (send f s) = bytes_out s"
  "wants_stats (send f s) = wants_stats s" "length (sockets (send f s)) = length (sockets s)"
  using send_shape [of f s] by auto

lemma emit_frame [simp, ssh_frame]:
  "ready_state j (emit e s) = ready_state j s" "wire_of j (emit e s) = wire_of j s"
  "sockets (emit e s) = sockets s" "intervals (emit e s) = intervals s"
  "next_interval (emit e s) = next_interval s" "ws (emit e s) = ws s"
  "pingTimer (emit e s) = pingTimer s" "statsTimer (emit e s) = statsTimer s"
  "pendingPingAt (emit e s) = pendingPingAt s" "bytes_in (emit e s) = bytes_in s"
  "bytes_out (emit e s) = bytes_out s" "outbox (emit e s) = outbox s"
  "events (emit e s) = events s @ [e]"
  by (simp_all add: emit_def ready_state_def wire_of_def)

lemma set_ready_frame [simp, ssh_frame]:
  fixes s :: WebSSHConnection
  shows "ws (set_ready i r s) = ws s" "outbox (set_ready i r s) = outbox s"
    "pingTimer (set_ready i r s) = pingTimer s" "statsTimer (set_ready i r s) = statsTimer s"
    "pendingPingAt (set_ready i r s) = pendingPingAt s" "events (set_ready i r s) = events s"
    "bytes_in (set_ready i r s) = bytes_in s" "bytes_out (set_ready i r s) = bytes_out s"
  by (simp_all add: set_ready_def)

lemma ws_update_keeps [simp]:
  "ready_state j (s\<lparr>ws := w\<rparr>) = ready_state j s" "wire_of j (s\<lparr>ws := w\<rparr>) = wire_of j s"
  by (simp_all add: ready_state_def wire_of_def)

lemma counter_update_keeps [simp]:
  fixes s :: WebSSHConnection
  shows "ready_state j (s\<lparr>bytes_out := n\<rparr>) = ready_state j s" "wire_of j (s\<lparr>bytes_out := n\<rparr>) = wire_of j s"
    "ready_state j (s\<lparr>bytes_in := n\<rparr>) = ready_state j s" "wire_of j (s\<lparr>bytes_in := n\<rparr>) = wire_of j s"
    "ready_state j (s\<lparr>pendingPingAt := t\<rparr>) = ready_state j s" "wire_of j (s\<lparr>pendingPingAt := t\<rparr>) = wire_of j s"
  by (simp_all add: ready_state_def wire_of_def)

lemma outbox_update_keeps [simp]:
  "ready_state j (s\<lparr>outbox := ob\<rparr>) = ready_state j s" "wire_of j (s\<lparr>outbox := ob\<rparr>) = wire_of j s"
  by (simp_all add: ready_state_def wire_of_def)

lemma send_outbox_bound: "length (outbox s) \<le> MAX_OUTBOX \<Longrightarrow> length (outbox (send f s)) \<le> MAX_OUTBOX"
  using send_shape [of f s] by auto

lemma ready_state_send [simp]: "ready_state j (send f s) = ready_state j s"
proof (cases "ws s")
  case (Some i)
  show ?thesis
  proof (cases "ready_state i s = WsOpen")
    case True
    then obtain v where v: "socket_send i (stringify f) s = Some v" using socket_send_open by blast
    with True Some show ?thesis using socket_send_ready [OF v] by (simp add: send_def)
  qed (simp add: send_def Some ready_state_def)
qed (simp add: send_def)

lemma send_silent: "ws s = None \<Longrightarrow> send f s = s"
  by (simp add: send_def)

lemma send_open:
  assumes "ws s = Some i" "ready_state i s = WsOpen"
  shows "wire_of i (send f s) = wire_of i s @ [stringify f]" "outbox (send f s) = outbox s"
proof -
  obtain v where v: "socket_send i (stringify f) s = Some v"
      "wire_of i v = wire_of i s @ [stringify f]"
    using socket_send_open [OF assms(2)] by blast
  obtain xs where "v = s\<lparr>sockets := xs\<rparr>" using socket_send_update [OF v(1)] by blast
  with v assms show "wire_of i (send f s) = wire_of i s @ [stringify f]" "outbox (send f s) = outbox s"
    by (simp_all add: send_def)
qed

lemma send_connecting:
  assumes "ws s = Some i" "ready_state i s = WsConnecting"
  shows "outbox (send f s) =
      (if length (outbox s) \<ge> MAX_OUTBOX then tl (outbox s) else outbox s) @ [stringify f]"
    "wire_of j (send f s) = wire_of j s"
  using assms by (simp_all add: send_def wire_of_def)

section \<open>Frames reach the wire in order\<close>

fun is_send :: "call \<Rightarrow> bool" where
  "is_send (Input x) = True"
| "is_send (Resize c r) = True"
| "is_send Close = False"
| "is_send (Open t q ov) = False"

text \<open>The frame of a call, the bytes it counts, and the last \<open>n\<close> of a list.\<close>

fun call_frame :: "call \<Rightarrow> json" where
  "call_frame (Input x) = input_frame x"
| "call_frame (Resize c r) = resize_frame c r"
| "call_frame _ = JNull"

fun call_bytes :: "call \<Rightarrow> nat" where
  "call_bytes (Input x) = length x"
| "call_bytes _ = 0"

definition lastn :: "nat \<Rightarrow> 'a list \<Rightarrow> 'a list" where
  "lastn n xs = drop (length xs - n) xs"

lemma lastn_snoc:
  assumes "0 < n"
  shows "lastn n (xs @ [x]) =
    (if length (lastn n xs) \<ge> n then tl (lastn n xs) else lastn n xs) @ [x]"
proof (cases "n \<le> length xs")
  case True
  then have "length (xs @ [x]) - n = Suc (length xs - n)" by simp
  with True assms show ?thesis
    by (simp add: lastn_def tl_drop drop_Suc Suc_diff_le)
next
  case False
  then show ?thesis by (simp add: lastn_def)
qed

lemma length_latin1 [simp]: "unicodeToLatin1 x = x"
  by (simp add: unicodeToLatin1_def)

lemma run_call_send:
  assumes "is_send c"
  shows "\<exists>s'. run_call c s = send (call_frame c) s' \<and> s' = s\<lparr>bytes_out := bytes_out s + call_bytes c\<rparr>"
  using assms by (cases c) (auto simp: sendInput_def resize_def)

lemma calls_connecting:
  assumes "list_all is_send cs" "ws s = Some i" "ready_state i s = WsConnecting" "outbox s = lastn MAX_OUTBOX q"
  shows "let s' = fold run_call cs s in
    ws s' = Some i \<and> (\<forall>j. ready_state j s' = ready_state j s \<and> wire_of j s' = wire_of j s)
    \<and> outbox s' = lastn MAX_OUTBOX (q @ map (stringify \<circ> call_frame) cs)
    \<and> bytes_out s' = bytes_out s + sum_list (map call_bytes cs)
    \<and> events s' = events s \<and> length (sockets s') = length (sockets s)"
  using assms
proof (induction cs arbitrary: s q)
  case (Cons c cs)
  let ?s0 = "s\<lparr>bytes_out := bytes_out s + call_bytes c\<rparr>"
  have step: "run_call c s = send (call_frame c) ?s0" using run_call_send [of c s] Cons.prems(1) by auto
  have ready0: "ready_state j ?s0 = ready_state j s" "wire_of j ?s0 = wire_of j s" for j
    by (simp_all add: ready_state_def wire_of_def)
  have conn: "ws ?s0 = Some i" "ready_state i ?s0 = WsConnecting" using Cons.prems ready0 by simp_all
  have ob: "outbox (run_call c s) = lastn MAX_OUTBOX (q @ [stringify (call_frame c)])"
    using send_connecting(1) [OF conn] Cons.prems(4) lastn_snoc [of MAX_OUTBOX q]
    by (simp add: step MAX_OUTBOX_def)
  have "let s' = fold run_call cs (run_call c s) in
    ws s' = Some i \<and> (\<forall>j. ready_state j s' = ready_state j (run_call c s) \<and> wire_of j s' = wire_of j (run_call c s))
    \<and> outbox s' = lastn MAX_OUTBOX ((q @ [stringify (call_frame c)]) @ map (stringify \<circ> call_frame) cs)
    \<and> bytes_out s' = bytes_out (run_call c s) + sum_list (map call_bytes cs)
    \<and> events s' = events (run_call c s) \<and> length (sockets s') = length (sockets (run_call c s))"
    by (rule Cons.IH) (use Cons.prems ob in \<open>simp_all add: step ready0\<close>)
  then show ?case
    using send_connecting(2) [OF conn] ready0 by (simp add: step Let_def comp_def)
qed simp

lemma calls_open:
  assumes "list_all is_send cs" "ws s = Some i" "ready_state i s = WsOpen"
  shows "let s' = fold run_call cs s in
    ws s' = Some i \<and> ready_state i s' = WsOpen \<and> outbox s' = outbox s
    \<and> wire_of i s' = wire_of i s @ map (stringify \<circ> call_frame) cs
    \<and> bytes_out s' = bytes_out s + sum_list (map call_bytes cs)"
  using assms
proof (induction cs arbitrary: s)
  case (Cons c cs)
  let ?s0 = "s\<lparr>bytes_out := bytes_out s + call_bytes c\<rparr>"
  have step: "run_call c s = send (call_frame c) ?s0" using run_call_send [of c s] Cons.prems(1) by auto
  have ready0: "ready_state j ?s0 = ready_state j s" "wire_of j ?s0 = wire_of j s" for j
    by (simp_all add: ready_state_def wire_of_def)
  have opn: "ws ?s0 = Some i" "ready_state i ?s0 = WsOpen" using Cons.prems ready0 by simp_all
  show ?case
    using Cons.IH [of "run_call c s"] Cons.prems send_open [OF opn] ready0
    by (simp add: step Let_def)
qed simp

lemma flush_open:
  assumes "ready_state i s = WsOpen"
  shows "wire_of i (flush i q s) = wire_of i s @ q"
  using assms
proof (induction q arbitrary: s)
  case (Cons f q)
  then obtain v where v: "socket_send i f s = Some v" "wire_of i v = wire_of i s @ [f]"
      "ready_state i v = WsOpen"
    using socket_send_open [of i s f] by auto
  have "flush i (f # q) s = flush i q v" by (simp add: flush_def v)
  with Cons.IH [OF v(3)] v(2) show ?case by simp
qed (simp add: flush_def)

lemma flush_shape:
  "(\<exists>xs. flush i q s = s\<lparr>sockets := xs\<rparr> \<and> length xs = length (sockets s))
     \<and> (\<forall>j. ready_state j (flush i q s) = ready_state j s)"
proof (induction q arbitrary: s)
  case Nil
  have "s = s\<lparr>sockets := sockets s\<rparr>" by simp
  then show ?case by (auto simp: flush_def intro!: exI [of _ "sockets s"])
next
  case (Cons f q)
  show ?case
  proof (cases "socket_send i f s")
    case None
    have "flush i (f # q) s = flush i q s" by (simp only: flush_def fold_simps None option.case)
    with Cons.IH [of s] show ?thesis by (simp only:) blast
  next
    case (Some v)
    then have eq: "flush i (f # q) s = flush i q v" by (simp add: flush_def)
    obtain xs where v: "v = s\<lparr>sockets := xs\<rparr>" "length xs = length (sockets s)"
      using socket_send_update [OF Some] by blast
    from Cons.IH [of v] obtain ys where ys: "flush i q v = v\<lparr>sockets := ys\<rparr>"
        "length ys = length (sockets v)" "\<forall>j. ready_state j (flush i q v) = ready_state j v"
      by blast
    have "flush i q v = s\<lparr>sockets := ys\<rparr>" using ys(1) v(1) by simp
    moreover have "length ys = length (sockets s)" using ys(2) v by simp
    moreover have "\<forall>j. ready_state j (flush i q v) = ready_state j s"
      using ys(3) socket_send_ready [OF Some] by simp
    ultimately show ?thesis unfolding eq by blast
  qed
qed

lemma flush_keeps [simp, ssh_frame]:
  "ws (flush i q s) = ws s" "outbox (flush i q s) = outbox s" "bytes_out (flush i q s) = bytes_out s"
  "bytes_in (flush i q s) = bytes_in s" "events (flush i q s) = events s"
  "intervals (flush i q s) = intervals s" "next_interval (flush i q s) = next_interval s"
  "pingTimer (flush i q s) = pingTimer s" "statsTimer (flush i q s) = statsTimer s"
  "pendingPingAt (flush i q s) = pendingPingAt s" "length (sockets (flush i q s)) = length (sockets s)"
  "ready_state j (flush i q s) = ready_state j s"
proof -
  obtain xs where xs: "flush i q s = s\<lparr>sockets := xs\<rparr>" "length xs = length (sockets s)"
    using flush_shape by blast
  then show "ws (flush i q s) = ws s" "outbox (flush i q s) = outbox s" "bytes_out (flush i q s) = bytes_out s"
    "bytes_in (flush i q s) = bytes_in s" "events (flush i q s) = events s"
    "intervals (flush i q s) = intervals s" "next_interval (flush i q s) = next_interval s"
    "pingTimer (flush i q s) = pingTimer s" "statsTimer (flush i q s) = statsTimer s"
    "pendingPingAt (flush i q s) = pendingPingAt s" "length (sockets (flush i q s)) = length (sockets s)"
    by simp_all
  show "ready_state j (flush i q s) = ready_state j s" using flush_shape by blast
qed

lemma start_timers_shape:
  "\<exists>iv n p st. start_timers s = s\<lparr>intervals := iv, next_interval := n, pingTimer := p, statsTimer := st\<rparr>"
proof -
  have eq: "start_timers s =
     (if wants_stats s then
        s\<lparr>intervals := intervals s @ [(next_interval s, PingTick), (Suc (next_interval s), StatsTick)],
          next_interval := Suc (Suc (next_interval s)), pingTimer := Some (next_interval s),
          statsTimer := Some (Suc (next_interval s))\<rparr>
      else s\<lparr>intervals := intervals s @ [(next_interval s, PingTick)], next_interval := Suc (next_interval s),
          pingTimer := Some (next_interval s), statsTimer := statsTimer s\<rparr>)"
    by (simp add: start_timers_def set_interval_def Let_def)
  show ?thesis unfolding eq by (cases "wants_stats s") (simp only: if_True if_False, blast)+
qed

lemma start_timers_keeps [simp]:
  "wire_of j (start_timers s) = wire_of j s" "ready_state j (start_timers s) = ready_state j s"
  "ws (start_timers s) = ws s" "outbox (start_timers s) = outbox s"
  "bytes_out (start_timers s) = bytes_out s" "bytes_in (start_timers s) = bytes_in s"
  "events (start_timers s) = events s" "pendingPingAt (start_timers s) = pendingPingAt s"
  "sockets (start_timers s) = sockets s"
proof -
  obtain iv n p st where "start_timers s = s\<lparr>intervals := iv, next_interval := n, pingTimer := p, statsTimer := st\<rparr>"
    using start_timers_shape by blast
  then show "wire_of j (start_timers s) = wire_of j s" "ready_state j (start_timers s) = ready_state j s"
    "ws (start_timers s) = ws s" "outbox (start_timers s) = outbox s"
    "bytes_out (start_timers s) = bytes_out s" "bytes_in (start_timers s) = bytes_in s"
    "events (start_timers s) = events s" "pendingPingAt (start_timers s) = pendingPingAt s"
    "sockets (start_timers s) = sockets s"
    by (simp_all add: wire_of_def ready_state_def)
qed

lemma run_calls: "run parse (map Call cs @ inps) s = run parse inps (fold run_call cs s)"
  by (induction cs arbitrary: s) simp_all

text \<open>C12: Frames reach the wire in the order of the calls: whatever is sent while the socket connects
  is held (the oldest frames dropped beyond 256), what \<open>onOpen\<close> sends goes first, then the held
  frames in order, then every later frame; nothing is left behind, the counter of sent bytes is
  the number of bytes of all inputs, and the payload of an input frame decodes to its text.
\<close>

theorem webssh_frames_in_order:
  assumes "list_all is_send cs" "list_all is_send rs" "list_all is_send ds"
  shows "\<exists>s. run parse (map Call (Open t q ov # cs) @ Opened 0 rs # map Call ds) (new_connection b p stats) = Some s
    \<and> wire_of 0 s = map (stringify \<circ> call_frame) rs
        @ lastn MAX_OUTBOX (map (stringify \<circ> call_frame) cs) @ map (stringify \<circ> call_frame) ds
    \<and> outbox s = []
    \<and> bytes_out s = sum_list (map call_bytes (cs @ rs @ ds))
    \<and> (\<forall>x. \<exists>e. member ''d'' (call_frame (Input x)) = Some (JStr e) \<and> atob e = Some x)"
proof -
  let ?s1 = "run_call (Open t q ov) (new_connection b p stats)"
  have s1: "ws ?s1 = Some 0" "ready_state 0 ?s1 = WsConnecting" "outbox ?s1 = lastn MAX_OUTBOX []"
    "wire_of 0 ?s1 = []" "bytes_out ?s1 = 0" "length (sockets ?s1) = 1"
    by (simp_all add: open_ws_def new_connection_def new_socket_def ready_state_def wire_of_def lastn_def)
  let ?s2 = "fold run_call cs ?s1"
  have s2: "ws ?s2 = Some 0" "ready_state 0 ?s2 = WsConnecting" "wire_of 0 ?s2 = []"
    "outbox ?s2 = lastn MAX_OUTBOX (map (stringify \<circ> call_frame) cs)"
    "bytes_out ?s2 = sum_list (map call_bytes cs)" "length (sockets ?s2) = 1"
    using calls_connecting [OF assms(1) s1(1-3)] s1 by (simp_all add: Let_def)
  let ?s3 = "emit OnOpen (set_ready 0 WsOpen ?s2)"
  have s3: "ws ?s3 = Some 0" "ready_state 0 ?s3 = WsOpen" "wire_of 0 ?s3 = []"
    "outbox ?s3 = outbox ?s2" "bytes_out ?s3 = bytes_out ?s2"
    using s2 by simp_all
  let ?s4 = "fold run_call rs ?s3"
  have s4: "ws ?s4 = Some 0" "ready_state 0 ?s4 = WsOpen" "outbox ?s4 = outbox ?s2"
    "wire_of 0 ?s4 = map (stringify \<circ> call_frame) rs"
    "bytes_out ?s4 = bytes_out ?s2 + sum_list (map call_bytes rs)"
    using calls_open [OF assms(2) s3(1,2)] s3 by (simp_all add: Let_def)
  let ?s4' = "?s4\<lparr>outbox := []\<rparr>"
  have open4: "ready_state 0 ?s4' = WsOpen" using s4(2) by simp
  let ?s5 = "onopen 0 rs (set_ready 0 WsOpen ?s2)"
  have eq5: "?s5 = start_timers (flush 0 (outbox ?s4) ?s4')" by (simp add: onopen_def Let_def)
  have wire4: "wire_of 0 ?s4' = wire_of 0 ?s4" by (simp add: wire_of_def)
  have fl: "wire_of 0 (flush 0 (outbox ?s4) ?s4') = wire_of 0 ?s4' @ outbox ?s4"
    "ready_state 0 (flush 0 (outbox ?s4) ?s4') = WsOpen"
    using flush_open [OF open4, of "outbox ?s4"] open4 by simp_all
  have s5: "ws ?s5 = Some 0" "ready_state 0 ?s5 = WsOpen" "outbox ?s5 = []"
    "wire_of 0 ?s5 = map (stringify \<circ> call_frame) rs @ outbox ?s2"
    "bytes_out ?s5 = bytes_out ?s2 + sum_list (map call_bytes rs)"
    unfolding eq5 start_timers_keeps fl wire4 flush_keeps using s4 by simp_all
  let ?s6 = "fold run_call ds ?s5"
  have "run parse (map Call (Open t q ov # cs) @ Opened 0 rs # map Call ds) (new_connection b p stats) = Some ?s6"
    unfolding run_calls using s2(2) run_calls [of parse ds "[]"] by simp
  moreover have "wire_of 0 ?s6 = map (stringify \<circ> call_frame) rs
        @ lastn MAX_OUTBOX (map (stringify \<circ> call_frame) cs) @ map (stringify \<circ> call_frame) ds"
    "outbox ?s6 = []" "bytes_out ?s6 = sum_list (map call_bytes (cs @ rs @ ds))"
    using calls_open [OF assms(3) s5(1,2)] s5 s2 by (simp_all add: Let_def)
  ultimately show ?thesis by (simp add: input_frame_def)
qed

theorem webssh_frames_in_order_witness:
  "\<exists>s. run (\<lambda>_. None) (map Call (Open None [] None # [Resize 80 24]) @ Opened 0 [] # map Call [Input ''ls''])
      (new_connection [] [] True) = Some s
    \<and> length (wire_of 0 s) = 2"
proof -
  obtain s where "run (\<lambda>_. None) (map Call (Open None [] None # [Resize 80 24]) @ Opened 0 [] # map Call [Input ''ls''])
      (new_connection [] [] True) = Some s"
    and "wire_of 0 s = map (stringify \<circ> call_frame) [] @ lastn MAX_OUTBOX (map (stringify \<circ> call_frame) [Resize 80 24])
        @ map (stringify \<circ> call_frame) [Input ''ls'']"
    using webssh_frames_in_order [of "[Resize 80 24]" "[]" "[Input ''ls'']" "\<lambda>_. None" None "[]" None "[]" "[]" True]
    by auto
  then show ?thesis by (intro exI [of _ s]) (simp add: lastn_def MAX_OUTBOX_def)
qed

section \<open>The invariant of every run\<close>

fun event_bytes :: "event \<Rightarrow> nat" where
  "event_bytes (OnOutput buf) = length buf"
| "event_bytes _ = 0"

text \<open>
  The live timers of a connection that has been opened at most once are the two the object knows,
  and there are none before the socket opens and after it has closed.
\<close>

definition timers_ok :: "WebSSHConnection \<Rightarrow> bool" where
  "timers_ok s \<longleftrightarrow>
     (\<forall>p \<in> set (intervals s). pingTimer s = Some (fst p) \<or> statsTimer s = Some (fst p))
     \<and> (ready_state 0 s \<in> {WsConnecting, WsClosed} \<longrightarrow> intervals s = [])"

definition ssh_inv :: "WebSSHConnection \<Rightarrow> bool" where
  "ssh_inv s \<longleftrightarrow>
     length (outbox s) \<le> MAX_OUTBOX
     \<and> bytes_in s = sum_list (map event_bytes (events s))
     \<and> (length (sockets s) \<le> 1 \<longrightarrow> timers_ok s)"

lemma ssh_inv_same:
  assumes "ssh_inv s" "length (outbox s') \<le> MAX_OUTBOX" "bytes_in s' = sum_list (map event_bytes (events s'))"
    "intervals s' = intervals s" "pingTimer s' = pingTimer s" "statsTimer s' = statsTimer s"
    "length (sockets s') = length (sockets s)" "ready_state 0 s' = ready_state 0 s"
  shows "ssh_inv s'"
  using assms by (simp add: ssh_inv_def timers_ok_def)

lemma ssh_inv_send:
  assumes "ssh_inv s" shows "ssh_inv (send f s)"
  by (rule ssh_inv_same [OF assms]) (use assms send_outbox_bound in \<open>simp_all add: ssh_inv_def\<close>)

lemma ssh_inv_emit:
  assumes "ssh_inv s" "event_bytes e = 0" shows "ssh_inv (emit e s)"
  by (rule ssh_inv_same [OF assms(1)]) (use assms in \<open>simp_all add: ssh_inv_def\<close>)

lemma ssh_inv_counters:
  assumes "ssh_inv s"
  shows "ssh_inv (s\<lparr>bytes_out := n\<rparr>)" "ssh_inv (s\<lparr>pendingPingAt := t\<rparr>)" "ssh_inv (s\<lparr>outbox := []\<rparr>)"
    "ssh_inv (s\<lparr>ws := w\<rparr>)"
  using assms by (auto simp: ssh_inv_def timers_ok_def ready_state_def MAX_OUTBOX_def)

lemma stopTimers_fields [simp, ssh_frame]:
  "sockets (stopTimers s) = sockets s" "ready_state j (stopTimers s) = ready_state j s"
  "wire_of j (stopTimers s) = wire_of j s" "ws (stopTimers s) = ws s" "events (stopTimers s) = events s"
  "bytes_in (stopTimers s) = bytes_in s" "bytes_out (stopTimers s) = bytes_out s"
  "outbox (stopTimers s) = outbox s" "pendingPingAt (stopTimers s) = pendingPingAt s"
  "intervals (stopTimers s) =
     filter (\<lambda>p. \<not> (pingTimer s = Some (fst p) \<or> statsTimer s = Some (fst p))) (intervals s)"
  by (auto simp: stopTimers_def clear_ping_def clear_stats_def clear_interval_def ready_state_def wire_of_def
      conj_commute split: option.splits intro!: filter_cong)

lemma timers_ok_stop: "timers_ok s \<Longrightarrow> intervals (stopTimers s) = []"
  by (auto simp: timers_ok_def filter_empty_conv)

lemma ssh_inv_stopTimers:
  assumes "ssh_inv s"
  shows "ssh_inv (stopTimers s)" "length (sockets s) \<le> 1 \<longrightarrow> intervals (stopTimers s) = []"
  using assms timers_ok_stop by (auto simp: ssh_inv_def timers_ok_def filter_empty_conv)

lemma socket_close_fields [simp]:
  fixes s :: WebSSHConnection
  shows "outbox (socket_close i s) = outbox s" "events (socket_close i s) = events s"
    "bytes_in (socket_close i s) = bytes_in s" "pingTimer (socket_close i s) = pingTimer s"
    "statsTimer (socket_close i s) = statsTimer s" "ws (socket_close i s) = ws s"
    "pendingPingAt (socket_close i s) = pendingPingAt s"
  by (simp_all add: socket_close_def)

lemma close_fields [simp, ssh_frame]:
  "intervals (close s) = intervals (stopTimers s)" "outbox (close s) = []" "events (close s) = events s"
  "bytes_in (close s) = bytes_in s" "length (sockets (close s)) = length (sockets s)"
  "ws (close s) = None" "wire_of j (close s) = wire_of j s" "pendingPingAt (close s) = pendingPingAt s"
  by (simp_all add: close_def Let_def split: option.split)

lemma ssh_inv_close: "ssh_inv s \<Longrightarrow> ssh_inv (close s)"
  using timers_ok_stop by (auto simp: ssh_inv_def timers_ok_def filter_empty_conv)

lemma ssh_inv_open:
  assumes "ssh_inv s" shows "ssh_inv (open_ws t q ov s)"
proof -
  have fields: "outbox (open_ws t q ov s) = outbox s" "bytes_in (open_ws t q ov s) = bytes_in s"
    "events (open_ws t q ov s) = events s" "intervals (open_ws t q ov s) = intervals s"
    "length (sockets (open_ws t q ov s)) = Suc (length (sockets s))"
    by (simp_all add: open_ws_def Let_def new_socket_def)
  have "intervals s = []" if "length (sockets s) = 0"
    using assms that by (simp add: ssh_inv_def timers_ok_def ready_state_def)
  then show ?thesis using assms by (simp add: ssh_inv_def timers_ok_def fields)
qed

lemma ssh_inv_call: "ssh_inv s \<Longrightarrow> ssh_inv (run_call c s)"
  by (cases c) (simp_all add: sendInput_def resize_def ssh_inv_send ssh_inv_counters ssh_inv_close ssh_inv_open)

lemma call_no_timer: "set (intervals (run_call c s)) \<subseteq> set (intervals s)"
  by (cases c) (auto simp: sendInput_def resize_def open_ws_def Let_def new_socket_def)

lemma calls_inv:
  "ssh_inv s \<Longrightarrow> ssh_inv (fold run_call cs s) \<and> set (intervals (fold run_call cs s)) \<subseteq> set (intervals s)"
proof (induction cs arbitrary: s)
  case (Cons c cs)
  with Cons.IH [of "run_call c s"] ssh_inv_call [of s c] call_no_timer [of c s] show ?case by auto
qed simp

lemma call_ready:
  assumes "ready_state 0 s \<in> {WsOpen, WsClosing}"
  shows "ready_state 0 (run_call c s) \<in> {WsOpen, WsClosing}"
proof (cases c)
  case Close
  then show ?thesis using assms by (auto simp: close_def Let_def ready_state_close split: option.splits)
next
  case (Open t q ov)
  have "0 < length (sockets s)" using assms ready_state_valid [of 0 s] by auto
  with Open assms show ?thesis by (simp add: open_ws_def Let_def)
qed (use assms in \<open>simp_all add: sendInput_def resize_def\<close>)

lemma calls_ready:
  "ready_state 0 s \<in> {WsOpen, WsClosing} \<Longrightarrow> ready_state 0 (fold run_call cs s) \<in> {WsOpen, WsClosing}"
proof (induction cs arbitrary: s)
  case (Cons c cs)
  from Cons.IH [OF call_ready [OF Cons.prems]] show ?case by simp
qed simp

lemma call_sockets: "length (sockets s) \<le> length (sockets (run_call c s))"
  by (cases c) (auto simp: sendInput_def resize_def open_ws_def Let_def new_socket_def)

lemma calls_sockets: "length (sockets s) \<le> length (sockets (fold run_call cs s))"
proof (induction cs arbitrary: s)
  case (Cons c cs)
  show ?case using Cons.IH [of "run_call c s"] call_sockets [of s c] by simp
qed simp

text \<open>Starting the timers when none is live.\<close>

lemma timers_ok_start:
  assumes "intervals s = []" "ready_state 0 s \<in> {WsOpen, WsClosing}"
  shows "timers_ok (start_timers s)"
  using assms by (auto simp: timers_ok_def start_timers_def set_interval_def Let_def ready_state_def)

lemma ssh_inv_onopen:
  assumes "ssh_inv s" "ready_state i s = WsConnecting"
  shows "ssh_inv (onopen i rs (set_ready i WsOpen s))"
proof -
  let ?s1 = "emit OnOpen (set_ready i WsOpen s)"
  let ?s2 = "fold run_call rs ?s1"
  let ?s3 = "flush i (outbox ?s2) (?s2\<lparr>outbox := []\<rparr>)"
  have eq: "onopen i rs (set_ready i WsOpen s) = start_timers ?s3" by (simp add: onopen_def Let_def)
  have i: "i < length (sockets s)" using assms(2) ready_state_valid [of i s] by simp
  have none: "i = 0" "intervals s = []" if "length (sockets s) \<le> 1"
  proof -
    show "i = 0" using that i by simp
    then show "intervals s = []" using that assms by (simp add: ssh_inv_def timers_ok_def)
  qed
  then have "ssh_inv ?s1"
    using assms(1) by (auto simp: ssh_inv_def timers_ok_def)
  then have s2: "ssh_inv ?s2" "set (intervals ?s2) \<subseteq> set (intervals s)" using calls_inv [of ?s1 rs] by simp_all
  have "timers_ok (start_timers ?s3)" if one: "length (sockets (start_timers ?s3)) \<le> 1"
  proof -
    have "length (sockets s) \<le> 1" using one calls_sockets [of ?s1 rs] by simp
    then have "i = 0" "intervals s = []" using none by simp_all
    moreover have "ready_state 0 ?s2 \<in> {WsOpen, WsClosing}"
      by (rule calls_ready) (use i \<open>i = 0\<close> in simp)
    ultimately show ?thesis by (intro timers_ok_start) (use s2 in simp_all)
  qed
  then show ?thesis using s2 unfolding eq by (simp add: ssh_inv_def)
qed

lemma ssh_inv_output:
  assumes "ssh_inv s"
  shows "ssh_inv (emit (OnOutput buf) (s\<lparr>bytes_in := bytes_in s + length buf\<rparr>))"
  by (rule ssh_inv_same [OF assms]) (use assms in \<open>simp_all add: ssh_inv_def\<close>)

lemma ssh_inv_handle:
  assumes "ssh_inv s" shows "ssh_inv (handle parse d now s)"
proof -
  have "ssh_inv (on_output x s)" for x
    using assms ssh_inv_output ssh_inv_emit
    by (auto simp: on_output_def Let_def split: option.splits json.splits)
  moreover have "ssh_inv (on_resize x y s)" for x y
    using assms ssh_inv_emit by (auto simp: on_resize_def split: option.splits json.splits)
  moreover have "ssh_inv (on_pong now s)"
    using assms ssh_inv_counters ssh_inv_emit by (auto simp: on_pong_def split: option.splits)
  ultimately show ?thesis
    using assms ssh_inv_emit by (auto simp: handle_def dispatch_frame_def Let_def split: data.splits option.splits)
qed

lemma ssh_inv_tick: "ssh_inv s \<Longrightarrow> ssh_inv (on_tick t now s)"
  by (cases t) (simp_all add: on_tick_def sendPing_def ssh_inv_send ssh_inv_counters ssh_inv_emit)

lemma ssh_inv_onclose:
  assumes "ssh_inv s" "ready_state i s \<noteq> WsClosed"
  shows "ssh_inv (onclose reason (set_ready i WsClosed s))"
proof -
  have "i < length (sockets s)" using assms(2) by (rule ready_state_valid)
  have none: "intervals (stopTimers s) = []" if "length (sockets s) \<le> 1"
    using assms(1) that timers_ok_stop by (simp add: ssh_inv_def)
  then show ?thesis
    using assms(1) by (simp add: onclose_def ssh_inv_def timers_ok_def)
qed

lemma ssh_inv_perform: "ssh_inv s \<Longrightarrow> perform parse i s = Some s' \<Longrightarrow> ssh_inv s'"
  by (cases i) (auto simp: ssh_inv_call ssh_inv_onopen ssh_inv_handle ssh_inv_tick ssh_inv_onclose
      ssh_inv_emit split: if_splits option.splits)

lemma ssh_inv_run: "ssh_inv s \<Longrightarrow> run parse inps s = Some s' \<Longrightarrow> ssh_inv s'"
proof (induction inps arbitrary: s)
  case (Cons i inps)
  then obtain t where "perform parse i s = Some t" "run parse inps t = Some s'"
    by (auto split: option.splits)
  with Cons ssh_inv_perform show ?case by blast
qed simp

lemma ssh_inv_new: "ssh_inv (new_connection b p stats)"
  by (simp add: ssh_inv_def timers_ok_def new_connection_def)

section \<open>Latencies\<close>

fun clock :: "inp \<Rightarrow> real option" where
  "clock (Message i d now) = Some now"
| "clock (Tick n now) = Some now"
| "clock _ = None"

text \<open>The clock readings of a run do not go back, starting from \<open>t\<close>.\<close>

fun clock_from :: "real \<Rightarrow> inp list \<Rightarrow> bool" where
  "clock_from t [] = True"
| "clock_from t (i # inps) =
     (case clock i of None \<Rightarrow> clock_from t inps | Some now \<Rightarrow> t \<le> now \<and> clock_from now inps)"

definition latency_inv :: "real \<Rightarrow> WebSSHConnection \<Rightarrow> bool" where
  "latency_inv t s \<longleftrightarrow>
     (\<forall>ms. OnLatency ms \<in> set (events s) \<longrightarrow> 0 \<le> ms) \<and> (\<forall>p. pendingPingAt s = Some p \<longrightarrow> p \<le> t)"

lemma call_events: "events (run_call c s) = events s \<and> pendingPingAt (run_call c s) = pendingPingAt s"
  by (cases c) (simp_all add: sendInput_def resize_def open_ws_def Let_def new_socket_def)

lemma calls_events:
  "events (fold run_call cs s) = events s \<and> pendingPingAt (fold run_call cs s) = pendingPingAt s"
proof (induction cs arbitrary: s)
  case (Cons c cs)
  show ?case using Cons.IH [of "run_call c s"] call_events [of c s] by simp
qed simp

lemma onopen_events:
  "events (onopen i rs s) = events s @ [OnOpen] \<and> pendingPingAt (onopen i rs s) = pendingPingAt s"
  by (simp add: onopen_def Let_def calls_events)

lemma latency_emits [simp]:
  "latency_inv t (emit OnReady s) = latency_inv t s" "latency_inv t (emit Uncaught s) = latency_inv t s"
  "latency_inv t (emit (OnError m) s) = latency_inv t s" "latency_inv t (emit (OnClose m) s) = latency_inv t s"
  "latency_inv t (emit (OnOutput buf) s) = latency_inv t s" "latency_inv t (emit (OnResize c r) s) = latency_inv t s"
  by (auto simp: latency_inv_def)

lemma latency_handle:
  assumes "latency_inv t s" "t \<le> now"
  shows "latency_inv now (handle parse d now s)"
proof -
  have later: "latency_inv now s" using assms by (force simp: latency_inv_def)
  have "latency_inv now (on_output x s)" for x
    using later
    by (auto simp: on_output_def Let_def latency_inv_def split: option.splits json.splits)
  moreover have "latency_inv now (on_resize x y s)" for x y
    using later by (auto simp: on_resize_def latency_inv_def split: option.splits json.splits)
  moreover have "latency_inv now (on_pong now s)"
    using assms by (auto simp: on_pong_def latency_inv_def split: option.splits)
  ultimately show ?thesis
    using later
    by (auto simp: handle_def dispatch_frame_def Let_def split: data.splits option.splits)
qed

lemma latency_perform:
  assumes "latency_inv t s" "perform parse i s = Some s'"
    and "\<And>now. clock i = Some now \<Longrightarrow> t \<le> now"
  shows "latency_inv (case clock i of None \<Rightarrow> t | Some now \<Rightarrow> now) s'"
proof (cases i)
  case (Message j d now)
  then show ?thesis using assms latency_handle by (auto split: if_splits)
next
  case (Tick n now)
  then have "t \<le> now" using assms(3) by simp
  moreover obtain k where "s' = on_tick k now s" using assms(2) Tick by (auto split: option.splits)
  ultimately show ?thesis
    using assms(1) Tick by (cases k) (force simp: on_tick_def sendPing_def latency_inv_def)+
qed (use assms in \<open>auto simp: latency_inv_def call_events onopen_events onclose_def split: if_splits\<close>)

lemma latency_run:
  "latency_inv t s \<Longrightarrow> clock_from t inps \<Longrightarrow> run parse inps s = Some s' \<Longrightarrow> \<exists>t'. latency_inv t' s'"
proof (induction inps arbitrary: s t)
  case (Cons i inps)
  then obtain u where u: "perform parse i s = Some u" "run parse inps u = Some s'"
    by (auto split: option.splits)
  have "latency_inv (case clock i of None \<Rightarrow> t | Some now \<Rightarrow> now) u"
    by (rule latency_perform [OF Cons.prems(1) u(1)]) (use Cons.prems(2) in auto)
  then show ?case using Cons.IH [OF _ _ u(2)] Cons.prems(2) by (cases "clock i") auto
qed auto

section \<open>Properties of every run\<close>

text \<open>In every state a connection reaches, by any calls, socket events, ticks and server messages:
  at most 256 frames wait for the socket, the counter of received bytes is the number of bytes
  handed to the terminal, no reported latency is negative if the clock does not go back, and a
  connection opened at most once has no live timer once its socket has closed.
\<close>

theorem webssh_invariant:
  assumes "run parse inps (new_connection b p stats) = Some s"
  shows "length (outbox s) \<le> MAX_OUTBOX
    \<and> bytes_in s = sum_list (map event_bytes (events s))
    \<and> (clock_from t inps \<longrightarrow> (\<forall>ms. OnLatency ms \<in> set (events s) \<longrightarrow> 0 \<le> ms))
    \<and> (length (sockets s) \<le> 1 \<longrightarrow> ready_state 0 s = WsClosed \<longrightarrow> intervals s = [])"
proof -
  have "ssh_inv s" using ssh_inv_run [OF ssh_inv_new assms] .
  moreover have "latency_inv t (new_connection b p stats)"
    by (simp add: latency_inv_def new_connection_def)
  then have "clock_from t inps \<longrightarrow> (\<forall>ms. OnLatency ms \<in> set (events s) \<longrightarrow> 0 \<le> ms)"
    using latency_run [OF _ _ assms] by (auto simp: latency_inv_def)
  ultimately show ?thesis by (simp add: ssh_inv_def timers_ok_def)
qed

theorem webssh_invariant_witness:
  "intervals (the (run (\<lambda>_. None) [Call (Open None [] None), Opened 0 [], Closed 0 ''gone'']
     (new_connection [] [] True))) = []"
proof -
  let ?r = "run (\<lambda>_. None) [Call (Open None [] None), Opened 0 [], Closed 0 ''gone'']
     (new_connection [] [] True)"
  have r: "?r \<noteq> None \<and> length (sockets (the ?r)) = 1 \<and> ready_state 0 (the ?r) = WsClosed" by code_simp
  then obtain s where s: "?r = Some s" by blast
  show ?thesis using webssh_invariant [OF s, of 0] r unfolding s by simp
qed

section \<open>Silence after \<open>close\<close>\<close>

fun is_open :: "call \<Rightarrow> bool" where
  "is_open (Open t q ov) = True"
| "is_open _ = False"

fun reopens :: "inp \<Rightarrow> bool" where
  "reopens (Call c) = is_open c"
| "reopens (Opened i rs) = list_ex is_open rs"
| "reopens _ = False"

definition silent :: "WebSSHConnection \<Rightarrow> WebSSHConnection \<Rightarrow> bool" where
  "silent s0 s \<longleftrightarrow> ws s = None \<and> outbox s = [] \<and> (\<forall>i. wire_of i s = wire_of i s0)"

lemma silent_call: "silent s0 s \<Longrightarrow> \<not> is_open c \<Longrightarrow> silent s0 (run_call c s)"
  by (cases c) (auto simp: silent_def sendInput_def resize_def send_silent)

lemma silent_calls: "silent s0 s \<Longrightarrow> \<not> list_ex is_open cs \<Longrightarrow> silent s0 (fold run_call cs s)"
proof (induction cs arbitrary: s)
  case (Cons c cs)
  then show ?case using silent_call [of s0 s c] by simp
qed simp

lemma silent_onopen:
  assumes "silent s0 s" "\<not> list_ex is_open rs"
  shows "silent s0 (onopen i rs (set_ready i r s))"
proof -
  let ?s2 = "fold run_call rs (emit OnOpen (set_ready i r s))"
  have "silent s0 ?s2" by (rule silent_calls) (use assms in \<open>simp_all add: silent_def\<close>)
  then show ?thesis by (simp add: onopen_def Let_def silent_def flush_def)
qed

lemma silent_handle: "silent s0 s \<Longrightarrow> silent s0 (handle parse d now s)"
  by (auto simp: handle_def dispatch_frame_def on_output_def on_resize_def on_pong_def Let_def silent_def
      split: data.splits option.splits json.splits)

lemma silent_tick: "silent s0 s \<Longrightarrow> silent s0 (on_tick t now s)"
  by (cases t) (simp_all add: on_tick_def sendPing_def silent_def send_silent)

lemma silent_perform:
  "silent s0 s \<Longrightarrow> \<not> reopens i \<Longrightarrow> perform parse i s = Some s' \<Longrightarrow> silent s0 s'"
  by (cases i) (auto simp: silent_call silent_onopen silent_handle silent_tick
      split: if_splits option.splits, simp_all add: silent_def onclose_def)

lemma silent_run:
  "silent s0 s \<Longrightarrow> \<not> list_ex reopens inps \<Longrightarrow> run parse inps s = Some s' \<Longrightarrow> silent s0 s'"
proof (induction inps arbitrary: s)
  case (Cons i inps)
  then obtain t where t: "perform parse i s = Some t" "run parse inps t = Some s'"
    by (auto split: option.splits)
  have "silent s0 t" using silent_perform [OF Cons.prems(1) _ t(1)] Cons.prems(2) by simp
  then show ?case using Cons.IH t(2) Cons.prems(2) by simp
qed simp

text \<open>After \<open>close\<close>, until the connection is opened again, nothing is put on any wire and nothing
  is queued, whatever calls, late socket events, ticks and messages follow.
\<close>

theorem webssh_silent_after_close:
  assumes "run parse inps (close s) = Some s'" "\<not> list_ex reopens inps"
  shows "outbox s' = [] \<and> (\<forall>i. wire_of i s' = wire_of i s)"
proof -
  have "silent s (close s)" by (simp add: silent_def)
  from silent_run [OF this assms(2,1)] show ?thesis by (simp add: silent_def)
qed

theorem webssh_silent_after_close_witness:
  "wire_of 0 (the (run (\<lambda>_. None) [Call (Input ''x''), Closed 0 []]
     (close (open_ws None [] None (new_connection [] [] False))))) = []"
proof -
  let ?s = "open_ws None [] None (new_connection [] [] False)"
  let ?i = "[Call (Input ''x''), Closed 0 []]"
  have "run (\<lambda>_. None) ?i (close ?s) \<noteq> None" "wire_of 0 ?s = []" by code_simp+
  then obtain s' where s': "run (\<lambda>_. None) ?i (close ?s) = Some s'" by blast
  show ?thesis using webssh_silent_after_close [OF s'] \<open>wire_of 0 ?s = []\<close> unfolding s' by simp
qed

end
