(* ===== verification/TokenStore.thy ===== *)
theory TokenStore
  imports WebPlatform Base64
begin

text \<open>
  The token storage of \<open>lib/auth/tokens.ts\<close>: the access and the refresh token in
  \<open>localStorage\<close>, and the reading of the claims of an access token. Without a \<open>window\<close> (on the
  server) there is no storage. The locale \<open>token_store\<close> states what the HTTP client relies on; it
  is interpreted on the storage of the code. \<open>JSON.parse\<close> and the clock are arguments.
\<close>

definition ACCESS_KEY :: string where
  "ACCESS_KEY = ''wayfort:access''"

definition REFRESH_KEY :: string where
  "REFRESH_KEY = ''wayfort:refresh''"

record browser =
  has_window :: bool
  local_storage :: "string \<Rightarrow> string option"

definition getAccessToken :: "'a browser_scheme \<Rightarrow> string option" where
  "getAccessToken b = (if \<not> has_window b then None else local_storage b ACCESS_KEY)"

definition getRefreshToken :: "'a browser_scheme \<Rightarrow> string option" where
  "getRefreshToken b = (if \<not> has_window b then None else local_storage b REFRESH_KEY)"

definition setTokens :: "string \<Rightarrow> string option \<Rightarrow> 'a browser_scheme \<Rightarrow> 'a browser_scheme" where
  "setTokens access refresh b =
     (if \<not> has_window b then b
      else
        (let b1 = b\<lparr>local_storage := (local_storage b)(ACCESS_KEY \<mapsto> access)\<rparr>
         in if truthy_str refresh then b1\<lparr>local_storage := (local_storage b1)(REFRESH_KEY := refresh)\<rparr> else b1))"

definition clearTokens :: "'a browser_scheme \<Rightarrow> 'a browser_scheme" where
  "clearTokens b =
     (if \<not> has_window b then b
      else b\<lparr>local_storage := (local_storage b)(ACCESS_KEY := None, REFRESH_KEY := None)\<rparr>)"

section \<open>The interface\<close>

locale token_store =
  fixes access :: "'s \<Rightarrow> string option"
    and refresh :: "'s \<Rightarrow> string option"
    and store :: "string \<Rightarrow> string option \<Rightarrow> 's \<Rightarrow> 's"
    and clear :: "'s \<Rightarrow> 's"
    and usable :: "'s \<Rightarrow> bool"
  assumes access_store: "usable s \<Longrightarrow> access (store a r s) = Some a"
    and refresh_store: "usable s \<Longrightarrow> refresh (store a r s) = (if truthy_str r then r else refresh s)"
    and access_clear: "access (clear s) = None"
    and refresh_clear: "refresh (clear s) = None"
    and usable_access: "access s \<noteq> None \<Longrightarrow> usable s"
    and usable_refresh: "refresh s \<noteq> None \<Longrightarrow> usable s"
    and usable_store: "usable (store a r s) = usable s"
    and usable_clear: "usable (clear s) = usable s"
begin

text \<open>A renewed session is one whose refresh token can be spent again.\<close>

lemma refresh_kept:
  assumes "refresh s = Some t" "t \<noteq> []"
  shows "truthy_str (refresh (store a r s))"
proof -
  have "usable s" using assms usable_refresh by simp
  then show ?thesis using assms by (simp add: refresh_store)
qed

lemma store_store_access:
  "usable s \<Longrightarrow> access (store a r (store a' r' s)) = Some a"
  by (simp add: access_store usable_store)

lemma store_after_clear:
  "usable s \<Longrightarrow> access (store a r (clear s)) = Some a \<and> refresh (store a r (clear s)) = (if truthy_str r then r else None)"
  by (simp add: access_store refresh_store usable_clear refresh_clear)

lemma clear_after_store: "access (clear (store a r s)) = None \<and> refresh (clear (store a r s)) = None"
  by (simp add: access_clear refresh_clear)

lemma cleared_stays_cleared: "access (clear (clear s)) = None"
  by (rule access_clear)

end

lemma storage_keys [simp]: "ACCESS_KEY \<noteq> REFRESH_KEY" "REFRESH_KEY \<noteq> ACCESS_KEY"
  by (simp_all add: ACCESS_KEY_def REFRESH_KEY_def)

interpretation tok: token_store getAccessToken getRefreshToken setTokens clearTokens has_window
  by unfold_locales
    (auto simp: getAccessToken_def getRefreshToken_def setTokens_def clearTokens_def Let_def split: if_splits)

section \<open>Claims\<close>

text \<open>
  The result of \<open>atob\<close> is a string of the characters with the codes of the bytes; in the UTF-8
  representation a byte above 127 takes two.
\<close>

definition latin1_text :: "string \<Rightarrow> string" where
  "latin1_text s = concat (map (\<lambda>c. utf8_char (of_char c)) s)"

definition from_url_char :: "char \<Rightarrow> char" where
  "from_url_char c = (if c = CHR ''-'' then CHR ''+'' else if c = CHR ''_'' then CHR ''/'' else c)"

definition parseClaims :: "(string \<Rightarrow> json option) \<Rightarrow> string option \<Rightarrow> json option" where
  "parseClaims parse token =
     (if \<not> truthy_str token then None
      else
        (let parts = split_on CHR ''.'' (the token)
         in if length parts < 2 then None
            else (case atob (map from_url_char (parts ! 1)) of
                    None \<Rightarrow> None
                  | Some bin \<Rightarrow> parse (latin1_text bin))))"

definition currentClaims :: "(string \<Rightarrow> json option) \<Rightarrow> 'a browser_scheme \<Rightarrow> json option" where
  "currentClaims parse b = parseClaims parse (getAccessToken b)"

fun truthy_json :: "json \<Rightarrow> bool" where
  "truthy_json JNull = False"
| "truthy_json (JBool b) = b"
| "truthy_json (JNum n) = (n \<noteq> 0)"
| "truthy_json (JStr s) = (s \<noteq> [])"
| "truthy_json (JArr xs) = True"
| "truthy_json (JObj ps) = True"

definition truthy_field :: "string \<Rightarrow> json \<Rightarrow> bool" where
  "truthy_field k j = (case member k j of None \<Rightarrow> False | Some v \<Rightarrow> truthy_json v)"

text \<open>
  The number a value converts to, \<open>None\<close> for \<open>NaN\<close>. The field is typed as a number; of the texts
  only plain decimals are converted.
\<close>

fun json_number :: "json \<Rightarrow> int option" where
  "json_number (JNum n) = Some n"
| "json_number (JBool b) = Some (if b then 1 else 0)"
| "json_number JNull = Some 0"
| "json_number (JStr s) =
     (if list_all (\<lambda>c. c \<in> set ''0123456789'') s then Some (int (digits_value s)) else None)"
| "json_number (JArr xs) = None"
| "json_number (JObj ps) = None"

definition expired :: "int \<Rightarrow> json \<Rightarrow> bool" where
  "expired now c =
     (truthy_field ''exp'' c
      \<and> (case json_number (the (member ''exp'' c)) of None \<Rightarrow> False | Some e \<Rightarrow> e * 1000 < now))"

definition isAuthenticated :: "(string \<Rightarrow> json option) \<Rightarrow> int \<Rightarrow> 'a browser_scheme \<Rightarrow> bool" where
  "isAuthenticated parse now b =
     (case currentClaims parse b of
        None \<Rightarrow> False
      | Some c \<Rightarrow>
          if \<not> truthy_json c then False
          else if truthy_field ''step'' c then False
          else if expired now c then False
          else True)"

section \<open>Reading the claims of a token\<close>

text \<open>The middle part of a JWT: base64 without padding in the alphabet for URLs.\<close>

definition to_url_char :: "char \<Rightarrow> char" where
  "to_url_char c = (if c = CHR ''+'' then CHR ''-'' else if c = CHR ''/'' then CHR ''_'' else c)"

definition base64url :: "string \<Rightarrow> string" where
  "base64url s = map to_url_char (filter (\<lambda>c. c \<noteq> CHR ''='') (btoa s))"

lemma url_char_inverse: "c \<in> set B64 \<Longrightarrow> from_url_char (to_url_char c) = c"
  using b64_special by (auto simp: to_url_char_def from_url_char_def)

lemma to_url_char_no_dot: "c \<in> set B64 \<Longrightarrow> to_url_char c \<noteq> CHR ''.''"
  using b64_special by (auto simp: to_url_char_def)

lemma btoa_unpadded:
  "filter (\<lambda>c. c \<noteq> CHR ''='') (btoa s) = map b64_digit (core_digits (bytes_of s))"
proof -
  have small: "\<forall>n \<in> set (bytes_of s). n < 256" using bytes_of_less by blast
  have "filter (\<lambda>c. c \<noteq> CHR ''='') (map b64_digit (core_digits (bytes_of s))) =
      map b64_digit (core_digits (bytes_of s))"
    using core_in_B64 [OF small] b64_special(1) by (intro filter_True) blast
  moreover have "filter (\<lambda>c. c \<noteq> CHR ''='') (pad (bytes_of s)) = []"
    using pad_cases [of "bytes_of s"] by auto
  ultimately show ?thesis by (simp add: btoa_def btoa_bytes_core)
qed

lemma atob_unpadded: "atob (map b64_digit (core_digits (bytes_of s))) = Some s"
proof -
  let ?d = "core_digits (bytes_of s)"
  have small: "\<forall>n \<in> set (bytes_of s). n < 256" using bytes_of_less by blast
  have less: "\<forall>d \<in> set ?d. d < 64" by (rule core_digits_less [OF small])
  have inside: "set (map b64_digit ?d) \<subseteq> set B64" by (rule core_in_B64 [OF small])
  have white: "filter (\<lambda>c. \<not> ascii_white c) (map b64_digit ?d) = map b64_digit ?d"
    using inside alphabet_not_white by (intro filter_True) blast
  have "map b64_digit ?d = [] \<or> last (map b64_digit ?d) \<noteq> CHR ''=''"
    using inside b64_special(1) last_in_set [of "map b64_digit ?d"] by fastforce
  then have strip: "strip_pad (map b64_digit ?d) = map b64_digit ?d" by (auto simp: strip_pad_def)
  have "list_all (\<lambda>c. b64_value c \<noteq> None) (map b64_digit ?d)" using less by (simp add: list_all_iff)
  moreover have "map (\<lambda>c. the (b64_value c)) (map b64_digit ?d) = ?d" using less by (simp add: map_idI)
  ultimately show ?thesis
    by (simp only: atob_def white strip Let_def digit_bytes_core [OF small] if_True option.simps chars_of_bytes)
qed

lemma base64url_decodes: "atob (map from_url_char (base64url s)) = Some s"
proof -
  have small: "\<forall>n \<in> set (bytes_of s). n < 256" using bytes_of_less by blast
  have "map (from_url_char \<circ> to_url_char) (map b64_digit (core_digits (bytes_of s))) =
      map b64_digit (core_digits (bytes_of s))"
    using core_in_B64 [OF small] url_char_inverse by (intro map_idI) auto
  then show ?thesis
    using atob_unpadded [of s] by (simp only: base64url_def btoa_unpadded map_map o_assoc)
qed

lemma base64url_no_dot: "CHR ''.'' \<notin> set (base64url s)"
proof -
  have small: "\<forall>n \<in> set (bytes_of s). n < 256" using bytes_of_less by blast
  show ?thesis
    unfolding base64url_def btoa_unpadded using core_in_B64 [OF small] to_url_char_no_dot by fastforce
qed

lemma length_utf8_byte: "n < 256 \<Longrightarrow> length (utf8_char n) = (if n < 128 then 1 else 2)"
  by (simp add: utf8_char_def)

lemma char_code_less: "(of_char c :: nat) < 256"
  using bytes_of_less [of "of_char c" "[c]"] by (simp add: bytes_of_def)

lemma latin1_length: "length (latin1_text s) = length s + length (filter (\<lambda>c. 128 \<le> (of_char c :: nat)) s)"
proof (induction s)
  case (Cons c s)
  have "length (utf8_char (of_char c)) = (if (of_char c :: nat) < 128 then 1 else 2)"
    by (rule length_utf8_byte [OF char_code_less])
  with Cons show ?case by (simp add: latin1_text_def)
qed (simp add: latin1_text_def)

lemma latin1_ascii: "latin1_text s = s \<longleftrightarrow> (\<forall>c \<in> set s. (of_char c :: nat) < 128)"
proof
  assume "latin1_text s = s"
  then have "length (latin1_text s) = length s" by simp
  then show "\<forall>c \<in> set s. (of_char c :: nat) < 128"
    by (auto simp: latin1_length filter_empty_conv not_le)
next
  assume "\<forall>c \<in> set s. (of_char c :: nat) < 128"
  then show "latin1_text s = s"
    by (induction s) (simp_all add: latin1_text_def utf8_char_def)
qed

lemma parse_token:
  assumes "CHR ''.'' \<notin> set h"
  shows "parseClaims parse (Some (h @ ''.'' @ base64url p @ ''.'' @ sig)) = parse (latin1_text p)"
proof -
  have "split_on CHR ''.'' (h @ ''.'' @ base64url p @ ''.'' @ sig) = h # base64url p # split_on CHR ''.'' sig"
    using assms base64url_no_dot by (simp add: split_on_append)
  then show ?thesis by (simp add: parseClaims_def base64url_decodes)
qed

text \<open>A signed-in browser is authenticated exactly when the claims object of its token asks
  for no further step and has no expiry in the past. What is parsed is the token's payload read
  byte by byte, so that claims with characters outside ASCII are misread.\<close>

theorem token_authenticates:
  assumes "has_window b" "CHR ''.'' \<notin> set h" "parse (latin1_text p) = Some (JObj ps)"
    and "local_storage b ACCESS_KEY = Some (h @ ''.'' @ base64url p @ ''.'' @ sig)"
  shows "(isAuthenticated parse now b \<longleftrightarrow>
      \<not> truthy_field ''step'' (JObj ps) \<and> \<not> expired now (JObj ps))
    \<and> currentClaims parse b = Some (JObj ps)
    \<and> (latin1_text p = p \<longleftrightarrow> list_all (\<lambda>c. (of_char c :: nat) < 128) p)"
proof -
  have "getAccessToken b = Some (h @ ''.'' @ base64url p @ ''.'' @ sig)"
    using assms by (simp add: getAccessToken_def)
  then have "currentClaims parse b = Some (JObj ps)"
    using parse_token [OF assms(2)] assms(3) by (simp only: currentClaims_def)
  then show ?thesis by (simp add: isAuthenticated_def latin1_ascii list_all_iff)
qed

theorem token_authenticates_witness:
  "let b = \<lparr>has_window = True, local_storage = [ACCESS_KEY \<mapsto> ''h.'' @ base64url ''{}'' @ ''.s'']\<rparr>;
       parse = (\<lambda>t. if t = ''{}'' then Some (JObj [(''exp'', JNum 5)]) else None)
   in isAuthenticated parse 5000 b \<and> \<not> isAuthenticated parse 5001 b"
proof -
  let ?b = "\<lparr>has_window = True, local_storage = [ACCESS_KEY \<mapsto> ''h.'' @ base64url ''{}'' @ ''.s'']\<rparr>"
  let ?parse = "\<lambda>t. if t = ''{}'' then Some (JObj [(''exp'', JNum 5)]) else None"
  have payload: "latin1_text ''{}'' = ''{}''" by (subst latin1_ascii) simp
  have auth: "isAuthenticated ?parse now ?b \<longleftrightarrow>
      \<not> truthy_field ''step'' (JObj [(''exp'', JNum 5)]) \<and> \<not> expired now (JObj [(''exp'', JNum 5)])" for now
    using token_authenticates [of ?b "''h''" ?parse "''{}''" "[(''exp'', JNum 5)]" "''s''" now] payload by simp
  show ?thesis unfolding Let_def auth by (simp add: truthy_field_def expired_def)
qed

end
