(* ===== verification/ApiClient.thy ===== *)
theory ApiClient
  imports TokenStore "HOL-Library.Word"
begin

text \<open>
  The HTTP client of the front end, \<open>lib/api/client.ts\<close>, and the session keep-alive that uses it,
  \<open>lib/auth/use-auth-session.ts\<close>. An asynchronous function is a process: a call of \<open>api\<close> or
  \<open>apiUpload\<close> waits for its response, may wait for a refresh of the access token, repeats its
  request once and finishes. The promise of \<open>refreshAccessToken\<close> is shared by all that call it
  while it is pending. The steps below interleave in every order: the responses, the end of a
  refresh, the continuation of each waiting call, aborts, and what other parts of the page do to
  the stored tokens. \<open>JSON.parse\<close> and the clock are arguments.
\<close>

section \<open>Requests\<close>

definition API_BASE :: string where
  "API_BASE = ''/api/proxy/api/v1''"

text \<open>
  The address as the text handed to the URL parser and the parameters then set on it; null,
  undefined and empty values are left out.
\<close>

definition buildURL :: "string \<Rightarrow> string \<Rightarrow> (string \<times> json option) list \<Rightarrow> string \<times> (string \<times> string) list" where
  "buildURL origin path query =
     (if prefix ''http'' path then path else origin @ API_BASE @ path,
      fold (\<lambda>(k, v) ps.
        case v of
          None \<Rightarrow> ps
        | Some x \<Rightarrow> if x = JNull \<or> x = JStr [] then ps else obj_set k (js_String x) ps) query [])"

definition buildURLFromAPI :: "bool \<Rightarrow> string \<Rightarrow> string \<Rightarrow> (string \<times> json option) list \<Rightarrow> string \<times> (string \<times> string) list" where
  "buildURLFromAPI window origin path query =
     (if \<not> window then (API_BASE @ path, []) else buildURL origin path query)"

definition hex_upper :: "nat \<Rightarrow> char" where
  "hex_upper n = ''0123456789ABCDEF'' ! n"

definition uri_unreserved :: "char \<Rightarrow> bool" where
  "uri_unreserved c \<longleftrightarrow> word_char c \<or> c \<in> set ''-.!~*()'' \<or> c = CHR 0x27"

text \<open>\<open>encodeURIComponent\<close>, on the UTF-8 bytes.\<close>

definition encodeURIComponent :: "string \<Rightarrow> string" where
  "encodeURIComponent s =
     concat (map (\<lambda>c. if uri_unreserved c then [c]
       else ''%'' @ [hex_upper (of_char c div 16), hex_upper (of_char c mod 16)]) s)"

definition withTokenQuery :: "string \<Rightarrow> 'a browser_scheme \<Rightarrow> string" where
  "withTokenQuery url b =
     (let tok = getAccessToken b
      in if \<not> truthy_str tok then url
         else url @ (if str_includes url ''?'' then ''&'' else ''?'') @ ''token='' @ encodeURIComponent (the tok))"

datatype body = NoBody | FormBody | JsonBody json

definition bearer :: "'a browser_scheme \<Rightarrow> string option" where
  "bearer b = (let tok = getAccessToken b in if truthy_str tok then Some (''Bearer '' @ the tok) else None)"

text \<open>The headers and the text of a request of \<open>api\<close>.\<close>

definition api_headers :: "(string \<times> string) list \<Rightarrow> body \<Rightarrow> 'a browser_scheme \<Rightarrow> (string \<times> string) list" where
  "api_headers hs bd b =
     (let h1 = (case bearer b of None \<Rightarrow> hs | Some t \<Rightarrow> obj_set ''Authorization'' t hs)
      in case bd of
           JsonBody _ \<Rightarrow>
             obj_set ''Content-Type'' (or_str (nullish (map_of h1 ''Content-Type'') []) ''application/json'') h1
         | _ \<Rightarrow> h1)"

definition api_body :: "body \<Rightarrow> string option" where
  "api_body bd = (case bd of JsonBody j \<Rightarrow> Some (stringify j) | _ \<Rightarrow> None)"

section \<open>Responses\<close>

record response =
  status :: int
  statusText :: string
  response_text :: string
  content_type :: "string option"

record ApiError =
  err_status :: int
  err_message :: string
  err_detail :: "json option"

datatype result_value = RawResponse response | UndefinedValue | JsonValue json | TextValue string

datatype outcome = Success result_value | Failure ApiError | Thrown

definition ok :: "response \<Rightarrow> bool" where
  "ok r \<longleftrightarrow> 200 \<le> status r \<and> status r < 300"

text \<open>\<open>detail && typeof detail === "object" && "error" in detail\<close>\<close>

definition error_text :: "json \<Rightarrow> string option" where
  "error_text d = map_option js_String (member ''error'' d)"

definition api_error :: "(string \<Rightarrow> json option) \<Rightarrow> response \<Rightarrow> ApiError" where
  "api_error parse r =
     (case parse (response_text r) of
        Some d \<Rightarrow>
          \<lparr>err_status = status r, err_message = nullish (error_text d) (statusText r), err_detail = Some d\<rparr>
      | None \<Rightarrow>
          \<lparr>err_status = status r, err_message = or_str (response_text r) (statusText r), err_detail = None\<rparr>)"

definition api_value :: "(string \<Rightarrow> json option) \<Rightarrow> bool \<Rightarrow> response \<Rightarrow> outcome" where
  "api_value parse raw r =
     (if raw then Success (RawResponse r)
      else if status r = 204 then Success UndefinedValue
      else if str_includes (nullish (content_type r) []) ''application/json'' then
        (case parse (response_text r) of None \<Rightarrow> Thrown | Some j \<Rightarrow> Success (JsonValue j))
      else Success (TextValue (response_text r)))"

definition upload_error :: "(string \<Rightarrow> json option) \<Rightarrow> response \<Rightarrow> ApiError" where
  "upload_error parse r =
     (let message = or_str (statusText r) (''HTTP '' @ show_int (status r))
      in case parse (response_text r) of
           Some d \<Rightarrow> \<lparr>err_status = status r, err_message = nullish (error_text d) message, err_detail = Some d\<rparr>
         | None \<Rightarrow>
             \<lparr>err_status = status r, err_message = or_str (response_text r) message, err_detail = None\<rparr>)"

definition upload_value :: "(string \<Rightarrow> json option) \<Rightarrow> response \<Rightarrow> outcome" where
  "upload_value parse r =
     (if response_text r = [] then Success UndefinedValue
      else (case parse (response_text r) of
              Some j \<Rightarrow> Success (JsonValue j)
            | None \<Rightarrow> Success (TextValue (response_text r))))"

section \<open>The state\<close>

datatype kind = Api bool | Upload

datatype phase =
    Waiting bool
  | Refreshing nat response
  | Finished outcome

record api_call =
  call_kind :: kind
  call_path :: string
  call_aborted :: bool
  call_phase :: phase

text \<open>What has been sent: the request of a call with its bearer header, or a refresh.\<close>

datatype request =
    Fetch nat "string option" bool
  | RefreshFetch nat string

record client = browser +
  pathname :: string
  moves :: "string list"
  refreshInFlight :: "nat option"
  promises :: "bool option list"
  calls :: "api_call list"
  sent :: "request list"

definition new_client :: "bool \<Rightarrow> (string \<Rightarrow> string option) \<Rightarrow> string \<Rightarrow> client" where
  "new_client w st p =
     \<lparr>has_window = w, local_storage = st, pathname = p, moves = [], refreshInFlight = None,
      promises = [], calls = [], sent = []\<rparr>"

definition set_phase :: "nat \<Rightarrow> phase \<Rightarrow> client \<Rightarrow> client" where
  "set_phase p ph s = s\<lparr>calls := (calls s)[p := (calls s ! p)\<lparr>call_phase := ph\<rparr>]\<rparr>"

section \<open>Refreshing the access token\<close>

definition refreshAccessToken :: "client \<Rightarrow> nat \<times> client" where
  "refreshAccessToken s =
     (case refreshInFlight s of
        Some i \<Rightarrow> (i, s)
      | None \<Rightarrow>
          (let n = length (promises s); refresh = getRefreshToken s
           in if \<not> truthy_str refresh then (n, s\<lparr>promises := promises s @ [Some False]\<rparr>)
              else (n, s\<lparr>promises := promises s @ [None], refreshInFlight := Some n,
                     sent := sent s @ [RefreshFetch n (the refresh)]\<rparr>)))"

text \<open>The reply to a refresh: no usable response, or the parsed body of an accepted one.\<close>

datatype refresh_reply = RefreshFailed | RefreshBody json

definition json_text :: "string \<Rightarrow> json \<Rightarrow> string option" where
  "json_text k j = (if truthy_field k j then Some (js_String (the (member k j))) else None)"

definition refresh_tokens :: "refresh_reply \<Rightarrow> (string \<times> string option) option" where
  "refresh_tokens reply =
     (case reply of
        RefreshFailed \<Rightarrow> None
      | RefreshBody pair \<Rightarrow>
          (case json_text ''access_token'' pair of
             None \<Rightarrow> None
           | Some a \<Rightarrow> Some (a, json_text ''refresh_token'' pair)))"

definition refresh_done :: "nat \<Rightarrow> refresh_reply \<Rightarrow> client \<Rightarrow> client" where
  "refresh_done i reply s =
     (let (good, s1) = (case refresh_tokens reply of
                          None \<Rightarrow> (False, s)
                        | Some (a, r) \<Rightarrow> (True, setTokens a r s))
      in s1\<lparr>refreshInFlight := None, promises := (promises s1)[i := Some good]\<rparr>)"

definition ensureValidAccessToken :: "(string \<Rightarrow> json option) \<Rightarrow> int \<Rightarrow> client \<Rightarrow> nat \<times> client" where
  "ensureValidAccessToken parse now s =
     (if isAuthenticated parse now s then (length (promises s), s\<lparr>promises := promises s @ [Some True]\<rparr>)
      else refreshAccessToken s)"

definition redirectToLogin :: "client \<Rightarrow> client" where
  "redirectToLogin s =
     (let s1 = clearTokens s
      in if has_window s1 \<and> \<not> prefix ''/login'' (pathname s1) then s1\<lparr>moves := moves s1 @ [''/login'']\<rparr> else s1)"

section \<open>Calls\<close>

text \<open>Sending the request of a call; an upload whose signal is already aborted sends nothing.\<close>

definition send_call :: "nat \<Rightarrow> bool \<Rightarrow> client \<Rightarrow> client" where
  "send_call p retried s =
     (if call_kind (calls s ! p) = Upload \<and> call_aborted (calls s ! p) then
        set_phase p (Finished (Failure \<lparr>err_status = 0, err_message = ''aborted'', err_detail = None\<rparr>)) s
      else (set_phase p (Waiting retried) s)\<lparr>sent := sent s @ [Fetch p (bearer s) retried]\<rparr>)"

definition start_call :: "kind \<Rightarrow> string \<Rightarrow> bool \<Rightarrow> client \<Rightarrow> client" where
  "start_call k path aborted s =
     send_call (length (calls s)) False
       (s\<lparr>calls := calls s @ [\<lparr>call_kind = k, call_path = path, call_aborted = aborted,
          call_phase = Waiting False\<rparr>]\<rparr>)"

definition final_outcome :: "(string \<Rightarrow> json option) \<Rightarrow> kind \<Rightarrow> response \<Rightarrow> outcome" where
  "final_outcome parse k r =
     (case k of
        Api raw \<Rightarrow> if \<not> ok r then Failure (api_error parse r) else api_value parse raw r
      | Upload \<Rightarrow> if ok r then upload_value parse r else Failure (upload_error parse r))"

text \<open>A 401 is worth a refresh once, and for \<open>api\<close> not on the refresh endpoint itself.\<close>

definition may_refresh :: "api_call \<Rightarrow> bool \<Rightarrow> bool" where
  "may_refresh c retried \<longleftrightarrow>
     \<not> retried \<and> (call_kind c = Upload \<or> \<not> prefix ''/auth/refresh'' (call_path c))"

definition on_response :: "(string \<Rightarrow> json option) \<Rightarrow> nat \<Rightarrow> bool \<Rightarrow> response \<Rightarrow> client \<Rightarrow> client" where
  "on_response parse p retried r s =
     (let c = calls s ! p in
      if status r = 401 \<and> may_refresh c retried then
        (let (i, s1) = refreshAccessToken s in set_phase p (Refreshing i r) s1)
      else
        (let s1 = (if status r = 401 then redirectToLogin s else s)
         in set_phase p (Finished (final_outcome parse (call_kind c) r)) s1))"

text \<open>The continuation of a call after the refresh it waited for.\<close>

definition resume :: "(string \<Rightarrow> json option) \<Rightarrow> nat \<Rightarrow> response \<Rightarrow> bool \<Rightarrow> client \<Rightarrow> client" where
  "resume parse p r good s =
     (if good then send_call p True s
      else
        (let s1 = redirectToLogin s
         in set_phase p (Finished (case call_kind (calls s ! p) of
              Api raw \<Rightarrow> final_outcome parse (Api raw) r
            | Upload \<Rightarrow>
                Failure \<lparr>err_status = status r, err_message = ''unauthorized'', err_detail = None\<rparr>)) s1))"

definition on_network_error :: "nat \<Rightarrow> client \<Rightarrow> client" where
  "on_network_error p s =
     set_phase p (Finished (case call_kind (calls s ! p) of
         Api _ \<Rightarrow> Thrown
       | Upload \<Rightarrow> Failure \<lparr>err_status = 0, err_message = ''network error'', err_detail = None\<rparr>)) s"

text \<open>The signal of an upload fires: a request under way is aborted, a later one is not sent.\<close>

definition on_abort :: "nat \<Rightarrow> client \<Rightarrow> client" where
  "on_abort p s =
     (let s1 = s\<lparr>calls := (calls s)[p := (calls s ! p)\<lparr>call_aborted := True\<rparr>]\<rparr>
      in case call_phase (calls s ! p) of
           Waiting _ \<Rightarrow>
             set_phase p (Finished (Failure \<lparr>err_status = 0, err_message = ''aborted'', err_detail = None\<rparr>)) s1
         | _ \<Rightarrow> s1)"

section \<open>Steps\<close>

inductive step :: "(string \<Rightarrow> json option) \<Rightarrow> client \<Rightarrow> client \<Rightarrow> bool" for parse where
  Start: "step parse s (start_call k path aborted s)"
| Respond: "p < length (calls s) \<Longrightarrow> call_phase (calls s ! p) = Waiting retried \<Longrightarrow>
    step parse s (on_response parse p retried r s)"
| NetworkError: "p < length (calls s) \<Longrightarrow> call_phase (calls s ! p) = Waiting retried \<Longrightarrow>
    step parse s (on_network_error p s)"
| Abort: "p < length (calls s) \<Longrightarrow> call_kind (calls s ! p) = Upload \<Longrightarrow> step parse s (on_abort p s)"
| RefreshDone: "refreshInFlight s = Some i \<Longrightarrow> step parse s (refresh_done i reply s)"
| Resume: "p < length (calls s) \<Longrightarrow> call_phase (calls s ! p) = Refreshing i r \<Longrightarrow>
    i < length (promises s) \<Longrightarrow> promises s ! i = Some good \<Longrightarrow> step parse s (resume parse p r good s)"
| Ensure: "step parse s (snd (ensureValidAccessToken parse now s))"
| SignIn: "step parse s (setTokens a r s)"
| SignOut: "step parse s (clearTokens s)"
| Navigate: "step parse s (s\<lparr>pathname := path\<rparr>)"

inductive reachable :: "(string \<Rightarrow> json option) \<Rightarrow> client \<Rightarrow> bool" for parse where
  New: "reachable parse (new_client w st p)"
| Step: "reachable parse s \<Longrightarrow> step parse s s' \<Longrightarrow> reachable parse s'"

section \<open>Keeping the session alive\<close>

definition REFRESH_SKEW_MS :: int where
  "REFRESH_SKEW_MS = 60000"

definition MIN_DELAY_MS :: int where
  "MIN_DELAY_MS = 15000"

text \<open>
  The delay \<open>schedule\<close> asks for, when it sets a timer (\<open>NaN\<close> counts as 0), and the delay of the browser's timer, which
  keeps the low 32 bits as a signed number and treats a negative one as zero.
\<close>

definition schedule_delay :: "(string \<Rightarrow> json option) \<Rightarrow> int \<Rightarrow> 'a browser_scheme \<Rightarrow> int option" where
  "schedule_delay parse now b =
     (case currentClaims parse b of
        None \<Rightarrow> None
      | Some c \<Rightarrow>
          (if truthy_field ''exp'' c then
             (case json_number (the (member ''exp'' c)) of
                None \<Rightarrow> Some 0
              | Some e \<Rightarrow> Some (max MIN_DELAY_MS (e * 1000 - now - REFRESH_SKEW_MS)))
           else None))"

definition timer_delay :: "int \<Rightarrow> int" where
  "timer_delay ms = max 0 (sint (word_of_int ms :: 32 word))"

text \<open>What the keep-alive timer does: wait for a refresh, leave for the login page, or reschedule.\<close>

datatype keep_alive = AwaitRefresh nat | Bounce | Reschedule

definition keepAlive :: "(string \<Rightarrow> json option) \<Rightarrow> int \<Rightarrow> client \<Rightarrow> keep_alive \<times> client" where
  "keepAlive parse now s =
     (if truthy_str (getRefreshToken s) then
        (let (i, s1) = refreshAccessToken s in (AwaitRefresh i, s1))
      else if \<not> isAuthenticated parse now s then (Bounce, s)
      else (Reschedule, s))"

definition keepAlive_refreshed :: "(string \<Rightarrow> json option) \<Rightarrow> int \<Rightarrow> bool \<Rightarrow> client \<Rightarrow> keep_alive" where
  "keepAlive_refreshed parse now good s =
     (if \<not> good \<and> \<not> isAuthenticated parse now s then Bounce else Reschedule)"

end
