(* ===== verification/ApiProps.thy ===== *)
theory ApiProps
  imports ApiClient
begin

text \<open>
  Properties of the HTTP client: one refresh at a time, at most one repetition of a request, no
  call that waits for ever, sign-out on a final 401, and the delays of the keep-alive timer.
\<close>

section \<open>What the operations leave alone\<close>

lemma setTokens_client [simp]:
  fixes s :: client
  shows "pathname (setTokens a r s) = pathname s" "moves (setTokens a r s) = moves s"
    "refreshInFlight (setTokens a r s) = refreshInFlight s" "promises (setTokens a r s) = promises s"
    "calls (setTokens a r s) = calls s" "sent (setTokens a r s) = sent s"
    "has_window (setTokens a r s) = has_window s"
  by (simp_all add: setTokens_def Let_def)

lemma clearTokens_client [simp]:
  fixes s :: client
  shows "pathname (clearTokens s) = pathname s" "moves (clearTokens s) = moves s"
    "refreshInFlight (clearTokens s) = refreshInFlight s" "promises (clearTokens s) = promises s"
    "calls (clearTokens s) = calls s" "sent (clearTokens s) = sent s"
    "has_window (clearTokens s) = has_window s"
  by (simp_all add: clearTokens_def)

lemma redirect_client [simp]:
  "refreshInFlight (redirectToLogin s) = refreshInFlight s" "promises (redirectToLogin s) = promises s"
  "calls (redirectToLogin s) = calls s" "sent (redirectToLogin s) = sent s"
  by (simp_all add: redirectToLogin_def Let_def)

lemma set_phase_client [simp]:
  "refreshInFlight (set_phase p ph s) = refreshInFlight s" "promises (set_phase p ph s) = promises s"
  "sent (set_phase p ph s) = sent s" "has_window (set_phase p ph s) = has_window s"
  "local_storage (set_phase p ph s) = local_storage s" "moves (set_phase p ph s) = moves s"
  "calls (set_phase p ph s) = (calls s)[p := (calls s ! p)\<lparr>call_phase := ph\<rparr>]"
  by (simp_all add: set_phase_def)

section \<open>The invariant\<close>

fun is_fetch :: "nat \<Rightarrow> request \<Rightarrow> bool" where
  "is_fetch p (Fetch q b retried) \<longleftrightarrow> p = q"
| "is_fetch p (RefreshFetch i t) \<longleftrightarrow> False"

fun is_retry :: "request \<Rightarrow> bool" where
  "is_retry (Fetch q b retried) \<longleftrightarrow> retried"
| "is_retry (RefreshFetch i t) \<longleftrightarrow> False"

definition fetches :: "nat \<Rightarrow> client \<Rightarrow> nat" where
  "fetches p s = length (filter (is_fetch p) (sent s))"

definition call_ok :: "api_call \<Rightarrow> nat \<Rightarrow> nat \<Rightarrow> bool" where
  "call_ok c n m \<longleftrightarrow>
     (case call_phase c of
        Waiting retried \<Rightarrow> n = (if retried then 2 else 1) \<and> (retried \<longrightarrow> may_refresh c False)
      | Refreshing i r \<Rightarrow> n = 1 \<and> i < m \<and> may_refresh c False
      | Finished out \<Rightarrow> n \<le> 2 \<and> (n = 2 \<longrightarrow> may_refresh c False))"

text \<open>A promise is pending exactly while it is the one in flight, and then its request is out.\<close>

definition promises_ok :: "client \<Rightarrow> bool" where
  "promises_ok s \<longleftrightarrow>
     (\<forall>i < length (promises s). promises s ! i = None \<longleftrightarrow> refreshInFlight s = Some i)
     \<and> (\<forall>i. refreshInFlight s = Some i \<longrightarrow> i < length (promises s) \<and> (\<exists>t. RefreshFetch i t \<in> set (sent s)))"

definition api_inv :: "client \<Rightarrow> bool" where
  "api_inv s \<longleftrightarrow>
     promises_ok s
     \<and> (\<forall>p < length (calls s). call_ok (calls s ! p) (fetches p s) (length (promises s)))
     \<and> (\<forall>p \<ge> length (calls s). fetches p s = 0)
     \<and> ((\<exists>q \<in> set (sent s). is_retry q) \<longrightarrow> Some True \<in> set (promises s))"

lemma call_ok_mono: "call_ok c n m \<Longrightarrow> m \<le> m' \<Longrightarrow> call_ok c n m'"
  by (auto simp: call_ok_def split: phase.splits)

lemma call_ok_finished:
  "call_ok c n m \<Longrightarrow> call_ok (c\<lparr>call_phase := Finished out\<rparr>) n m"
  by (auto simp: call_ok_def may_refresh_def split: phase.splits)

lemma call_ok_phase:
  assumes "call_ok c n m" "call_phase c = Waiting False" "may_refresh c False" "i < m"
  shows "call_ok (c\<lparr>call_phase := Refreshing i r\<rparr>) n m"
  using assms by (simp add: call_ok_def may_refresh_def)

lemma call_ok_aborted: "call_ok (c\<lparr>call_aborted := b\<rparr>) n m = call_ok c n m"
  by (simp add: call_ok_def may_refresh_def cong: phase.case_cong)

text \<open>Changing one call, with the promises and the requests of the other calls as before.\<close>

lemma api_inv_update:
  assumes "api_inv s" "promises_ok t" "length (promises s) \<le> length (promises t)"
    and "calls t = (calls s)[p := c]"
    and "p < length (calls s) \<Longrightarrow> call_ok c (fetches p t) (length (promises t))"
    and "\<And>q. q \<noteq> p \<or> length (calls s) \<le> p \<Longrightarrow> fetches q t = fetches q s"
    and "(\<exists>q \<in> set (sent t). is_retry q) \<Longrightarrow> Some True \<in> set (promises t)"
  shows "api_inv t"
proof -
  have "call_ok (calls t ! q) (fetches q t) (length (promises t))" if q: "q < length (calls t)" for q
  proof (cases "q = p")
    case True
    with assms(4,5) q show ?thesis by simp
  next
    case False
    have "call_ok (calls s ! q) (fetches q s) (length (promises s))"
      using assms(1,4) q by (simp add: api_inv_def)
    with False assms(3,4,6) call_ok_mono show ?thesis by simp
  qed
  moreover have "fetches q t = 0" if "length (calls t) \<le> q" for q
    using that assms(1,4) assms(6) [of q] by (cases "q = p") (auto simp: api_inv_def)
  ultimately show ?thesis using assms(2,7) by (simp add: api_inv_def)
qed

lemma api_inv_frame:
  assumes "api_inv s" "calls t = calls s" "promises t = promises s" "refreshInFlight t = refreshInFlight s"
    "sent t = sent s"
  shows "api_inv t"
  using assms by (simp add: api_inv_def promises_ok_def fetches_def)

section \<open>Refreshing\<close>

lemma refresh_shape:
  "\<exists>i pr fl out. refreshAccessToken s = (i, s\<lparr>promises := pr, refreshInFlight := fl, sent := out\<rparr>)
     \<and> (promises_ok s \<longrightarrow> i < length pr \<and> promises_ok (s\<lparr>promises := pr, refreshInFlight := fl, sent := out\<rparr>))
     \<and> (\<exists>new. pr = promises s @ new)
     \<and> (\<forall>p. length (filter (is_fetch p) out) = fetches p s)
     \<and> (\<forall>q \<in> set out. is_retry q \<longrightarrow> q \<in> set (sent s))"
proof (cases "refreshInFlight s")
  case (Some i)
  then have "refreshAccessToken s =
      (i, s\<lparr>promises := promises s, refreshInFlight := refreshInFlight s, sent := sent s\<rparr>)"
    by (simp add: refreshAccessToken_def)
  moreover have "promises_ok s \<longrightarrow> i < length (promises s)" using Some by (simp add: promises_ok_def)
  ultimately show ?thesis
    by (intro exI [of _ i] exI [of _ "promises s"] exI [of _ "refreshInFlight s"] exI [of _ "sent s"])
      (simp add: fetches_def)
next
  case None
  let ?n = "length (promises s)"
  show ?thesis
  proof (cases "truthy_str (getRefreshToken s)")
    case True
    let ?t = "RefreshFetch ?n (the (getRefreshToken s))"
    have "refreshAccessToken s =
        (?n, s\<lparr>promises := promises s @ [None], refreshInFlight := Some ?n, sent := sent s @ [?t]\<rparr>)"
      using None True by (simp add: refreshAccessToken_def Let_def)
    moreover have "promises_ok s \<longrightarrow>
        promises_ok (s\<lparr>promises := promises s @ [None], refreshInFlight := Some ?n, sent := sent s @ [?t]\<rparr>)"
      using None by (auto simp: promises_ok_def nth_append less_Suc_eq)
    ultimately show ?thesis
      by (intro exI [of _ ?n] exI [of _ "promises s @ [None]"] exI [of _ "Some ?n"] exI [of _ "sent s @ [?t]"])
        (auto simp: fetches_def)
  next
    case False
    have "refreshAccessToken s =
        (?n, s\<lparr>promises := promises s @ [Some False], refreshInFlight := None, sent := sent s\<rparr>)"
      using None False by (simp add: refreshAccessToken_def Let_def)
    moreover have "promises_ok s \<longrightarrow>
        promises_ok (s\<lparr>promises := promises s @ [Some False], refreshInFlight := None, sent := sent s\<rparr>)"
      using None by (auto simp: promises_ok_def nth_append less_Suc_eq)
    ultimately show ?thesis
      by (intro exI [of _ ?n] exI [of _ "promises s @ [Some False]"] exI [of _ "None"] exI [of _ "sent s"])
        (auto simp: fetches_def)
  qed
qed

text \<open>The same, as facts about the two results.\<close>

lemma refresh_facts:
  assumes "refreshAccessToken s = (i, t)"
  shows "calls t = calls s" "length (promises s) \<le> length (promises t)" "fetches p t = fetches p s"
    and "promises_ok s \<Longrightarrow> promises_ok t \<and> i < length (promises t)"
    and "q \<in> set (sent t) \<Longrightarrow> is_retry q \<Longrightarrow> q \<in> set (sent s)"
    and "set (promises s) \<subseteq> set (promises t)"
    and "browser.truncate t = browser.truncate s"
proof -
  obtain pr fl out where t: "t = s\<lparr>promises := pr, refreshInFlight := fl, sent := out\<rparr>"
    and ok: "promises_ok s \<longrightarrow> i < length pr \<and> promises_ok t"
    and app: "\<exists>new. pr = promises s @ new"
    and cnt: "\<forall>p. length (filter (is_fetch p) out) = fetches p s"
    and ret: "\<forall>q \<in> set out. is_retry q \<longrightarrow> q \<in> set (sent s)"
    using refresh_shape [of s] assms by auto
  show "calls t = calls s" "length (promises s) \<le> length (promises t)" "fetches p t = fetches p s"
    "promises_ok s \<Longrightarrow> promises_ok t \<and> i < length (promises t)"
    "q \<in> set (sent t) \<Longrightarrow> is_retry q \<Longrightarrow> q \<in> set (sent s)"
    "set (promises s) \<subseteq> set (promises t)" "browser.truncate t = browser.truncate s"
    using ok app cnt ret by (auto simp: t fetches_def browser.truncate_def)
qed

lemma api_inv_refresh:
  assumes "api_inv s" "refreshAccessToken s = (i, t)"
  shows "api_inv t"
proof -
  have "promises_ok s" using assms(1) by (simp add: api_inv_def)
  note f = refresh_facts [OF assms(2)]
  show ?thesis
    unfolding api_inv_def
  proof (intro conjI)
    show "promises_ok t" using f(4) \<open>promises_ok s\<close> by blast
    show "\<forall>p<length (calls t). call_ok (calls t ! p) (fetches p t) (length (promises t))"
      using assms(1) call_ok_mono f(2) unfolding f(1,3) api_inv_def by blast
    show "\<forall>p\<ge>length (calls t). fetches p t = 0" using assms(1) by (simp add: f(1,3) api_inv_def)
    show "(\<exists>q\<in>set (sent t). is_retry q) \<longrightarrow> Some True \<in> set (promises t)"
      using assms(1) f(5,6) unfolding api_inv_def by blast
  qed
qed

section \<open>Calls\<close>

lemma promises_ok_frame:
  "promises t = promises s \<Longrightarrow> refreshInFlight t = refreshInFlight s \<Longrightarrow> set (sent s) \<subseteq> set (sent t) \<Longrightarrow>
     promises_ok s \<Longrightarrow> promises_ok t"
  unfolding promises_ok_def by (metis subsetD)

lemma api_inv_phase:
  assumes "api_inv s" "p < length (calls s)"
    and "call_ok ((calls s ! p)\<lparr>call_phase := ph\<rparr>) (fetches p s) (length (promises s))"
  shows "api_inv (set_phase p ph s)"
proof (rule api_inv_update [OF assms(1)])
  show "promises_ok (set_phase p ph s)"
    by (rule promises_ok_frame [of _ s]) (use assms(1) in \<open>simp_all add: api_inv_def\<close>)
  show "calls (set_phase p ph s) = (calls s)[p := (calls s ! p)\<lparr>call_phase := ph\<rparr>]" by simp
qed (use assms in \<open>simp_all add: fetches_def api_inv_def\<close>)

lemma api_inv_finish:
  assumes "api_inv s" "p < length (calls s)"
  shows "api_inv (set_phase p (Finished out) s)"
  by (rule api_inv_phase [OF assms call_ok_finished]) (use assms in \<open>simp add: api_inv_def\<close>)

lemma api_inv_redirect: "api_inv s \<Longrightarrow> api_inv (redirectToLogin s)"
  by (rule api_inv_frame) simp_all

lemma api_inv_send:
  assumes "api_inv s" "p < length (calls s)"
    and "call_phase (calls s ! p) = Refreshing i r" "Some True \<in> set (promises s)"
  shows "api_inv (send_call p True s)"
proof (cases "call_kind (calls s ! p) = Upload \<and> call_aborted (calls s ! p)")
  case True
  then show ?thesis using assms(1,2) by (simp add: send_call_def api_inv_finish)
next
  case False
  let ?t = "(set_phase p (Waiting True) s)\<lparr>sent := sent s @ [Fetch p (bearer s) True]\<rparr>"
  have ok: "call_ok (calls s ! p) (fetches p s) (length (promises s))" using assms(1,2) by (simp add: api_inv_def)
  have "api_inv ?t"
  proof (rule api_inv_update [OF assms(1)])
    show "promises_ok ?t"
      by (rule promises_ok_frame [of _ s]) (use assms(1) in \<open>auto simp: api_inv_def\<close>)
    show "calls ?t = (calls s)[p := (calls s ! p)\<lparr>call_phase := Waiting True\<rparr>]" by simp
    show "call_ok ((calls s ! p)\<lparr>call_phase := Waiting True\<rparr>) (fetches p ?t) (length (promises ?t))"
      using ok assms(3) by (simp add: call_ok_def fetches_def may_refresh_def)
  qed (use assms in \<open>auto simp: fetches_def\<close>)
  moreover have "send_call p True s = ?t" unfolding send_call_def using False by (rule if_not_P)
  ultimately show ?thesis by simp
qed

lemma api_inv_start:
  assumes "api_inv s" shows "api_inv (start_call k path ab s)"
proof -
  let ?p = "length (calls s)"
  let ?s1 = "s\<lparr>calls := calls s @ [\<lparr>call_kind = k, call_path = path, call_aborted = ab, call_phase = Waiting False\<rparr>]\<rparr>"
  let ?t = "start_call k path ab s"
  have shape: "promises ?t = promises s" "refreshInFlight ?t = refreshInFlight s"
    "length (calls ?t) = Suc ?p" "\<And>q. q < ?p \<Longrightarrow> calls ?t ! q = calls s ! q"
    "\<And>q. q \<noteq> ?p \<Longrightarrow> fetches q ?t = fetches q s" "set (sent s) \<subseteq> set (sent ?t)"
    "\<And>q. q \<in> set (sent ?t) \<Longrightarrow> is_retry q \<Longrightarrow> q \<in> set (sent s)"
    by (auto simp: start_call_def send_call_def Let_def fetches_def nth_append split: if_splits)
  have none: "fetches ?p s = 0" using assms by (simp add: api_inv_def)
  then have new: "call_ok (calls ?t ! ?p) (fetches ?p ?t) (length (promises s))"
    by (auto simp: start_call_def send_call_def Let_def fetches_def call_ok_def)
  have old: "call_ok (calls s ! q) (fetches q s) (length (promises s))" if "q < ?p" for q
    using assms that by (simp add: api_inv_def)
  have ok: "promises_ok ?t"
    by (rule promises_ok_frame [of _ s]) (use shape assms in \<open>simp_all add: api_inv_def\<close>)
  have "call_ok (calls ?t ! q) (fetches q ?t) (length (promises ?t))" if "q < length (calls ?t)" for q
    using that new old shape(1,3-5) by (cases "q = ?p") simp_all
  moreover have "fetches q ?t = 0" if "length (calls ?t) \<le> q" for q
    using that assms shape(3,5) by (simp add: api_inv_def)
  moreover have "(\<exists>q \<in> set (sent ?t). is_retry q) \<longrightarrow> Some True \<in> set (promises ?t)"
    using assms shape(1,7) unfolding api_inv_def by auto
  ultimately show ?thesis using ok unfolding api_inv_def by blast
qed

lemma api_inv_response:
  assumes "api_inv s" "p < length (calls s)" "call_phase (calls s ! p) = Waiting retried"
  shows "api_inv (on_response parse p retried r s)"
proof (cases "status r = 401 \<and> may_refresh (calls s ! p) retried")
  case True
  obtain i t where t: "refreshAccessToken s = (i, t)" by force
  note f = refresh_facts [OF t]
  have inv: "api_inv t" by (rule api_inv_refresh [OF assms(1) t])
  have i: "i < length (promises t)" using f(4) assms(1) by (simp add: api_inv_def)
  have ok: "call_ok (calls t ! p) (fetches p t) (length (promises t))"
    using inv assms(2) f(1) by (simp add: api_inv_def)
  have "may_refresh (calls t ! p) False" "call_phase (calls t ! p) = Waiting False"
    using True assms(3) f(1) by (auto simp: may_refresh_def)
  then have "api_inv (set_phase p (Refreshing i r) t)"
    by (intro api_inv_phase [OF inv] call_ok_phase ok i) (use assms(2) f(1) in simp_all)
  with True t show ?thesis by (simp add: on_response_def)
next
  case False
  then show ?thesis
    using assms(1,2) by (auto simp: on_response_def Let_def intro!: api_inv_finish api_inv_redirect)
qed

lemma api_inv_resume:
  assumes "api_inv s" "p < length (calls s)" "call_phase (calls s ! p) = Refreshing i r"
    and "i < length (promises s)" "promises s ! i = Some good"
  shows "api_inv (resume parse p r good s)"
proof (cases good)
  case True
  then have "Some True \<in> set (promises s)" using assms(4,5) nth_mem by metis
  with True api_inv_send [OF assms(1-3)] show ?thesis by (simp add: resume_def)
next
  case False
  then show ?thesis using assms(1,2) by (simp add: resume_def api_inv_finish api_inv_redirect)
qed

lemma api_inv_abort:
  assumes "api_inv s" "p < length (calls s)"
  shows "api_inv (on_abort p s)"
proof -
  let ?s1 = "s\<lparr>calls := (calls s)[p := (calls s ! p)\<lparr>call_aborted := True\<rparr>]\<rparr>"
  have ok: "call_ok (calls s ! p) (fetches p s) (length (promises s))" using assms by (simp add: api_inv_def)
  have "api_inv ?s1"
  proof (rule api_inv_update [OF assms(1)])
    show "promises_ok ?s1" by (rule promises_ok_frame [of _ s]) (use assms(1) in \<open>simp_all add: api_inv_def\<close>)
    show "calls ?s1 = (calls s)[p := (calls s ! p)\<lparr>call_aborted := True\<rparr>]" by simp
    show "call_ok ((calls s ! p)\<lparr>call_aborted := True\<rparr>) (fetches p ?s1) (length (promises ?s1))"
      using ok by (simp add: call_ok_aborted fetches_def)
  qed (use assms in \<open>simp_all add: fetches_def api_inv_def\<close>)
  then show ?thesis
    using assms(2) by (auto simp: on_abort_def Let_def intro!: api_inv_finish split: phase.splits)
qed

lemma refresh_done_shape:
  "\<exists>g st. refresh_done i reply s =
     s\<lparr>local_storage := st, refreshInFlight := None, promises := (promises s)[i := Some g]\<rparr>"
proof (cases "refresh_tokens reply")
  case None
  then have "refresh_done i reply s = s\<lparr>local_storage := local_storage s, refreshInFlight := None,
      promises := (promises s)[i := Some False]\<rparr>"
    by (simp add: refresh_done_def)
  then show ?thesis by blast
next
  case (Some ar)
  obtain a r where ar: "ar = (a, r)" by force
  have "refresh_done i reply s = s\<lparr>local_storage := local_storage (setTokens a r s), refreshInFlight := None,
      promises := (promises s)[i := Some True]\<rparr>"
    using Some ar by (simp add: refresh_done_def setTokens_def Let_def)
  then show ?thesis by blast
qed

lemma api_inv_done:
  assumes "api_inv s" "refreshInFlight s = Some i"
  shows "api_inv (refresh_done i reply s)"
proof -
  obtain g st where t: "refresh_done i reply s =
      s\<lparr>local_storage := st, refreshInFlight := None, promises := (promises s)[i := Some g]\<rparr>"
    using refresh_done_shape by blast
  have ok: "promises_ok s" and i: "i < length (promises s)"
    using assms by (simp_all add: api_inv_def promises_ok_def)
  have old: "promises s ! i = None" using ok i assms(2) by (simp add: promises_ok_def)
  have "promises_ok (refresh_done i reply s)"
    using ok assms(2) by (auto simp: t promises_ok_def nth_list_update)
  moreover have "Some True \<in> set (promises s) \<Longrightarrow> Some True \<in> set ((promises s)[i := Some g])"
    using old i by (metis in_set_conv_nth length_list_update nth_list_update_neq option.distinct(1))
  ultimately show ?thesis using assms(1) by (auto simp: api_inv_def t fetches_def)
qed

lemma promises_ok_resolved:
  assumes "promises_ok s"
  shows "promises_ok (s\<lparr>promises := promises s @ [Some g]\<rparr>)"
proof -
  let ?n = "length (promises s)"
  have fl: "refreshInFlight s = Some i \<Longrightarrow> i < ?n \<and> (\<exists>t. RefreshFetch i t \<in> set (sent s))" for i
    using assms by (simp add: promises_ok_def)
  have "(promises s @ [Some g]) ! i = None \<longleftrightarrow> refreshInFlight s = Some i" if "i < Suc ?n" for i
  proof (cases "i = ?n")
    case True
    then show ?thesis using fl [of i] by auto
  next
    case False
    then show ?thesis using that assms by (simp add: promises_ok_def nth_append)
  qed
  moreover have "i < Suc ?n" if "refreshInFlight s = Some i" for i using fl [OF that] by simp
  ultimately show ?thesis using fl by (simp add: promises_ok_def)
qed

lemma api_inv_ensure:
  assumes inv: "api_inv s"
  shows "api_inv (snd (ensureValidAccessToken parse now s))"
proof (cases "isAuthenticated parse now s")
  case True
  let ?t = "s\<lparr>promises := promises s @ [Some True]\<rparr>"
  have "promises_ok ?t" by (rule promises_ok_resolved) (use inv in \<open>simp add: api_inv_def\<close>)
  moreover have "\<forall>p<length (calls ?t). call_ok (calls ?t ! p) (fetches p ?t) (length (promises ?t))"
    using inv call_ok_mono [of _ _ "length (promises s)"] unfolding api_inv_def fetches_def by simp
  moreover have "\<forall>p\<ge>length (calls ?t). fetches p ?t = 0"
    using inv unfolding api_inv_def fetches_def by simp
  ultimately have "api_inv ?t" unfolding api_inv_def by simp
  then show ?thesis using True by (simp add: ensureValidAccessToken_def)
next
  case False
  obtain i t where "refreshAccessToken s = (i, t)" by force
  with False inv api_inv_refresh show ?thesis by (simp add: ensureValidAccessToken_def)
qed

lemma api_inv_step: "step parse s s' \<Longrightarrow> api_inv s \<Longrightarrow> api_inv s'"
proof (induction rule: step.induct)
  case (SignIn s a r)
  then show ?case by (rule api_inv_frame [of s]) simp_all
next
  case (SignOut s)
  then show ?case by (rule api_inv_frame [of s]) simp_all
next
  case (Navigate s path)
  then show ?case by (rule api_inv_frame [of s]) simp_all
qed (simp_all add: api_inv_start api_inv_response api_inv_finish on_network_error_def api_inv_abort
    api_inv_done api_inv_resume api_inv_ensure)

lemma api_inv_reachable: "reachable parse s \<Longrightarrow> api_inv s"
proof (induction rule: reachable.induct)
  case (New w st p)
  show ?case by (simp add: api_inv_def promises_ok_def new_client_def fetches_def)
qed (rule api_inv_step)

section \<open>One refresh, one repetition\<close>


text \<open>A run in which a call meets a 401, refreshes and repeats its request.\<close>

definition signed_in :: client where
  "signed_in = new_client True [ACCESS_KEY \<mapsto> ''a'', REFRESH_KEY \<mapsto> ''r''] ''/nodes''"

definition unauthorized :: response where
  "unauthorized = \<lparr>status = 401, statusText = ''Unauthorized'', response_text = [], content_type = None\<rparr>"

definition after_start :: client where
  "after_start = start_call (Api False) ''/nodes'' False signed_in"

definition after_401 :: client where
  "after_401 = on_response (\<lambda>_. None) 0 False unauthorized after_start"

definition after_refresh :: client where
  "after_refresh = refresh_done 0 (RefreshBody (JObj [(''access_token'', JStr ''b'')])) after_401"

definition after_resume :: client where
  "after_resume = resume (\<lambda>_. None) 0 unauthorized True after_refresh"

lemma run_facts:
  "0 < length (calls after_start)" "call_phase (calls after_start ! 0) = Waiting False"
  "refreshInFlight after_401 = Some 0"
  "0 < length (calls after_refresh)" "call_phase (calls after_refresh ! 0) = Refreshing 0 unauthorized"
  "0 < length (promises after_refresh)" "promises after_refresh ! 0 = Some True"
  "fetches 0 after_resume = 2" "length (calls after_resume) = 1"
  "call_phase (calls after_resume ! 0) = Waiting True"
  by code_simp+

lemma run_reachable:
  "reachable (\<lambda>_. None) after_start" "reachable (\<lambda>_. None) after_401" "reachable (\<lambda>_. None) after_resume"
proof -
  show start: "reachable (\<lambda>_. None) after_start"
    unfolding after_start_def signed_in_def by (rule reachable.Step [OF reachable.New step.Start])
  show a401: "reachable (\<lambda>_. None) after_401"
    unfolding after_401_def by (rule reachable.Step [OF start step.Respond [OF run_facts(1,2)]])
  have "reachable (\<lambda>_. None) after_refresh"
    unfolding after_refresh_def by (rule reachable.Step [OF a401 step.RefreshDone [OF run_facts(3)]])
  then show "reachable (\<lambda>_. None) after_resume"
    unfolding after_resume_def by (rule reachable.Step [OF _ step.Resume [OF run_facts(4-7)]])
qed


section \<open>No call waits for ever\<close>

text \<open>How many of its own steps a call has left at most.\<close>

definition rank :: "client \<Rightarrow> nat \<Rightarrow> nat" where
  "rank s p =
     (case call_phase (calls s ! p) of
        Waiting False \<Rightarrow> 3 | Refreshing _ _ \<Rightarrow> 2 | Waiting True \<Rightarrow> 1 | Finished _ \<Rightarrow> 0)"

lemma rank_set_phase:
  "p < length (calls s) \<Longrightarrow> rank (set_phase p ph s) q =
     (if q = p then (case ph of Waiting False \<Rightarrow> 3 | Refreshing _ _ \<Rightarrow> 2 | Waiting True \<Rightarrow> 1 | Finished _ \<Rightarrow> 0)
      else rank s q)"
  by (simp add: rank_def)

lemma rank_calls: "calls t = calls s \<Longrightarrow> rank t q = rank s q"
  by (simp add: rank_def)

lemma rank_send:
  "p < length (calls s) \<Longrightarrow> rank (send_call p True s) q = (if q = p then rank (send_call p True s) p else rank s q)
     \<and> rank (send_call p True s) p \<le> 1"
  by (auto simp: send_call_def rank_def)

lemma rank_response:
  assumes "p < length (calls s)" "call_phase (calls s ! p) = Waiting retried"
  shows "rank (on_response parse p retried r s) p < rank s p"
    "q \<noteq> p \<Longrightarrow> rank (on_response parse p retried r s) q = rank s q"
proof -
  obtain i t where t: "refreshAccessToken s = (i, t)" by force
  note c = refresh_facts(1) [OF t]
  show "rank (on_response parse p retried r s) p < rank s p"
    using assms by (cases retried) (auto simp: on_response_def Let_def t c rank_def may_refresh_def)
  show "rank (on_response parse p retried r s) q = rank s q" if "q \<noteq> p"
    using that by (auto simp: on_response_def Let_def t c rank_def)
qed

lemma rank_resume:
  assumes "p < length (calls s)" "call_phase (calls s ! p) = Refreshing i r"
  shows "rank (resume parse p r good s) p < rank s p"
    "q \<noteq> p \<Longrightarrow> rank (resume parse p r good s) q = rank s q"
  using assms rank_send [of p s q] by (auto simp: resume_def rank_def send_call_def)

lemma rank_step:
  assumes "step parse s s'" "q < length (calls s)"
  shows "rank s' q \<le> rank s q"
  using assms
proof (induction rule: step.induct)
  case (Start s k path ab)
  then show ?case by (auto simp: start_call_def send_call_def rank_def nth_append)
next
  case (Respond p s retried r)
  then show ?case using rank_response [of p s retried] by (cases "q = p") (simp_all add: less_imp_le)
next
  case (NetworkError p s retried)
  then show ?case by (cases "q = p") (simp_all add: on_network_error_def rank_def)
next
  case (Abort p s)
  then show ?case by (auto simp: on_abort_def Let_def rank_def nth_list_update split: phase.splits)
next
  case (RefreshDone s i reply)
  obtain g st where "refresh_done i reply s =
      s\<lparr>local_storage := st, refreshInFlight := None, promises := (promises s)[i := Some g]\<rparr>"
    using refresh_done_shape by blast
  then show ?case by (simp add: rank_def)
next
  case (Resume p s i r good)
  then show ?case using rank_resume [of p s i r] by (cases "q = p") (simp_all add: less_imp_le)
next
  case (Ensure s now)
  obtain i t where t: "refreshAccessToken s = (i, t)" by force
  show ?case using refresh_facts(1) [OF t] by (simp add: ensureValidAccessToken_def t rank_def)
qed (simp_all add: rank_def)

text \<open>C14: No call waits for ever: no step takes a call back, a response, a failure or the end of
  the refresh it waits for takes it on, and while it waits for a refresh that refresh is under
  way, and any reply to it, successful or not, lets every waiting call go on. After at most three
  steps of its own a call is finished.\<close>

theorem api_calls_progress:
  assumes "reachable parse s" "p < length (calls s)"
  shows "(\<forall>s'. step parse s s' \<longrightarrow> rank s' p \<le> rank s p) \<and> rank s p \<le> 3
    \<and> (case call_phase (calls s ! p) of
         Waiting retried \<Rightarrow> \<forall>r. rank (on_response parse p retried r s) p < rank s p
       | Refreshing i r \<Rightarrow>
           (case promises s ! i of
              Some good \<Rightarrow> rank (resume parse p r good s) p < rank s p
            | None \<Rightarrow> refreshInFlight s = Some i \<and> (\<forall>reply. promises (refresh_done i reply s) ! i \<noteq> None))
       | Finished out \<Rightarrow> rank s p = 0)"
proof (intro conjI)
  have inv: "api_inv s" by (rule api_inv_reachable [OF assms(1)])
  show "\<forall>s'. step parse s s' \<longrightarrow> rank s' p \<le> rank s p" using rank_step assms(2) by blast
  show "rank s p \<le> 3" by (simp add: rank_def split: phase.split bool.split)
  show "case call_phase (calls s ! p) of
         Waiting retried \<Rightarrow> \<forall>r. rank (on_response parse p retried r s) p < rank s p
       | Refreshing i r \<Rightarrow>
           (case promises s ! i of
              Some good \<Rightarrow> rank (resume parse p r good s) p < rank s p
            | None \<Rightarrow> refreshInFlight s = Some i \<and> (\<forall>reply. promises (refresh_done i reply s) ! i \<noteq> None))
       | Finished out \<Rightarrow> rank s p = 0"
  proof (cases "call_phase (calls s ! p)")
    case (Waiting retried)
    then show ?thesis using rank_response(1) [OF assms(2) Waiting] by simp
  next
    case (Refreshing i r)
    have "call_ok (calls s ! p) (fetches p s) (length (promises s))" using inv assms(2) by (simp add: api_inv_def)
    then have i: "i < length (promises s)" using Refreshing by (simp add: call_ok_def)
    show ?thesis
    proof (cases "promises s ! i")
      case None
      have "refreshInFlight s = Some i" using inv i None by (simp add: api_inv_def promises_ok_def)
      moreover have "promises (refresh_done i reply s) ! i \<noteq> None" for reply
        using refresh_done_shape [of i reply s] i by auto
      ultimately show ?thesis using Refreshing None by simp
    next
      case (Some good)
      then show ?thesis using Refreshing rank_resume(1) [OF assms(2) Refreshing] by simp
    qed
  next
    case (Finished out)
    then show ?thesis by (simp add: rank_def)
  qed
qed

theorem api_calls_progress_witness: "rank (on_response (\<lambda>_. None) 0 True unauthorized after_resume) 0 < 1"
proof -
  have "rank (on_response (\<lambda>_. None) 0 True unauthorized after_resume) 0 < rank after_resume 0"
    using api_calls_progress [OF run_reachable(3), of 0] run_facts(9,10) by simp
  then show ?thesis using run_facts(10) by (simp add: rank_def)
qed

section \<open>Rejected sessions\<close>

text \<open>A call that ends with a 401 it may not repeat, or whose refresh failed, leaves no token
  in the storage, has sent a page that is not the login page there, and fails with status 401 and
  the server's error text where its JSON body has one.\<close>

theorem rejected_session_signs_out:
  assumes "p < length (calls s)" "status r = 401" "call_kind (calls s ! p) = Api raw"
    and "s' = (if refused then resume parse p r False s else on_response parse p retried r s)"
    and "refused \<or> \<not> may_refresh (calls s ! p) retried"
  shows "getAccessToken s' = None \<and> getRefreshToken s' = None
    \<and> (has_window s \<longrightarrow> \<not> prefix ''/login'' (pathname s) \<longrightarrow> moves s' = moves s @ [''/login''])
    \<and> call_phase (calls s' ! p) = Finished (Failure (api_error parse r))
    \<and> err_status (api_error parse r) = 401
    \<and> (\<forall>d m. parse (response_text r) = Some d \<longrightarrow> member ''error'' d = Some m \<longrightarrow>
          err_message (api_error parse r) = js_String m)"
proof -
  have s': "s' = set_phase p (Finished (Failure (api_error parse r))) (redirectToLogin s)"
    using assms by (auto simp: on_response_def resume_def Let_def final_outcome_def ok_def)
  let ?t = "redirectToLogin s"
  have moves: "moves ?t = (if has_window s \<and> \<not> prefix ''/login'' (pathname s) then moves s @ [''/login''] else moves s)"
    by (simp add: redirectToLogin_def Let_def)
  have storage: "has_window ?t = has_window (clearTokens s)" "local_storage ?t = local_storage (clearTokens s)"
    by (simp_all add: redirectToLogin_def Let_def)
  have "getAccessToken ?t = None" "getRefreshToken ?t = None"
    using tok.access_clear [of s] tok.refresh_clear [of s]
    unfolding getAccessToken_def getRefreshToken_def storage by blast+
  moreover have "getAccessToken s' = getAccessToken ?t" "getRefreshToken s' = getRefreshToken ?t"
    by (simp_all add: s' getAccessToken_def getRefreshToken_def)
  ultimately have "getAccessToken s' = None" "getRefreshToken s' = None" by simp_all
  moreover have "err_status (api_error parse r) = 401"
    using assms(2) by (simp add: api_error_def split: option.split)
  moreover have "\<forall>d m. parse (response_text r) = Some d \<longrightarrow> member ''error'' d = Some m \<longrightarrow>
      err_message (api_error parse r) = js_String m"
    by (simp add: api_error_def error_text_def)
  ultimately show ?thesis using assms(1) moves by (simp add: s')
qed

theorem rejected_session_signs_out_witness:
  "getAccessToken (on_response (\<lambda>_. None) 0 True unauthorized after_resume) = None"
proof -
  have facts: "0 < length (calls after_resume)" "status unauthorized = 401"
    "call_kind (calls after_resume ! 0) = Api False"
    by code_simp+
  show ?thesis
    using rejected_session_signs_out [OF facts, where refused = False and parse = "\<lambda>_. None" and retried = True]
    by (simp add: may_refresh_def)
qed

section \<open>The keep-alive timer\<close>

text \<open>The keep-alive waits at least 15 seconds and at most until a minute before the expiry of
  a token that lives longer than that; but an expiry more than 2^31 milliseconds away, within
  the next 2^31, wraps around in the browser's timer and fires at once.\<close>

theorem keep_alive_delay:
  assumes "currentClaims parse b = Some c" "member ''exp'' c = Some (JNum e)" "e \<noteq> 0"
    and "d = e * 1000 - now - REFRESH_SKEW_MS"
  shows "schedule_delay parse now b = Some (max MIN_DELAY_MS d)
    \<and> (d < 2 ^ 31 \<longrightarrow> timer_delay (max MIN_DELAY_MS d) = max MIN_DELAY_MS d)
    \<and> (2 ^ 31 \<le> d \<and> d < 2 ^ 32 \<longrightarrow> timer_delay (max MIN_DELAY_MS d) = 0)"
proof (intro conjI impI)
  show "schedule_delay parse now b = Some (max MIN_DELAY_MS d)"
    using assms by (simp add: schedule_delay_def truthy_field_def)
  have wrap: "sint (word_of_int k :: 32 word) = (k + 2 ^ 31) mod 2 ^ 32 - 2 ^ 31" for k
    by (simp add: signed_of_int signed_take_bit_eq_take_bit_shift take_bit_eq_mod)
  {
    assume "d < 2 ^ 31"
    then have "0 \<le> max MIN_DELAY_MS d + 2 ^ 31" "max MIN_DELAY_MS d + 2 ^ 31 < 2 ^ 32" "0 \<le> max MIN_DELAY_MS d"
      by (auto simp: MIN_DELAY_MS_def)
    then show "timer_delay (max MIN_DELAY_MS d) = max MIN_DELAY_MS d"
      by (simp add: timer_delay_def wrap)
  }
  {
    assume far: "2 ^ 31 \<le> d \<and> d < 2 ^ 32"
    then have max: "max MIN_DELAY_MS d = d" by (simp add: MIN_DELAY_MS_def)
    have "(d + 2 ^ 31) mod 2 ^ 32 = (d + 2 ^ 31 - 2 ^ 32) mod 2 ^ 32" by (rule minus_mod_self2 [symmetric])
    also have "\<dots> = d + 2 ^ 31 - 2 ^ 32" using far by (intro mod_pos_pos_trivial) auto
    finally show "timer_delay (max MIN_DELAY_MS d) = 0" using far by (simp add: timer_delay_def wrap max)
  }
qed

theorem keep_alive_delay_witness:
  "let b = \<lparr>has_window = True, local_storage = [ACCESS_KEY \<mapsto> ''h..s'']\<rparr>;
       parse = (\<lambda>_. Some (JObj [(''exp'', JNum 3000060)]))
   in timer_delay (the (schedule_delay parse 0 b)) = 0"
proof -
  let ?b = "\<lparr>has_window = True, local_storage = [ACCESS_KEY \<mapsto> ''h..s'']\<rparr>"
  let ?parse = "\<lambda>_. Some (JObj [(''exp'', JNum 3000060)])"
  have "currentClaims ?parse ?b = Some (JObj [(''exp'', JNum 3000060)])"
    by (simp add: currentClaims_def getAccessToken_def parseClaims_def atob_def strip_pad_def)
  from keep_alive_delay [OF this, of 3000060 3000000000 0] show ?thesis
    by (simp add: REFRESH_SKEW_MS_def)
qed

end
