(* ===== verification/FrameWire.thy ===== *)
theory FrameWire
  imports Base64 "HOL-Library.Word" "HOL-Library.Monad_Syntax"
begin

unbundle bit_operations_syntax

text \<open>
  The binary wire format of the desktop stream: the decoder of the browser
  (\<open>lib/desktop/frame-client.ts\<close>, from \<open>handleBinaryV2\<close> down) and the encoder of the gateway
  (\<open>internal/desktop/binary_frame.go\<close>) that it must agree with. Bytes are 8-bit words and the
  fields of a header 32-bit words in big-endian order. A read of a \<open>DataView\<close> beyond its end
  raises, which is \<open>None\<close>; the decoder is shown never to do so.
\<close>

type_synonym byte = "8 word"

section \<open>Types\<close>

datatype Encoding = RawBgra | ZlibBgra | ZstdBgra | Jpeg | Png | H264 | Rfx

datatype CursorEncoding = CursorRaw | CursorPng | CursorSystem

record FrameRectMeta =
  fr_x :: int
  fr_y :: int
  fr_width :: int
  fr_height :: int
  fr_encoding :: Encoding
  fr_keyframe :: "bool option"

record FrameRect = FrameRectMeta +
  fr_payload :: string

type_synonym FrameBytes = "FrameRectMeta \<times> byte list"

section \<open>Reading and writing integers\<close>

definition getUint8 :: "byte list \<Rightarrow> nat \<Rightarrow> byte option" where
  "getUint8 v off = (if off < length v then Some (v ! off) else None)"

definition be32 :: "byte list \<Rightarrow> 32 word" where
  "be32 bs = push_bit 24 (ucast (bs ! 0)) OR push_bit 16 (ucast (bs ! 1))
     OR push_bit 8 (ucast (bs ! 2)) OR ucast (bs ! 3)"

definition getUint32 :: "byte list \<Rightarrow> nat \<Rightarrow> 32 word option" where
  "getUint32 v off = (if off + 4 \<le> length v then Some (be32 (take 4 (drop off v))) else None)"

definition put_uint32 :: "32 word \<Rightarrow> byte list" where
  "put_uint32 w = [ucast (drop_bit 24 w), ucast (drop_bit 16 w), ucast (drop_bit 8 w), ucast w]"

lemma length_put_uint32 [simp]: "length (put_uint32 w) = 4"
  by (simp add: put_uint32_def)

lemma be32_put [simp]: "be32 (put_uint32 w) = w"
proof (rule bit_word_eqI)
  fix n assume "n < LENGTH(32)"
  then consider "n < 8" | "8 \<le> n" "n < 16" | "16 \<le> n" "n < 24" | "24 \<le> n" "n < 32" by force
  then show "bit (be32 (put_uint32 w)) n = bit w n"
    by cases (auto simp: be32_def put_uint32_def bit_simps)
qed

lemma getUint32_put:
  assumes "length a = off"
  shows "getUint32 (a @ put_uint32 w @ b) off = Some w"
  using assms by (simp add: getUint32_def)

text \<open>\<open>new DataView(buffer, off, n)\<close> and \<open>new Uint8Array(buffer, off, n)\<close> raise beyond the end.\<close>

definition sub_view :: "byte list \<Rightarrow> nat \<Rightarrow> nat \<Rightarrow> byte list option" where
  "sub_view v off n = (if off + n \<le> length v then Some (take n (drop off v)) else None)"

section \<open>Headers\<close>

record frame_header =
  hd_kind :: byte
  hd_encoding :: byte
  hd_flags :: byte
  hd_x :: "32 word"
  hd_y :: "32 word"
  hd_width :: "32 word"
  hd_height :: "32 word"
  hd_payload :: "32 word"

definition BINARY_HEADER_SIZE :: nat where
  "BINARY_HEADER_SIZE = 32"

definition BINARY_KIND_JSON :: byte where "BINARY_KIND_JSON = 1"
definition BINARY_KIND_RECT :: byte where "BINARY_KIND_RECT = 2"
definition BINARY_KIND_CURSOR :: byte where "BINARY_KIND_CURSOR = 3"
definition BINARY_KIND_BATCH :: byte where "BINARY_KIND_BATCH = 4"

definition BINARY_FLAG_KEYFRAME :: byte where
  "BINARY_FLAG_KEYFRAME = 1"

lemmas kind_defs = BINARY_KIND_JSON_def BINARY_KIND_RECT_def BINARY_KIND_CURSOR_def BINARY_KIND_BATCH_def

definition read_header :: "byte list \<Rightarrow> frame_header option" where
  "read_header view = do {
     kind \<leftarrow> getUint8 view 0;
     encoding \<leftarrow> getUint8 view 1;
     flags \<leftarrow> getUint8 view 2;
     x \<leftarrow> getUint32 view 8;
     y \<leftarrow> getUint32 view 12;
     width \<leftarrow> getUint32 view 16;
     height \<leftarrow> getUint32 view 20;
     payloadN \<leftarrow> getUint32 view 24;
     Some \<lparr>hd_kind = kind, hd_encoding = encoding, hd_flags = flags, hd_x = x, hd_y = y,
       hd_width = width, hd_height = height, hd_payload = payloadN\<rparr>
   }"

definition keyframe_of :: "frame_header \<Rightarrow> bool" where
  "keyframe_of h = (hd_flags h AND BINARY_FLAG_KEYFRAME \<noteq> 0)"

text \<open>The gateway's side: reserved bytes stay zero.\<close>

definition EncodeBinaryFrameHeader :: "frame_header \<Rightarrow> byte list" where
  "EncodeBinaryFrameHeader h =
     [hd_kind h, hd_encoding h, hd_flags h] @ replicate 5 0
       @ put_uint32 (hd_x h) @ put_uint32 (hd_y h) @ put_uint32 (hd_width h) @ put_uint32 (hd_height h)
       @ put_uint32 (hd_payload h) @ replicate 4 0"

lemma length_header [simp]: "length (EncodeBinaryFrameHeader h) = BINARY_HEADER_SIZE"
  by (simp add: EncodeBinaryFrameHeader_def BINARY_HEADER_SIZE_def)

lemma read_header_total:
  assumes "BINARY_HEADER_SIZE \<le> length v" shows "read_header v \<noteq> None"
proof -
  have "0 < length v" "1 < length v" "2 < length v" "28 \<le> length v"
    using assms unfolding BINARY_HEADER_SIZE_def by linarith+
  then show ?thesis by (simp add: read_header_def getUint8_def getUint32_def del: length_greater_0_conv)
qed

lemma read_header_encode [simp]: "read_header (EncodeBinaryFrameHeader h @ rest) = Some h"
proof -
  let ?v = "EncodeBinaryFrameHeader h @ rest"
  have small: "getUint8 ?v 0 = Some (hd_kind h)" "getUint8 ?v 1 = Some (hd_encoding h)"
    "getUint8 ?v 2 = Some (hd_flags h)"
    by (simp_all add: EncodeBinaryFrameHeader_def getUint8_def)
  have wide: "getUint32 ?v 8 = Some (hd_x h)" "getUint32 ?v 12 = Some (hd_y h)"
    "getUint32 ?v 16 = Some (hd_width h)" "getUint32 ?v 20 = Some (hd_height h)"
    "getUint32 ?v 24 = Some (hd_payload h)"
    using getUint32_put [of "[hd_kind h, hd_encoding h, hd_flags h] @ replicate 5 0" 8 "hd_x h"]
      getUint32_put [of "[hd_kind h, hd_encoding h, hd_flags h] @ replicate 5 0 @ put_uint32 (hd_x h)" 12 "hd_y h"]
      getUint32_put [of "[hd_kind h, hd_encoding h, hd_flags h] @ replicate 5 0 @ put_uint32 (hd_x h)
        @ put_uint32 (hd_y h)" 16 "hd_width h"]
      getUint32_put [of "[hd_kind h, hd_encoding h, hd_flags h] @ replicate 5 0 @ put_uint32 (hd_x h)
        @ put_uint32 (hd_y h) @ put_uint32 (hd_width h)" 20 "hd_height h"]
      getUint32_put [of "[hd_kind h, hd_encoding h, hd_flags h] @ replicate 5 0 @ put_uint32 (hd_x h)
        @ put_uint32 (hd_y h) @ put_uint32 (hd_width h) @ put_uint32 (hd_height h)" 24 "hd_payload h"]
    by (simp_all add: EncodeBinaryFrameHeader_def)
  show ?thesis by (simp only: read_header_def small wide Option.bind.simps) simp
qed

section \<open>Encodings\<close>

definition decodeFrameEncoding :: "byte \<Rightarrow> Encoding option" where
  "decodeFrameEncoding v =
     (if v = 1 then Some RawBgra
      else if v = 2 then Some Jpeg
      else if v = 3 then Some Png
      else if v = 4 then Some ZlibBgra
      else if v = 5 then Some H264
      else if v = 6 then Some Rfx
      else None)"

definition decodeCursorEncoding :: "byte \<Rightarrow> CursorEncoding option" where
  "decodeCursorEncoding v = (if v = 1 then Some CursorRaw else if v = 3 then Some CursorPng else None)"

text \<open>The gateway's tags.\<close>

fun binaryEncodingFromFrame :: "Encoding \<Rightarrow> byte" where
  "binaryEncodingFromFrame RawBgra = 1"
| "binaryEncodingFromFrame Jpeg = 2"
| "binaryEncodingFromFrame Png = 3"
| "binaryEncodingFromFrame ZlibBgra = 4"
| "binaryEncodingFromFrame ZstdBgra = 7"
| "binaryEncodingFromFrame H264 = 5"
| "binaryEncodingFromFrame Rfx = 6"

lemma decode_encoding: "decodeFrameEncoding (binaryEncodingFromFrame e) = (if e = ZstdBgra then None else Some e)"
  by (cases e) (simp_all add: decodeFrameEncoding_def)

section \<open>Batches\<close>

definition meta_of :: "frame_header \<Rightarrow> Encoding \<Rightarrow> FrameRectMeta" where
  "meta_of h e =
     \<lparr>fr_x = uint (hd_x h), fr_y = uint (hd_y h), fr_width = uint (hd_width h), fr_height = uint (hd_height h),
      fr_encoding = e, fr_keyframe = Some (keyframe_of h)\<rparr>"

text \<open>The loop over the items; every way out other than the end of the loop answers no frames.\<close>

fun decode_items :: "byte list \<Rightarrow> nat \<Rightarrow> nat \<Rightarrow> FrameBytes list \<Rightarrow> FrameBytes list option" where
  "decode_items p 0 off frames = Some (if off = length p then frames else [])"
| "decode_items p (Suc n) off frames =
     (if length p - off < BINARY_HEADER_SIZE then Some []
      else do {
        view \<leftarrow> sub_view p off BINARY_HEADER_SIZE;
        h \<leftarrow> read_header view;
        let off1 = off + BINARY_HEADER_SIZE;
        if hd_kind h \<noteq> BINARY_KIND_RECT then Some []
        else (case decodeFrameEncoding (hd_encoding h) of
                None \<Rightarrow> Some []
              | Some e \<Rightarrow>
                  let stop = off1 + unat (hd_payload h) in
                  if stop < off1 \<or> stop > length p then Some []
                  else decode_items p n stop (frames @ [(meta_of h e, take (stop - off1) (drop off1 p))]))
      })"

definition decodeFrameBatchPayload :: "byte list \<Rightarrow> FrameBytes list option" where
  "decodeFrameBatchPayload p =
     (if length p < 4 then Some []
      else do {
        count \<leftarrow> getUint32 p 0;
        decode_items p (unat count) 4 []
      })"

text \<open>The gateway's batch. A frame as the gateway has it: 32-bit fields and the bytes.\<close>

record wire_frame =
  wf_x :: "32 word"
  wf_y :: "32 word"
  wf_width :: "32 word"
  wf_height :: "32 word"
  wf_encoding :: Encoding
  wf_keyframe :: bool
  wf_payload :: "byte list"

definition frame_header_of :: "wire_frame \<Rightarrow> frame_header" where
  "frame_header_of f =
     \<lparr>hd_kind = 2, hd_encoding = binaryEncodingFromFrame (wf_encoding f),
      hd_flags = (if wf_keyframe f then 1 else 0), hd_x = wf_x f, hd_y = wf_y f,
      hd_width = wf_width f, hd_height = wf_height f, hd_payload = word_of_nat (length (wf_payload f))\<rparr>"

definition encode_items :: "wire_frame list \<Rightarrow> byte list" where
  "encode_items fs = concat (map (\<lambda>f. EncodeBinaryFrameHeader (frame_header_of f) @ wf_payload f) fs)"

definition encodeFrameBatchPayload :: "wire_frame list \<Rightarrow> byte list" where
  "encodeFrameBatchPayload fs = put_uint32 (word_of_nat (length fs)) @ encode_items fs"

text \<open>What the browser should see of a frame.\<close>

definition frame_view :: "wire_frame \<Rightarrow> FrameBytes" where
  "frame_view f =
     (\<lparr>fr_x = uint (wf_x f), fr_y = uint (wf_y f), fr_width = uint (wf_width f), fr_height = uint (wf_height f),
       fr_encoding = wf_encoding f, fr_keyframe = Some (wf_keyframe f)\<rparr>, wf_payload f)"

section \<open>Payloads of JSON frames\<close>

definition bytesFromFramePayload :: "string \<Rightarrow> byte list option" where
  "bytesFromFramePayload payload = map_option (map (\<lambda>c. word_of_nat (of_char c))) (atob payload)"

definition bytesToBase64 :: "byte list \<Rightarrow> string" where
  "bytesToBase64 bytes = btoa (map (\<lambda>b. char_of (unat b)) bytes)"

fun decodeJSONFrameBatch :: "FrameRect list \<Rightarrow> FrameBytes list option" where
  "decodeJSONFrameBatch [] = Some []"
| "decodeJSONFrameBatch (f # fs) = do {
     payload \<leftarrow> bytesFromFramePayload (fr_payload f);
     rest \<leftarrow> decodeJSONFrameBatch fs;
     Some ((FrameRectMeta.truncate f, payload) # rest)
   }"

lemma base64_bytes: "bytesFromFramePayload (bytesToBase64 bs) = Some bs"
proof -
  have "word_of_nat (of_char (char_of (unat b) :: char)) = b" for b :: byte
  proof -
    have "unat b < 256" using unsigned_less [of b] by simp
    then show ?thesis by (simp add: of_char_mod_256)
  qed
  then show ?thesis by (simp add: bytesFromFramePayload_def bytesToBase64_def comp_def)
qed

section \<open>The decoder raises nothing\<close>

lemma decode_items_total: "decode_items p n off frames \<noteq> None"
proof (induction n arbitrary: off frames)
  case (Suc n)
  show ?case
  proof (cases "length p - off < BINARY_HEADER_SIZE")
    case False
    let ?view = "take BINARY_HEADER_SIZE (drop off p)"
    have len: "off + BINARY_HEADER_SIZE \<le> length p"
      using False by (simp add: BINARY_HEADER_SIZE_def)
    then have view: "sub_view p off BINARY_HEADER_SIZE = Some ?view" by (simp add: sub_view_def)
    have "length ?view = BINARY_HEADER_SIZE" using len by simp
    then obtain h where "read_header ?view = Some h" using read_header_total [of ?view] by auto
    with False view Suc show ?thesis by (auto simp: Let_def split: option.splits)
  qed simp
qed simp

lemma decode_batch_total: "decodeFrameBatchPayload p \<noteq> None"
proof (cases "length p < 4")
  case False
  then have "getUint32 p 0 = Some (be32 (take 4 p))" by (simp add: getUint32_def)
  with False decode_items_total show ?thesis by (simp add: decodeFrameBatchPayload_def)
qed (simp add: decodeFrameBatchPayload_def)

section \<open>Batches arrive as they were sent\<close>

definition sendable :: "wire_frame \<Rightarrow> bool" where
  "sendable f \<longleftrightarrow> length (wf_payload f) < 2 ^ 32"

lemma payload_length: "sendable f \<Longrightarrow> unat (word_of_nat (length (wf_payload f)) :: 32 word) = length (wf_payload f)"
  by (simp add: sendable_def unsigned_of_nat take_bit_nat_eq_self)

lemma decode_item:
  assumes "length pre = off" "sendable f"
  shows "decode_items (pre @ encode_items (f # fs)) (Suc n) off frames =
    (if wf_encoding f = ZstdBgra then Some []
     else decode_items (pre @ encode_items (f # fs)) n (off + BINARY_HEADER_SIZE + length (wf_payload f))
       (frames @ [frame_view f]))"
proof -
  let ?h = "frame_header_of f"
  let ?rest = "wf_payload f @ encode_items fs"
  have p: "pre @ encode_items (f # fs) = pre @ EncodeBinaryFrameHeader ?h @ ?rest"
    by (simp add: encode_items_def)
  let ?p = "pre @ EncodeBinaryFrameHeader ?h @ ?rest"
  have view: "sub_view ?p off BINARY_HEADER_SIZE = Some (EncodeBinaryFrameHeader ?h)"
    using assms(1) by (simp add: sub_view_def)
  have header: "read_header (EncodeBinaryFrameHeader ?h) = Some ?h"
    using read_header_encode [of ?h "[]"] by simp
  have kind: "hd_kind ?h = BINARY_KIND_RECT" by (simp add: frame_header_of_def BINARY_KIND_RECT_def)
  have enc: "decodeFrameEncoding (hd_encoding ?h) = (if wf_encoding f = ZstdBgra then None else Some (wf_encoding f))"
    by (simp add: frame_header_of_def decode_encoding)
  have len: "unat (hd_payload ?h) = length (wf_payload f)"
    using payload_length [OF assms(2)] by (simp add: frame_header_of_def)
  have slice: "take (length (wf_payload f)) (drop (off + BINARY_HEADER_SIZE) ?p) = wf_payload f"
    using assms(1) by simp
  have meta: "(meta_of ?h (wf_encoding f), wf_payload f) = frame_view f"
    by (simp add: meta_of_def frame_view_def frame_header_of_def keyframe_of_def BINARY_FLAG_KEYFRAME_def)
  show ?thesis
    unfolding p using assms(1)
    by (simp add: view header kind enc len slice meta Let_def)
qed

lemma decode_items_encode:
  assumes "length pre = off" "list_all sendable fs"
  shows "decode_items (pre @ encode_items fs) (length fs) off frames =
    Some (if list_ex (\<lambda>f. wf_encoding f = ZstdBgra) fs then [] else frames @ map frame_view fs)"
  using assms
proof (induction fs arbitrary: pre off frames)
  case Nil
  then show ?case by (simp add: encode_items_def)
next
  case (Cons f fs)
  let ?pre = "pre @ EncodeBinaryFrameHeader (frame_header_of f) @ wf_payload f"
  have eq: "pre @ encode_items (f # fs) = ?pre @ encode_items fs" by (simp add: encode_items_def)
  have "length ?pre = off + BINARY_HEADER_SIZE + length (wf_payload f)" using Cons.prems(1) by simp
  then have "decode_items (?pre @ encode_items fs) (length fs) (off + BINARY_HEADER_SIZE + length (wf_payload f))
      (frames @ [frame_view f]) =
      Some (if list_ex (\<lambda>f. wf_encoding f = ZstdBgra) fs then [] else (frames @ [frame_view f]) @ map frame_view fs)"
    by (rule Cons.IH) (use Cons.prems in simp)
  then show ?case
    using decode_item [OF Cons.prems(1), of f fs "length fs" frames] Cons.prems(2) unfolding eq by simp
qed

text \<open>C15: A batch the gateway encodes is decoded to exactly its frames, unless one of them is
  compressed with zstd, whose tag the browser's table lacks: then the whole batch is dropped,
  although the browser itself announces that it can decode such frames.\<close>

theorem batch_roundtrip:
  assumes "list_all sendable fs" "length fs < 2 ^ 32"
  shows "decodeFrameBatchPayload (encodeFrameBatchPayload fs) =
    Some (if list_ex (\<lambda>f. wf_encoding f = ZstdBgra) fs then [] else map frame_view fs)"
proof -
  let ?p = "put_uint32 (word_of_nat (length fs)) @ encode_items fs"
  have "getUint32 ?p 0 = Some (word_of_nat (length fs))"
    using getUint32_put [of "[]" 0 "word_of_nat (length fs)" "encode_items fs"] by simp
  moreover have "unat (word_of_nat (length fs) :: 32 word) = length fs"
    using assms(2) by (simp add: unsigned_of_nat take_bit_nat_eq_self)
  moreover have "decode_items ?p (length fs) 4 [] =
      Some (if list_ex (\<lambda>f. wf_encoding f = ZstdBgra) fs then [] else [] @ map frame_view fs)"
    by (rule decode_items_encode) (use assms in simp_all)
  ultimately show ?thesis
    by (simp add: decodeFrameBatchPayload_def encodeFrameBatchPayload_def)
qed

theorem batch_roundtrip_witness:
  "decodeFrameBatchPayload (encodeFrameBatchPayload
     [\<lparr>wf_x = 1, wf_y = 2, wf_width = 3, wf_height = 4, wf_encoding = Jpeg, wf_keyframe = True, wf_payload = [9, 8]\<rparr>,
      \<lparr>wf_x = 0, wf_y = 0, wf_width = 8, wf_height = 8, wf_encoding = ZstdBgra, wf_keyframe = False, wf_payload = []\<rparr>])
   = Some []"
  using batch_roundtrip [of
      "[\<lparr>wf_x = 1, wf_y = 2, wf_width = 3, wf_height = 4, wf_encoding = Jpeg, wf_keyframe = True, wf_payload = [9, 8]\<rparr>,
      \<lparr>wf_x = 0, wf_y = 0, wf_width = 8, wf_height = 8, wf_encoding = ZstdBgra, wf_keyframe = False, wf_payload = []\<rparr>]"]
  by (simp add: sendable_def)

section \<open>Accepted batches are exact\<close>

lemma decode_items_exact:
  assumes "decode_items p n off frames = Some out" "out \<noteq> []" "off \<le> length p"
  shows "\<exists>new. out = frames @ new \<and> length new = n
    \<and> length p = off + sum_list (map (\<lambda>f. BINARY_HEADER_SIZE + length (snd f)) new)"
  using assms
proof (induction n arbitrary: off frames)
  case 0
  then show ?case by (auto split: if_splits)
next
  case (Suc n)
  have fits: "\<not> length p - off < BINARY_HEADER_SIZE" using Suc.prems(1,2) by auto
  then have len: "off + BINARY_HEADER_SIZE \<le> length p" by (simp add: BINARY_HEADER_SIZE_def)
  let ?view = "take BINARY_HEADER_SIZE (drop off p)"
  have view: "sub_view p off BINARY_HEADER_SIZE = Some ?view" using len by (simp add: sub_view_def)
  obtain h where h: "read_header ?view = Some h"
    using read_header_total [of ?view] len by auto
  have kind: "hd_kind h = BINARY_KIND_RECT"
    using Suc.prems(1,2) fits view h by (auto simp: Let_def split: if_splits)
  obtain e where e: "decodeFrameEncoding (hd_encoding h) = Some e"
    using Suc.prems(1,2) fits view h kind by (auto simp: Let_def split: option.splits)
  let ?o = "off + BINARY_HEADER_SIZE" and ?stop = "off + BINARY_HEADER_SIZE + unat (hd_payload h)"
  let ?f = "(meta_of h e, take (unat (hd_payload h)) (drop ?o p))"
  have stop: "?stop \<le> length p"
    using Suc.prems(1,2) fits view h kind e by (auto simp: Let_def split: if_splits)
  have "decode_items p n ?stop (frames @ [?f]) = Some out"
    using Suc.prems(1) fits view h kind e stop by (simp add: Let_def)
  from Suc.IH [OF this Suc.prems(2) stop] obtain new where
    new: "out = (frames @ [?f]) @ new" "length new = n"
      "length p = ?stop + sum_list (map (\<lambda>f. BINARY_HEADER_SIZE + length (snd f)) new)"
    by blast
  have "length (snd ?f) = unat (hd_payload h)" using stop by simp
  with new show ?case by (intro exI [of _ "?f # new"]) simp
qed

text \<open>Decoding a batch never reads outside the buffer, whatever the bytes are; frames are
  answered only when the announced number of items, each with a header and its announced
  payload, fills the buffer exactly.\<close>

theorem batch_decoder_exact:
  "decodeFrameBatchPayload p \<noteq> None
   \<and> (\<forall>fs. decodeFrameBatchPayload p = Some fs \<and> fs \<noteq> [] \<longrightarrow>
        getUint32 p 0 = Some (word_of_nat (length fs))
        \<and> length p = 4 + sum_list (map (\<lambda>f. BINARY_HEADER_SIZE + length (snd f)) fs))"
proof (cases "length p < 4")
  case True
  then show ?thesis by (simp add: decodeFrameBatchPayload_def)
next
  case False
  let ?w = "be32 (take 4 p)"
  have w: "getUint32 p 0 = Some ?w" using False by (simp add: getUint32_def)
  have eq: "decodeFrameBatchPayload p = decode_items p (unat ?w) 4 []"
    using False w by (simp add: decodeFrameBatchPayload_def)
  show ?thesis
  proof (intro conjI allI impI)
    show "decodeFrameBatchPayload p \<noteq> None" by (rule decode_batch_total)
    fix fs assume fs: "decodeFrameBatchPayload p = Some fs \<and> fs \<noteq> []"
    have "decode_items p (unat ?w) 4 [] = Some fs" "fs \<noteq> []" "4 \<le> length p" using fs False eq by auto
    from decode_items_exact [OF this]
    have n: "length fs = unat ?w" "length p = 4 + sum_list (map (\<lambda>f. BINARY_HEADER_SIZE + length (snd f)) fs)"
      by auto
    have "?w = word_of_nat (length fs)" unfolding n(1) by simp
    then show "getUint32 p 0 = Some (word_of_nat (length fs))" using w by simp
    show "length p = 4 + sum_list (map (\<lambda>f. BINARY_HEADER_SIZE + length (snd f)) fs)" by (rule n(2))
  qed
qed

theorem batch_decoder_exact_witness: "decodeFrameBatchPayload [0, 0, 0, 9, 1] \<noteq> None"
  using batch_decoder_exact [of "[0, 0, 0, 9, 1]"] by blast

end
