(* ===== verification/FrameClient.thy ===== *)
theory FrameClient
  imports FrameWire WebPlatform
begin

text \<open>
  The transport client of the remote desktop, \<open>lib/desktop/frame-client.ts\<close>, with the message
  types of \<open>lib/desktop/types.ts\<close> it reads. The object is the record \<open>FrameClient\<close>, an extension of
  the browser state; its callbacks are appended to \<open>log\<close>. \<open>JSON.parse\<close> with the cast to
  \<open>ServerMessage\<close> is the argument \<open>parse\<close>; the clock and the probed capabilities are arguments of
  the inputs. The calls that the callbacks of the open event make on the client are arguments of
  that event; the other callbacks are taken not to call it before their handler ends.
\<close>

section \<open>Messages\<close>

datatype Phase = CONNECTING | HANDSHAKE | CONNECTED | RECONNECTING | CLOSED | ERROR

record SessionStatus =
  ss_phase :: Phase
  ss_message :: "string option"
  ss_code :: "int option"

record CursorUpdate =
  cu_hotspot_x :: int
  cu_hotspot_y :: int
  cu_width :: "int option"
  cu_height :: "int option"
  cu_encoding :: CursorEncoding
  cu_payload :: "string option"
  cu_system_kind :: "string option"
  cu_hidden :: "bool option"

record ClipboardData =
  cb_mime :: string
  cb_payload :: string

record AudioData =
  au_sample_rate :: int
  au_channels :: int
  au_bits :: int
  au_pcm :: string

datatype signal_type = Offer | Answer | Candidate

record WebRTCSignal =
  rtc_type :: signal_type
  rtc_sdp :: "string option"
  rtc_candidate :: "string option"
  rtc_sdpMid :: "string option"
  rtc_sdpMLineIndex :: "int option"

record ServerMessage =
  sm_frame :: "FrameRect option"
  sm_frame_batch :: "FrameRect list option"
  sm_cursor :: "CursorUpdate option"
  sm_status :: "SessionStatus option"
  sm_bell :: bool
  sm_clipboard :: "ClipboardData option"
  sm_audio :: "AudioData option"
  sm_webrtc :: "WebRTCSignal option"
  sm_hb :: "int option"

text \<open>The result of \<open>JSON.parse\<close>: an exception, \<open>null\<close>, whose fields cannot be read, or a message.\<close>

datatype parsed = Malformed | ParsedNull | Parsed ServerMessage

section \<open>The client\<close>

datatype fc_timer = HeartbeatTick | StatsTick

datatype fc_event =
    OnFrame FrameRect | OnFrameBytes FrameRectMeta "byte list" | OnFrameBatch "FrameBytes list"
  | OnCursor CursorUpdate | OnStatus SessionStatus | OnError string | OnClipboard ClipboardData
  | OnAudio AudioData | OnWebRTC WebRTCSignal | OnOpen | OnStats nat nat | OnLatency int | Uncaught

record FrameClient = "fc_timer web" +
  base :: string
  sessionId :: string
  wsPath :: "string option"
  wants_stats :: bool
  protocol_v2 :: bool
  ws :: "nat option"
  closed :: bool
  hbTimer :: "nat option"
  statsTimer :: "nat option"
  bytes_in :: nat
  bytes_out :: nat
  log :: "fc_event list"

definition new_frame_client :: "string \<Rightarrow> string \<Rightarrow> string option \<Rightarrow> bool \<Rightarrow> bool \<Rightarrow> FrameClient" where
  "new_frame_client b sid path stats v2 =
     \<lparr>sockets = [], intervals = [], next_interval = 1, base = b, sessionId = sid, wsPath = path,
      wants_stats = stats, protocol_v2 = v2, ws = None, closed = False, hbTimer = None, statsTimer = None,
      bytes_in = 0, bytes_out = 0, log = []\<rparr>"

definition emit :: "fc_event \<Rightarrow> FrameClient \<Rightarrow> FrameClient" where
  "emit e s = s\<lparr>log := log s @ [e]\<rparr>"

definition connect :: "string option \<Rightarrow> FrameClient \<Rightarrow> FrameClient" where
  "connect stored s =
     (if ws s \<noteq> None \<or> closed s then s
      else
        (let token = nullish stored [];
             path = nullish (wsPath s) (''/ws/v2/desktop/'' @ sessionId s);
             s1 = new_socket (base s @ ''/api/v1'' @ path, [(''token'', token)]) s
         in s1\<lparr>ws := Some (length (sockets s))\<rparr>))"

definition send :: "json \<Rightarrow> FrameClient \<Rightarrow> FrameClient" where
  "send msg s =
     (if closed s then s
      else (case ws s of
              None \<Rightarrow> s
            | Some i \<Rightarrow>
                if ready_state i s \<noteq> WsOpen then s
                else
                  (let payload = stringify msg;
                       s1 = s\<lparr>bytes_out := bytes_out s + utf16_length payload\<rparr>
                   in case socket_send i payload s1 of None \<Rightarrow> s1 | Some v \<Rightarrow> v)))"

definition cleanup :: "FrameClient \<Rightarrow> FrameClient" where
  "cleanup s =
     (let s1 = (case hbTimer s of None \<Rightarrow> s | Some n \<Rightarrow> (clear_interval n s)\<lparr>hbTimer := None\<rparr>)
      in case statsTimer s1 of None \<Rightarrow> s1 | Some n \<Rightarrow> (clear_interval n s1)\<lparr>statsTimer := None\<rparr>)"

definition close :: "FrameClient \<Rightarrow> FrameClient" where
  "close s =
     (if closed s then s
      else
        (let s1 = (cleanup (s\<lparr>closed := True\<rparr>))\<lparr>ws := None\<rparr>
         in case ws s of
              None \<Rightarrow> s1
            | Some i \<Rightarrow>
                if ready_state i s1 \<noteq> WsClosed \<and> ready_state i s1 \<noteq> WsClosing then socket_close i s1 else s1))"

section \<open>Events of the socket\<close>

datatype call = Send json | Close

fun run_call :: "call \<Rightarrow> FrameClient \<Rightarrow> FrameClient" where
  "run_call (Send m) s = send m s"
| "run_call Close s = close s"

definition heartbeat :: "int \<Rightarrow> json" where
  "heartbeat now = JObj [(''hb'', JObj [(''ts_ms'', JNum now)])]"

definition start_timers :: "FrameClient \<Rightarrow> FrameClient" where
  "start_timers s =
     (let (n, s1) = set_interval HeartbeatTick s;
          s2 = s1\<lparr>hbTimer := Some n\<rparr>
      in if wants_stats s2 then
           (let (m, s3) = set_interval StatsTick s2 in s3\<lparr>statsTimer := Some m\<rparr>)
         else s2)"

text \<open>The capability probe started here answers later, in \<open>on_caps\<close>.\<close>

definition on_open :: "call list \<Rightarrow> call list \<Rightarrow> int \<Rightarrow> FrameClient \<Rightarrow> FrameClient" where
  "on_open rs_status rs_open now s =
     (if closed s then s
      else
        (let s1 = fold run_call rs_status (emit (OnStatus \<lparr>ss_phase = CONNECTING, ss_message = None, ss_code = None\<rparr>) s);
             s2 = fold run_call rs_open (emit OnOpen s1)
         in start_timers (send (heartbeat now) s2)))"

definition on_caps :: "json \<Rightarrow> FrameClient \<Rightarrow> FrameClient" where
  "on_caps caps s = (if closed s then s else send (JObj [(''caps'', caps)]) s)"

definition on_error :: "FrameClient \<Rightarrow> FrameClient" where
  "on_error s = (if closed s then s else emit (OnError (utf8 [87, 101, 98, 83, 111, 99, 107, 101, 116, 32, 38169, 35823, 65288, 32593, 32476, 20013, 26029, 25110, 26381, 21153, 31471, 25298, 32477, 65289])) s)"

definition on_close :: "string \<Rightarrow> int \<Rightarrow> FrameClient \<Rightarrow> FrameClient" where
  "on_close reason code s =
     (let s1 = cleanup s
      in if closed s1 then s1
         else emit (OnStatus \<lparr>ss_phase = CLOSED, ss_message = Some (or_str reason (utf8 [87, 101, 98, 83, 111, 99, 107, 101, 116, 32, 20851, 38381])),
                ss_code = Some code\<rparr>) s1)"

definition on_tick :: "fc_timer \<Rightarrow> int \<Rightarrow> FrameClient \<Rightarrow> FrameClient" where
  "on_tick t now s =
     (case t of HeartbeatTick \<Rightarrow> send (heartbeat now) s | StatsTick \<Rightarrow> emit (OnStats (bytes_in s) (bytes_out s)) s)"

section \<open>Messages from the gateway\<close>

definition emit_opt :: "('a \<Rightarrow> fc_event) \<Rightarrow> 'a option \<Rightarrow> FrameClient \<Rightarrow> FrameClient" where
  "emit_opt f x s = (case x of None \<Rightarrow> s | Some y \<Rightarrow> emit (f y) s)"

text \<open>The result says whether an exception leaves the function.\<close>

definition handleServerMessage :: "int \<Rightarrow> ServerMessage \<Rightarrow> FrameClient \<Rightarrow> bool \<times> FrameClient" where
  "handleServerMessage now msg s =
     (if sm_hb msg \<noteq> None then
        (let rtt = now - the (sm_hb msg)
         in (False, if 0 \<le> rtt \<and> rtt < 60000 then emit (OnLatency rtt) s else s))
      else if sm_status msg \<noteq> None then (False, emit_opt OnStatus (sm_status msg) s)
      else if sm_frame msg \<noteq> None \<or> sm_frame_batch msg \<noteq> None \<or> sm_cursor msg \<noteq> None then
        (let s1 = emit_opt OnFrame (sm_frame msg) s
         in case sm_frame_batch msg of
              None \<Rightarrow> (False, emit_opt OnCursor (sm_cursor msg) s1)
            | Some batch \<Rightarrow>
                (case decodeJSONFrameBatch batch of
                   None \<Rightarrow> (True, s1)
                 | Some frames \<Rightarrow> (False, emit_opt OnCursor (sm_cursor msg) (emit (OnFrameBatch frames) s1))))
      else if sm_clipboard msg \<noteq> None then (False, emit_opt OnClipboard (sm_clipboard msg) s)
      else if sm_audio msg \<noteq> None then (False, emit_opt OnAudio (sm_audio msg) s)
      else if sm_webrtc msg \<noteq> None then (False, emit_opt OnWebRTC (sm_webrtc msg) s)
      else (False, s))"

text \<open>The text of UTF-8 bytes, which is how strings are represented.\<close>

definition decode_text :: "byte list \<Rightarrow> string" where
  "decode_text bs = map (\<lambda>b. char_of (unat b)) bs"

definition on_json_frame :: "(string \<Rightarrow> parsed) \<Rightarrow> int \<Rightarrow> byte list \<Rightarrow> FrameClient \<Rightarrow> FrameClient" where
  "on_json_frame parse now payload s =
     (case parse (decode_text payload) of Parsed m \<Rightarrow> snd (handleServerMessage now m s) | _ \<Rightarrow> s)"

definition on_rect_frame :: "frame_header \<Rightarrow> byte list \<Rightarrow> FrameClient \<Rightarrow> FrameClient" where
  "on_rect_frame h payload s =
     (case decodeFrameEncoding (hd_encoding h) of None \<Rightarrow> s | Some e \<Rightarrow> emit (OnFrameBytes (meta_of h e) payload) s)"

definition on_batch_frame :: "byte list \<Rightarrow> FrameClient \<Rightarrow> FrameClient" where
  "on_batch_frame payload s =
     (case decodeFrameBatchPayload payload of
        None \<Rightarrow> emit Uncaught s
      | Some frames \<Rightarrow> if length frames > 0 then emit (OnFrameBatch frames) s else s)"

definition on_cursor_frame :: "frame_header \<Rightarrow> byte list \<Rightarrow> FrameClient \<Rightarrow> FrameClient" where
  "on_cursor_frame h payload s =
     (case decodeCursorEncoding (hd_encoding h) of
        None \<Rightarrow> s
      | Some e \<Rightarrow>
          emit (OnCursor \<lparr>cu_hotspot_x = uint (hd_x h), cu_hotspot_y = uint (hd_y h),
            cu_width = Some (uint (hd_width h)), cu_height = Some (uint (hd_height h)), cu_encoding = e,
            cu_payload = Some (bytesToBase64 payload), cu_system_kind = None, cu_hidden = None\<rparr>) s)"

definition on_kind :: "(string \<Rightarrow> parsed) \<Rightarrow> int \<Rightarrow> frame_header \<Rightarrow> byte list \<Rightarrow> FrameClient \<Rightarrow> FrameClient" where
  "on_kind parse now h payload s =
     (if hd_kind h = BINARY_KIND_JSON then on_json_frame parse now payload s
      else if hd_kind h = BINARY_KIND_RECT then on_rect_frame h payload s
      else if hd_kind h = BINARY_KIND_BATCH then on_batch_frame payload s
      else if hd_kind h = BINARY_KIND_CURSOR then on_cursor_frame h payload s
      else s)"

definition handleBinaryV2 :: "(string \<Rightarrow> parsed) \<Rightarrow> int \<Rightarrow> byte list \<Rightarrow> FrameClient \<Rightarrow> FrameClient" where
  "handleBinaryV2 parse now data s =
     (if length data < BINARY_HEADER_SIZE then s
      else (case read_header data of
              None \<Rightarrow> emit Uncaught s
            | Some h \<Rightarrow>
                (let payloadN = unat (hd_payload h) in
                 if length data < BINARY_HEADER_SIZE + payloadN then s
                 else (case sub_view data BINARY_HEADER_SIZE payloadN of
                         None \<Rightarrow> emit Uncaught s
                       | Some payload \<Rightarrow> on_kind parse now h payload s))))"

datatype data = TextData string | BinaryData "byte list"

definition handleText :: "(string \<Rightarrow> parsed) \<Rightarrow> int \<Rightarrow> string \<Rightarrow> FrameClient \<Rightarrow> FrameClient" where
  "handleText parse now txt s =
     (case parse txt of
        Malformed \<Rightarrow> s
      | ParsedNull \<Rightarrow> emit Uncaught s
      | Parsed m \<Rightarrow> (let (raised, s1) = handleServerMessage now m s in if raised then emit Uncaught s1 else s1))"

definition handleMessage :: "(string \<Rightarrow> parsed) \<Rightarrow> int \<Rightarrow> data \<Rightarrow> FrameClient \<Rightarrow> FrameClient" where
  "handleMessage parse now d s =
     (case d of
        BinaryData bs \<Rightarrow>
          (let s1 = s\<lparr>bytes_in := bytes_in s + length bs\<rparr>
           in if ws s \<noteq> None \<and> protocol_v2 s then handleBinaryV2 parse now bs s1
              else handleText parse now (decode_text bs) s1)
      | TextData t \<Rightarrow> handleText parse now t (s\<lparr>bytes_in := bytes_in s + utf16_length t\<rparr>))"

section \<open>Runs\<close>

datatype inp =
    Connect "string option" | Call call | Opened nat "call list" "call list" int | Caps json
  | Message nat data int | Errored nat | Closed nat string int | Tick nat int

fun perform :: "(string \<Rightarrow> parsed) \<Rightarrow> inp \<Rightarrow> FrameClient \<Rightarrow> FrameClient option" where
  "perform parse (Connect t) s = Some (connect t s)"
| "perform parse (Call c) s = Some (run_call c s)"
| "perform parse (Opened i rs rs' now) s =
     (if ready_state i s = WsConnecting then Some (on_open rs rs' now (set_ready i WsOpen s)) else None)"
| "perform parse (Caps c) s = (if sockets s \<noteq> [] then Some (on_caps c s) else None)"
| "perform parse (Message i d now) s =
     (if ready_state i s = WsOpen then Some (if closed s then s else handleMessage parse now d s) else None)"
| "perform parse (Errored i) s = (if i < length (sockets s) then Some (on_error s) else None)"
| "perform parse (Closed i reason code) s =
     (if ready_state i s \<noteq> WsClosed then Some (on_close reason code (set_ready i WsClosed s)) else None)"
| "perform parse (Tick n now) s =
     (case map_of (intervals s) n of None \<Rightarrow> None | Some t \<Rightarrow> Some (on_tick t now s))"

fun run :: "(string \<Rightarrow> parsed) \<Rightarrow> inp list \<Rightarrow> FrameClient \<Rightarrow> FrameClient option" where
  "run parse [] s = Some s"
| "run parse (i # inps) s = (case perform parse i s of None \<Rightarrow> None | Some s' \<Rightarrow> run parse inps s')"

end
