(* ===== verification/FrameClientProps.thy ===== *)
theory FrameClientProps
  imports FrameClient
begin

text \<open>
  Properties of the desktop's transport client: the invariant of every run, and silence after
  \<open>close\<close>.
\<close>

section \<open>What each operation leaves alone\<close>

lemma fc_updates_keep [simp]:
  fixes s :: FrameClient
  shows "ready_state j (s\<lparr>bytes_out := n\<rparr>) = ready_state j s" "wire_of j (s\<lparr>bytes_out := n\<rparr>) = wire_of j s"
    "ready_state j (s\<lparr>bytes_in := n\<rparr>) = ready_state j s" "wire_of j (s\<lparr>bytes_in := n\<rparr>) = wire_of j s"
    "ready_state j (s\<lparr>ws := w\<rparr>) = ready_state j s" "wire_of j (s\<lparr>ws := w\<rparr>) = wire_of j s"
    "ready_state j (s\<lparr>closed := b\<rparr>) = ready_state j s" "wire_of j (s\<lparr>closed := b\<rparr>) = wire_of j s"
    "ready_state j (emit e s) = ready_state j s" "wire_of j (emit e s) = wire_of j s"
  by (simp_all add: ready_state_def wire_of_def emit_def)

lemma fc_emit_frame [simp]:
  "sockets (emit e s) = sockets s" "intervals (emit e s) = intervals s" "ws (emit e s) = ws s"
  "closed (emit e s) = closed s" "hbTimer (emit e s) = hbTimer s" "statsTimer (emit e s) = statsTimer s"
  "protocol_v2 (emit e s) = protocol_v2 s" "log (emit e s) = log s @ [e]"
  by (simp_all add: emit_def)

lemma fc_set_ready_frame [simp]:
  fixes s :: FrameClient
  shows "ws (set_ready i r s) = ws s" "closed (set_ready i r s) = closed s" "log (set_ready i r s) = log s"
    "hbTimer (set_ready i r s) = hbTimer s" "statsTimer (set_ready i r s) = statsTimer s"
    "protocol_v2 (set_ready i r s) = protocol_v2 s"
  by (simp_all add: set_ready_def)

lemma fc_socket_close_frame [simp]:
  fixes s :: FrameClient
  shows "ws (socket_close i s) = ws s" "closed (socket_close i s) = closed s" "log (socket_close i s) = log s"
    "hbTimer (socket_close i s) = hbTimer s" "statsTimer (socket_close i s) = statsTimer s"
    "protocol_v2 (socket_close i s) = protocol_v2 s"
  by (simp_all add: socket_close_def)

lemma fc_send_shape:
  "\<exists>xs n. send m s = s\<lparr>sockets := xs, bytes_out := n\<rparr> \<and> length xs = length (sockets s)
     \<and> (\<forall>j. ready_state j (send m s) = ready_state j s)"
proof (cases "closed s \<or> ws s = None \<or> ready_state (the (ws s)) s \<noteq> WsOpen")
  case True
  then have "send m s = s" by (auto simp: send_def split: option.splits)
  moreover have "s = s\<lparr>sockets := sockets s, bytes_out := bytes_out s\<rparr>" by simp
  ultimately show ?thesis by metis
next
  case False
  then obtain i where i: "ws s = Some i" "ready_state i s = WsOpen" "\<not> closed s" by auto
  let ?s1 = "s\<lparr>bytes_out := bytes_out s + utf16_length (stringify m)\<rparr>"
  have "ready_state i ?s1 = WsOpen" using i by simp
  then obtain v where v: "socket_send i (stringify m) ?s1 = Some v" using socket_send_open by blast
  obtain xs where xs: "v = ?s1\<lparr>sockets := xs\<rparr>" "length xs = length (sockets ?s1)"
    using socket_send_update [OF v] by blast
  have eq: "send m s = v" using i v by (simp add: send_def Let_def)
  have "ready_state j v = ready_state j s" for j using socket_send_ready [OF v, of j] by simp
  with eq xs show ?thesis
    by (intro exI [of _ xs] exI [of _ "bytes_out s + utf16_length (stringify m)"]) simp
qed

lemma fc_send_frame [simp]:
  "length (sockets (send m s)) = length (sockets s)" "intervals (send m s) = intervals s"
  "ws (send m s) = ws s" "closed (send m s) = closed s" "hbTimer (send m s) = hbTimer s"
  "statsTimer (send m s) = statsTimer s" "log (send m s) = log s" "protocol_v2 (send m s) = protocol_v2 s"
  "ready_state j (send m s) = ready_state j s" "sockets (send m s) = [] \<longleftrightarrow> sockets s = []"
proof -
  obtain xs n where xs: "send m s = s\<lparr>sockets := xs, bytes_out := n\<rparr>" "length xs = length (sockets s)"
    "ready_state j (send m s) = ready_state j s" using fc_send_shape by blast
  then show "length (sockets (send m s)) = length (sockets s)" "intervals (send m s) = intervals s"
    "ws (send m s) = ws s" "closed (send m s) = closed s" "hbTimer (send m s) = hbTimer s"
    "statsTimer (send m s) = statsTimer s" "log (send m s) = log s" "protocol_v2 (send m s) = protocol_v2 s"
    "ready_state j (send m s) = ready_state j s" "sockets (send m s) = [] \<longleftrightarrow> sockets s = []"
    by (simp_all flip: length_0_conv)
qed

lemma fc_send_closed [simp]: "closed s \<Longrightarrow> send m s = s"
  by (simp add: send_def)

lemma cleanup_fields [simp]:
  "sockets (cleanup s) = sockets s" "ws (cleanup s) = ws s" "closed (cleanup s) = closed s" "log (cleanup s) = log s"
  "ready_state j (cleanup s) = ready_state j s" "wire_of j (cleanup s) = wire_of j s"
  "protocol_v2 (cleanup s) = protocol_v2 s"
  "intervals (cleanup s) =
     filter (\<lambda>p. \<not> (hbTimer s = Some (fst p) \<or> statsTimer s = Some (fst p))) (intervals s)"
  by (auto simp: cleanup_def Let_def clear_interval_def ready_state_def wire_of_def conj_commute
      split: option.splits intro!: filter_cong)

lemma close_shape:
  "closed (close s)" "length (sockets (close s)) = length (sockets s)" "log (close s) = log s"
  "wire_of j (close s) = wire_of j s" "protocol_v2 (close s) = protocol_v2 s"
  "sockets (close s) = [] \<longleftrightarrow> sockets s = []"
proof -
  show "closed (close s)" "log (close s) = log s" "protocol_v2 (close s) = protocol_v2 s"
    "wire_of j (close s) = wire_of j s"
    by (simp_all add: close_def Let_def split: option.split)
  show "length (sockets (close s)) = length (sockets s)" by (simp add: close_def Let_def split: option.split)
  then show "sockets (close s) = [] \<longleftrightarrow> sockets s = []" by (simp flip: length_0_conv)
qed

section \<open>The invariant\<close>

text \<open>
  There is at most one socket: once one exists the client holds it or is closed. Its live timers
  are those the client knows, with none before the socket opens and after it has closed. Every
  reported latency lies within a minute.
\<close>

definition fc_inv :: "FrameClient \<Rightarrow> bool" where
  "fc_inv s \<longleftrightarrow>
     length (sockets s) \<le> 1 \<and> (sockets s \<noteq> [] \<longrightarrow> ws s \<noteq> None \<or> closed s)
     \<and> (\<forall>p \<in> set (intervals s). hbTimer s = Some (fst p) \<or> statsTimer s = Some (fst p))
     \<and> (ready_state 0 s \<in> {WsConnecting, WsClosed} \<longrightarrow> intervals s = [])
     \<and> (\<forall>ms. OnLatency ms \<in> set (log s) \<longrightarrow> 0 \<le> ms \<and> ms < 60000)"

lemma fc_inv_same:
  assumes "fc_inv s" "length (sockets t) = length (sockets s)" "ws t = ws s" "closed t = closed s"
    "intervals t = intervals s" "hbTimer t = hbTimer s" "statsTimer t = statsTimer s"
    "ready_state 0 t = ready_state 0 s"
    "\<And>ms. OnLatency ms \<in> set (log t) \<Longrightarrow> OnLatency ms \<in> set (log s) \<or> 0 \<le> ms \<and> ms < 60000"
  shows "fc_inv t"
proof -
  have "sockets t = [] \<longleftrightarrow> sockets s = []" using assms(2) by (simp flip: length_0_conv)
  then show ?thesis using assms unfolding fc_inv_def by auto
qed

lemma fc_inv_emit:
  assumes "fc_inv s" "\<forall>ms. e = OnLatency ms \<longrightarrow> 0 \<le> ms \<and> ms < 60000"
  shows "fc_inv (emit e s)"
  by (rule fc_inv_same [OF assms(1)]) (use assms(2) in auto)

lemma fc_inv_send: "fc_inv s \<Longrightarrow> fc_inv (send m s)"
  by (rule fc_inv_same [of s]) simp_all

lemma fc_inv_cleanup:
  assumes "fc_inv s"
  shows "fc_inv (cleanup s) \<and> intervals (cleanup s) = []"
proof -
  have "intervals (cleanup s) = []" using assms by (auto simp: fc_inv_def filter_empty_conv)
  then show ?thesis using assms by (simp add: fc_inv_def)
qed

lemma fc_inv_close:
  assumes "fc_inv s" shows "fc_inv (close s)"
proof (cases "closed s")
  case True
  then show ?thesis using assms by (simp add: close_def)
next
  case False
  have eq: "intervals (close s) = intervals (cleanup (s\<lparr>closed := True\<rparr>))"
    using False by (simp add: close_def Let_def split: option.split)
  have "fc_inv (s\<lparr>closed := True\<rparr>)" using assms by (simp add: fc_inv_def)
  then have "intervals (close s) = []" using fc_inv_cleanup eq by metis
  then show ?thesis
    using assms by (simp add: fc_inv_def close_shape)
qed

lemma fc_inv_connect:
  assumes "fc_inv s" shows "fc_inv (connect t s)"
proof (cases "ws s \<noteq> None \<or> closed s")
  case False
  then have none: "sockets s = []" "intervals s = []"
    using assms by (auto simp: fc_inv_def ready_state_def)
  then show ?thesis using False assms
    by (simp add: connect_def Let_def fc_inv_def new_socket_def ready_state_def)
qed (use assms in \<open>simp add: connect_def\<close>)

lemma fc_inv_call: "fc_inv s \<Longrightarrow> fc_inv (run_call c s)"
  by (cases c) (simp_all add: fc_inv_send fc_inv_close)

lemma fc_call_keeps:
  "length (sockets (run_call c s)) = length (sockets s)" "set (intervals (run_call c s)) \<subseteq> set (intervals s)"
  "set (log (run_call c s)) = set (log s)"
  by (cases c; auto simp: close_shape close_def Let_def split: option.split)+

lemma fc_calls_keep:
  "fc_inv s \<Longrightarrow> fc_inv (fold run_call cs s) \<and> length (sockets (fold run_call cs s)) = length (sockets s)
     \<and> set (intervals (fold run_call cs s)) \<subseteq> set (intervals s)"
proof (induction cs arbitrary: s)
  case (Cons c cs)
  from Cons.IH [OF fc_inv_call [OF Cons.prems, of c]] fc_call_keeps(1,2) [of c s] show ?case by auto
qed simp

lemma fc_call_ready:
  "ready_state 0 s \<in> {WsOpen, WsClosing} \<Longrightarrow> ready_state 0 (run_call c s) \<in> {WsOpen, WsClosing}"
  by (cases c) (auto simp: close_def Let_def ready_state_close split: option.splits)

lemma fc_calls_ready:
  "ready_state 0 s \<in> {WsOpen, WsClosing} \<Longrightarrow> ready_state 0 (fold run_call cs s) \<in> {WsOpen, WsClosing}"
proof (induction cs arbitrary: s)
  case (Cons c cs)
  from Cons.IH [OF fc_call_ready [OF Cons.prems]] show ?case by simp
qed simp

lemma fc_start_timers_fields [simp]:
  "sockets (start_timers s) = sockets s" "ws (start_timers s) = ws s" "closed (start_timers s) = closed s"
  "log (start_timers s) = log s" "ready_state j (start_timers s) = ready_state j s"
  "wire_of j (start_timers s) = wire_of j s" "protocol_v2 (start_timers s) = protocol_v2 s"
  by (auto simp: start_timers_def set_interval_def Let_def ready_state_def wire_of_def)

lemma fc_inv_start_timers:
  assumes "fc_inv s" "intervals s = []" "ready_state 0 s \<in> {WsOpen, WsClosing}"
  shows "fc_inv (start_timers s)"
proof -
  have "\<forall>p \<in> set (intervals (start_timers s)).
      hbTimer (start_timers s) = Some (fst p) \<or> statsTimer (start_timers s) = Some (fst p)"
    using assms(2) by (auto simp: start_timers_def set_interval_def Let_def)
  then show ?thesis using assms by (auto simp: fc_inv_def)
qed

lemma fc_inv_open:
  assumes "fc_inv s" "ready_state i s = WsConnecting"
  shows "fc_inv (on_open rs rs' now (set_ready i WsOpen s))"
proof -
  have i: "i < length (sockets s)" using assms(2) ready_state_valid [of i s] by simp
  then have "i = 0" using assms(1) by (simp add: fc_inv_def)
  with assms have none: "intervals s = []" by (simp add: fc_inv_def)
  let ?s0 = "set_ready i WsOpen s"
  have s0: "fc_inv ?s0" "intervals ?s0 = []" "ready_state 0 ?s0 = WsOpen"
    using assms(1) none i \<open>i = 0\<close> by (simp_all add: fc_inv_def)
  show ?thesis
  proof (cases "closed ?s0")
    case False
    let ?s1 = "fold run_call rs (emit (OnStatus \<lparr>ss_phase = CONNECTING, ss_message = None, ss_code = None\<rparr>) ?s0)"
    let ?s2 = "fold run_call rs' (emit OnOpen ?s1)"
    have e0: "fc_inv (emit (OnStatus \<lparr>ss_phase = CONNECTING, ss_message = None, ss_code = None\<rparr>) ?s0)"
      using s0 by (simp add: fc_inv_emit)
    have s1: "fc_inv ?s1" "intervals ?s1 = []"
      using fc_calls_keep [OF e0, of rs] s0(2) by simp_all
    have r1: "ready_state 0 ?s1 \<in> {WsOpen, WsClosing}"
      by (rule fc_calls_ready) (simp only: fc_updates_keep s0(3) insertI1)
    have e1: "fc_inv (emit OnOpen ?s1)" by (rule fc_inv_emit [OF s1(1)]) simp
    have r2: "ready_state 0 ?s2 \<in> {WsOpen, WsClosing}"
      by (rule fc_calls_ready) (use r1 in \<open>simp only: fc_updates_keep\<close>)
    have s2: "fc_inv ?s2" "intervals ?s2 = []" "ready_state 0 ?s2 \<in> {WsOpen, WsClosing}"
      using fc_calls_keep [OF e1, of rs'] s1(2) r2 by simp_all
    have "fc_inv (start_timers (send (heartbeat now) ?s2))"
      by (rule fc_inv_start_timers) (use s2 in \<open>simp_all add: fc_inv_send\<close>)
    moreover have "on_open rs rs' now ?s0 = start_timers (send (heartbeat now) ?s2)"
      using False by (simp only: on_open_def if_False Let_def)
    ultimately show ?thesis by simp
  qed (use s0 in \<open>simp add: on_open_def\<close>)
qed

lemma fc_inv_emit_opt:
  "fc_inv s \<Longrightarrow> (\<And>x ms. f x \<noteq> OnLatency ms) \<Longrightarrow> fc_inv (emit_opt f x s)"
  by (cases x) (auto simp: emit_opt_def intro!: fc_inv_emit)

lemma fc_inv_server_message:
  assumes "fc_inv s" shows "fc_inv (snd (handleServerMessage now m s))"
  using assms unfolding handleServerMessage_def Let_def
  by (auto intro!: fc_inv_emit_opt fc_inv_emit split: option.split)

lemma fc_inv_text:
  assumes "fc_inv s" shows "fc_inv (handleText parse now t s)"
proof (cases "parse t")
  case (Parsed m)
  obtain raised u where u: "handleServerMessage now m s = (raised, u)" by force
  have "fc_inv u" using fc_inv_server_message [OF assms, of now m] u by simp
  then show ?thesis using Parsed u by (simp add: handleText_def fc_inv_emit)
qed (simp_all add: handleText_def fc_inv_emit assms)

lemma fc_inv_kind: "fc_inv s \<Longrightarrow> fc_inv (on_kind parse now h payload s)"
  by (auto simp: on_kind_def on_json_frame_def on_rect_frame_def on_batch_frame_def on_cursor_frame_def
      intro!: fc_inv_emit fc_inv_server_message split: parsed.split option.split)

lemma fc_inv_binary: "fc_inv s \<Longrightarrow> fc_inv (handleBinaryV2 parse now d s)"
  by (auto simp: handleBinaryV2_def Let_def intro!: fc_inv_emit fc_inv_kind split: option.split)

lemma fc_inv_message:
  assumes "fc_inv s" shows "fc_inv (handleMessage parse now d s)"
proof -
  have "fc_inv (s\<lparr>bytes_in := n\<rparr>)" for n by (rule fc_inv_same [OF assms]) simp_all
  then show ?thesis
    by (simp add: handleMessage_def Let_def fc_inv_binary fc_inv_text split: data.split)
qed

lemma fc_inv_on_close:
  assumes "fc_inv s" "ready_state i s \<noteq> WsClosed"
  shows "fc_inv (on_close reason code (set_ready i WsClosed s)) \<and> intervals (on_close reason code (set_ready i WsClosed s)) = []"
proof -
  let ?t = "set_ready i WsClosed s"
  have none: "intervals (cleanup ?t) = []" using assms(1) by (auto simp: fc_inv_def filter_empty_conv)
  have "sockets ?t = [] \<longleftrightarrow> sockets s = []" by (simp flip: length_0_conv)
  then have "fc_inv (cleanup ?t)" using assms(1) none by (simp add: fc_inv_def)
  then show ?thesis using none by (simp add: on_close_def Let_def fc_inv_emit)
qed

lemma fc_inv_perform: "fc_inv s \<Longrightarrow> perform parse i s = Some s' \<Longrightarrow> fc_inv s'"
proof (cases i)
  case (Tick n now)
  assume "fc_inv s" "perform parse i s = Some s'"
  then show ?thesis using Tick
    by (auto simp: on_tick_def fc_inv_send fc_inv_emit split: option.splits fc_timer.splits)
qed (auto simp: fc_inv_connect fc_inv_call fc_inv_open on_caps_def fc_inv_send fc_inv_message on_error_def
    fc_inv_emit fc_inv_on_close split: if_splits)

lemma fc_inv_run: "fc_inv s \<Longrightarrow> run parse inps s = Some s' \<Longrightarrow> fc_inv s'"
proof (induction inps arbitrary: s)
  case (Cons i inps)
  then obtain t where "perform parse i s = Some t" "run parse inps t = Some s'"
    by (auto split: option.splits)
  with Cons fc_inv_perform show ?case by blast
qed simp

lemma fc_inv_new: "fc_inv (new_frame_client b sid path stats v2)"
  by (simp add: fc_inv_def new_frame_client_def)

section \<open>Binary messages raise nothing\<close>

definition quiet :: "FrameClient \<Rightarrow> bool" where
  "quiet s \<longleftrightarrow> Uncaught \<notin> set (log s)"

lemma quiet_emit: "quiet s \<Longrightarrow> e \<noteq> Uncaught \<Longrightarrow> quiet (emit e s)"
  by (auto simp: quiet_def)

lemma quiet_emit_opt: "quiet s \<Longrightarrow> (\<And>x. f x \<noteq> Uncaught) \<Longrightarrow> quiet (emit_opt f x s)"
  by (cases x) (auto simp: emit_opt_def intro!: quiet_emit)

lemma quiet_server_message: "quiet s \<Longrightarrow> quiet (snd (handleServerMessage now m s))"
  unfolding handleServerMessage_def Let_def
  by (auto intro!: quiet_emit_opt quiet_emit split: option.split)

lemma quiet_binary:
  assumes "quiet s" shows "quiet (handleBinaryV2 parse now d s)"
proof (cases "length d < BINARY_HEADER_SIZE")
  case False
  then obtain h where h: "read_header d = Some h" using read_header_total [of d] by auto
  have kind: "quiet (on_kind parse now h payload s)" for payload
  proof -
    have "decodeFrameBatchPayload payload \<noteq> None"
      by (rule decode_batch_total)
    then show ?thesis
      using assms
      by (auto simp: on_kind_def on_json_frame_def on_rect_frame_def on_batch_frame_def on_cursor_frame_def
          intro!: quiet_emit quiet_server_message split: parsed.split option.split)
  qed
  show ?thesis
  proof (cases "length d < BINARY_HEADER_SIZE + unat (hd_payload h)")
    case True
    then show ?thesis using False h assms by (simp add: handleBinaryV2_def)
  next
    case fits: False
    then obtain payload where "sub_view d BINARY_HEADER_SIZE (unat (hd_payload h)) = Some payload"
      by (simp add: sub_view_def)
    then show ?thesis using False fits h kind by (simp add: handleBinaryV2_def)
  qed
qed (use assms in \<open>simp add: handleBinaryV2_def\<close>)

fun text_message :: "inp \<Rightarrow> bool" where
  "text_message (Message i (TextData t) now) = True"
| "text_message _ = False"

text \<open>While a socket is open the client holds it, unless it has been closed.\<close>

lemma fc_calls_log: "Uncaught \<in> set (log (fold run_call cs s)) \<longleftrightarrow> Uncaught \<in> set (log s)"
proof (induction cs arbitrary: s)
  case (Cons c cs)
  then show ?case using fc_call_keeps(3) [where c = c and s = s] by simp
qed simp

lemma quiet_open: "quiet s \<Longrightarrow> quiet (on_open rs rs' now s)"
  by (simp add: on_open_def Let_def quiet_def fc_calls_log)

lemma quiet_message:
  assumes "quiet s" "ws s \<noteq> None" "protocol_v2 s"
  shows "quiet (handleMessage parse now (BinaryData bs) s)"
  using assms quiet_binary [of "s\<lparr>bytes_in := n\<rparr>" for n] by (simp add: handleMessage_def Let_def quiet_def)

lemma fc_call_protocol: "protocol_v2 (run_call c s) = protocol_v2 s"
  by (cases c) (simp_all add: close_shape)

lemma fc_calls_protocol: "protocol_v2 (fold run_call cs s) = protocol_v2 s"
  by (induction cs arbitrary: s) (simp_all add: fc_call_protocol)

lemma emit_opt_protocol [simp]: "protocol_v2 (emit_opt f x s) = protocol_v2 s"
  by (simp add: emit_opt_def split: option.split)

lemma server_message_protocol [simp]: "protocol_v2 (snd (handleServerMessage now m s)) = protocol_v2 s"
  by (simp add: handleServerMessage_def Let_def split: option.split)

lemma text_protocol [simp]: "protocol_v2 (handleText parse now t s) = protocol_v2 s"
proof (cases "parse t")
  case (Parsed m)
  obtain raised u where u: "handleServerMessage now m s = (raised, u)" by force
  with server_message_protocol [of now m s] Parsed show ?thesis by (simp add: handleText_def)
qed (simp_all add: handleText_def)

lemma message_protocol [simp]: "protocol_v2 (handleMessage parse now d s) = protocol_v2 s"
  by (auto simp: handleMessage_def handleBinaryV2_def on_kind_def on_json_frame_def on_rect_frame_def
      on_batch_frame_def on_cursor_frame_def Let_def split: data.split option.split parsed.split)

lemma perform_protocol: "perform parse i s = Some s' \<Longrightarrow> protocol_v2 s' = protocol_v2 s"
  by (cases i) (auto simp: connect_def Let_def new_socket_def fc_call_protocol fc_calls_protocol on_open_def on_caps_def
      on_error_def on_close_def on_tick_def split: if_splits option.splits fc_timer.splits)

lemma quiet_perform:
  assumes "fc_inv s" "quiet s" "protocol_v2 s" "\<not> text_message i" "perform parse i s = Some s'"
  shows "quiet s'"
proof (cases i)
  case (Message j d now)
  then obtain bs where d: "d = BinaryData bs" using assms(4) by (cases d) auto
  show ?thesis
  proof (cases "closed s")
    case False
    have "sockets s \<noteq> []" using assms(5) Message ready_state_valid [of j s] by (auto split: if_splits)
    then have "ws s \<noteq> None" using assms(1) False by (simp add: fc_inv_def)
    then show ?thesis using assms Message d False quiet_message by (auto split: if_splits)
  qed (use assms Message in \<open>auto split: if_splits\<close>)
next
  case (Opened j rs rs' now)
  then show ?thesis using assms quiet_open [of "set_ready j WsOpen s"] by (auto simp: quiet_def split: if_splits)
next
  case (Call c)
  then show ?thesis using assms fc_call_keeps(3) [of c s] by (auto simp: quiet_def)
qed (use assms in \<open>auto simp: quiet_def connect_def Let_def new_socket_def on_caps_def on_error_def on_close_def
    on_tick_def split: if_splits option.splits fc_timer.splits\<close>)

lemma quiet_run:
  "fc_inv s \<Longrightarrow> quiet s \<Longrightarrow> protocol_v2 s \<Longrightarrow> \<not> list_ex text_message inps \<Longrightarrow> run parse inps s = Some s' \<Longrightarrow> quiet s'"
proof (induction inps arbitrary: s)
  case (Cons i inps)
  then obtain t where t: "perform parse i s = Some t" "run parse inps t = Some s'"
    by (auto split: option.splits)
  show ?case
    by (rule Cons.IH [OF fc_inv_perform [OF Cons.prems(1) t(1)] quiet_perform [OF Cons.prems(1-3) _ t(1)] _ _ t(2)])
      (use Cons.prems perform_protocol [OF t(1)] in simp_all)
qed simp

section \<open>Properties of every run\<close>

text \<open>C16: In every state the desktop client reaches there is at most one socket; no timer is live
  once it has closed, even if a callback closed the client while it was opening; every reported
  latency is at least 0 and below a minute; and on a connection speaking the binary protocol no
  binary message, whatever its bytes, makes the handler raise.\<close>

theorem frame_client_invariant:
  assumes "run parse inps (new_frame_client b sid path stats v2) = Some s"
  shows "length (sockets s) \<le> 1
    \<and> (ready_state 0 s = WsClosed \<longrightarrow> intervals s = [])
    \<and> (\<forall>ms. OnLatency ms \<in> set (log s) \<longrightarrow> 0 \<le> ms \<and> ms < 60000)
    \<and> (v2 \<and> \<not> list_ex text_message inps \<longrightarrow> Uncaught \<notin> set (log s))"
proof -
  have "fc_inv s" using fc_inv_run [OF fc_inv_new assms] .
  moreover have "quiet s" if "v2" "\<not> list_ex text_message inps"
    by (rule quiet_run [OF fc_inv_new _ _ that(2) assms]) (simp_all add: quiet_def new_frame_client_def that(1))
  ultimately show ?thesis by (simp add: fc_inv_def quiet_def)
qed

theorem frame_client_invariant_witness:
  "Uncaught \<notin> set (log (the (run (\<lambda>_. Malformed)
     [Connect None, Opened 0 [] [Close] 7, Closed 0 [] 1000] (new_frame_client [] [] None True True))))"
proof -
  let ?i = "[Connect None, Opened 0 [] [Close] 7, Closed 0 [] 1000]"
  have "run (\<lambda>_. Malformed) ?i (new_frame_client [] [] None True True) \<noteq> None" by code_simp
  then obtain s where s: "run (\<lambda>_. Malformed) ?i (new_frame_client [] [] None True True) = Some s" by blast
  show ?thesis using frame_client_invariant [OF s] unfolding s by simp
qed

section \<open>Silence after \<open>close\<close>\<close>

definition shut :: "FrameClient \<Rightarrow> FrameClient \<Rightarrow> bool" where
  "shut s0 s \<longleftrightarrow> closed s \<and> intervals s = [] \<and> (\<forall>i. wire_of i s = wire_of i s0) \<and> log s = log s0"

lemma shut_call: "shut s0 s \<Longrightarrow> shut s0 (run_call c s)"
  by (cases c) (simp_all add: shut_def close_def)

lemma shut_perform: "shut s0 s \<Longrightarrow> perform parse i s = Some s' \<Longrightarrow> shut s0 s'"
proof (cases i)
  case (Call c)
  then show "shut s0 s \<Longrightarrow> perform parse i s = Some s' \<Longrightarrow> shut s0 s'" using shut_call by auto
qed (auto simp: shut_def connect_def on_open_def on_caps_def on_error_def on_close_def Let_def split: if_splits)

lemma shut_run: "shut s0 s \<Longrightarrow> run parse inps s = Some s' \<Longrightarrow> shut s0 s'"
proof (induction inps arbitrary: s)
  case (Cons i inps)
  then obtain t where t: "perform parse i s = Some t" "run parse inps t = Some s'"
    by (auto split: option.splits)
  show ?case by (rule Cons.IH [OF shut_perform [OF Cons.prems(1) t(1)] t(2)])
qed simp

text \<open>After \<open>close\<close>, called outside a callback, the client makes no further callback and puts
  nothing on the wire, whatever calls, late events of the socket, probe results and ticks follow:
  it cannot be connected again.\<close>

theorem frame_client_closed_is_silent:
  assumes "run parse inps (new_frame_client b sid path stats v2) = Some s" "\<not> closed s"
    and "run parse inps' (close s) = Some s'"
  shows "log s' = log s \<and> (\<forall>i. wire_of i s' = wire_of i s) \<and> intervals s' = []"
proof -
  have "fc_inv (s\<lparr>closed := True\<rparr>)"
    using fc_inv_run [OF fc_inv_new assms(1)] by (simp add: fc_inv_def)
  then have "intervals (cleanup (s\<lparr>closed := True\<rparr>)) = []" using fc_inv_cleanup by blast
  moreover have "intervals (close s) = intervals (cleanup (s\<lparr>closed := True\<rparr>))"
    using assms(2) by (simp add: close_def Let_def split: option.split)
  ultimately have "shut s (close s)" by (simp add: shut_def close_shape)
  from shut_run [OF this assms(3)] show ?thesis by (simp add: shut_def)
qed

theorem frame_client_closed_is_silent_witness:
  "log (the (run (\<lambda>_. Malformed) [Connect None, Call (Send JNull), Closed 0 [] 1000]
     (close (connect None (new_frame_client [] [] None True True))))) = []"
proof -
  let ?s = "connect None (new_frame_client [] [] None True True)"
  let ?i = "[Connect None, Call (Send JNull), Closed 0 [] 1000]"
  have s: "run (\<lambda>_. Malformed) [Connect None] (new_frame_client [] [] None True True) = Some ?s" by simp
  have facts: "\<not> closed ?s" "log ?s = []" "run (\<lambda>_. Malformed) ?i (close ?s) \<noteq> None" by code_simp+
  then obtain s' where s': "run (\<lambda>_. Malformed) ?i (close ?s) = Some s'" by blast
  show ?thesis using frame_client_closed_is_silent [OF s facts(1) s'] facts(2) unfolding s' by simp
qed

end
