(* ===== verification/UploadQueue.thy ===== *)
theory UploadQueue
  imports PathUtil Complex_Main
begin

text \<open>
  The upload queue of the SFTP panel, \<open>components/sftp/useSftpUploadQueue.ts\<close>. The state is the
  task list of the hook and the asynchronous runs of \<open>runOne\<close>, each with the snapshot of its task
  and its abort controller; a run creates the directory of its task, sends the file and ends. The
  effect that starts runs (\<open>pump\<close>) can fire whenever the hook renders. Ids and clock readings are
  arguments; a run is known by its index.
\<close>

section \<open>Tasks\<close>

datatype UploadStatus = Pending | Uploading | Done | Failed | Cancelled

text \<open>
  \<open>error\<close> is \<open>None\<close> where the object has no such property and \<open>Some None\<close> where it is undefined;
  \<open>abort\<close> is the run whose controller the closure holds.
\<close>

record UploadTask =
  ut_id :: string
  ut_dest :: string
  ut_name :: string
  ut_size :: int
  ut_sent :: int
  ut_status :: UploadStatus
  ut_error :: "string option option"
  ut_startedAt :: "int option"
  ut_finishedAt :: "int option"
  ut_abort :: "nat option"

datatype run_phase = EnsuringDir | Sending | Ended

record upload_run =
  ru_task :: UploadTask
  ru_aborted :: bool
  ru_phase :: run_phase

record upload_queue =
  tasks :: "UploadTask list"
  ensuredDirs :: "string set"
  runs :: "upload_run list"
  concurrency :: nat
  filesDone :: "string list"

definition DEFAULT_CONCURRENCY :: nat where
  "DEFAULT_CONCURRENCY = 3"

definition new_queue :: "nat option \<Rightarrow> upload_queue" where
  "new_queue c =
     \<lparr>tasks = [], ensuredDirs = {}, runs = [], concurrency = nullish c DEFAULT_CONCURRENCY, filesDone = []\<rparr>"

definition update :: "string \<Rightarrow> (UploadTask \<Rightarrow> UploadTask) \<Rightarrow> upload_queue \<Rightarrow> upload_queue" where
  "update i patch q = q\<lparr>tasks := map_if (\<lambda>t. ut_id t = i) patch (tasks q)\<rparr>"

definition set_run :: "nat \<Rightarrow> (upload_run \<Rightarrow> upload_run) \<Rightarrow> upload_queue \<Rightarrow> upload_queue" where
  "set_run n f q = q\<lparr>runs := (runs q)[n := f (runs q ! n)]\<rparr>"

section \<open>One run\<close>

definition need_dir :: "upload_queue \<Rightarrow> string \<Rightarrow> bool" where
  "need_dir q dir \<longleftrightarrow> dir \<noteq> [] \<and> dir \<noteq> ''/'' \<and> dir \<notin> ensuredDirs q"

definition runOne :: "UploadTask \<Rightarrow> int \<Rightarrow> upload_queue \<Rightarrow> upload_queue" where
  "runOne task now q =
     (let n = length (runs q);
          q1 = q\<lparr>runs := runs q @ [\<lparr>ru_task = task, ru_aborted = False,
                 ru_phase = (if need_dir q (ut_dest task) then EnsuringDir else Sending)\<rparr>]\<rparr>
      in update (ut_id task)
           (\<lambda>t. t\<lparr>ut_status := Uploading, ut_startedAt := Some now, ut_abort := Some n\<rparr>) q1)"

text \<open>The end of \<open>mkdir\<close>, successful or not; a failure is ignored.\<close>

definition mkdir_done :: "nat \<Rightarrow> bool \<Rightarrow> upload_queue \<Rightarrow> upload_queue" where
  "mkdir_done n good q =
     (let q1 = (if good then q\<lparr>ensuredDirs := insert (ut_dest (ru_task (runs q ! n))) (ensuredDirs q)\<rparr> else q)
      in set_run n (\<lambda>r. r\<lparr>ru_phase := Sending\<rparr>) q1)"

definition upload_progress :: "nat \<Rightarrow> int \<Rightarrow> upload_queue \<Rightarrow> upload_queue" where
  "upload_progress n sent q = update (ut_id (ru_task (runs q ! n))) (\<lambda>t. t\<lparr>ut_sent := sent\<rparr>) q"

text \<open>The snapshot with the outcome is spread over the task; absent properties stay.\<close>

definition spread_done :: "UploadTask \<Rightarrow> int \<Rightarrow> UploadTask \<Rightarrow> UploadTask" where
  "spread_done task now t =
     t\<lparr>ut_dest := ut_dest task, ut_name := ut_name task, ut_size := ut_size task, ut_sent := ut_size task,
       ut_status := Done,
       ut_error := (if ut_error task = None then ut_error t else ut_error task),
       ut_startedAt := (if ut_startedAt task = None then ut_startedAt t else ut_startedAt task),
       ut_finishedAt := Some now, ut_abort := None\<rparr>"

definition upload_done :: "nat \<Rightarrow> int \<Rightarrow> upload_queue \<Rightarrow> upload_queue" where
  "upload_done n now q =
     (let task = ru_task (runs q ! n);
          q1 = update (ut_id task) (spread_done task now) (set_run n (\<lambda>r. r\<lparr>ru_phase := Ended\<rparr>) q)
      in q1\<lparr>filesDone := filesDone q1 @ [ut_id task]\<rparr>)"

text \<open>The exception handler: the message of the error (\<open>None\<close> where it has none) and \<open>String(e)\<close>.\<close>

definition upload_failed :: "nat \<Rightarrow> string option \<Rightarrow> string \<Rightarrow> int \<Rightarrow> upload_queue \<Rightarrow> upload_queue" where
  "upload_failed n message txt now q =
     (let cancelled = (message = Some ''aborted'');
          task = ru_task (runs q ! n)
      in update (ut_id task)
           (\<lambda>t. t\<lparr>ut_status := (if cancelled then Cancelled else Failed),
                  ut_error := Some (if cancelled then None else Some (or_str (nullish message []) txt)),
                  ut_finishedAt := Some now, ut_abort := None\<rparr>)
           (set_run n (\<lambda>r. r\<lparr>ru_phase := Ended\<rparr>) q))"

section \<open>The queue\<close>

definition uploading_count :: "upload_queue \<Rightarrow> nat" where
  "uploading_count q = length (filter (\<lambda>t. ut_status t = Uploading) (tasks q))"

definition pump :: "int \<Rightarrow> upload_queue \<Rightarrow> upload_queue" where
  "pump now q =
     (if uploading_count q \<ge> concurrency q then q
      else (case List.find (\<lambda>t. ut_status t = Pending) (tasks q) of
              None \<Rightarrow> q
            | Some t \<Rightarrow> runOne t now q))"

text \<open>The file as the browser gives it.\<close>

record picked_file =
  pf_name :: string
  pf_size :: int
  pf_relative :: "string option"

definition split_slashes :: "string \<Rightarrow> string list" where
  "split_slashes s = split_on CHR ''/'' (map (\<lambda>c. if c = CHR 0x5C then CHR ''/'' else c) s)"

definition safe_name :: "picked_file \<Rightarrow> string option \<Rightarrow> string" where
  "safe_name f name =
     (let full = or_str (or_str (nullish name []) (nullish (pf_relative f) [])) (pf_name f)
      in or_str (last (split_slashes full)) (pf_name f))"

definition upload_dest :: "picked_file \<Rightarrow> string \<Rightarrow> string option \<Rightarrow> string" where
  "upload_dest f dest relPath =
     (let rel = nullish relPath (nullish (pf_relative f) [])
      in if rel \<noteq> [] then path_join [dest, parent rel] else dest)"

definition enqueue ::
  "string \<Rightarrow> picked_file \<Rightarrow> string \<Rightarrow> string option \<Rightarrow> string option \<Rightarrow> upload_queue \<Rightarrow> upload_queue" where
  "enqueue i f dest name relPath q =
     q\<lparr>tasks := tasks q @ [\<lparr>ut_id = i, ut_dest = upload_dest f dest relPath, ut_name = safe_name f name,
       ut_size = pf_size f, ut_sent = 0, ut_status = Pending, ut_error = None, ut_startedAt = None,
       ut_finishedAt = None, ut_abort = None\<rparr>]\<rparr>"

definition enqueueMany :: "(string \<times> picked_file) list \<Rightarrow> string \<Rightarrow> upload_queue \<Rightarrow> upload_queue" where
  "enqueueMany fs dest q = fold (\<lambda>(i, f). enqueue i f dest None None) fs q"

definition abort_run :: "nat \<Rightarrow> upload_queue \<Rightarrow> upload_queue" where
  "abort_run n q = set_run n (\<lambda>r. r\<lparr>ru_aborted := True\<rparr>) q"

text \<open>Both cancel operations look at the tasks of the last render, the argument \<open>seen\<close>.\<close>

definition cancel :: "string \<Rightarrow> UploadTask list \<Rightarrow> upload_queue \<Rightarrow> upload_queue" where
  "cancel i seen q =
     (case List.find (\<lambda>t. ut_id t = i) seen of
        None \<Rightarrow> q
      | Some t \<Rightarrow>
          (case ut_abort t of
             Some n \<Rightarrow> abort_run n q
           | None \<Rightarrow> if ut_status t = Pending then update i (\<lambda>t. t\<lparr>ut_status := Cancelled\<rparr>) q else q))"

definition cancelAll :: "UploadTask list \<Rightarrow> upload_queue \<Rightarrow> upload_queue" where
  "cancelAll seen q =
     fold (\<lambda>t q.
        if ut_status t = Uploading \<and> ut_abort t \<noteq> None then abort_run (the (ut_abort t)) q
        else if ut_status t = Pending then update (ut_id t) (\<lambda>t. t\<lparr>ut_status := Cancelled\<rparr>) q
        else q) seen q"

definition requeue :: "UploadTask \<Rightarrow> UploadTask" where
  "requeue t = t\<lparr>ut_status := Pending, ut_sent := 0, ut_error := Some None\<rparr>"

definition retry :: "string \<Rightarrow> upload_queue \<Rightarrow> upload_queue" where
  "retry i q = update i requeue q"

definition retryFailed :: "upload_queue \<Rightarrow> upload_queue" where
  "retryFailed q = q\<lparr>tasks := map (\<lambda>t. if ut_status t = Failed then requeue t else t) (tasks q)\<rparr>"

definition is_active :: "UploadTask \<Rightarrow> bool" where
  "is_active t \<longleftrightarrow> ut_status t = Pending \<or> ut_status t = Uploading"

definition clearFinished :: "upload_queue \<Rightarrow> upload_queue" where
  "clearFinished q = q\<lparr>tasks := filter is_active (tasks q)\<rparr>"

section \<open>What the hook shows\<close>

definition active_tasks :: "upload_queue \<Rightarrow> UploadTask list" where
  "active_tasks q = filter is_active (tasks q)"

definition finished_tasks :: "upload_queue \<Rightarrow> UploadTask list" where
  "finished_tasks q = filter (\<lambda>t. \<not> is_active t) (tasks q)"

definition totalSent :: "upload_queue \<Rightarrow> int" where
  "totalSent q = sum_list (map ut_sent (active_tasks q))"

definition totalBytes :: "upload_queue \<Rightarrow> int" where
  "totalBytes q = sum_list (map ut_size (active_tasks q))"

definition done_count :: "upload_queue \<Rightarrow> nat" where
  "done_count q = length (filter (\<lambda>t. ut_status t = Done) (tasks q))"

definition failed_count :: "upload_queue \<Rightarrow> nat" where
  "failed_count q = length (filter (\<lambda>t. ut_status t = Failed) (tasks q))"

text \<open>\<open>Math.round\<close> of a quotient of integers is the floor of it plus one half.\<close>

definition pct :: "upload_queue \<Rightarrow> int" where
  "pct q =
     (if totalBytes q > 0 then \<lfloor>real_of_int (totalSent q) / real_of_int (totalBytes q) * 100 + 1 / 2\<rfloor>
      else if active_tasks q = [] then 100 else 0)"

section \<open>Steps\<close>

text \<open>
  An id is fresh when a file is queued. The events of a run follow its phase; a run whose
  controller is aborted ends with the message \<open>aborted\<close> once it is sending.
\<close>

datatype queue_step =
    Enqueue string picked_file string "string option" "string option"
  | Pump int | MkdirDone nat bool | Progress nat int | UploadDone nat int
  | UploadFailed nat "string option" string int
  | Cancel string "UploadTask list" | CancelAll "UploadTask list"
  | Retry string | RetryFailed | ClearFinished

fun phase_is :: "run_phase \<Rightarrow> nat \<Rightarrow> upload_queue \<Rightarrow> bool" where
  "phase_is ph n q \<longleftrightarrow> n < length (runs q) \<and> ru_phase (runs q ! n) = ph"

fun perform :: "queue_step \<Rightarrow> upload_queue \<Rightarrow> upload_queue option" where
  "perform (Enqueue i f dest name rel) q =
     (if i \<in> ut_id ` set (tasks q) \<or> i \<in> (\<lambda>r. ut_id (ru_task r)) ` set (runs q) then None
      else Some (enqueue i f dest name rel q))"
| "perform (Pump now) q = Some (pump now q)"
| "perform (MkdirDone n good) q = (if phase_is EnsuringDir n q then Some (mkdir_done n good q) else None)"
| "perform (Progress n sent) q = (if phase_is Sending n q then Some (upload_progress n sent q) else None)"
| "perform (UploadDone n now) q =
     (if phase_is Sending n q \<and> \<not> ru_aborted (runs q ! n) then Some (upload_done n now q) else None)"
| "perform (UploadFailed n m txt now) q =
     (if phase_is Sending n q then Some (upload_failed n m txt now q) else None)"
| "perform (Cancel i seen) q = Some (cancel i seen q)"
| "perform (CancelAll seen) q = Some (cancelAll seen q)"
| "perform (Retry i) q = Some (retry i q)"
| "perform RetryFailed q = Some (retryFailed q)"
| "perform ClearFinished q = Some (clearFinished q)"

fun run_steps :: "queue_step list \<Rightarrow> upload_queue \<Rightarrow> upload_queue option" where
  "run_steps [] q = Some q"
| "run_steps (a # as) q = (case perform a q of None \<Rightarrow> None | Some q' \<Rightarrow> run_steps as q')"

end
