(* ===== verification/UploadQueueProps.thy ===== *)
theory UploadQueueProps
  imports UploadQueue
begin

text \<open>
  Properties of the upload queue: the runs that are under way are exactly the tasks shown as
  uploading, never more than the configured number, and the bounds of the percentage.
\<close>

section \<open>The invariant\<close>

definition under_way :: "upload_run \<Rightarrow> bool" where
  "under_way r \<longleftrightarrow> ru_phase r \<noteq> Ended"

text \<open>A task that holds a run is uploading, and its run is under way and belongs to it.\<close>

definition task_ok :: "upload_run list \<Rightarrow> UploadTask \<Rightarrow> bool" where
  "task_ok rs t \<longleftrightarrow>
     (case ut_abort t of
        None \<Rightarrow> ut_status t \<noteq> Uploading
      | Some n \<Rightarrow> ut_status t = Uploading \<and> n < length rs \<and> under_way (rs ! n) \<and> ut_id (ru_task (rs ! n)) = ut_id t)"

definition run_ok :: "UploadTask list \<Rightarrow> upload_run list \<Rightarrow> nat \<Rightarrow> bool" where
  "run_ok ts rs n \<longleftrightarrow>
     (under_way (rs ! n) \<longrightarrow> (\<exists>t \<in> set ts. ut_id t = ut_id (ru_task (rs ! n)) \<and> ut_abort t = Some n))"

definition queue_inv :: "upload_queue \<Rightarrow> bool" where
  "queue_inv q \<longleftrightarrow>
     distinct (map ut_id (tasks q))
     \<and> (\<forall>t \<in> set (tasks q). task_ok (runs q) t)
     \<and> (\<forall>n < length (runs q). run_ok (tasks q) (runs q) n)
     \<and> uploading_count q \<le> concurrency q"

lemma same_id_same_task:
  "distinct (map ut_id ts) \<Longrightarrow> t \<in> set ts \<Longrightarrow> u \<in> set ts \<Longrightarrow> ut_id t = ut_id u \<Longrightarrow> t = u"
  by (auto simp: distinct_map inj_on_def)

lemma uploading_map_le:
  assumes "\<And>t. t \<in> set ts \<Longrightarrow> ut_status (f t) = Uploading \<Longrightarrow> ut_status t = Uploading"
  shows "length (filter (\<lambda>t. ut_status t = Uploading) (map f ts)) \<le> length (filter (\<lambda>t. ut_status t = Uploading) ts)"
  using assms by (induction ts) (auto simp: le_SucI)

text \<open>Rewriting the tasks one by one, without touching the link between tasks and runs.\<close>

lemma queue_inv_map:
  assumes "queue_inv q" "tasks q' = map f (tasks q)" "length (runs q') = length (runs q)" "concurrency q' = concurrency q"
    and f: "\<And>t. t \<in> set (tasks q) \<Longrightarrow> ut_id (f t) = ut_id t \<and> ut_abort (f t) = ut_abort t
      \<and> (ut_status (f t) = Uploading \<longleftrightarrow> ut_status t = Uploading)"
    and r: "\<And>n. n < length (runs q) \<Longrightarrow> ru_task (runs q' ! n) = ru_task (runs q ! n)
      \<and> under_way (runs q' ! n) = under_way (runs q ! n)"
  shows "queue_inv q'"
  unfolding queue_inv_def
proof (intro conjI ballI allI impI)
  have ids: "map ut_id (tasks q') = map ut_id (tasks q)" using f assms(2) by simp
  then show "distinct (map ut_id (tasks q'))" using assms(1) by (simp add: queue_inv_def)
  show "task_ok (runs q') t'" if "t' \<in> set (tasks q')" for t'
  proof -
    obtain t where t: "t \<in> set (tasks q)" "t' = f t" using \<open>t' \<in> set (tasks q')\<close> assms(2) by auto
    have "task_ok (runs q) t" using assms(1) t(1) by (simp add: queue_inv_def)
    then show ?thesis using f [OF t(1)] r t(2) assms(3) by (auto simp: task_ok_def split: option.splits)
  qed
  show "run_ok (tasks q') (runs q') n" if "n < length (runs q')" for n
  proof -
    have n: "n < length (runs q)" using \<open>n < length (runs q')\<close> assms(3) by simp
    have "run_ok (tasks q) (runs q) n" using assms(1) n by (simp add: queue_inv_def)
    then show ?thesis using f r [OF n] assms(2) unfolding run_ok_def by fastforce
  qed
  have "uploading_count q' \<le> uploading_count q"
    unfolding uploading_count_def assms(2) by (rule uploading_map_le) (use f in blast)
  then show "uploading_count q' \<le> concurrency q'" using assms(1,4) by (simp add: queue_inv_def)
qed

lemma queue_inv_update:
  assumes "queue_inv q"
    and "\<And>t. t \<in> set (tasks q) \<Longrightarrow> ut_id t = i \<Longrightarrow> ut_id (f t) = ut_id t \<and> ut_abort (f t) = ut_abort t
      \<and> (ut_status (f t) = Uploading \<longleftrightarrow> ut_status t = Uploading)"
  shows "queue_inv (update i f q)"
  by (rule queue_inv_map [OF assms(1), where f = "\<lambda>t. if ut_id t = i then f t else t"])
    (use assms(2) in \<open>auto simp: update_def map_if_def\<close>)

section \<open>Starting and ending a run\<close>

lemma run_ok_map:
  assumes "run_ok ts rs m" "rs' ! m = rs ! m" "\<And>t. t \<in> set ts \<Longrightarrow> ut_abort t = Some m \<Longrightarrow> f t = t"
  shows "run_ok (map f ts) rs' m"
  unfolding run_ok_def assms(2)
proof
  assume "under_way (rs ! m)"
  then obtain t where t: "t \<in> set ts" "ut_id t = ut_id (ru_task (rs ! m))" "ut_abort t = Some m"
    using assms(1) by (auto simp: run_ok_def)
  then have "t \<in> set (map f ts)" using assms(3) [OF t(1,3)] by force
  with t show "\<exists>t \<in> set (map f ts). ut_id t = ut_id (ru_task (rs ! m)) \<and> ut_abort t = Some m" by blast
qed

lemma queue_inv_start:
  assumes "queue_inv q" "t0 \<in> set (tasks q)" "ut_status t0 = Pending" "uploading_count q < concurrency q"
  shows "queue_inv (runOne t0 now q)"
proof -
  let ?n = "length (runs q)"
  let ?g = "\<lambda>t. t\<lparr>ut_status := Uploading, ut_startedAt := Some now, ut_abort := Some ?n\<rparr>"
  let ?f = "\<lambda>t. if ut_id t = ut_id t0 then ?g t else t"
  obtain ph where ph: "ph \<noteq> Ended" "runs (runOne t0 now q) = runs q @ [\<lparr>ru_task = t0, ru_aborted = False, ru_phase = ph\<rparr>]"
    using that [of "if need_dir q (ut_dest t0) then EnsuringDir else Sending"]
    by (simp add: runOne_def update_def Let_def)
  let ?q = "runOne t0 now q"
  have tasks: "tasks ?q = map ?f (tasks q)" and conc: "concurrency ?q = concurrency q"
    by (auto simp: runOne_def update_def map_if_def Let_def)
  have dist: "distinct (map ut_id (tasks q))" using assms(1) by (simp add: queue_inv_def)
  have other: "ut_id t \<noteq> ut_id t0" if "t \<in> set (tasks q)" "ut_status t \<noteq> Pending" for t
    using same_id_same_task [OF dist that(1) assms(2)] that(2) assms(3) by auto
  show ?thesis
    unfolding queue_inv_def
  proof (intro conjI ballI allI impI)
    have "map ut_id (tasks ?q) = map ut_id (tasks q)" unfolding tasks by simp
    then show "distinct (map ut_id (tasks ?q))" using dist by simp
    show "task_ok (runs ?q) t'" if "t' \<in> set (tasks ?q)" for t'
    proof -
      obtain t where t: "t \<in> set (tasks q)" "t' = ?f t" using \<open>t' \<in> set (tasks ?q)\<close> unfolding tasks by auto
      have "task_ok (runs q) t" using assms(1) t(1) by (simp add: queue_inv_def)
      then show ?thesis
        using t(2) ph by (cases "ut_id t = ut_id t0")
          (auto simp: task_ok_def under_way_def nth_append split: option.splits)
    qed
    show "run_ok (tasks ?q) (runs ?q) m" if "m < length (runs ?q)" for m
    proof (cases "m = ?n")
      case True
      have "?f t0 \<in> set (tasks ?q)" unfolding tasks using assms(2) by simp
      then show ?thesis using True ph unfolding run_ok_def by (intro impI bexI [of _ "?f t0"]) simp_all
    next
      case False
      then have m: "m < ?n" using that ph by simp
      have "run_ok (tasks q) (runs q) m" using assms(1) m by (simp add: queue_inv_def)
      moreover have "t \<in> set (tasks q) \<Longrightarrow> ut_abort t = Some m \<Longrightarrow> ?f t = t" for t
        using other [of t] assms(1) by (auto simp: queue_inv_def task_ok_def)
      ultimately show ?thesis
        unfolding tasks using m ph by (intro run_ok_map) (simp_all add: nth_append)
    qed
    have "length (filter (\<lambda>t. ut_status t = Uploading) (map ?f ts)) \<le> Suc (length (filter (\<lambda>t. ut_status t = Uploading) ts))"
      if "distinct (map ut_id ts)" for ts
      using that
    proof (induction ts)
      case (Cons t ts)
      show ?case
      proof (cases "ut_id t = ut_id t0")
        case True
        then have "map ?f ts = ts" using Cons.prems by (intro map_idI) (metis (no_types, lifting) distinct.simps(2) image_eqI list.set_map list.simps(9))
        then show ?thesis using True by simp
      next
        case False
        then show ?thesis using Cons by simp
      qed
    qed simp
    from this [OF dist] show "uploading_count ?q \<le> concurrency ?q"
      using assms(4) unfolding uploading_count_def tasks conc by simp
  qed
qed

lemma queue_inv_finish:
  assumes "queue_inv q" "n < length (runs q)" "under_way (runs q ! n)"
    and f: "\<And>t. ut_id (f t) = ut_id t \<and> ut_abort (f t) = None \<and> ut_status (f t) \<noteq> Uploading"
  shows "queue_inv (update (ut_id (ru_task (runs q ! n))) f (set_run n (\<lambda>r. r\<lparr>ru_phase := Ended\<rparr>) q))"
    (is "queue_inv ?q")
proof -
  let ?i = "ut_id (ru_task (runs q ! n))"
  let ?f = "\<lambda>t. if ut_id t = ?i then f t else t"
  have tasks: "tasks ?q = map ?f (tasks q)" and conc: "concurrency ?q = concurrency q"
    and runs: "runs ?q = (runs q)[n := (runs q ! n)\<lparr>ru_phase := Ended\<rparr>]"
    by (auto simp: update_def set_run_def map_if_def)
  have dist: "distinct (map ut_id (tasks q))" using assms(1) by (simp add: queue_inv_def)
  obtain t0 where t0: "t0 \<in> set (tasks q)" "ut_id t0 = ?i" "ut_abort t0 = Some n"
    using assms(1-3) by (auto simp: queue_inv_def run_ok_def)
  have mine: "ut_id t = ?i" if "t \<in> set (tasks q)" "ut_abort t = Some n" for t
    using assms(1) that by (auto simp: queue_inv_def task_ok_def)
  have other: "ut_id t \<noteq> ?i" if "t \<in> set (tasks q)" "ut_abort t = Some m" "m \<noteq> n" for t m
    using same_id_same_task [OF dist that(1) t0(1)] t0 that by auto
  show ?thesis
    unfolding queue_inv_def
  proof (intro conjI ballI allI impI)
    have "map ut_id (tasks ?q) = map ut_id (tasks q)" unfolding tasks using f by simp
    then show "distinct (map ut_id (tasks ?q))" using dist by simp
    show "task_ok (runs ?q) t'" if "t' \<in> set (tasks ?q)" for t'
    proof -
      obtain t where t: "t \<in> set (tasks q)" "t' = ?f t" using \<open>t' \<in> set (tasks ?q)\<close> unfolding tasks by auto
      have old: "task_ok (runs q) t" using assms(1) t(1) by (simp add: queue_inv_def)
      show ?thesis
      proof (cases "ut_id t = ?i")
        case True
        then show ?thesis using t(2) f [of t] by (simp add: task_ok_def)
      next
        case False
        then have "ut_abort t \<noteq> Some n" using mine t(1) by blast
        then show ?thesis using False t(2) old unfolding runs by (auto simp: task_ok_def split: option.splits)
      qed
    qed
    show "run_ok (tasks ?q) (runs ?q) m" if "m < length (runs ?q)" for m
    proof (cases "m = n")
      case True
      then show ?thesis using assms(2) by (simp add: runs run_ok_def under_way_def)
    next
      case False
      have "m < length (runs q)" using that runs by simp
      then have "run_ok (tasks q) (runs q) m" using assms(1) by (simp add: queue_inv_def)
      moreover have "t \<in> set (tasks q) \<Longrightarrow> ut_abort t = Some m \<Longrightarrow> ?f t = t" for t using other False by simp
      ultimately show ?thesis unfolding tasks runs using False by (intro run_ok_map) simp_all
    qed
    have "uploading_count ?q \<le> uploading_count q"
      unfolding uploading_count_def tasks by (rule uploading_map_le) (use f in \<open>auto split: if_splits\<close>)
    then show "uploading_count ?q \<le> concurrency ?q" using assms(1) conc by (simp add: queue_inv_def)
  qed
qed

section \<open>Every operation\<close>

lemma queue_inv_runs:
  assumes "queue_inv q" "tasks q' = tasks q" "length (runs q') = length (runs q)" "concurrency q' = concurrency q"
    and "\<And>n. n < length (runs q) \<Longrightarrow> ru_task (runs q' ! n) = ru_task (runs q ! n)
      \<and> under_way (runs q' ! n) = under_way (runs q ! n)"
  shows "queue_inv q'"
  by (rule queue_inv_map [OF assms(1), where f = "\<lambda>t. t"]) (use assms in auto)

lemma set_run_fields [simp]:
  "tasks (set_run n f q) = tasks q" "length (runs (set_run n f q)) = length (runs q)"
  "concurrency (set_run n f q) = concurrency q"
  by (simp_all add: set_run_def)

lemma nth_update: "m < length xs \<Longrightarrow> xs[n := x] ! m = (if n = m then x else xs ! m)"
  by (cases "n = m") simp_all

lemma queue_inv_mkdir:
  assumes "queue_inv q" "n < length (runs q)" "ru_phase (runs q ! n) = EnsuringDir"
  shows "queue_inv (mkdir_done n good q)"
  by (rule queue_inv_runs [OF assms(1)])
    (use assms in \<open>auto simp: mkdir_done_def Let_def set_run_def under_way_def nth_list_update\<close>)

lemma queue_inv_abort: "queue_inv q \<Longrightarrow> queue_inv (abort_run n q)"
  by (rule queue_inv_runs [of q]) (auto simp: abort_run_def set_run_def under_way_def nth_update)

lemma queue_inv_done:
  assumes "queue_inv q" "n < length (runs q)" "ru_phase (runs q ! n) = Sending"
  shows "queue_inv (upload_done n now q)"
proof -
  let ?t = "ru_task (runs q ! n)"
  let ?u = "update (ut_id ?t) (spread_done ?t now) (set_run n (\<lambda>r. r\<lparr>ru_phase := Ended\<rparr>) q)"
  have "queue_inv ?u"
    by (rule queue_inv_finish [OF assms(1,2)]) (use assms(3) in \<open>simp_all add: under_way_def spread_done_def\<close>)
  then show ?thesis by (simp add: upload_done_def Let_def queue_inv_def uploading_count_def)
qed

lemma queue_inv_failed:
  assumes "queue_inv q" "n < length (runs q)" "ru_phase (runs q ! n) = Sending"
  shows "queue_inv (upload_failed n m txt now q)"
  unfolding upload_failed_def Let_def
  by (rule queue_inv_finish [OF assms(1,2)]) (use assms(3) in \<open>simp_all add: under_way_def\<close>)

lemma queue_inv_enqueue:
  assumes "queue_inv q" "i \<notin> ut_id ` set (tasks q)"
  shows "queue_inv (enqueue i f dest name rel q)"
proof -
  have "run_ok (tasks q @ ts) (runs q) n" if "run_ok (tasks q) (runs q) n" for ts n
    using that unfolding run_ok_def by auto
  then show ?thesis
    using assms by (auto simp: enqueue_def queue_inv_def task_ok_def uploading_count_def)
qed

lemma queue_inv_pump: "queue_inv q \<Longrightarrow> queue_inv (pump now q)"
  by (auto simp: pump_def not_le dest: find_SomeD intro!: queue_inv_start split: option.split)

text \<open>Changing tasks that are not uploading to another status that is not.\<close>

lemma queue_inv_idle:
  assumes "queue_inv q" "\<And>t. t \<in> set (tasks q) \<Longrightarrow> ut_id t = i \<Longrightarrow> ut_status t \<noteq> Uploading"
    and "\<And>t. ut_id (f t) = ut_id t \<and> ut_abort (f t) = ut_abort t \<and> ut_status (f t) \<noteq> Uploading"
  shows "queue_inv (update i f q)"
  by (rule queue_inv_update [OF assms(1)]) (use assms(2,3) in blast)

lemma queue_inv_retry_failed: "queue_inv q \<Longrightarrow> queue_inv (retryFailed q)"
  by (rule queue_inv_map [of q _ "\<lambda>t. if ut_status t = Failed then requeue t else t"])
    (auto simp: retryFailed_def requeue_def)

lemma queue_inv_clear:
  assumes "queue_inv q" shows "queue_inv (clearFinished q)"
proof -
  have up: "is_active t" if "t \<in> set (tasks q)" "ut_abort t = Some n" for t n
    using assms that by (auto simp: queue_inv_def task_ok_def is_active_def)
  have "run_ok (filter is_active (tasks q)) (runs q) n" if "n < length (runs q)" for n
  proof -
    have "run_ok (tasks q) (runs q) n" using assms that by (simp add: queue_inv_def)
    then show ?thesis using up unfolding run_ok_def by auto
  qed
  moreover have "filter (\<lambda>t. ut_status t = Uploading) (filter is_active (tasks q)) =
      filter (\<lambda>t. ut_status t = Uploading) (tasks q)"
    by (auto simp: is_active_def intro!: filter_cong)
  moreover have "distinct (map ut_id (filter is_active (tasks q)))"
    using assms by (simp add: queue_inv_def distinct_filter_map)
  ultimately show ?thesis
    using assms by (simp add: clearFinished_def queue_inv_def uploading_count_def)
qed

text \<open>Cancelling acts on the tasks as rendered; none of those seen pending may be uploading.\<close>

definition settled :: "UploadTask list \<Rightarrow> upload_queue \<Rightarrow> bool" where
  "settled seen q \<longleftrightarrow>
     (\<forall>t \<in> set seen. ut_status t = Pending \<longrightarrow> (\<forall>u \<in> set (tasks q). ut_id u = ut_id t \<longrightarrow> ut_status u \<noteq> Uploading))"

lemma settled_self: "queue_inv q \<Longrightarrow> settled (tasks q) q"
  unfolding settled_def
proof (intro ballI impI)
  fix t u
  assume "queue_inv q" "t \<in> set (tasks q)" "ut_status t = Pending" "u \<in> set (tasks q)" "ut_id u = ut_id t"
  then show "ut_status u \<noteq> Uploading" using same_id_same_task [of "tasks q" u t] by (auto simp: queue_inv_def)
qed

lemma settled_cancel: "settled seen q \<Longrightarrow> settled seen (update i (\<lambda>t. t\<lparr>ut_status := Cancelled\<rparr>) q)"
  by (auto simp: settled_def update_def map_if_def split: if_splits)

lemma queue_inv_cancel_step:
  assumes "queue_inv q" "settled [t] q" "ut_status t = Pending"
  shows "queue_inv (update (ut_id t) (\<lambda>t. t\<lparr>ut_status := Cancelled\<rparr>) q)"
  by (rule queue_inv_idle [OF assms(1)]) (use assms(2,3) in \<open>auto simp: settled_def\<close>)

lemma queue_inv_cancel_all:
  "queue_inv q \<Longrightarrow> settled seen q \<Longrightarrow> queue_inv (cancelAll seen q)"
  unfolding cancelAll_def
proof (induction seen arbitrary: q)
  case (Cons t seen)
  let ?q1 = "if ut_status t = Uploading \<and> ut_abort t \<noteq> None then abort_run (the (ut_abort t)) q
        else if ut_status t = Pending then update (ut_id t) (\<lambda>t. t\<lparr>ut_status := Cancelled\<rparr>) q else q"
  have one: "settled [t] q" and rest: "settled seen q" using Cons.prems(2) by (simp_all add: settled_def)
  have "queue_inv ?q1"
    using Cons.prems(1) queue_inv_cancel_step [OF _ one] queue_inv_abort by simp
  moreover have "settled seen ?q1"
    using rest settled_cancel [OF rest] by (simp add: abort_run_def settled_def)
  ultimately show ?case using Cons.IH by (simp only: fold_simps)
qed simp

lemma queue_inv_cancel: "queue_inv q \<Longrightarrow> settled seen q \<Longrightarrow> queue_inv (cancel i seen q)"
proof (cases "List.find (\<lambda>t. ut_id t = i) seen")
  case (Some t)
  assume inv: "queue_inv q" and "settled seen q"
  moreover have "t \<in> set seen" "ut_id t = i" using find_SomeD [OF Some] by auto
  ultimately show ?thesis
    using Some queue_inv_cancel_step [of q t] queue_inv_abort by (auto simp: cancel_def settled_def split: option.split)
qed (simp add: cancel_def)

section \<open>Runs of the queue\<close>

text \<open>
  What the panel does: it cancels what it shows, and offers to retry only what is not uploading.
\<close>

fun orderly_step :: "queue_step \<Rightarrow> upload_queue \<Rightarrow> bool" where
  "orderly_step (Cancel i seen) q \<longleftrightarrow> seen = tasks q"
| "orderly_step (CancelAll seen) q \<longleftrightarrow> seen = tasks q"
| "orderly_step (Retry i) q \<longleftrightarrow> list_all (\<lambda>t. ut_id t = i \<longrightarrow> ut_status t \<noteq> Uploading) (tasks q)"
| "orderly_step a q \<longleftrightarrow> True"

fun orderly :: "queue_step list \<Rightarrow> upload_queue \<Rightarrow> bool" where
  "orderly [] q = True"
| "orderly (a # as) q = (orderly_step a q \<and> (case perform a q of None \<Rightarrow> False | Some q' \<Rightarrow> orderly as q'))"

lemma queue_inv_perform:
  assumes "queue_inv q" "orderly_step a q" "perform a q = Some q'"
  shows "queue_inv q'"
proof (cases a)
  case (Progress n sent)
  then show ?thesis using assms(1,3)
    by (auto simp: upload_progress_def intro!: queue_inv_update split: if_splits)
next
  case (Retry i)
  have "queue_inv (update i requeue q)"
    by (rule queue_inv_idle [OF assms(1)]) (use assms(2) Retry in \<open>auto simp: requeue_def list_all_iff\<close>)
  then show ?thesis using assms(3) Retry by (simp add: retry_def)
qed (use assms settled_self [OF assms(1)] in \<open>auto simp: queue_inv_enqueue queue_inv_pump queue_inv_mkdir queue_inv_done
    queue_inv_failed queue_inv_cancel queue_inv_cancel_all queue_inv_retry_failed queue_inv_clear split: if_splits\<close>)

lemma queue_inv_steps:
  "queue_inv q \<Longrightarrow> orderly as q \<Longrightarrow> run_steps as q = Some q' \<Longrightarrow> queue_inv q'"
proof (induction as arbitrary: q)
  case (Cons a as)
  then obtain u where u: "perform a q = Some u" "orderly as u" "run_steps as u = Some q'" "orderly_step a q"
    by (auto split: option.splits)
  show ?case by (rule Cons.IH [OF queue_inv_perform [OF Cons.prems(1) u(4,1)] u(2,3)])
qed simp

lemma queue_inv_new: "queue_inv (new_queue c)"
  by (simp add: queue_inv_def new_queue_def uploading_count_def)

text \<open>The runs under way and the uploading tasks correspond one to one.\<close>

lemma runs_are_uploads:
  assumes "queue_inv q"
  shows "card {n. n < length (runs q) \<and> under_way (runs q ! n)} = uploading_count q"
proof -
  let ?R = "{n. n < length (runs q) \<and> under_way (runs q ! n)}"
  let ?T = "{t \<in> set (tasks q). ut_status t = Uploading}"
  have dist: "distinct (map ut_id (tasks q))" using assms by (simp add: queue_inv_def)
  have ok: "task_ok (runs q) t" if "t \<in> set (tasks q)" for t using assms that by (simp add: queue_inv_def)
  have "bij_betw (\<lambda>t. the (ut_abort t)) ?T ?R"
  proof (rule bij_betw_imageI)
    show "inj_on (\<lambda>t. the (ut_abort t)) ?T"
    proof (rule inj_onI)
      fix t u assume tu: "t \<in> ?T" "u \<in> ?T" "the (ut_abort t) = the (ut_abort u)"
      then have "ut_id t = ut_id u" using ok [of t] ok [of u] by (auto simp: task_ok_def split: option.splits)
      then show "t = u" using same_id_same_task [OF dist] tu by blast
    qed
    show "(\<lambda>t. the (ut_abort t)) ` ?T = ?R"
    proof (intro equalityI subsetI)
      fix n assume "n \<in> (\<lambda>t. the (ut_abort t)) ` ?T"
      then obtain t where "t \<in> set (tasks q)" "ut_status t = Uploading" "n = the (ut_abort t)" by auto
      then show "n \<in> ?R" using ok [of t] by (auto simp: task_ok_def split: option.splits)
    next
      fix n assume n: "n \<in> ?R"
      then obtain t where t: "t \<in> set (tasks q)" "ut_abort t = Some n"
        using assms by (auto simp: queue_inv_def run_ok_def)
      then have "t \<in> ?T" using ok [of t] by (simp add: task_ok_def)
      with t show "n \<in> (\<lambda>t. the (ut_abort t)) ` ?T" by force
    qed
  qed
  then have "card ?R = card ?T" by (rule bij_betw_same_card [symmetric])
  also have "?T = set (filter (\<lambda>t. ut_status t = Uploading) (tasks q))" by auto
  also have "card \<dots> = uploading_count q"
    unfolding uploading_count_def by (rule distinct_card) (use dist in \<open>simp add: distinct_map\<close>)
  finally show ?thesis .
qed


definition two_files :: "queue_step list" where
  "two_files =
     [Enqueue ''a'' \<lparr>pf_name = ''x'', pf_size = 10, pf_relative = None\<rparr> ''/d'' None None,
      Enqueue ''b'' \<lparr>pf_name = ''y'', pf_size = 0, pf_relative = Some ''s/y''\<rparr> ''/d'' None None,
      Pump 1, Pump 2, Pump 3]"


section \<open>The percentage\<close>

lemma sent_bounds:
  "\<forall>t \<in> set ts. 0 \<le> ut_sent t \<and> ut_sent t \<le> ut_size t \<Longrightarrow>
     0 \<le> sum_list (map ut_sent ts) \<and> sum_list (map ut_sent ts) \<le> sum_list (map ut_size ts)"
  by (induction ts) auto

text \<open>The percentage lies between 0 and 100 as long as no task has sent more than its size.
  But the progress events of a request count the multipart envelope too: a file of 10 bytes whose
  request of 30 bytes has gone out is shown at 300 percent.\<close>

theorem upload_percent_bounds:
  "((\<forall>t \<in> set (active_tasks q). 0 \<le> ut_sent t \<and> ut_sent t \<le> ut_size t) \<longrightarrow> 0 \<le> pct q \<and> pct q \<le> 100)
   \<and> map_option pct (run_steps (two_files @ [MkdirDone 0 True, Progress 0 30]) (new_queue (Some 1))) = Some 300"
proof (intro conjI impI)
  assume "\<forall>t \<in> set (active_tasks q). 0 \<le> ut_sent t \<and> ut_sent t \<le> ut_size t"
  from sent_bounds [OF this] have b: "0 \<le> totalSent q" "totalSent q \<le> totalBytes q"
    by (simp_all add: totalSent_def totalBytes_def)
  define x where "x = real_of_int (totalSent q) / real_of_int (totalBytes q) * 100 + 1 / 2"
  have "0 \<le> x \<and> x < 101" if "0 < totalBytes q"
  proof -
    have "0 \<le> real_of_int (totalSent q) / real_of_int (totalBytes q)"
      "real_of_int (totalSent q) / real_of_int (totalBytes q) \<le> 1"
      using b that by (simp_all add: divide_le_eq_1)
    then show ?thesis by (simp add: x_def)
  qed
  then have "0 < totalBytes q \<longrightarrow> 0 \<le> \<lfloor>x\<rfloor> \<and> \<lfloor>x\<rfloor> < 101" by (simp add: floor_less_iff)
  then show "0 \<le> pct q" "pct q \<le> 100" by (auto simp: pct_def x_def)
next
  have "map_option (\<lambda>q. (totalSent q, totalBytes q))
      (run_steps (two_files @ [MkdirDone 0 True, Progress 0 30]) (new_queue (Some 1))) = Some (30, 10)"
    by code_simp
  then show "map_option pct (run_steps (two_files @ [MkdirDone 0 True, Progress 0 30]) (new_queue (Some 1))) = Some 300"
    by (auto simp: pct_def)
qed

theorem upload_percent_bounds_witness: "0 \<le> pct (new_queue None) \<and> pct (new_queue None) \<le> 100"
  using upload_percent_bounds [of "new_queue None"] by (simp add: active_tasks_def new_queue_def)

end
