(* ===== verification/DriveTransfers.thy ===== *)
theory DriveTransfers
  imports PathUtil UploadQueue "HOL-Library.Multiset"
begin

text \<open>
  The upload queue of the desktop's drive panel, \<open>components/desktop/useDriveTransfers.ts\<close>. Beside
  the store there are the module's map from task ids to files and abort controllers (\<open>runtime\<close>,
  which keeps the controller), the directories already created, and the runs of \<open>runOne\<close> that are
  under way, each with what it has captured. A controller is a number; \<open>aborted\<close> are those that
  were aborted. Every operation that can free or fill a slot ends with \<open>pump\<close>, as in the code.
\<close>

section \<open>State\<close>

datatype TransferStatus = Queued | Uploading | Done | Failed | Canceled

record Transfer =
  tr_id :: string
  tr_name :: string
  tr_relPath :: string
  tr_destPath :: string
  tr_size :: int
  tr_sent :: int
  tr_status :: TransferStatus
  tr_error :: "string option"
  tr_startedAt :: "int option"
  tr_finishedAt :: "int option"

record drive_run =
  dr_id :: string
  dr_dest :: string
  dr_size :: int
  dr_ctrl :: nat
  dr_sending :: bool

record drive_queue =
  transfers :: "Transfer list"
  runtime :: "string \<Rightarrow> nat option"
  next_ctrl :: nat
  aborted :: "nat list"
  ensured :: "string list"
  under_way :: "drive_run list"

definition CONCURRENCY :: nat where
  "CONCURRENCY = 3"

definition new_drive :: drive_queue where
  "new_drive = \<lparr>transfers = [], runtime = Map.empty, next_ctrl = 0, aborted = [], ensured = [], under_way = []\<rparr>"

section \<open>Paths\<close>

definition drive_basename :: "string \<Rightarrow> string" where
  "drive_basename p = or_str (last (split_slashes p)) p"

definition drive_dirname :: "string \<Rightarrow> string" where
  "drive_dirname p = (case last_index CHR ''/'' p of None \<Rightarrow> [] | Some i \<Rightarrow> take i p)"

definition joinPath :: "string \<Rightarrow> string \<Rightarrow> string" where
  "joinPath b sub = (if sub = [] then b else if b \<noteq> [] then b @ ''/'' @ sub else sub)"

section \<open>Runs\<close>

definition patch :: "string \<Rightarrow> (Transfer \<Rightarrow> Transfer) \<Rightarrow> drive_queue \<Rightarrow> drive_queue" where
  "patch i p s = s\<lparr>transfers := map_if (\<lambda>t. tr_id t = i) p (transfers s)\<rparr>"

definition drive_need_dir :: "drive_queue \<Rightarrow> string \<Rightarrow> bool" where
  "drive_need_dir s dir \<longleftrightarrow> dir \<noteq> [] \<and> dir \<notin> set (ensured s)"

definition begin_upload :: "int \<Rightarrow> Transfer \<Rightarrow> Transfer" where
  "begin_upload now t = t\<lparr>tr_status := Uploading, tr_startedAt := Some now, tr_sent := 0, tr_error := None\<rparr>"

definition runOne :: "string \<Rightarrow> int \<Rightarrow> drive_queue \<Rightarrow> drive_queue" where
  "runOne i now s =
     (case (runtime s i, List.find (\<lambda>t. tr_id t = i) (transfers s)) of
        (Some ctrl, Some t) \<Rightarrow>
          (patch i (begin_upload now) s)\<lparr>under_way := under_way s @
            [\<lparr>dr_id = i, dr_dest = tr_destPath t, dr_size = tr_size t, dr_ctrl = ctrl,
              dr_sending = (\<not> drive_need_dir s (tr_destPath t))\<rparr>]\<rparr>
      | _ \<Rightarrow> s)"

definition uploading :: "Transfer list \<Rightarrow> Transfer list" where
  "uploading ts = filter (\<lambda>t. tr_status t = Uploading) ts"

definition has_queued :: "drive_queue \<Rightarrow> bool" where
  "has_queued s = list_ex (\<lambda>t. tr_status t = Queued) (transfers s)"

text \<open>The \<open>while\<close> loop makes at most as many turns as there are free slots.\<close>

fun pump_loop :: "nat \<Rightarrow> int \<Rightarrow> drive_queue \<Rightarrow> drive_queue" where
  "pump_loop 0 now s = s"
| "pump_loop (Suc free) now s =
     (case List.find (\<lambda>t. tr_status t = Queued) (transfers s) of
        None \<Rightarrow> s
      | Some t \<Rightarrow> pump_loop free now (runOne (tr_id t) now s))"

definition pump :: "int \<Rightarrow> drive_queue \<Rightarrow> drive_queue" where
  "pump now s =
     (let running = length (uploading (transfers s));
          s1 = (if running = 0 \<and> \<not> has_queued s then s\<lparr>ensured := []\<rparr> else s)
      in pump_loop (CONCURRENCY - running) now s1)"

definition set_sending :: "nat \<Rightarrow> drive_queue \<Rightarrow> drive_queue" where
  "set_sending k s = s\<lparr>under_way := (under_way s)[k := (under_way s ! k)\<lparr>dr_sending := True\<rparr>]\<rparr>"

text \<open>Whether \<open>mkdir\<close> succeeded or not, the directory counts as created.\<close>

definition mkdir_done :: "nat \<Rightarrow> drive_queue \<Rightarrow> drive_queue" where
  "mkdir_done k s = set_sending k (s\<lparr>ensured := dr_dest (under_way s ! k) # ensured s\<rparr>)"

definition progress :: "nat \<Rightarrow> int \<Rightarrow> drive_queue \<Rightarrow> drive_queue" where
  "progress k sent s = patch (dr_id (under_way s ! k)) (\<lambda>t. t\<lparr>tr_sent := sent\<rparr>) s"

definition end_run :: "nat \<Rightarrow> drive_queue \<Rightarrow> drive_queue" where
  "end_run k s = s\<lparr>under_way := remove_at k (under_way s)\<rparr>"

definition upload_done :: "nat \<Rightarrow> int \<Rightarrow> drive_queue \<Rightarrow> drive_queue" where
  "upload_done k now s =
     (let r = under_way s ! k;
          s1 = patch (dr_id r) (\<lambda>t. t\<lparr>tr_status := Done, tr_sent := dr_size r, tr_finishedAt := Some now\<rparr>) s;
          s2 = s1\<lparr>runtime := (runtime s1)(dr_id r := None)\<rparr>
      in pump now (end_run k s2))"

definition upload_failed :: "nat \<Rightarrow> string option \<Rightarrow> int \<Rightarrow> drive_queue \<Rightarrow> drive_queue" where
  "upload_failed k msg now s =
     (let r = under_way s ! k;
          canceled = (msg = Some ''aborted'');
          s1 = patch (dr_id r) (\<lambda>t. t\<lparr>tr_status := (if canceled then Canceled else Failed),
                 tr_error := (if canceled then None else Some (or_str (nullish msg []) (utf8 [19978, 20256, 22833, 36133]))),
                 tr_finishedAt := Some now\<rparr>) s
      in pump now (end_run k s1))"

section \<open>The store's actions\<close>

record drop_file =
  df_name :: string
  df_size :: int
  df_path :: "string option"
  df_relative :: "string option"

definition drop_rel :: "drop_file \<Rightarrow> string \<times> string" where
  "drop_rel f =
     (let raw = dropWhile (\<lambda>c. c = CHR ''.'' \<or> c = CHR ''/'') (or_str (nullish (df_path f) []) (nullish (df_relative f) []))
      in (raw, if str_includes raw ''/'' then raw else []))"

definition make_transfer :: "string \<Rightarrow> drop_file \<Rightarrow> string \<Rightarrow> Transfer" where
  "make_transfer i f destBase =
     (let (raw, rel) = drop_rel f
      in \<lparr>tr_id = i, tr_name = drive_basename (or_str (df_name f) raw), tr_relPath = rel,
          tr_destPath = (if rel \<noteq> [] then joinPath destBase (drive_dirname rel) else destBase),
          tr_size = df_size f, tr_sent = 0, tr_status = Queued, tr_error = None,
          tr_startedAt = None, tr_finishedAt = None\<rparr>)"

definition set_runtime :: "string \<Rightarrow> drive_queue \<Rightarrow> drive_queue" where
  "set_runtime i s = s\<lparr>runtime := (runtime s)(i \<mapsto> next_ctrl s), next_ctrl := Suc (next_ctrl s)\<rparr>"

definition enqueue :: "(string \<times> drop_file) list \<Rightarrow> string \<Rightarrow> int \<Rightarrow> drive_queue \<Rightarrow> drive_queue" where
  "enqueue files destBase now s =
     (let s1 = fold (\<lambda>(i, f). set_runtime i) files s;
          added = map (\<lambda>(i, f). make_transfer i f destBase) files
      in if added = [] then s1
         else pump now (s1\<lparr>transfers := transfers s1 @ added\<rparr>))"

definition abort_ctrl :: "string \<Rightarrow> drive_queue \<Rightarrow> drive_queue" where
  "abort_ctrl i s = (case runtime s i of None \<Rightarrow> s | Some c \<Rightarrow> s\<lparr>aborted := c # aborted s\<rparr>)"

definition cancel_queued :: "int \<Rightarrow> Transfer \<Rightarrow> Transfer" where
  "cancel_queued now t = t\<lparr>tr_status := Canceled, tr_finishedAt := Some now\<rparr>"

definition cancel :: "string \<Rightarrow> int \<Rightarrow> drive_queue \<Rightarrow> drive_queue" where
  "cancel i now s =
     (case List.find (\<lambda>t. tr_id t = i) (transfers s) of
        None \<Rightarrow> s
      | Some t \<Rightarrow>
          if tr_status t = Uploading then abort_ctrl i s
          else if tr_status t = Queued then pump now (patch i (cancel_queued now) s)
          else s)"

definition cancelAll :: "int \<Rightarrow> drive_queue \<Rightarrow> drive_queue" where
  "cancelAll now s =
     fold (\<lambda>t s.
        if tr_status t = Uploading then abort_ctrl (tr_id t) s
        else if tr_status t = Queued then patch (tr_id t) (cancel_queued now) s
        else s) (transfers s) s"

definition requeue :: "Transfer \<Rightarrow> Transfer" where
  "requeue t = t\<lparr>tr_status := Queued, tr_sent := 0, tr_error := None, tr_finishedAt := None\<rparr>"

definition retry :: "string \<Rightarrow> int \<Rightarrow> drive_queue \<Rightarrow> drive_queue" where
  "retry i now s =
     (case runtime s i of None \<Rightarrow> s | Some _ \<Rightarrow> pump now (patch i requeue (set_runtime i s)))"

definition retry_failed_step :: "Transfer \<Rightarrow> drive_queue \<Rightarrow> drive_queue" where
  "retry_failed_step t s =
     (if tr_status t \<noteq> Failed then s
      else case runtime s (tr_id t) of None \<Rightarrow> s | Some _ \<Rightarrow> patch (tr_id t) requeue (set_runtime (tr_id t) s))"

definition retryFailed :: "int \<Rightarrow> drive_queue \<Rightarrow> drive_queue" where
  "retryFailed now s = pump now (fold retry_failed_step (transfers s) s)"

definition live_transfer :: "Transfer \<Rightarrow> bool" where
  "live_transfer t \<longleftrightarrow> tr_status t = Queued \<or> tr_status t = Uploading"

definition clearFinished :: "drive_queue \<Rightarrow> drive_queue" where
  "clearFinished s =
     s\<lparr>runtime := (\<lambda>i. if list_ex (\<lambda>t. tr_id t = i \<and> \<not> live_transfer t) (transfers s) then None else runtime s i),
       transfers := filter live_transfer (transfers s)\<rparr>"

definition remove :: "string \<Rightarrow> drive_queue \<Rightarrow> drive_queue" where
  "remove i s = s\<lparr>runtime := (runtime s)(i := None), transfers := filter (\<lambda>t. tr_id t \<noteq> i) (transfers s)\<rparr>"

section \<open>The summary\<close>

record TransferSummary =
  activeCount :: nat
  uploadingCount :: nat
  doneCount :: nat
  failedCount :: nat
  canceledCount :: nat
  sumPct :: int
  hasActive :: bool

definition count_status :: "TransferStatus \<Rightarrow> Transfer list \<Rightarrow> nat" where
  "count_status st ts = length (filter (\<lambda>t. tr_status t = st) ts)"

definition active_bytes :: "Transfer list \<Rightarrow> int" where
  "active_bytes ts = sum_list (map (\<lambda>t. if tr_status t \<in> {Uploading, Queued, Done} then tr_size t else 0) ts)"

definition active_sent :: "Transfer list \<Rightarrow> int" where
  "active_sent ts =
     sum_list (map (\<lambda>t. case tr_status t of Uploading \<Rightarrow> tr_sent t | Done \<Rightarrow> tr_size t | _ \<Rightarrow> 0) ts)"

definition summarize :: "Transfer list \<Rightarrow> TransferSummary" where
  "summarize ts =
     (let ac = count_status Uploading ts + count_status Queued ts
      in \<lparr>activeCount = ac, uploadingCount = count_status Uploading ts, doneCount = count_status Done ts,
          failedCount = count_status Failed ts, canceledCount = count_status Canceled ts,
          sumPct =
            (if active_bytes ts > 0 then
               \<lfloor>real_of_int (active_sent ts) / real_of_int (active_bytes ts) * 100 + 1 / 2\<rfloor>
             else if ac > 0 then 0 else 100),
          hasActive = (ac > 0)\<rparr>)"

section \<open>Steps\<close>

text \<open>
  Ids are fresh. The events of a run follow its phase; a run whose controller was aborted does not
  succeed. The panel offers retry and removal for rows that are not uploading.
\<close>

datatype drive_step =
    Enqueue "(string \<times> drop_file) list" string int | MkdirDone nat | Progress nat int
  | UploadDone nat int | UploadFailed nat "string option" int
  | Cancel string int | CancelAll int | Retry string int | RetryFailed int | ClearFinished | Remove string

definition not_uploading :: "string \<Rightarrow> drive_queue \<Rightarrow> bool" where
  "not_uploading i s = list_all (\<lambda>t. tr_id t = i \<longrightarrow> tr_status t \<noteq> Uploading) (transfers s)"

fun perform :: "drive_step \<Rightarrow> drive_queue \<Rightarrow> drive_queue option" where
  "perform (Enqueue files b now) s =
     (if distinct (map fst files) \<and> list_all (\<lambda>p. fst p \<notin> set (map tr_id (transfers s))) files
      then Some (enqueue files b now s) else None)"
| "perform (MkdirDone k) s =
     (if k < length (under_way s) \<and> \<not> dr_sending (under_way s ! k) then Some (mkdir_done k s) else None)"
| "perform (Progress k sent) s =
     (if k < length (under_way s) \<and> dr_sending (under_way s ! k) then Some (progress k sent s) else None)"
| "perform (UploadDone k now) s =
     (if k < length (under_way s) \<and> dr_sending (under_way s ! k) \<and> dr_ctrl (under_way s ! k) \<notin> set (aborted s)
      then Some (upload_done k now s) else None)"
| "perform (UploadFailed k m now) s =
     (if k < length (under_way s) \<and> dr_sending (under_way s ! k) then Some (upload_failed k m now s) else None)"
| "perform (Cancel i now) s = Some (cancel i now s)"
| "perform (CancelAll now) s = Some (cancelAll now s)"
| "perform (Retry i now) s = (if not_uploading i s then Some (retry i now s) else None)"
| "perform (RetryFailed now) s = Some (retryFailed now s)"
| "perform ClearFinished s = Some (clearFinished s)"
| "perform (Remove i) s = (if not_uploading i s then Some (remove i s) else None)"

fun run_steps :: "drive_step list \<Rightarrow> drive_queue \<Rightarrow> drive_queue option" where
  "run_steps [] s = Some s"
| "run_steps (a # as) s = (case perform a s of None \<Rightarrow> None | Some s' \<Rightarrow> run_steps as s')"

end
