(* ===== verification/DriveTransfersProps.thy ===== *)
theory DriveTransfersProps
  imports DriveTransfers
begin

text \<open>
  The drive panel's queue keeps its slots full: the runs under way are exactly the transfers shown
  as uploading, at most three, and a transfer waits only while all three slots are taken.
\<close>

section \<open>The invariant\<close>

definition drive_inv :: "drive_queue \<Rightarrow> bool" where
  "drive_inv s \<longleftrightarrow>
     distinct (map tr_id (transfers s))
     \<and> mset (map dr_id (under_way s)) = mset (map tr_id (uploading (transfers s)))
     \<and> length (uploading (transfers s)) \<le> CONCURRENCY
     \<and> (\<forall>t \<in> set (transfers s). live_transfer t \<longrightarrow> runtime s (tr_id t) \<noteq> None)"

definition work_conserving :: "drive_queue \<Rightarrow> bool" where
  "work_conserving s \<longleftrightarrow> (has_queued s \<longrightarrow> length (uploading (transfers s)) = CONCURRENCY)"

lemma uploading_append [simp]: "uploading (a @ b) = uploading a @ uploading b"
  by (simp add: uploading_def)

lemma uploading_Cons: "uploading (t # ts) = (if tr_status t = Uploading then t # uploading ts else uploading ts)"
  by (simp add: uploading_def)

text \<open>With distinct ids a patch changes one transfer in its place.\<close>

lemma patch_one:
  assumes "distinct (map tr_id ts)" "t \<in> set ts"
  obtains a b where "ts = a @ t # b" "\<forall>f. map_if (\<lambda>u. tr_id u = tr_id t) f ts = a @ f t # b"
    "tr_id t \<notin> tr_id ` set a" "tr_id t \<notin> tr_id ` set b"
proof -
  obtain a b where ab: "ts = a @ t # b" using assms(2) split_list by fast
  then have out: "tr_id t \<notin> tr_id ` set a" "tr_id t \<notin> tr_id ` set b" using assms(1) by auto
  have keep: "map_if (\<lambda>u. tr_id u = tr_id t) f xs = xs" if "tr_id t \<notin> tr_id ` set xs" for f xs
    unfolding map_if_def using that by (intro map_idI) (metis image_eqI)
  have "\<forall>f. map_if (\<lambda>u. tr_id u = tr_id t) f ts = a @ f t # b"
    using keep [OF out(1)] keep [OF out(2)] by (simp add: ab map_if_def)
  then show thesis using that ab out by blast
qed

lemma find_id:
  "distinct (map tr_id ts) \<Longrightarrow> t \<in> set ts \<Longrightarrow> List.find (\<lambda>u. tr_id u = tr_id t) ts = Some t"
  by (rule find_key_Some)

lemma patch_fields [simp]:
  "runtime (patch i f s) = runtime s" "under_way (patch i f s) = under_way s" "next_ctrl (patch i f s) = next_ctrl s"
  "aborted (patch i f s) = aborted s" "ensured (patch i f s) = ensured s"
  "transfers (patch i f s) = map_if (\<lambda>t. tr_id t = i) f (transfers s)"
  by (simp_all add: patch_def)

lemma map_if_ids:
  "(\<And>t. tr_id (f t) = tr_id t) \<Longrightarrow> map tr_id (map_if p f ts) = map tr_id ts"
  by (rule map_map_if)

text \<open>Patching transfers that are not uploading so that they still are not.\<close>

lemma drive_inv_idle:
  assumes "drive_inv s" "not_uploading i s" "\<And>t. tr_id (f t) = tr_id t" "\<And>t. tr_status (f t) \<noteq> Uploading"
    and "\<And>t. t \<in> set (transfers s) \<Longrightarrow> tr_id t = i \<Longrightarrow> live_transfer (f t) \<Longrightarrow> runtime s i \<noteq> None"
  shows "drive_inv (patch i f s)"
proof -
  have up: "uploading (map_if (\<lambda>t. tr_id t = i) f ts) = uploading ts"
    if "list_all (\<lambda>t. tr_id t = i \<longrightarrow> tr_status t \<noteq> Uploading) ts" for ts
    using that assms(4) by (induction ts) (auto simp: uploading_def map_if_def)
  have "\<forall>t \<in> set (map_if (\<lambda>t. tr_id t = i) f (transfers s)). live_transfer t \<longrightarrow> runtime s (tr_id t) \<noteq> None"
    using assms(1,3,5) by (auto simp: map_if_def drive_inv_def)
  then show ?thesis
    using assms(1) up [OF assms(2) [unfolded not_uploading_def]] map_if_ids [of f, OF assms(3)]
    by (simp add: drive_inv_def)
qed

section \<open>Starting runs\<close>

lemma runOne_started:
  assumes "drive_inv s" "t \<in> set (transfers s)" "tr_status t = Queued"
    and "length (uploading (transfers s)) < CONCURRENCY"
  shows "drive_inv (runOne (tr_id t) now s)
    \<and> length (uploading (transfers (runOne (tr_id t) now s))) = Suc (length (uploading (transfers s)))"
proof -
  have dist: "distinct (map tr_id (transfers s))" using assms(1) by (simp add: drive_inv_def)
  obtain c where c: "runtime s (tr_id t) = Some c"
    using assms(1-3) by (auto simp: drive_inv_def live_transfer_def)
  obtain a b where ab: "transfers s = a @ t # b"
    "\<forall>f. map_if (\<lambda>u. tr_id u = tr_id t) f (transfers s) = a @ f t # b"
    using patch_one [OF dist assms(2)] .
  let ?s = "runOne (tr_id t) now s"
  have tr: "transfers ?s = a @ begin_upload now t # b" and rt: "runtime ?s = runtime s"
    and uw: "map dr_id (under_way ?s) = map dr_id (under_way s) @ [tr_id t]"
    using ab(2) by (simp_all add: runOne_def c find_id [OF dist assms(2)])
  have new: "tr_id (begin_upload now t) = tr_id t" "tr_status (begin_upload now t) = Uploading"
    by (simp_all add: begin_upload_def)
  have up: "mset (map tr_id (uploading (transfers ?s))) = add_mset (tr_id t) (mset (map tr_id (uploading (transfers s))))"
    using assms(3) new by (simp add: tr ab(1) uploading_Cons)
  have len: "length (uploading (transfers ?s)) = Suc (length (uploading (transfers s)))"
    using assms(3) new by (simp add: tr ab(1) uploading_Cons)
  have "map tr_id (transfers ?s) = map tr_id (transfers s)" using new by (simp add: tr ab(1))
  moreover have "\<forall>u \<in> set (transfers ?s). live_transfer u \<longrightarrow> runtime ?s (tr_id u) \<noteq> None"
    using assms(1) c new(1) by (auto simp: tr rt ab(1) drive_inv_def)
  ultimately have "drive_inv ?s"
    using assms(1,4) uw up len unfolding drive_inv_def by simp
  with len show ?thesis by simp
qed

lemma pump_loop_full:
  assumes "drive_inv s" "length (uploading (transfers s)) + free = CONCURRENCY"
  shows "drive_inv (pump_loop free now s) \<and> work_conserving (pump_loop free now s)"
  using assms
proof (induction free arbitrary: s)
  case 0
  then show ?case by (simp add: work_conserving_def)
next
  case (Suc free)
  show ?case
  proof (cases "List.find (\<lambda>t. tr_status t = Queued) (transfers s)")
    case None
    then have "\<not> has_queued s" by (auto simp: has_queued_def find_None_iff_set list_ex_iff)
    then show ?thesis using None Suc.prems(1) by (simp add: work_conserving_def)
  next
    case (Some t)
    then have t: "t \<in> set (transfers s)" "tr_status t = Queued" using find_SomeD [OF Some] by auto
    have "length (uploading (transfers s)) < CONCURRENCY" using Suc.prems(2) by simp
    from runOne_started [OF Suc.prems(1) t this] Suc.IH [of "runOne (tr_id t) now s"] Suc.prems(2) Some
    show ?thesis by simp
  qed
qed

lemma drive_inv_ensured: "drive_inv s \<Longrightarrow> drive_inv (s\<lparr>ensured := d\<rparr>)"
  by (simp add: drive_inv_def)

lemma pump_full: "drive_inv s \<Longrightarrow> drive_inv (pump now s) \<and> work_conserving (pump now s)"
  unfolding pump_def Let_def
  by (rule pump_loop_full) (auto simp: drive_inv_ensured, auto simp: drive_inv_def)

section \<open>The events of a run\<close>

lemma mset_remove_at_drive:
  "k < length xs \<Longrightarrow> add_mset (f (xs ! k)) (mset (map f (remove_at k xs))) = mset (map f xs)"
proof -
  assume k: "k < length xs"
  have "mset (map f xs) = mset (map f (take k xs @ xs ! k # drop (Suc k) xs))"
    using id_take_nth_drop [OF k] by simp
  then show ?thesis by (simp add: remove_at_def)
qed

lemma drive_inv_end:
  assumes "drive_inv s" "k < length (under_way s)"
    and f: "\<And>t. tr_id (f t) = tr_id t \<and> \<not> live_transfer (f t)"
    and rt: "runtime s' = runtime s \<or> runtime s' = (runtime s)(dr_id (under_way s ! k) := None)"
    and s': "transfers s' = map_if (\<lambda>t. tr_id t = dr_id (under_way s ! k)) f (transfers s)"
      "under_way s' = remove_at k (under_way s)"
  shows "drive_inv s'"
proof -
  let ?r = "under_way s ! k"
  have dist: "distinct (map tr_id (transfers s))" using assms(1) by (simp add: drive_inv_def)
  have mem: "dr_id ?r \<in># mset (map dr_id (under_way s))" using assms(2) by simp
  then have "dr_id ?r \<in># mset (map tr_id (uploading (transfers s)))" using assms(1) by (simp only: drive_inv_def)
  then obtain t where t: "t \<in> set (transfers s)" "tr_id t = dr_id ?r" "tr_status t = Uploading"
    by (auto simp: uploading_def)
  obtain a b where ab: "transfers s = a @ t # b"
    "\<forall>f. map_if (\<lambda>u. tr_id u = tr_id t) f (transfers s) = a @ f t # b"
    "tr_id t \<notin> tr_id ` set a" "tr_id t \<notin> tr_id ` set b"
    using patch_one [OF dist t(1)] .
  have tr: "transfers s' = a @ f t # b" using ab(2) t(2) s'(1) by simp
  have ft: "tr_id (f t) = tr_id t" "tr_status (f t) \<noteq> Uploading" "\<not> live_transfer (f t)"
    using f [of t] by (auto simp: live_transfer_def)
  have "add_mset (dr_id ?r) (mset (map dr_id (under_way s'))) = mset (map dr_id (under_way s))"
    using mset_remove_at_drive [OF assms(2)] by (simp add: s'(2))
  moreover have "add_mset (tr_id t) (mset (map tr_id (uploading (transfers s')))) = mset (map tr_id (uploading (transfers s)))"
    using t(3) ft by (simp add: tr ab(1) uploading_Cons)
  ultimately have "mset (map dr_id (under_way s')) = mset (map tr_id (uploading (transfers s')))"
    using assms(1) t(2) by (simp add: drive_inv_def) (metis add_mset_add_mset_same_iff)
  moreover have "length (uploading (transfers s')) \<le> CONCURRENCY"
    using assms(1) t(3) ft by (simp add: tr ab(1) uploading_Cons drive_inv_def)
  moreover have "map tr_id (transfers s') = map tr_id (transfers s)" using ft by (simp add: tr ab(1))
  moreover have "runtime s' (tr_id u) \<noteq> None" if u: "u \<in> set (transfers s')" "live_transfer u" for u
  proof -
    have in_ab: "u \<in> set a \<or> u \<in> set b" using u ft(3) by (auto simp: tr)
    then have "tr_id u \<noteq> dr_id ?r" using ab(3,4) t(2) by (metis image_eqI)
    moreover have "u \<in> set (transfers s)" using in_ab by (auto simp: ab(1))
    then have "runtime s (tr_id u) \<noteq> None" using assms(1) u(2) by (auto simp: drive_inv_def)
    ultimately show ?thesis using rt by (elim disjE) simp_all
  qed
  ultimately show ?thesis using dist unfolding drive_inv_def by simp
qed

definition drive_ok :: "drive_queue \<Rightarrow> bool" where
  "drive_ok s \<longleftrightarrow> drive_inv s \<and> work_conserving s"

lemma drive_ok_pump: "drive_inv s \<Longrightarrow> drive_ok (pump now s)"
  using pump_full by (simp add: drive_ok_def)

text \<open>A change that shows the same ids as uploading and lets nothing new wait.\<close>

lemma drive_ok_same:
  assumes "drive_ok s"
    and "distinct (map tr_id (transfers s'))" "map dr_id (under_way s') = map dr_id (under_way s)"
    and "map tr_id (uploading (transfers s')) = map tr_id (uploading (transfers s))"
    and "\<And>t. t \<in> set (transfers s') \<Longrightarrow> live_transfer t \<Longrightarrow> runtime s' (tr_id t) \<noteq> None"
    and "has_queued s' \<Longrightarrow> has_queued s"
  shows "drive_ok s'"
proof -
  have "length (uploading (transfers s')) = length (uploading (transfers s))"
    using arg_cong [OF assms(4), of length] by simp
  then show ?thesis
    using assms(1,2,5,6) arg_cong [OF assms(3), of mset] arg_cong [OF assms(4), of mset]
    unfolding drive_ok_def drive_inv_def work_conserving_def by simp
qed

lemma mkdir_done_ok:
  assumes "drive_ok s" "k < length (under_way s)"
  shows "drive_ok (mkdir_done k s)"
proof -
  have "map dr_id (under_way (mkdir_done k s)) = map dr_id (under_way s)"
    using assms(2) by (simp add: mkdir_done_def set_sending_def map_update list_update_same_conv)
  moreover have "transfers (mkdir_done k s) = transfers s" "runtime (mkdir_done k s) = runtime s"
    by (simp_all add: mkdir_done_def set_sending_def)
  ultimately show ?thesis
    using assms(1) by (intro drive_ok_same [OF assms(1)]) (auto simp: drive_ok_def drive_inv_def has_queued_def)
qed

lemma progress_ok:
  assumes "drive_ok s"
  shows "drive_ok (progress k sent s)"
proof -
  let ?f = "\<lambda>t. t\<lparr>tr_sent := sent\<rparr>" and ?p = "\<lambda>t. tr_id t = dr_id (under_way s ! k)"
  have up: "map tr_id (uploading (map_if ?p ?f ts)) = map tr_id (uploading ts)" for ts
    by (induction ts) (auto simp: uploading_def map_if_def)
  have "list_ex (\<lambda>t. tr_status t = Queued) (map_if ?p ?f ts) = list_ex (\<lambda>t. tr_status t = Queued) ts" for ts
    by (induction ts) (auto simp: map_if_def)
  then have wait: "has_queued (progress k sent s) = has_queued s" by (simp add: progress_def has_queued_def)
  have rt: "runtime s (tr_id t) \<noteq> None" if "t \<in> set (map_if ?p ?f (transfers s))" "live_transfer t" for t
    using that assms by (auto simp: map_if_def drive_ok_def drive_inv_def live_transfer_def split: if_splits)
  show ?thesis
    by (rule drive_ok_same [OF assms _ _ _ _ wait [THEN iffD1]])
       (use assms up rt in \<open>simp_all add: progress_def drive_ok_def drive_inv_def\<close>)
qed

lemma upload_done_ok:
  assumes "drive_inv s" "k < length (under_way s)"
  shows "drive_ok (upload_done k now s)"
  unfolding upload_done_def Let_def
  by (rule drive_ok_pump, rule drive_inv_end [OF assms(1,2),
        where f = "\<lambda>t. t\<lparr>tr_status := Done, tr_sent := dr_size (under_way s ! k), tr_finishedAt := Some now\<rparr>"])
     (simp_all add: end_run_def live_transfer_def)

lemma upload_failed_ok:
  assumes "drive_inv s" "k < length (under_way s)"
  shows "drive_ok (upload_failed k m now s)"
  unfolding upload_failed_def Let_def
  by (rule drive_ok_pump, rule drive_inv_end [OF assms(1,2),
        where f = "\<lambda>t. t\<lparr>tr_status := if m = Some ''aborted'' then Canceled else Failed,
          tr_error := if m = Some ''aborted'' then None else Some (or_str (nullish m []) (utf8 [19978, 20256, 22833, 36133])),
          tr_finishedAt := Some now\<rparr>"])
     (simp_all add: end_run_def live_transfer_def)

section \<open>The user's actions\<close>

lemma set_runtime_fields [simp]:
  "transfers (set_runtime i s) = transfers s" "under_way (set_runtime i s) = under_way s"
  "runtime (set_runtime i s) j = (if j = i then Some (next_ctrl s) else runtime s j)"
  by (simp_all add: set_runtime_def)

lemma set_runtime_inv: "drive_inv s \<Longrightarrow> drive_inv (set_runtime i s)"
  by (auto simp: drive_inv_def)

lemma fold_set_runtime:
  "transfers (fold (\<lambda>(i, f). set_runtime i) fs s) = transfers s
   \<and> under_way (fold (\<lambda>(i, f). set_runtime i) fs s) = under_way s
   \<and> (\<forall>j. (runtime s j \<noteq> None \<or> j \<in> fst ` set fs) \<longrightarrow> runtime (fold (\<lambda>(i, f). set_runtime i) fs s) j \<noteq> None)"
  by (induction fs arbitrary: s) (auto simp: split_beta)

lemma enqueue_ok:
  assumes "drive_ok s" "distinct (map fst files)" "list_all (\<lambda>p. fst p \<notin> set (map tr_id (transfers s))) files"
  shows "drive_ok (enqueue files b now s)"
proof (cases files)
  case Nil
  then show ?thesis using assms(1) by (simp add: enqueue_def)
next
  case (Cons p ps)
  define s1 where "s1 = fold (\<lambda>(i, f). set_runtime i) files s"
  define added where "added = map (\<lambda>(i, f). make_transfer i f b) files"
  note s1 = fold_set_runtime [of files s, folded s1_def]
  have mk: "tr_id (make_transfer i f b) = i" "tr_status (make_transfer i f b) = Queued" for i f
    by (simp_all add: make_transfer_def split_beta)
  have ids: "map tr_id added = map fst files" by (simp add: added_def mk(1) split_beta comp_def)
  have none: "uploading added = []" by (simp add: uploading_def added_def mk(2) split_beta filter_empty_conv)
  have dist: "distinct (map tr_id (transfers s @ added))"
    using assms by (force simp: ids drive_ok_def drive_inv_def list_all_iff)
  have rt: "runtime s1 (tr_id t) \<noteq> None" if "t \<in> set (transfers s @ added)" "live_transfer t" for t
  proof -
    have "runtime s (tr_id t) \<noteq> None \<or> tr_id t \<in> fst ` set files"
      using that assms(1) ids by (auto simp: drive_ok_def drive_inv_def) (metis image_eqI image_set)
    then show ?thesis using s1 by blast
  qed
  have "drive_inv (s1\<lparr>transfers := transfers s1 @ added\<rparr>)"
    using assms(1) s1 none dist rt by (simp add: drive_ok_def drive_inv_def)
  moreover have "added \<noteq> []" by (simp add: added_def Cons)
  ultimately show ?thesis
    using drive_ok_pump by (simp add: enqueue_def Let_def s1_def [symmetric] added_def [symmetric])
qed

lemma abort_ctrl_fields [simp]:
  "transfers (abort_ctrl i s) = transfers s" "under_way (abort_ctrl i s) = under_way s" "runtime (abort_ctrl i s) = runtime s"
  by (simp_all add: abort_ctrl_def split: option.split)

lemma not_uploading_member:
  "distinct (map tr_id (transfers s)) \<Longrightarrow> t \<in> set (transfers s) \<Longrightarrow> tr_status t \<noteq> Uploading \<Longrightarrow> not_uploading (tr_id t) s"
  unfolding not_uploading_def list_all_iff by (metis distinct_map inj_on_def)

lemma cancel_inv:
  assumes "drive_inv s" "t \<in> set (transfers s)" "tr_status t = Queued"
  shows "drive_inv (patch (tr_id t) (cancel_queued now) s)"
  by (rule drive_inv_idle [OF assms(1) not_uploading_member])
     (use assms in \<open>simp_all add: drive_inv_def cancel_queued_def live_transfer_def\<close>)

lemma cancel_ok:
  assumes "drive_ok s"
  shows "drive_ok (cancel i now s)"
proof (cases "List.find (\<lambda>t. tr_id t = i) (transfers s)")
  case None
  then show ?thesis using assms by (simp add: cancel_def)
next
  case (Some t)
  then have t: "t \<in> set (transfers s)" "tr_id t = i" using find_SomeD [OF Some] by auto
  have "drive_ok (abort_ctrl i s)"
    using assms by (intro drive_ok_same [OF assms]) (simp_all add: drive_ok_def drive_inv_def has_queued_def)
  moreover have "drive_ok (pump now (patch i (cancel_queued now) s))" if "tr_status t = Queued"
    using drive_ok_pump [OF cancel_inv [OF _ t(1) that]] assms t(2) by (simp add: drive_ok_def)
  ultimately show ?thesis using assms Some by (simp add: cancel_def)
qed

text \<open>Loops over a snapshot of the list: the transfers still to come are as in the snapshot.\<close>

definition pending_part :: "Transfer list \<Rightarrow> drive_queue \<Rightarrow> bool" where
  "pending_part us s \<longleftrightarrow> drive_inv s \<and> distinct (map tr_id us) \<and> set us \<subseteq> set (transfers s)"

lemma fold_pending:
  assumes "\<And>u us s. I (u # us) s \<Longrightarrow> I us (g u s)" "I us s"
  shows "I [] (fold g us s)"
  using assms(2) by (induction us arbitrary: s) (auto intro: assms(1))

lemma pending_patch:
  assumes "pending_part (u # us) s" "drive_inv (patch (tr_id u) f s)"
  shows "pending_part us (patch (tr_id u) f s)"
proof -
  have "t \<in> set (map_if (\<lambda>x. tr_id x = tr_id u) f (transfers s))" if "t \<in> set us" for t
  proof -
    have "tr_id t \<noteq> tr_id u" "t \<in> set (transfers s)" using assms(1) that by (auto simp: pending_part_def image_iff)
    then show ?thesis unfolding map_if_def by (auto simp: image_iff intro!: bexI [of _ t])
  qed
  then show ?thesis using assms by (auto simp: pending_part_def)
qed

lemma pending_self: "drive_inv s \<Longrightarrow> pending_part (transfers s) s"
  by (simp add: pending_part_def drive_inv_def)

lemma cancelAll_ok:
  assumes "drive_ok s"
  shows "drive_ok (cancelAll now s) \<and> \<not> has_queued (cancelAll now s)"
proof -
  define g :: "Transfer \<Rightarrow> drive_queue \<Rightarrow> drive_queue"
    where "g = (\<lambda>t s. if tr_status t = Uploading then abort_ctrl (tr_id t) s
        else if tr_status t = Queued then patch (tr_id t) (cancel_queued now) s else s)"
  define I where "I = (\<lambda>us s. pending_part us s \<and> (\<forall>t \<in> set (transfers s). tr_status t = Queued \<longrightarrow> t \<in> set us))"
  have step: "I us (g u s)" if "I (u # us) s" for u us s
  proof (cases "tr_status u = Queued")
    case True
    have P: "pending_part (u # us) s" using that by (simp add: I_def)
    then have "drive_inv (patch (tr_id u) (cancel_queued now) s)"
      using True by (intro cancel_inv) (auto simp: pending_part_def)
    from pending_patch [OF P this] that show ?thesis
      by (auto simp: I_def g_def True map_if_def cancel_queued_def split: if_splits)
  next
    case False
    then show ?thesis using that by (auto simp: I_def g_def pending_part_def drive_inv_def)
  qed
  have "I (transfers s) s" using assms by (simp add: I_def pending_self drive_ok_def)
  from fold_pending [of I g, OF step this] have "I [] (cancelAll now s)" by (simp add: cancelAll_def g_def)
  then show ?thesis
    by (auto simp: I_def pending_part_def drive_ok_def work_conserving_def has_queued_def list_ex_iff)
qed

lemma requeue_inv:
  assumes "drive_inv s" "not_uploading i s"
  shows "drive_inv (patch i requeue (set_runtime i s))"
  by (rule drive_inv_idle [OF set_runtime_inv [OF assms(1)]])
     (use assms(2) in \<open>simp_all add: not_uploading_def requeue_def\<close>)

lemma retry_ok: "drive_ok s \<Longrightarrow> not_uploading i s \<Longrightarrow> drive_ok (retry i now s)"
  using drive_ok_pump [OF requeue_inv] by (simp add: retry_def drive_ok_def split: option.split)

lemma retryFailed_ok:
  assumes "drive_ok s"
  shows "drive_ok (retryFailed now s)"
proof -
  have step: "pending_part us (retry_failed_step u s)" if P: "pending_part (u # us) s" for u us s
  proof -
    have inv: "drive_inv s" and u: "u \<in> set (transfers s)" using P by (auto simp: pending_part_def)
    have P': "pending_part (u # us) (set_runtime (tr_id u) s)"
      using P set_runtime_inv by (simp add: pending_part_def)
    have skip: "pending_part us s" using P by (simp add: pending_part_def)
    have "pending_part us (patch (tr_id u) requeue (set_runtime (tr_id u) s))" if "tr_status u = Failed"
      by (rule pending_patch [OF P' requeue_inv [OF inv not_uploading_member]])
         (use inv u that in \<open>simp_all add: drive_inv_def\<close>)
    then show ?thesis using skip by (simp add: retry_failed_step_def split: option.split)
  qed
  have "pending_part [] (fold retry_failed_step (transfers s) s)"
    using fold_pending [of pending_part, OF step pending_self [of s]] assms by (simp add: drive_ok_def)
  then show ?thesis unfolding retryFailed_def by (intro drive_ok_pump) (simp add: pending_part_def)
qed

lemma clearFinished_ok:
  assumes "drive_ok s"
  shows "drive_ok (clearFinished s)"
proof (rule drive_ok_same [OF assms])
  have dist: "distinct (map tr_id (transfers s))" using assms by (simp add: drive_ok_def drive_inv_def)
  show "distinct (map tr_id (transfers (clearFinished s)))" using dist by (simp add: clearFinished_def distinct_map_filter)
  show "map dr_id (under_way (clearFinished s)) = map dr_id (under_way s)" by (simp add: clearFinished_def)
  have "filter (\<lambda>x. live_transfer x \<and> tr_status x = Uploading) ts = filter (\<lambda>x. tr_status x = Uploading) ts" for ts
    by (rule filter_cong) (auto simp: live_transfer_def)
  then show "map tr_id (uploading (transfers (clearFinished s))) = map tr_id (uploading (transfers s))"
    by (simp add: clearFinished_def uploading_def conj_commute)
  show "has_queued (clearFinished s) \<Longrightarrow> has_queued s" by (auto simp: clearFinished_def has_queued_def list_ex_iff)
  fix t assume t: "t \<in> set (transfers (clearFinished s))" "live_transfer t"
  then have mem: "t \<in> set (transfers s)" by (simp add: clearFinished_def)
  have "u = t" if "u \<in> set (transfers s)" "tr_id u = tr_id t" for u
    using dist mem that by (metis distinct_map inj_on_def)
  then show "runtime (clearFinished s) (tr_id t) \<noteq> None"
    using assms mem t(2) by (auto simp: clearFinished_def list_ex_iff drive_ok_def drive_inv_def)
qed

lemma remove_ok:
  assumes "drive_ok s" "not_uploading i s"
  shows "drive_ok (remove i s)"
proof (rule drive_ok_same [OF assms(1)])
  have "uploading (filter (\<lambda>t. tr_id t \<noteq> i) ts) = uploading ts"
    if "list_all (\<lambda>t. tr_id t = i \<longrightarrow> tr_status t \<noteq> Uploading) ts" for ts
    using that by (induction ts) (auto simp: uploading_def)
  from this [OF assms(2) [unfolded not_uploading_def]]
  show "map tr_id (uploading (transfers (remove i s))) = map tr_id (uploading (transfers s))"
    by (simp add: remove_def)
qed (use assms(1) in \<open>auto simp: remove_def has_queued_def list_ex_iff drive_ok_def drive_inv_def distinct_map_filter\<close>)

section \<open>Every run of the queue\<close>

lemma perform_ok:
  assumes "drive_ok s" "perform a s = Some s'"
  shows "drive_ok s'"
proof -
  have inv: "drive_inv s" using assms(1) by (simp add: drive_ok_def)
  show ?thesis
    using assms(2)
    by (cases a)
       (auto simp: upload_done_ok [OF inv] upload_failed_ok [OF inv] mkdir_done_ok [OF assms(1)]
          progress_ok [OF assms(1)] cancel_ok [OF assms(1)] cancelAll_ok [OF assms(1)] retry_ok [OF assms(1)]
          retryFailed_ok [OF assms(1)] clearFinished_ok [OF assms(1)] remove_ok [OF assms(1)]
        intro: enqueue_ok [OF assms(1)] split: if_splits)
qed

lemma run_steps_ok: "drive_ok s \<Longrightarrow> run_steps as s = Some s' \<Longrightarrow> drive_ok s'"
  by (induction as arbitrary: s) (auto split: option.splits dest: perform_ok)

lemma new_drive_ok: "drive_ok new_drive"
  by (simp add: drive_ok_def drive_inv_def work_conserving_def new_drive_def uploading_def has_queued_def)

text \<open>C18: In every state the drive panel's store can reach, by any sequence of its actions and of
  the events of its uploads, the uploads under way are exactly the transfers shown as uploading, at
  most three; a transfer waits only while three are uploading; and every waiting or uploading
  transfer still has its file and abort controller.\<close>

theorem drive_queue_work_conserving:
  assumes "run_steps steps new_drive = Some s"
  shows "mset (map dr_id (under_way s)) = mset (map tr_id (uploading (transfers s)))
    \<and> length (under_way s) \<le> 3
    \<and> (has_queued s \<longrightarrow> length (under_way s) = 3)
    \<and> (\<forall>t. t \<in> set (transfers s) \<longrightarrow> live_transfer t \<longrightarrow> runtime s (tr_id t) \<noteq> None)"
proof -
  have ok: "drive_ok s" by (rule run_steps_ok [OF new_drive_ok assms])
  then have same: "mset (map dr_id (under_way s)) = mset (map tr_id (uploading (transfers s)))"
    by (simp add: drive_ok_def drive_inv_def)
  then have "length (under_way s) = length (uploading (transfers s))"
    by (metis length_map size_mset)
  then show ?thesis
    using ok same by (simp add: drive_ok_def drive_inv_def work_conserving_def CONCURRENCY_def)
qed

text \<open>Four files: three run, the fourth waits; a failed run hands its slot on.\<close>

definition drive_example :: "drive_step list" where
  "drive_example =
     [Enqueue (map (\<lambda>i. ([i], \<lparr>df_name = [i], df_size = 10, df_path = None, df_relative = None\<rparr>)) ''abcd'') '''' 1,
      Progress 1 7, UploadFailed 1 (Some ''aborted'') 2]"

theorem drive_queue_work_conserving_witness:
  "\<exists>s. run_steps drive_example new_drive = Some s \<and> length (under_way s) \<le> 3
     \<and> map dr_id (under_way s) = [''a'', ''c'', ''d'']"
proof -
  obtain s where s: "run_steps drive_example new_drive = Some s"
    and ids: "map dr_id (under_way s) = [''a'', ''c'', ''d'']"
  proof -
    have "map_option (\<lambda>s. map dr_id (under_way s)) (run_steps drive_example new_drive) = Some [''a'', ''c'', ''d'']"
      by code_simp
    then show thesis using that by auto
  qed
  have "length (under_way s) \<le> 3" using drive_queue_work_conserving [OF s] by (elim conjE)
  with s ids show ?thesis by (intro exI conjI)
qed

end
