(* ===== verification/KeyMap.thy ===== *)
theory KeyMap
  imports JsString "HOL-Library.Word"
begin

text \<open>
  Keyboard input of the remote desktop, \<open>components/desktop/desktop-key-map.ts\<close>: the X11 keysym of
  a keyboard event, the RDP scancode of a physical key and the frames of a key combination, with
  the scancode table of the worker (\<open>cmd/freerdp-worker/rdp/keysym.go\<close>) it is to agree with. The
  key of an event is the list of its UTF-16 code units. The tables have their own properties
  only: a browser sends no name that an object inherits from its prototype.
\<close>

unbundle bit_operations_syntax

section \<open>Tables\<close>

definition EXT :: int where
  "EXT = 0x100"

definition KEYSYM :: "(string \<times> int) list" where
  "KEYSYM =
    [
     (''Backspace'', 0xff08), (''Tab'', 0xff09), (''Enter'', 0xff0d), (''Return'', 0xff0d),
     (''Escape'', 0xff1b), (''Delete'', 0xffff), (''Insert'', 0xff63), (''Home'', 0xff50),
     (''End'', 0xff57), (''PageUp'', 0xff55), (''PageDown'', 0xff56), (''ArrowLeft'', 0xff51),
     (''ArrowUp'', 0xff52), (''ArrowRight'', 0xff53), (''ArrowDown'', 0xff54), (''Shift'', 0xffe1),
     (''ShiftLeft'', 0xffe1), (''ShiftRight'', 0xffe2), (''Control'', 0xffe3),
     (''ControlLeft'', 0xffe3), (''ControlRight'', 0xffe4), (''Alt'', 0xffe9),
     (''AltLeft'', 0xffe9), (''AltRight'', 0xffea), (''Meta'', 0xffeb), (''MetaLeft'', 0xffeb),
     (''MetaRight'', 0xffec), (''OS'', 0xffeb), (''ContextMenu'', 0xff67), (''AltGraph'', 0xfe03),
     (''CapsLock'', 0xffe5), (''NumLock'', 0xff7f), (''ScrollLock'', 0xff14),
     (''PrintScreen'', 0xff61), (''Pause'', 0xff13), (''Help'', 0xff6a), (''Cancel'', 0xff69),
     (''F1'', 0xffbe), (''F2'', 0xffbf), (''F3'', 0xffc0), (''F4'', 0xffc1), (''F5'', 0xffc2),
     (''F6'', 0xffc3), (''F7'', 0xffc4), (''F8'', 0xffc5), (''F9'', 0xffc6), (''F10'', 0xffc7),
     (''F11'', 0xffc8), (''F12'', 0xffc9), (''F13'', 0xffca), (''F14'', 0xffcb), (''F15'', 0xffcc),
     (''F16'', 0xffcd), (''F17'', 0xffce), (''F18'', 0xffcf), (''F19'', 0xffd0), (''F20'', 0xffd1),
     (''F21'', 0xffd2), (''F22'', 0xffd3), (''F23'', 0xffd4), (''F24'', 0xffd5),
     (''Numpad0'', 0xffb0), (''Numpad1'', 0xffb1), (''Numpad2'', 0xffb2), (''Numpad3'', 0xffb3),
     (''Numpad4'', 0xffb4), (''Numpad5'', 0xffb5), (''Numpad6'', 0xffb6), (''Numpad7'', 0xffb7),
     (''Numpad8'', 0xffb8), (''Numpad9'', 0xffb9), (''NumpadDecimal'', 0xffae),
     (''NumpadAdd'', 0xffab), (''NumpadSubtract'', 0xffad), (''NumpadMultiply'', 0xffaa),
     (''NumpadDivide'', 0xffaf), (''NumpadEnter'', 0xff8d), (''NumpadEqual'', 0xffbd),
     (''BrowserBack'', 0x1008ff26), (''BrowserForward'', 0x1008ff27),
     (''BrowserRefresh'', 0x1008ff29), (''BrowserStop'', 0x1008ff28),
     (''BrowserSearch'', 0x1008ff1b), (''BrowserHome'', 0x1008ff18),
     (''AudioVolumeMute'', 0x1008ff12), (''AudioVolumeDown'', 0x1008ff11),
     (''AudioVolumeUp'', 0x1008ff13), (''MediaPlayPause'', 0x1008ff14),
     (''MediaStop'', 0x1008ff15), (''MediaTrackPrevious'', 0x1008ff16),
     (''MediaTrackNext'', 0x1008ff17)]"

definition CODE_TO_SCANCODE :: "(string \<times> int) list" where
  "CODE_TO_SCANCODE =
    [
     (''Escape'', 0x01), (''Digit1'', 0x02), (''Digit2'', 0x03), (''Digit3'', 0x04),
     (''Digit4'', 0x05), (''Digit5'', 0x06), (''Digit6'', 0x07), (''Digit7'', 0x08),
     (''Digit8'', 0x09), (''Digit9'', 0x0a), (''Digit0'', 0x0b), (''Minus'', 0x0c),
     (''Equal'', 0x0d), (''Backspace'', 0x0e), (''Tab'', 0x0f), (''KeyQ'', 0x10), (''KeyW'', 0x11),
     (''KeyE'', 0x12), (''KeyR'', 0x13), (''KeyT'', 0x14), (''KeyY'', 0x15), (''KeyU'', 0x16),
     (''KeyI'', 0x17), (''KeyO'', 0x18), (''KeyP'', 0x19), (''BracketLeft'', 0x1a),
     (''BracketRight'', 0x1b), (''Enter'', 0x1c), (''ControlLeft'', 0x1d), (''KeyA'', 0x1e),
     (''KeyS'', 0x1f), (''KeyD'', 0x20), (''KeyF'', 0x21), (''KeyG'', 0x22), (''KeyH'', 0x23),
     (''KeyJ'', 0x24), (''KeyK'', 0x25), (''KeyL'', 0x26), (''Semicolon'', 0x27),
     (''Quote'', 0x28), (''Backquote'', 0x29), (''ShiftLeft'', 0x2a), (''Backslash'', 0x2b),
     (''KeyZ'', 0x2c), (''KeyX'', 0x2d), (''KeyC'', 0x2e), (''KeyV'', 0x2f), (''KeyB'', 0x30),
     (''KeyN'', 0x31), (''KeyM'', 0x32), (''Comma'', 0x33), (''Period'', 0x34), (''Slash'', 0x35),
     (''ShiftRight'', 0x36), (''NumpadMultiply'', 0x37), (''AltLeft'', 0x38), (''Space'', 0x39),
     (''CapsLock'', 0x3a), (''F1'', 0x3b), (''F2'', 0x3c), (''F3'', 0x3d), (''F4'', 0x3e),
     (''F5'', 0x3f), (''F6'', 0x40), (''F7'', 0x41), (''F8'', 0x42), (''F9'', 0x43),
     (''F10'', 0x44), (''NumLock'', 0x45), (''ScrollLock'', 0x46), (''Numpad7'', 0x47),
     (''Numpad8'', 0x48), (''Numpad9'', 0x49), (''NumpadSubtract'', 0x4a), (''Numpad4'', 0x4b),
     (''Numpad5'', 0x4c), (''Numpad6'', 0x4d), (''NumpadAdd'', 0x4e), (''Numpad1'', 0x4f),
     (''Numpad2'', 0x50), (''Numpad3'', 0x51), (''Numpad0'', 0x52), (''NumpadDecimal'', 0x53),
     (''IntlBackslash'', 0x56), (''F11'', 0x57), (''F12'', 0x58), (''IntlYen'', 0x7d),
     (''IntlRo'', 0x73), (''Convert'', 0x79), (''NonConvert'', 0x7b), (''KanaMode'', 0x70),
     (''NumpadEnter'', 0x1c OR EXT), (''ControlRight'', 0x1d OR EXT),
     (''NumpadDivide'', 0x35 OR EXT), (''AltRight'', 0x38 OR EXT), (''Home'', 0x47 OR EXT),
     (''ArrowUp'', 0x48 OR EXT), (''PageUp'', 0x49 OR EXT), (''ArrowLeft'', 0x4b OR EXT),
     (''ArrowRight'', 0x4d OR EXT), (''End'', 0x4f OR EXT), (''ArrowDown'', 0x50 OR EXT),
     (''PageDown'', 0x51 OR EXT), (''Insert'', 0x52 OR EXT), (''Delete'', 0x53 OR EXT),
     (''MetaLeft'', 0x5b OR EXT), (''MetaRight'', 0x5c OR EXT), (''ContextMenu'', 0x5d OR EXT),
     (''PrintScreen'', 0x37 OR EXT), (''BrowserSearch'', 0x65 OR EXT),
     (''BrowserHome'', 0x32 OR EXT), (''BrowserBack'', 0x6a OR EXT),
     (''BrowserForward'', 0x69 OR EXT), (''BrowserStop'', 0x68 OR EXT),
     (''BrowserRefresh'', 0x67 OR EXT), (''AudioVolumeMute'', 0x20 OR EXT),
     (''AudioVolumeDown'', 0x2e OR EXT), (''AudioVolumeUp'', 0x30 OR EXT),
     (''MediaPlayPause'', 0x22 OR EXT), (''MediaStop'', 0x24 OR EXT),
     (''MediaTrackPrevious'', 0x10 OR EXT), (''MediaTrackNext'', 0x19 OR EXT)]"

definition COMBO_TOKEN_TO_CODE :: "(string \<times> string) list" where
  "COMBO_TOKEN_TO_CODE =
    [
     (''Control'', ''ControlLeft''), (''Ctrl'', ''ControlLeft''), (''Alt'', ''AltLeft''),
     (''AltGr'', ''AltRight''), (''Shift'', ''ShiftLeft''), (''Meta'', ''MetaLeft''),
     (''Win'', ''MetaLeft''), (''Super'', ''MetaLeft''), (''Command'', ''MetaLeft''),
     (''Delete'', ''Delete''), (''Del'', ''Delete''), (''Insert'', ''Insert''),
     (''Home'', ''Home''), (''End'', ''End''), (''PageUp'', ''PageUp''),
     (''PageDown'', ''PageDown''), (''Escape'', ''Escape''), (''Esc'', ''Escape''),
     (''Tab'', ''Tab''), (''Enter'', ''Enter''), (''Return'', ''Enter''), (''Space'', ''Space''),
     (''Backspace'', ''Backspace''), (''PrintScreen'', ''PrintScreen''),
     (''ContextMenu'', ''ContextMenu''), (''ArrowUp'', ''ArrowUp''),
     (''ArrowDown'', ''ArrowDown''), (''ArrowLeft'', ''ArrowLeft''),
     (''ArrowRight'', ''ArrowRight''), (''Up'', ''ArrowUp''), (''Down'', ''ArrowDown''),
     (''Left'', ''ArrowLeft''), (''Right'', ''ArrowRight'')]"

definition PRESET_COMBOS :: "(string \<times> string) list" where
  "PRESET_COMBOS =
    [
     (''Ctrl + Alt + Del'', ''Control+Alt+Delete''), (''Ctrl + Alt + End'', ''Control+Alt+End''),
     (''Alt + Tab'', ''Alt+Tab''), (''Alt + F4'', ''Alt+F4''),
     (''Ctrl + Shift + Esc'', ''Control+Shift+Escape''), (''Win + L'', ''Meta+l''),
     (''Win + D'', ''Meta+d''), (''Win + E'', ''Meta+e''), (''Win + R'', ''Meta+r''),
     (''PrintScreen'', ''PrintScreen'')]"

section \<open>Scancodes\<close>

record Scancode =
  scancode :: int
  extended :: bool

definition scancodeForCode :: "string option \<Rightarrow> Scancode option" where
  "scancodeForCode code =
     (case code of None \<Rightarrow> None
      | Some c \<Rightarrow>
          if c = [] then None
          else case map_of CODE_TO_SCANCODE c of
                 None \<Rightarrow> None
               | Some v \<Rightarrow> Some \<lparr>scancode = v AND 0xff, extended = (v AND EXT \<noteq> 0)\<rparr>)"

definition char_between :: "int \<Rightarrow> int \<Rightarrow> char \<Rightarrow> bool" where
  "char_between a b c \<longleftrightarrow> a \<le> of_char c \<and> of_char c \<le> b"

definition is_digit :: "char \<Rightarrow> bool" where
  "is_digit c \<longleftrightarrow> char_between 48 57 c"

text \<open>\<open>toUpperCase\<close> of one code unit: beside the ASCII letters, the dotless i and the long s map to
  ASCII letters.\<close>

definition upper_token :: "string \<Rightarrow> string" where
  "upper_token t = (if t = utf8_char 0x131 then ''I'' else if t = utf8_char 0x17f then ''S'' else toUpperCase t)"

definition tokenToCodeGuess :: "string \<Rightarrow> string option" where
  "tokenToCodeGuess token =
     (if token \<noteq> [] \<and> hd token = CHR ''F'' \<and> length token \<in> {2, 3} \<and> list_all is_digit (tl token) then Some token
      else if utf16_length token = 1 then
        (case upper_token token of
           [c] \<Rightarrow> if char_between 65 90 c then Some (''Key'' @ [c])
                  else if is_digit c then Some (''Digit'' @ [c]) else None
         | _ \<Rightarrow> None)
      else None)"

definition tokenToScancode :: "string \<Rightarrow> Scancode option" where
  "tokenToScancode token =
     scancodeForCode (case map_of COMBO_TOKEN_TO_CODE token of Some c \<Rightarrow> Some c | None \<Rightarrow> tokenToCodeGuess token)"

section \<open>Keysyms\<close>

record KeyboardEvent =
  isComposing :: bool
  ev_key :: "int list"
  keyCode :: int
  ev_code :: string

record active_element =
  tagName :: string
  isContentEditable :: bool
  passthrough :: bool

definition units :: "string \<Rightarrow> int list" where
  "units s = map of_char s"

definition takes_typing :: "active_element \<Rightarrow> bool" where
  "takes_typing a \<longleftrightarrow>
     (tagName a = ''INPUT'' \<or> tagName a = ''TEXTAREA'' \<or> isContentEditable a) \<and> \<not> passthrough a"

definition char_keysym :: "int list \<Rightarrow> int" where
  "char_keysym key =
     (case key of
        [cp] \<Rightarrow> if 0x20 \<le> cp \<and> cp \<le> 0xff then cp
               else if cp > 0xff then 0x01000000 OR cp else 0
      | _ \<Rightarrow> 0)"

definition keysymForEvent :: "KeyboardEvent \<Rightarrow> active_element option \<Rightarrow> int" where
  "keysymForEvent e active =
     (if isComposing e \<or> ev_key e = units ''Process'' \<or> keyCode e = 229 then 0
      else if (case active of None \<Rightarrow> False | Some a \<Rightarrow> takes_typing a) then 0
      else case map_of KEYSYM (ev_code e) of
             Some k \<Rightarrow> k
           | None \<Rightarrow>
               (case map_of (map (apfst units) KEYSYM) (ev_key e) of
                  Some k \<Rightarrow> k
                | None \<Rightarrow> char_keysym (ev_key e)))"

section \<open>Combinations\<close>

record ComboFrame = Scancode +
  pressed :: bool

definition frame :: "bool \<Rightarrow> Scancode \<Rightarrow> ComboFrame" where
  "frame p k = \<lparr>scancode = scancode k, extended = extended k, pressed = p\<rparr>"

definition combo_tokens :: "string \<Rightarrow> string list" where
  "combo_tokens combo = filter (\<lambda>t. t \<noteq> []) (map js_trim (split_on CHR ''+'' combo))"

fun collect_keys :: "Scancode list \<Rightarrow> string list \<Rightarrow> Scancode list option" where
  "collect_keys keys [] = Some keys"
| "collect_keys keys (tok # toks) =
     (case tokenToScancode tok of None \<Rightarrow> None | Some sc \<Rightarrow> collect_keys (keys @ [sc]) toks)"

definition expandCombo :: "string \<Rightarrow> ComboFrame list" where
  "expandCombo combo =
     (case collect_keys [] (combo_tokens combo) of
        None \<Rightarrow> []
      | Some keys \<Rightarrow> map (frame True) keys @ map (frame False) (rev keys))"

section \<open>The worker's table\<close>

definition keysymToScancode :: "int \<Rightarrow> Scancode option" where
  "keysymToScancode keysym = map_of
    [
     (0xff08, \<lparr>scancode = 0x0e, extended = False\<rparr>),
     (0xff09, \<lparr>scancode = 0x0f, extended = False\<rparr>),
     (0xff0d, \<lparr>scancode = 0x1c, extended = False\<rparr>),
     (0xff1b, \<lparr>scancode = 0x01, extended = False\<rparr>),
     (0xffff, \<lparr>scancode = 0x53, extended = True\<rparr>),
     (0xff63, \<lparr>scancode = 0x52, extended = True\<rparr>),
     (0xff50, \<lparr>scancode = 0x47, extended = True\<rparr>),
     (0xff57, \<lparr>scancode = 0x4f, extended = True\<rparr>),
     (0xff55, \<lparr>scancode = 0x49, extended = True\<rparr>),
     (0xff56, \<lparr>scancode = 0x51, extended = True\<rparr>),
     (0xff51, \<lparr>scancode = 0x4b, extended = True\<rparr>),
     (0xff52, \<lparr>scancode = 0x48, extended = True\<rparr>),
     (0xff53, \<lparr>scancode = 0x4d, extended = True\<rparr>),
     (0xff54, \<lparr>scancode = 0x50, extended = True\<rparr>),
     (0xffe1, \<lparr>scancode = 0x2a, extended = False\<rparr>),
     (0xffe2, \<lparr>scancode = 0x2a, extended = False\<rparr>),
     (0xffe3, \<lparr>scancode = 0x1d, extended = False\<rparr>),
     (0xffe4, \<lparr>scancode = 0x1d, extended = True\<rparr>),
     (0xffe9, \<lparr>scancode = 0x38, extended = False\<rparr>),
     (0xffea, \<lparr>scancode = 0x38, extended = True\<rparr>),
     (0xffeb, \<lparr>scancode = 0x5b, extended = True\<rparr>),
     (0xffec, \<lparr>scancode = 0x5b, extended = True\<rparr>),
     (0xffe5, \<lparr>scancode = 0x3a, extended = False\<rparr>),
     (0xff7f, \<lparr>scancode = 0x45, extended = False\<rparr>),
     (0xff14, \<lparr>scancode = 0x46, extended = False\<rparr>),
     (0xffbe, \<lparr>scancode = 0x3b, extended = False\<rparr>),
     (0xffbf, \<lparr>scancode = 0x3c, extended = False\<rparr>),
     (0xffc0, \<lparr>scancode = 0x3d, extended = False\<rparr>),
     (0xffc1, \<lparr>scancode = 0x3e, extended = False\<rparr>),
     (0xffc2, \<lparr>scancode = 0x3f, extended = False\<rparr>),
     (0xffc3, \<lparr>scancode = 0x40, extended = False\<rparr>),
     (0xffc4, \<lparr>scancode = 0x41, extended = False\<rparr>),
     (0xffc5, \<lparr>scancode = 0x42, extended = False\<rparr>),
     (0xffc6, \<lparr>scancode = 0x43, extended = False\<rparr>),
     (0xffc7, \<lparr>scancode = 0x44, extended = False\<rparr>),
     (0xffc8, \<lparr>scancode = 0x57, extended = False\<rparr>),
     (0xffc9, \<lparr>scancode = 0x58, extended = False\<rparr>)] keysym"

section \<open>Combinations leave no key pressed\<close>

text \<open>The remote keyboard: the keys that are down after a sequence of frames.\<close>

definition key_of :: "Scancode \<Rightarrow> int \<times> bool" where
  "key_of k = (scancode k, extended k)"

definition key_frame :: "ComboFrame \<Rightarrow> (int \<times> bool) set \<Rightarrow> (int \<times> bool) set" where
  "key_frame f H = (if pressed f then insert (scancode f, extended f) H else H - {(scancode f, extended f)})"

definition held :: "ComboFrame list \<Rightarrow> (int \<times> bool) set" where
  "held fs = fold key_frame fs {}"

lemma fold_press: "fold key_frame (map (frame True) ks) H = H \<union> key_of ` set ks"
  by (induction ks arbitrary: H) (auto simp: key_frame_def frame_def key_of_def)

lemma fold_release: "fold key_frame (map (frame False) ks) H = H - key_of ` set ks"
  by (induction ks arbitrary: H) (auto simp: key_frame_def frame_def key_of_def)

lemma collect_keys_eq:
  "collect_keys keys toks =
     (if list_all (\<lambda>t. tokenToScancode t \<noteq> None) toks
      then Some (keys @ map (\<lambda>t. the (tokenToScancode t)) toks) else None)"
  by (induction keys toks rule: collect_keys.induct) (auto split: option.splits)


section \<open>Agreement with the worker\<close>

definition disagrees :: "string \<times> int \<Rightarrow> bool" where
  "disagrees p =
     (case keysymToScancode (snd p) of
        None \<Rightarrow> False
      | Some a \<Rightarrow> (case scancodeForCode (Some (fst p)) of None \<Rightarrow> False | Some b \<Rightarrow> a \<noteq> b))"

text \<open>The physical keys whose scancode differs from the one the worker derives from their keysym
  are exactly the right shift and the right meta key, which the worker sends as the left ones.\<close>

theorem scancodes_match_worker:
  "filter disagrees KEYSYM = [(''ShiftRight'', 0xffe2), (''MetaRight'', 0xffec)]
   \<and> scancodeForCode (Some ''ShiftRight'') = Some \<lparr>scancode = 0x36, extended = False\<rparr>
   \<and> keysymToScancode 0xffe2 = Some \<lparr>scancode = 0x2a, extended = False\<rparr>"
  by (intro conjI) code_simp+

section \<open>Characters\<close>

lemma or_high_bit: "0 \<le> u \<Longrightarrow> u < 2 ^ 24 \<Longrightarrow> (0x01000000 :: int) OR u = 0x01000000 + u"
proof -
  assume u: "0 \<le> u" "u < 2 ^ 24"
  have "(0x01000000 :: int) AND u = 0"
  proof (rule bit_eqI)
    fix n
    have "bit (0x01000000 :: int) n \<longleftrightarrow> n = 24" using bit_exp_iff [where 'a = int, of 24 n] by simp
    moreover have "\<not> bit u 24" using u by (simp add: bit_iff_odd div_pos_pos_trivial)
    ultimately show "bit ((0x01000000 :: int) AND u) n \<longleftrightarrow> bit 0 n" by (auto simp: bit_and_iff)
  qed
  then show ?thesis using plus_and_or [of "0x01000000" u] by simp
qed

lemma table_values: "list_all (\<lambda>p. 0xfe03 \<le> snd p \<and> (snd p \<le> 0xffff \<or> 0x1008ff00 \<le> snd p)) KEYSYM"
  by code_simp

lemma table_names: "list_all (\<lambda>p. 2 \<le> length (fst p)) KEYSYM"
  by code_simp

text \<open>Typed characters of one code unit get distinct keysyms, none of which is 0 or the keysym of
  a named key.\<close>

theorem typed_characters_distinct:
  assumes "\<not> isComposing e" "keyCode e \<noteq> 229" "ev_code e \<notin> fst ` set KEYSYM" "ev_key e = [u]"
    and "\<not> isComposing e'" "keyCode e' \<noteq> 229" "ev_code e' \<notin> fst ` set KEYSYM" "ev_key e' = [u']"
    and "32 \<le> u" "u < 2 ^ 16" "32 \<le> u'" "u' < 2 ^ 16"
  shows "(keysymForEvent e None = keysymForEvent e' None \<longleftrightarrow> u = u')
    \<and> keysymForEvent e None \<notin> insert 0 (snd ` set KEYSYM)"
proof -
  have sym: "keysymForEvent x None = (if v \<le> 0xff then v else 0x01000000 + v)"
    if "\<not> isComposing x" "keyCode x \<noteq> 229" "ev_code x \<notin> fst ` set KEYSYM" "ev_key x = [v]" "32 \<le> v" "v < 2 ^ 16"
    for x v
  proof -
    have "map_of KEYSYM (ev_code x) = None" using that(3) by (simp add: map_of_eq_None_iff)
    moreover have "map_of (map (apfst units) KEYSYM) [v] = None"
      using table_names by (force simp: map_of_eq_None_iff list_all_iff units_def)
    moreover have "[v] \<noteq> units ''Process''" by (simp add: units_def)
    ultimately show ?thesis
      using that or_high_bit [of v] by (simp add: keysymForEvent_def char_keysym_def)
  qed
  show ?thesis
    using sym [OF assms(1-4,9,10)] sym [OF assms(5-8,11,12)] table_values assms(9-12)
    by (auto simp: list_all_iff)
qed

theorem typed_characters_distinct_witness:
  "keysymForEvent \<lparr>isComposing = False, ev_key = [0x61], keyCode = 65, ev_code = ''KeyA''\<rparr> None
   \<noteq> keysymForEvent \<lparr>isComposing = False, ev_key = [0x4e2d], keyCode = 0, ev_code = []\<rparr> None"
proof -
  let ?a = "\<lparr>isComposing = False, ev_key = [0x61], keyCode = 65, ev_code = ''KeyA''\<rparr>"
  let ?b = "\<lparr>isComposing = False, ev_key = [0x4e2d], keyCode = 0, ev_code = []\<rparr>"
  have "''KeyA'' \<notin> fst ` set KEYSYM" "[] \<notin> fst ` set KEYSYM" by (simp_all add: KEYSYM_def)
  then show ?thesis using typed_characters_distinct [of ?a "0x61" ?b "0x4e2d"] by simp
qed

end
