(* ===== verification/TagPalette.thy ===== *)
theory TagPalette
  imports JsString "HOL-Library.Word"
begin

text \<open>
  Tag colours, \<open>lib/tags/palette.ts\<close>: the palette of class names, the resolution of a stored
  colour and the FNV-1a hash that picks the colour of an uncoloured tag, with its counterpart in
  the gateway's migration (\<open>migrationColor\<close> in \<open>internal/repo/asset_repo.go\<close>). In JavaScript the
  bit operations and \<open>Math.imul\<close> give signed 32-bit numbers.
\<close>

unbundle bit_operations_syntax

section \<open>The palette\<close>

datatype TagColorToken =
  Coral | Teal | Amber | Sage | Sky | Violet | Rose | Cyan | Indigo | Lime | Fuchsia | Slate

record TagColorStyle =
  chip :: string
  dot :: string
  solid :: string
  soft :: string
  style_text :: string

fun token_name :: "TagColorToken \<Rightarrow> string" where
  "token_name Coral = ''coral''"
| "token_name Teal = ''teal''"
| "token_name Amber = ''amber''"
| "token_name Sage = ''sage''"
| "token_name Sky = ''sky''"
| "token_name Violet = ''violet''"
| "token_name Rose = ''rose''"
| "token_name Cyan = ''cyan''"
| "token_name Indigo = ''indigo''"
| "token_name Lime = ''lime''"
| "token_name Fuchsia = ''fuchsia''"
| "token_name Slate = ''slate''"

fun PALETTE :: "TagColorToken \<Rightarrow> TagColorStyle" where
  "PALETTE Coral =
     \<lparr>chip = ''bg-primary/12 text-primary border-primary/25'',
      dot = ''bg-primary'',
      solid = ''bg-primary text-primary-foreground'',
      soft = ''bg-primary/10'',
      style_text = ''text-primary''\<rparr>"
| "PALETTE Teal =
     \<lparr>chip = ''bg-teal-500/15 text-teal-700 dark:text-teal-300 border-teal-500/25'',
      dot = ''bg-teal-500'',
      solid = ''bg-teal-500 text-white'',
      soft = ''bg-teal-500/10'',
      style_text = ''text-teal-600 dark:text-teal-400''\<rparr>"
| "PALETTE Amber =
     \<lparr>chip = ''bg-amber-500/15 text-amber-700 dark:text-amber-300 border-amber-500/25'',
      dot = ''bg-amber-500'',
      solid = ''bg-amber-500 text-white'',
      soft = ''bg-amber-500/10'',
      style_text = ''text-amber-600 dark:text-amber-400''\<rparr>"
| "PALETTE Sage =
     \<lparr>chip = ''bg-emerald-500/15 text-emerald-700 dark:text-emerald-300 border-emerald-500/25'',
      dot = ''bg-emerald-500'',
      solid = ''bg-emerald-500 text-white'',
      soft = ''bg-emerald-500/10'',
      style_text = ''text-emerald-600 dark:text-emerald-400''\<rparr>"
| "PALETTE Sky =
     \<lparr>chip = ''bg-sky-500/15 text-sky-700 dark:text-sky-300 border-sky-500/25'',
      dot = ''bg-sky-500'',
      solid = ''bg-sky-500 text-white'',
      soft = ''bg-sky-500/10'',
      style_text = ''text-sky-600 dark:text-sky-400''\<rparr>"
| "PALETTE Violet =
     \<lparr>chip = ''bg-violet-500/15 text-violet-700 dark:text-violet-300 border-violet-500/25'',
      dot = ''bg-violet-500'',
      solid = ''bg-violet-500 text-white'',
      soft = ''bg-violet-500/10'',
      style_text = ''text-violet-600 dark:text-violet-400''\<rparr>"
| "PALETTE Rose =
     \<lparr>chip = ''bg-rose-500/15 text-rose-700 dark:text-rose-300 border-rose-500/25'',
      dot = ''bg-rose-500'',
      solid = ''bg-rose-500 text-white'',
      soft = ''bg-rose-500/10'',
      style_text = ''text-rose-600 dark:text-rose-400''\<rparr>"
| "PALETTE Cyan =
     \<lparr>chip = ''bg-cyan-500/15 text-cyan-700 dark:text-cyan-300 border-cyan-500/25'',
      dot = ''bg-cyan-500'',
      solid = ''bg-cyan-500 text-white'',
      soft = ''bg-cyan-500/10'',
      style_text = ''text-cyan-600 dark:text-cyan-400''\<rparr>"
| "PALETTE Indigo =
     \<lparr>chip = ''bg-indigo-500/15 text-indigo-700 dark:text-indigo-300 border-indigo-500/25'',
      dot = ''bg-indigo-500'',
      solid = ''bg-indigo-500 text-white'',
      soft = ''bg-indigo-500/10'',
      style_text = ''text-indigo-600 dark:text-indigo-400''\<rparr>"
| "PALETTE Lime =
     \<lparr>chip = ''bg-lime-500/15 text-lime-700 dark:text-lime-300 border-lime-500/25'',
      dot = ''bg-lime-500'',
      solid = ''bg-lime-500 text-white'',
      soft = ''bg-lime-500/10'',
      style_text = ''text-lime-600 dark:text-lime-400''\<rparr>"
| "PALETTE Fuchsia =
     \<lparr>chip = ''bg-fuchsia-500/15 text-fuchsia-700 dark:text-fuchsia-300 border-fuchsia-500/25'',
      dot = ''bg-fuchsia-500'',
      solid = ''bg-fuchsia-500 text-white'',
      soft = ''bg-fuchsia-500/10'',
      style_text = ''text-fuchsia-600 dark:text-fuchsia-400''\<rparr>"
| "PALETTE Slate =
     \<lparr>chip = ''bg-slate-500/15 text-slate-700 dark:text-slate-300 border-slate-500/25'',
      dot = ''bg-slate-500'',
      solid = ''bg-slate-500 text-white'',
      soft = ''bg-slate-500/10'',
      style_text = ''text-slate-600 dark:text-slate-400''\<rparr>"

definition TAG_COLOR_TOKENS :: "TagColorToken list" where
  "TAG_COLOR_TOKENS =
     [Coral, Teal, Amber, Sage, Sky, Violet, Rose, Cyan, 
      Indigo, Lime, Fuchsia, Slate]"

definition DEFAULT_TAG_COLOR :: TagColorToken where
  "DEFAULT_TAG_COLOR = Slate"

fun TAG_COLOR_LABELS :: "TagColorToken \<Rightarrow> string" where
  "TAG_COLOR_LABELS Coral = (utf8 [29642, 29786])"
| "TAG_COLOR_LABELS Teal = (utf8 [38738])"
| "TAG_COLOR_LABELS Amber = (utf8 [29733, 29632])"
| "TAG_COLOR_LABELS Sage = (utf8 [40736, 23614, 33609, 32511])"
| "TAG_COLOR_LABELS Sky = (utf8 [22825, 34013])"
| "TAG_COLOR_LABELS Violet = (utf8 [32043, 32599, 20848])"
| "TAG_COLOR_LABELS Rose = (utf8 [29611, 29808])"
| "TAG_COLOR_LABELS Cyan = (utf8 [38738, 34013])"
| "TAG_COLOR_LABELS Indigo = (utf8 [38747, 34013])"
| "TAG_COLOR_LABELS Lime = (utf8 [26592, 27308, 32511])"
| "TAG_COLOR_LABELS Fuchsia = (utf8 [21697, 32418])"
| "TAG_COLOR_LABELS Slate = (utf8 [30707, 26495, 28784])"

definition find_token :: "string \<Rightarrow> TagColorToken option" where
  "find_token c = List.find (\<lambda>t. token_name t = c) TAG_COLOR_TOKENS"

definition isToken :: "string \<Rightarrow> bool" where
  "isToken c \<longleftrightarrow> find_token c \<noteq> None"

section \<open>The colour of an uncoloured tag\<close>

text \<open>The UTF-16 code units of a text held in UTF-8\<close>

definition unit_bits :: "char \<Rightarrow> nat" where
  "unit_bits c = of_char c mod 64"

function (sequential) utf16_units :: "string \<Rightarrow> nat list" where
  "utf16_units [] = []"
| "utf16_units (c # s) =
     (let b = of_char c;
          at = (\<lambda>i. if i < length s then unit_bits (s ! i) else 0) in
      if b < 128 then b # utf16_units s
      else if b < 224 then ((b mod 32) * 64 + at 0) # utf16_units (drop 1 s)
      else if b < 240 then ((b mod 16) * 4096 + at 0 * 64 + at 1) # utf16_units (drop 2 s)
      else let v = (b mod 8) * 262144 + at 0 * 4096 + at 1 * 64 + at 2 - 65536
           in (0xD800 + v div 1024) # (0xDC00 + v mod 1024) # utf16_units (drop 3 s))"
  by pat_completeness auto
termination by (relation "measure length") auto

definition fnv_step :: "nat \<Rightarrow> 32 word \<Rightarrow> 32 word" where
  "fnv_step u h = (h XOR word_of_nat u) * 16777619"

definition fnv :: "nat list \<Rightarrow> 32 word" where
  "fnv us = fold fnv_step us 2166136261"

definition defaultTagColor :: "string \<Rightarrow> TagColorToken" where
  "defaultTagColor seed =
     TAG_COLOR_TOKENS ! (nat \<bar>sint (fnv (utf16_units seed))\<bar> mod length TAG_COLOR_TOKENS)"

section \<open>Resolution\<close>

definition hex_char :: "char \<Rightarrow> bool" where
  "hex_char c \<longleftrightarrow> c \<in> set ''0123456789abcdefABCDEF''"

definition ascii_letter :: "char \<Rightarrow> bool" where
  "ascii_letter c \<longleftrightarrow> c \<in> set ''abcdefghijklmnopqrstuvwxyzABCDEFGHIJKLMNOPQRSTUVWXYZ''"

definition looksLikeCss :: "string \<Rightarrow> bool" where
  "looksLikeCss c \<longleftrightarrow>
     (c \<noteq> [] \<and> hd c = CHR ''#'' \<and> list_all hex_char (tl c) \<and> length (tl c) \<in> {3, 6, 8})
     \<or> (c \<noteq> [] \<and> list_all ascii_letter c)"

record InlineStyle =
  chip_background :: string
  chip_color :: string
  chip_border :: string
  dot_background :: string
  swatch_background :: string

record ResolvedTagColor =
  res_style :: TagColorStyle
  res_inline :: "InlineStyle option"
  res_token :: "TagColorToken option"

definition color_mix :: "string \<Rightarrow> string \<Rightarrow> string" where
  "color_mix c pct = ''color-mix(in oklab, '' @ c @ '' '' @ pct @ '', transparent)''"

definition inline_style :: "string \<Rightarrow> InlineStyle" where
  "inline_style c =
     \<lparr>chip_background = color_mix c ''15%'', chip_color = c, chip_border = color_mix c ''30%'',
      dot_background = c, swatch_background = c\<rparr>"

definition resolveTagColor :: "string option \<Rightarrow> string option \<Rightarrow> ResolvedTagColor" where
  "resolveTagColor color seed =
     (let c = js_trim (case color of None \<Rightarrow> [] | Some s \<Rightarrow> s);
          fallback = defaultTagColor (case seed of None \<Rightarrow> [] | Some s \<Rightarrow> s) in
      case find_token c of
        Some t \<Rightarrow> \<lparr>res_style = PALETTE t, res_inline = None, res_token = Some t\<rparr>
      | None \<Rightarrow>
          if c \<noteq> [] \<and> hd c = CHR ''#'' \<and> looksLikeCss c then
            \<lparr>res_style = PALETTE DEFAULT_TAG_COLOR, res_inline = Some (inline_style c), res_token = None\<rparr>
          else \<lparr>res_style = PALETTE fallback, res_inline = None, res_token = Some fallback\<rparr>)"

definition tagColorStyle :: "TagColorToken \<Rightarrow> TagColorStyle" where
  "tagColorStyle token = PALETTE token"

section \<open>The gateway's migration\<close>

definition migrationPalette :: "string list" where
  "migrationPalette =
     [''coral'', ''teal'', ''amber'', ''sage'', ''sky'',
      ''violet'', ''rose'', ''cyan'', ''indigo'', ''lime'', ''fuchsia'', ''slate'']"

text \<open>\<open>int\<close> has 64 bits, so the conversion keeps the unsigned value.\<close>

definition migrationColor :: "string \<Rightarrow> string" where
  "migrationColor name = migrationPalette ! (unat (fnv (map of_char name)) mod length migrationPalette)"

section \<open>Where the two agree\<close>

definition ascii_text :: "string \<Rightarrow> bool" where
  "ascii_text s \<longleftrightarrow> list_all (\<lambda>c. (of_char c :: nat) < 128) s"

lemma utf16_ascii: "ascii_text s \<Longrightarrow> utf16_units s = map of_char s"
  by (induction s) (simp_all add: ascii_text_def Let_def)

lemma abs_sint:
  fixes h :: "32 word"
  shows "nat \<bar>sint h\<bar> = (if unat h < 2 ^ 31 then unat h else 2 ^ 32 - unat h)"
proof -
  have s: "sint h = signed_take_bit 31 (uint h)" by (simp add: sint_uint)
  have u: "uint h = int (unat h)" by simp
  have r: "0 \<le> uint h" "uint h < 2 ^ 32" using uint_lt2p [of h] by simp_all
  show ?thesis
  proof (cases "uint h < 2 ^ 31")
    case True
    moreover have "- (2 ^ 31) \<le> uint h" using r(1) by (rule order_trans [rotated]) simp
    ultimately have "sint h = uint h" unfolding s by (intro signed_take_bit_int_eq_self)
    moreover have "int (unat h) < int (2 ^ 31)" using True by simp
    then have "unat h < 2 ^ 31" by (simp only: of_nat_less_iff)
    ultimately show ?thesis by simp
  next
    case False
    have "(uint h + 2 ^ 31) mod 2 ^ 32 = (uint h + 2 ^ 31 - 2 ^ 32) mod 2 ^ 32" by (rule minus_mod_self2 [symmetric])
    also have "\<dots> = uint h - 2 ^ 31" using False r by simp
    finally have "sint h = uint h - 2 ^ 32"
      by (simp add: s signed_take_bit_eq_take_bit_shift take_bit_int_def)
    moreover have "\<not> int (unat h) < int (2 ^ 31)" using False by simp
    then have "\<not> unat h < 2 ^ 31" by (simp only: of_nat_less_iff not_False_eq_True)
    moreover have "nat \<bar>uint h - 2 ^ 32\<bar> = nat (2 ^ 32 - uint h)" using r by simp
    then have "nat \<bar>uint h - 2 ^ 32\<bar> = 2 ^ 32 - unat h" using r by (simp add: nat_diff_distrib)
    ultimately show ?thesis by simp
  qed
qed

lemma palette_names: "migrationPalette = map token_name TAG_COLOR_TOKENS"
  by (simp add: migrationPalette_def TAG_COLOR_TOKENS_def)

lemma distinct_palette: "distinct migrationPalette"
  by (simp add: migrationPalette_def)

lemma mirrored_index:
  assumes "x < 2 ^ 32"
  shows "(2 ^ 32 - x) mod 12 = x mod 12 \<longleftrightarrow> x mod 12 = 2 \<or> x mod 12 = (8 :: nat)"
proof -
  have "int ((2 ^ 32 - x) mod 12) = (2 ^ 32 - int x) mod 12"
    using assms by (simp add: zmod_int of_nat_diff)
  also have "\<dots> = (4 - int (x mod 12)) mod 12"
    using mod_diff_eq [of "2 ^ 32" 12 "int x"] by (simp add: zmod_int)
  finally have i: "int ((2 ^ 32 - x) mod 12) = (4 - int (x mod 12)) mod 12" .
  have small: "(4 - int r) mod 12 = int r \<longleftrightarrow> r = 2 \<or> r = 8" if "r < 12" for r :: nat
  proof -
    have "list_all (\<lambda>r. ((4 - int r) mod 12 = int r) = (r = 2 \<or> r = 8)) [0..<12]" by code_simp
    then show ?thesis using that by (simp only: list_all_iff atLeastLessThan_iff set_upt) simp
  qed
  have "(2 ^ 32 - x) mod 12 = x mod 12 \<longleftrightarrow> (4 - int (x mod 12)) mod 12 = int (x mod 12)"
    unfolding i [symmetric] by (simp only: of_nat_eq_iff)
  then show ?thesis using small [of "x mod 12"] by simp
qed

text \<open>The palette and the gateway's migration list the same colours, but for an ASCII name they pick
  the same one exactly when the hash is below 2^31, or happens to be 2 or 8 modulo 12: the
  browser takes the absolute value of the hash as a signed number.\<close>

theorem tag_hue_agreement:
  assumes "ascii_text name"
  shows "migrationPalette = map token_name TAG_COLOR_TOKENS
    \<and> (token_name (defaultTagColor name) = migrationColor name \<longleftrightarrow>
        unat (fnv (map of_char name)) < 2 ^ 31
        \<or> unat (fnv (map of_char name)) mod 12 = 2 \<or> unat (fnv (map of_char name)) mod 12 = 8)"
proof
  let ?h = "fnv (map of_char name)"
  have len: "length TAG_COLOR_TOKENS = 12" "length migrationPalette = 12"
    by (simp_all add: TAG_COLOR_TOKENS_def migrationPalette_def)
  have "token_name (defaultTagColor name) = migrationPalette ! (nat \<bar>sint ?h\<bar> mod 12)"
    by (simp add: defaultTagColor_def utf16_ascii [OF assms] palette_names len)
  then have same: "token_name (defaultTagColor name) = migrationColor name \<longleftrightarrow> nat \<bar>sint ?h\<bar> mod 12 = unat ?h mod 12"
    using nth_eq_iff_index_eq [OF distinct_palette] by (simp add: migrationColor_def len)
  have "unat ?h < 2 ^ 32" using unsigned_less [of ?h, where 'a = nat] by simp
  then show "token_name (defaultTagColor name) = migrationColor name \<longleftrightarrow>
        unat ?h < 2 ^ 31 \<or> unat ?h mod 12 = 2 \<or> unat ?h mod 12 = 8"
    unfolding same abs_sint using mirrored_index [of "unat ?h"] by (auto simp: not_less)
qed (rule palette_names)

theorem tag_hue_agreement_witness:
  "token_name (defaultTagColor ''test'') \<noteq> migrationColor ''test''
   \<and> token_name (defaultTagColor ''db'') = migrationColor ''db''"
proof -
  have "uint (fnv (map of_char ''test'')) = 2949673445" "uint (fnv (map of_char ''db'')) = 1461503683"
    by code_simp+
  then have "unat (fnv (map of_char ''test'')) = 2949673445" "unat (fnv (map of_char ''db'')) = 1461503683"
    by (simp_all only: unat_eq_nat_uint nat_numeral)
  moreover have "ascii_text ''test''" "ascii_text ''db''" by code_simp+
  ultimately show ?thesis using tag_hue_agreement [of "''test''"] tag_hue_agreement [of "''db''"] by simp
qed

end
