(* ===== verification/Sse.thy ===== *)
theory Sse
  imports TokenStore
begin

text \<open>
  Server-sent events: \<open>lib/sse/eventsource.ts\<close> reads \<open>event:\<close> and \<open>data:\<close> frames from a \<open>fetch\<close>
  response, \<open>lib/hooks/use-sse-snapshot.ts\<close> keeps such a stream open. The writer is
  \<open>internal/sse/stream.go\<close>. \<open>JSON.parse\<close> is the argument \<open>parse\<close>; a response body is the list of
  decoded chunks followed by its end or by a read error.
\<close>

section \<open>Requests\<close>

record sse_init =
  init_method :: "string option"
  init_body :: "json option"

record sse_request =
  req_method :: string
  req_headers :: "(string \<times> string) list"
  req_body :: "string option"

definition sse_request :: "'a browser_scheme \<Rightarrow> sse_init option \<Rightarrow> sse_request" where
  "sse_request b init =
     (let body = Option.bind init init_body
      in \<lparr>req_method = nullish (Option.bind init init_method) ''GET'',
          req_headers = (''Accept'', ''text/event-stream'')
            # (case getAccessToken b of None \<Rightarrow> [] | Some tok \<Rightarrow> if tok = [] then [] else [(''Authorization'', ''Bearer '' @ tok)])
            @ (if body = None then [] else [(''Content-Type'', ''application/json'')]),
          req_body = map_option stringify body\<rparr>)"

section \<open>Frames\<close>

definition nl :: char where
  "nl = CHR 0x0A"

datatype sse_data = Parsed json | Raw string

fun frame_line :: "string \<Rightarrow> string \<times> string list \<Rightarrow> string \<times> string list" where
  "frame_line line (event, dataLines) =
     (if prefix '':'' line then (event, dataLines)
      else if prefix ''event:'' line then (js_trim (drop 6 line), dataLines)
      else if prefix ''data:'' line then (event, dataLines @ [js_trim (drop 5 line)])
      else (event, dataLines))"

definition event_data :: "(string \<Rightarrow> json option) \<Rightarrow> string \<Rightarrow> sse_data" where
  "event_data parse raw = (case parse raw of None \<Rightarrow> Raw raw | Some j \<Rightarrow> Parsed j)"

definition processFrame :: "(string \<Rightarrow> json option) \<Rightarrow> string \<Rightarrow> (string \<times> sse_data) list" where
  "processFrame parse frame =
     (let (event, dataLines) = fold frame_line (split_on nl frame) (''message'', [])
      in if dataLines = [] then [] else [(event, event_data parse (join_with [nl] dataLines))])"

text \<open>\<open>buffer.indexOf("\n\n")\<close> with the text before and after the separator\<close>

fun cut_frame :: "string \<Rightarrow> (string \<times> string) option" where
  "cut_frame [] = None"
| "cut_frame (c # s) =
     (if c = nl \<and> s \<noteq> [] \<and> hd s = nl then Some ([], tl s) else map_option (apfst (Cons c)) (cut_frame s))"

lemma cut_frame_shorter: "cut_frame s = Some (f, r) \<Longrightarrow> length r < length s"
  by (induction s arbitrary: f) (auto split: if_splits)

text \<open>The inner \<open>while\<close> loop: the complete frames of the buffer and what is left of it\<close>

function drain :: "string \<Rightarrow> string list \<times> string" where
  "drain buffer =
     (case cut_frame buffer of
        None \<Rightarrow> ([], buffer)
      | Some (frame, rest) \<Rightarrow> apfst (Cons frame) (drain rest))"
  by pat_completeness auto
termination by (relation "measure length") (auto dest: cut_frame_shorter)

declare drain.simps [simp del]

fun read_loop ::
  "(string \<Rightarrow> json option) \<Rightarrow> string \<Rightarrow> string list \<Rightarrow> string option
    \<Rightarrow> (string \<times> sse_data) list \<times> string option" where
  "read_loop parse buffer [] failure =
     (if failure = None \<and> js_trim buffer \<noteq> [] then processFrame parse buffer else [], failure)"
| "read_loop parse buffer (value # chunks) failure =
     (let (frames, rest) = drain (buffer @ value)
      in apfst (append (concat (map (processFrame parse) frames))) (read_loop parse rest chunks failure))"

record sse_response =
  res_ok :: bool
  res_status :: nat
  res_statusText :: string
  res_text :: "string option"
  res_body :: "string list option"
  res_failure :: "string option"

text \<open>The events handed to \<open>onEvent\<close> and the message of the exception, if one is raised\<close>

definition streamSSE ::
  "(string \<Rightarrow> json option) \<Rightarrow> string + sse_response \<Rightarrow> (string \<times> sse_data) list \<times> string option" where
  "streamSSE parse res =
     (case res of
        Inl msg \<Rightarrow> ([], Some msg)
      | Inr r \<Rightarrow>
          (case res_body r of
             Some chunks \<Rightarrow>
               if res_ok r then read_loop parse [] chunks (res_failure r)
               else ([], Some (''SSE '' @ show_nat (res_status r) @ '': '' @ or_str (nullish (res_text r) []) (res_statusText r)))
           | None \<Rightarrow>
               ([], Some (''SSE '' @ show_nat (res_status r) @ '': '' @ or_str (nullish (res_text r) []) (res_statusText r)))))"

section \<open>The writer\<close>

datatype sse_item = Frame string string | Ping

fun frame_text :: "sse_item \<Rightarrow> string" where
  "frame_text (Frame event data) = ''event: '' @ event @ [nl] @ ''data: '' @ data @ [nl, nl]"
| "frame_text Ping = '': ping'' @ [nl, nl]"

fun item_event :: "(string \<Rightarrow> json option) \<Rightarrow> sse_item \<Rightarrow> (string \<times> sse_data) list" where
  "item_event parse (Frame event data) = [(event, event_data parse data)]"
| "item_event parse Ping = []"

section \<open>Chunks do not matter\<close>

lemma cut_frame_append: "cut_frame b = Some (f, r) \<Longrightarrow> cut_frame (b @ c) = Some (f, r @ c)"
  by (induction b arbitrary: f) (auto simp: hd_append tl_append2 split: if_splits)

lemma drain_append:
  "drain (b @ c) = (fst (drain b) @ fst (drain (snd (drain b) @ c)), snd (drain (snd (drain b) @ c)))"
proof (induction b rule: drain.induct)
  case (1 b)
  show ?case
  proof (cases "cut_frame b")
    case None
    then show ?thesis by (simp add: drain.simps [of b])
  next
    case (Some p)
    obtain f r where p: "p = (f, r)" by (cases p)
    have b: "drain b = apfst (Cons f) (drain r)" by (simp add: drain.simps [of b] Some p)
    have "drain (b @ c) = apfst (Cons f) (drain (r @ c))"
      by (simp add: drain.simps [of "b @ c"] cut_frame_append [OF Some [unfolded p]])
    then show ?thesis using 1 [OF Some p [symmetric]] by (simp add: b)
  qed
qed

lemma drain_idle: "drain (snd (drain b)) = ([], snd (drain b))"
proof (induction b rule: drain.induct)
  case (1 b)
  show ?case
  proof (cases "cut_frame b")
    case None
    then show ?thesis by (simp add: drain.simps [of b])
  next
    case (Some p)
    then show ?thesis using 1 [OF Some] by (cases p) (simp add: drain.simps [of b])
  qed
qed

text \<open>The reader as a function of all the text there is: the reference for the loop over chunks\<close>

definition read_all :: "(string \<Rightarrow> json option) \<Rightarrow> string \<Rightarrow> string option \<Rightarrow> (string \<times> sse_data) list" where
  "read_all parse text failure =
     concat (map (processFrame parse) (fst (drain text)))
     @ (let rest = snd (drain text) in if failure = None \<and> js_trim rest \<noteq> [] then processFrame parse rest else [])"

lemma read_loop_all:
  "drain buffer = ([], buffer) \<Longrightarrow>
   read_loop parse buffer chunks failure = (read_all parse (buffer @ concat chunks) failure, failure)"
proof (induction chunks arbitrary: buffer)
  case Nil
  then show ?case by (simp add: read_all_def Let_def)
next
  case (Cons c cs)
  let ?d = "drain (buffer @ c)"
  have "read_loop parse buffer (c # cs) failure
      = apfst (append (concat (map (processFrame parse) (fst ?d)))) (read_loop parse (snd ?d) cs failure)"
    by (simp add: split_beta)
  also have "\<dots> = apfst (append (concat (map (processFrame parse) (fst ?d)))) (read_all parse (snd ?d @ concat cs) failure, failure)"
    by (simp only: Cons.IH [OF drain_idle])
  also have "\<dots> = (read_all parse ((buffer @ c) @ concat cs) failure, failure)"
    by (simp add: read_all_def drain_append [of "buffer @ c"] Let_def del: append_assoc)
  finally show ?case by simp
qed

text \<open>C20: How the network cuts the stream into chunks has no influence on the events: the reader gives
  what it would give for the whole text in one piece.\<close>

theorem sse_chunking:
  "read_loop parse [] chunks failure = (read_all parse (concat chunks) failure, failure)"
proof -
  have "drain [] = ([], [])" by (simp add: drain.simps)
  then show ?thesis using read_loop_all [of "[]"] by simp
qed

section \<open>What the gateway writes is what the page reads\<close>

lemma cut_line: "nl \<notin> set a \<Longrightarrow> cut_frame (a @ s) = map_option (apfst ((@) a)) (cut_frame s)"
  by (induction a; cases "cut_frame s") (auto simp: apfst_def map_prod_def)

lemma cut_here: "cut_frame (nl # nl # s) = Some ([], s)"
  by simp

lemma cut_break: "b \<noteq> [] \<Longrightarrow> nl \<notin> set b \<Longrightarrow> cut_frame (nl # b @ s) = map_option (apfst (Cons nl)) (cut_frame (b @ s))"
  by (cases b) auto

lemma js_trim_blank: "js_trim (CHR '' '' # s) = js_trim s"
proof -
  have "drop_prefix js_white (CHR '' '' # s) = Some s"
    by (simp add: drop_prefix_def js_white_chars)
  then show ?thesis by (simp add: js_trim_def trimStart_def trim_front.simps [of js_white "CHR '' '' # s"])
qed

definition plain_item :: "sse_item \<Rightarrow> bool" where
  "plain_item x =
     (case x of
        Frame event data \<Rightarrow> nl \<notin> set event \<and> nl \<notin> set data \<and> js_trim event = event \<and> js_trim data = data
      | Ping \<Rightarrow> True)"

fun frame_body :: "sse_item \<Rightarrow> string" where
  "frame_body (Frame event data) = ''event: '' @ event @ [nl] @ ''data: '' @ data"
| "frame_body Ping = '': ping''"

lemma cut_item: "plain_item x \<Longrightarrow> cut_frame (frame_text x @ s) = Some (frame_body x, s)"
proof (cases x)
  case (Frame event data)
  assume "plain_item x"
  then have n: "nl \<notin> set (''event: '' @ event)" "nl \<notin> set (''data: '' @ data)"
    by (auto simp: plain_item_def Frame nl_def)
  have "cut_frame ((''event: '' @ event) @ nl # (''data: '' @ data) @ nl # nl # s)
      = Some ((''event: '' @ event) @ nl # (''data: '' @ data), s)"
    using cut_line [OF n(1)] cut_line [OF n(2)] cut_break [OF _ n(2)] cut_here [of s] by simp
  then show ?thesis by (simp add: Frame)
next
  case Ping
  have "nl \<notin> set '': ping''" by (simp add: nl_def)
  from cut_line [OF this, of "nl # nl # s"] show ?thesis by (simp add: Ping)
qed

lemma process_item: "plain_item x \<Longrightarrow> processFrame parse (frame_body x) = item_event parse x"
proof (cases x)
  case (Frame event data)
  assume p: "plain_item x"
  then have n: "nl \<notin> set (''event: '' @ event)" "nl \<notin> set (''data: '' @ data)"
    by (auto simp: plain_item_def Frame nl_def)
  have "split_on nl ((''event: '' @ event) @ nl # (''data: '' @ data)) = [''event: '' @ event, ''data: '' @ data]"
    using split_on_append [OF n(1)] split_on_id [OF n(2)] by simp
  then show ?thesis using p by (simp add: processFrame_def Frame js_trim_blank plain_item_def)
next
  case Ping
  have "split_on nl '': ping'' = ['': ping'']" by (rule split_on_id) (simp add: nl_def)
  then show ?thesis by (simp add: processFrame_def Ping)
qed

lemma drain_items:
  "list_all plain_item xs \<Longrightarrow> drain (concat (map frame_text xs)) = (map frame_body xs, [])"
  by (induction xs) (simp_all add: drain.simps [of "[]"] drain.simps [of "frame_text x @ s" for x s] cut_item)

text \<open>Whatever frames and keep-alive comments the gateway writes, and however the network cuts
  them, the page gets exactly the frames, in order, with their data parsed.\<close>

theorem sse_roundtrip:
  assumes "list_all plain_item xs" "concat chunks = concat (map frame_text xs)"
  shows "read_loop parse [] chunks None = (concat (map (item_event parse) xs), None)"
proof -
  have same: "map (processFrame parse) (map frame_body xs) = map (item_event parse) xs"
    using assms(1) process_item by (auto simp: list_all_iff)
  have "drain [] = ([], [])" by (simp add: drain.simps)
  from read_loop_all [OF this, of parse chunks None]
  have "read_loop parse [] chunks None = (read_all parse (concat (map frame_text xs)) None, None)"
    using assms(2) by simp
  also have "read_all parse (concat (map frame_text xs)) None = concat (map (item_event parse) xs)"
    using drain_items [OF assms(1)] by (simp only: read_all_def Let_def fst_conv snd_conv same) simp
  finally show ?thesis .
qed

theorem sse_roundtrip_witness:
  "read_loop (\<lambda>_. None) [] [''event: a'' @ [nl] @ ''da'', ''ta: 1'' @ [nl], nl # '': ping'' @ [nl, nl]] None
   = ([(''a'', Raw ''1'')], None)"
proof -
  have t: "js_trim ''a'' = ''a''" "js_trim ''1'' = ''1''" by code_simp+
  have "list_all plain_item [Frame ''a'' ''1'', Ping]" by (simp add: plain_item_def nl_def t)
  from sse_roundtrip [OF this, of "[''event: a'' @ [nl] @ ''da'', ''ta: 1'' @ [nl], nl # '': ping'' @ [nl, nl]]" "\<lambda>_. None"]
  show ?thesis by (simp add: event_data_def)
qed

end
