(* ===== verification/SseSnapshot.thy ===== *)
theory SseSnapshot
  imports Sse
begin

text \<open>
  The subscription of \<open>lib/hooks/use-sse-snapshot.ts\<close>: the state it shows, and the closure of the
  effect that keeps a stream open and reopens it with a growing delay. \<open>stopped\<close> holds while no
  effect is active; an effect that was cleaned up leaves its stream behind, whose callbacks only
  test \<open>stopped\<close>. The events are those of the stream, the timer and React.
\<close>

datatype SseStatus = Idle | Connecting | Live | Broken

record sse_hook =
  data :: "sse_data option"
  status :: SseStatus
  error :: "string option"
  lastAt :: "int option"
  stopped :: bool
  attempt :: nat
  timer :: "nat option"
  streaming :: bool

definition new_hook :: sse_hook where
  "new_hook = \<lparr>data = None, status = Idle, error = None, lastAt = None, stopped = True, attempt = 0,
     timer = None, streaming = False\<rparr>"

definition connect :: "sse_hook \<Rightarrow> sse_hook" where
  "connect s =
     (if stopped s then s
      else s\<lparr>status := (if status s = Live then Live else Connecting), streaming := True\<rparr>)"

definition subscribe :: "bool \<Rightarrow> string option \<Rightarrow> sse_hook \<Rightarrow> sse_hook" where
  "subscribe enabled url s =
     (if \<not> enabled \<or> nullish url [] = [] then s\<lparr>status := Idle\<rparr>
      else connect (s\<lparr>stopped := False, attempt := 0, timer := None, streaming := False\<rparr>))"

definition payload_text :: "sse_data \<Rightarrow> string" where
  "payload_text d = (case d of Raw t \<Rightarrow> t | Parsed (JStr t) \<Rightarrow> t | Parsed j \<Rightarrow> stringify j)"

definition on_event :: "string \<Rightarrow> sse_data \<Rightarrow> int \<Rightarrow> sse_hook \<Rightarrow> sse_hook" where
  "on_event kind payload now s =
     (if stopped s then s
      else if kind = ''snapshot'' then
        s\<lparr>data := Some payload, status := Live, error := None, lastAt := Some now, attempt := 0\<rparr>
      else if kind = ''err'' then s\<lparr>error := Some (payload_text payload)\<rparr>
      else s)"

definition retry_delay :: "nat \<Rightarrow> nat" where
  "retry_delay a = min (1000 * 2 ^ a) 15000"

definition stream_end :: "string option \<Rightarrow> sse_hook \<Rightarrow> sse_hook" where
  "stream_end failure s0 =
     (let s = s0\<lparr>streaming := False\<rparr> in
      if stopped s then s
      else
        let s1 = (case failure of None \<Rightarrow> s | Some msg \<Rightarrow> s\<lparr>status := Broken, error := Some msg\<rparr>)
        in s1\<lparr>timer := Some (retry_delay (attempt s1)), attempt := attempt s1 + 1\<rparr>)"

definition timer_fires :: "sse_hook \<Rightarrow> sse_hook" where
  "timer_fires s = connect (s\<lparr>timer := None\<rparr>)"

definition cleanup :: "sse_hook \<Rightarrow> sse_hook" where
  "cleanup s = s\<lparr>stopped := True, timer := None\<rparr>"

datatype hook_step =
    Subscribe bool "string option" | Cleanup | Event string sse_data int | StreamEnd "string option" | TimerFires

fun perform :: "hook_step \<Rightarrow> sse_hook \<Rightarrow> sse_hook option" where
  "perform (Subscribe enabled url) s = (if stopped s then Some (subscribe enabled url s) else None)"
| "perform Cleanup s = Some (cleanup s)"
| "perform (Event kind payload now) s = (if streaming s then Some (on_event kind payload now s) else None)"
| "perform (StreamEnd failure) s = (if streaming s then Some (stream_end failure s) else None)"
| "perform TimerFires s = (if timer s \<noteq> None then Some (timer_fires s) else None)"

fun run_hook :: "hook_step list \<Rightarrow> sse_hook \<Rightarrow> sse_hook option" where
  "run_hook [] s = Some s"
| "run_hook (a # as) s = (case perform a s of None \<Rightarrow> None | Some s' \<Rightarrow> run_hook as s')"

section \<open>The subscription stays alive\<close>

definition hook_inv :: "sse_hook \<Rightarrow> bool" where
  "hook_inv s \<longleftrightarrow>
     (if stopped s then timer s = None else streaming s = (timer s = None))
     \<and> (case timer s of None \<Rightarrow> True | Some d \<Rightarrow> 0 < attempt s \<and> d = retry_delay (attempt s - 1))
     \<and> (data s = None \<longleftrightarrow> lastAt s = None)
     \<and> (status s = Live \<longrightarrow> data s \<noteq> None)"

lemmas hook_defs =
  connect_def subscribe_def on_event_def stream_end_def timer_fires_def cleanup_def Let_def

lemma connect_inv:
  "\<not> stopped s \<Longrightarrow> timer s = None \<Longrightarrow> (data s = None \<longleftrightarrow> lastAt s = None) \<Longrightarrow> (status s = Live \<longrightarrow> data s \<noteq> None)
   \<Longrightarrow> hook_inv (connect s)"
  by (simp add: hook_inv_def connect_def)

lemma perform_inv:
  assumes "hook_inv s" "perform a s = Some s'"
  shows "hook_inv s'"
proof (cases a)
  case (Subscribe enabled url)
  then have "stopped s" "s' = subscribe enabled url s" using assms(2) by (auto split: if_splits)
  then show ?thesis
    using assms(1) connect_inv [of "s\<lparr>stopped := False, attempt := 0, timer := None, streaming := False\<rparr>"]
    by (auto simp: subscribe_def hook_inv_def)
next
  case Cleanup
  then show ?thesis using assms by (auto simp: hook_inv_def cleanup_def)
next
  case (Event kind payload now)
  then have s': "streaming s" "s' = on_event kind payload now s" using assms(2) by (auto split: if_splits)
  show ?thesis
  proof (cases "stopped s")
    case False
    then have "timer s = None" using assms(1) s'(1) by (simp add: hook_inv_def)
    then show ?thesis using assms(1) s' False by (simp add: hook_inv_def on_event_def)
  qed (use assms(1) s' in \<open>simp add: on_event_def\<close>)
next
  case (StreamEnd failure)
  then have s': "streaming s" "s' = stream_end failure s" using assms(2) by (auto split: if_splits)
  show ?thesis
  proof (cases "stopped s")
    case True
    then show ?thesis using assms(1) s' by (auto simp: hook_inv_def stream_end_def Let_def)
  next
    case False
    then show ?thesis
      using assms(1) s' by (cases failure) (auto simp: hook_inv_def stream_end_def Let_def)
  qed
next
  case TimerFires
  then have s': "timer s \<noteq> None" "s' = connect (s\<lparr>timer := None\<rparr>)"
    using assms(2) by (auto simp: timer_fires_def split: if_splits)
  then have "\<not> stopped s" using assms(1) by (auto simp: hook_inv_def)
  then show ?thesis
    unfolding s'(2) using assms(1) by (intro connect_inv) (auto simp: hook_inv_def)
qed

lemma run_hook_inv: "hook_inv s \<Longrightarrow> run_hook as s = Some s' \<Longrightarrow> hook_inv s'"
  by (induction as arbitrary: s) (auto split: option.splits dest: perform_inv)

lemma new_hook_inv: "hook_inv new_hook"
  by (simp add: hook_inv_def new_hook_def)

lemma retry_delay_bounds: "1000 \<le> retry_delay a \<and> retry_delay a \<le> 15000"
  by (simp add: retry_delay_def)


definition drop_thrice :: "hook_step list" where
  "drop_thrice =
     [Subscribe True (Some ''/s''), Event ''snapshot'' (Raw ''x'') 7, StreamEnd None, TimerFires, StreamEnd None,
      TimerFires, StreamEnd (Some ''gone'')]"


end
