(* ===== verification/AiLists.thy ===== *)
theory AiLists
  imports Complex_Main JsString "HOL-Library.Multiset"
begin

text \<open>
  The lists of the AI pages: \<open>lib/ai/group-tools.ts\<close> folds runs of calls of the same tool,
  \<open>lib/ai/group.ts\<close> puts conversations into time buckets and \<open>lib/ai/plan.ts\<close> summarises the task
  plan of an agent. The date parser (\<open>None\<close> for \<open>NaN\<close>) and the clock are arguments.
\<close>

section \<open>Tool groups\<close>

datatype ToolStatus = ToolPending | ToolRunning | ToolOutput | ToolError | ToolDryRun

record ToolLike =
  tool_id :: string
  tool_name :: string
  tool_status :: ToolStatus
  tool_output :: "string option"
  tool_error :: "string option"
  tool_danger :: "bool option"

record ToolGroup =
  group_name :: string
  groupKey :: string
  group_items :: "ToolLike list"

datatype 'a grouped = Single 'a | Group ToolGroup

definition MIN_GROUP_SIZE :: nat where
  "MIN_GROUP_SIZE = 3"

text \<open>The inner \<open>while\<close>: the first index from \<open>j\<close> on whose item does not continue the run\<close>

function scan_run :: "('a \<Rightarrow> bool) \<Rightarrow> ('a \<Rightarrow> ToolLike) \<Rightarrow> 'a list \<Rightarrow> string \<Rightarrow> nat \<Rightarrow> nat" where
  "scan_run isTool proj items name j =
     (if j < length items \<and> isTool (items ! j) \<and> tool_name (proj (items ! j)) = name
      then scan_run isTool proj items name (j + 1) else j)"
  by pat_completeness auto
termination by (relation "measure (\<lambda>(_, _, items, _, j). length items - j)") auto

declare scan_run.simps [simp del]

lemma scan_run_takeWhile:
  "scan_run isTool proj items name j
   = j + length (takeWhile (\<lambda>x. isTool x \<and> tool_name (proj x) = name) (drop j items))"
proof (induction isTool proj items name j rule: scan_run.induct)
  case (1 isTool proj items name j)
  show ?case
  proof (cases "j < length items")
    case True
    then have "drop j items = items ! j # drop (j + 1) items" by (simp add: Cons_nth_drop_Suc)
    then show ?thesis using 1 True by (simp add: scan_run.simps [of isTool proj items name j])
  qed (simp add: scan_run.simps [of isTool proj items name j])
qed

definition slice :: "nat \<Rightarrow> nat \<Rightarrow> 'a list \<Rightarrow> 'a list" where
  "slice i j xs = take (j - i) (drop i xs)"

function group_from :: "('a \<Rightarrow> bool) \<Rightarrow> ('a \<Rightarrow> ToolLike) \<Rightarrow> 'a list \<Rightarrow> nat \<Rightarrow> 'a grouped list" where
  "group_from isTool proj items i =
     (if i < length items then
        let cur = items ! i in
        if \<not> isTool cur then Single cur # group_from isTool proj items (i + 1)
        else
          let curTool = proj cur;
              j = scan_run isTool proj items (tool_name curTool) (i + 1) in
          if j - i \<ge> MIN_GROUP_SIZE then
            let tools = map proj (slice i j items) in
            Group \<lparr>group_name = tool_name curTool, groupKey = tool_id (hd tools), group_items = tools\<rparr>
              # group_from isTool proj items j
          else map Single (slice i j items) @ group_from isTool proj items j
      else [])"
  by pat_completeness auto
termination
  by (relation "measure (\<lambda>(_, _, items, i). length items - i)") (auto simp: scan_run_takeWhile)

declare group_from.simps [simp del]

definition groupTools :: "'a list \<Rightarrow> ('a \<Rightarrow> bool) \<Rightarrow> ('a \<Rightarrow> ToolLike) \<Rightarrow> 'a grouped list" where
  "groupTools items isTool proj = group_from isTool proj items 0"

text \<open>The reference: the maximal runs of neighbours that are calls of the same tool, from the right\<close>

definition same_tool :: "('a \<Rightarrow> bool) \<Rightarrow> ('a \<Rightarrow> ToolLike) \<Rightarrow> 'a \<Rightarrow> 'a \<Rightarrow> bool" where
  "same_tool isTool proj x y \<longleftrightarrow> isTool x \<and> isTool y \<and> tool_name (proj x) = tool_name (proj y)"

fun tool_runs :: "('a \<Rightarrow> bool) \<Rightarrow> ('a \<Rightarrow> ToolLike) \<Rightarrow> 'a list \<Rightarrow> 'a list list" where
  "tool_runs isTool proj [] = []"
| "tool_runs isTool proj (x # xs) =
     (case tool_runs isTool proj xs of
        (y # ys) # rs \<Rightarrow>
          if same_tool isTool proj x y then (x # y # ys) # rs else [x] # (y # ys) # rs
      | rs \<Rightarrow> [x] # rs)"

definition fold_run :: "('a \<Rightarrow> bool) \<Rightarrow> ('a \<Rightarrow> ToolLike) \<Rightarrow> 'a list \<Rightarrow> 'a grouped list" where
  "fold_run isTool proj run =
     (if isTool (hd run) \<and> 3 \<le> length run then
        [Group \<lparr>group_name = tool_name (proj (hd run)), groupKey = tool_id (proj (hd run)),
                group_items = map proj run\<rparr>]
      else map Single run)"

lemma concat_tool_runs: "concat (tool_runs isTool proj xs) = xs"
  by (induction xs) (auto split: list.splits)

lemma tool_runs_other:
  "\<not> isTool x \<Longrightarrow> tool_runs isTool proj (x # xs) = [x] # tool_runs isTool proj xs"
  by (auto simp: same_tool_def split: list.splits)

lemma tool_runs_run:
  assumes "isTool x"
  shows "tool_runs isTool proj (x # xs) =
    (x # takeWhile (\<lambda>y. isTool y \<and> tool_name (proj y) = tool_name (proj x)) xs)
    # tool_runs isTool proj (dropWhile (\<lambda>y. isTool y \<and> tool_name (proj y) = tool_name (proj x)) xs)"
  using assms
proof (induction xs arbitrary: x)
  case (Cons y ys)
  show ?case
  proof (cases "isTool y \<and> tool_name (proj y) = tool_name (proj x)")
    case True
    then show ?thesis using Cons.IH [of y] Cons.prems by (simp add: same_tool_def)
  next
    case False
    obtain zs rs where r: "tool_runs isTool proj (y # ys) = (y # zs) # rs"
      using concat_tool_runs [of isTool proj "y # ys"] by (auto split: list.splits if_splits)
    then have "tool_runs isTool proj (x # y # ys) = [x] # (y # zs) # rs"
      unfolding tool_runs.simps(2) [of isTool proj x] r using False Cons.prems by (auto simp: same_tool_def)
    moreover have "takeWhile (\<lambda>z. isTool z \<and> tool_name (proj z) = tool_name (proj x)) (y # ys) = []"
      "dropWhile (\<lambda>z. isTool z \<and> tool_name (proj z) = tool_name (proj x)) (y # ys) = y # ys"
      using False by auto
    ultimately show ?thesis using r by simp
  qed
qed simp

declare tool_runs.simps(2) [simp del]

lemma group_from_runs:
  "group_from isTool proj items i
   = concat (map (fold_run isTool proj) (tool_runs isTool proj (drop i items)))"
proof (induction isTool proj items i rule: group_from.induct)
  case (1 isTool proj items i)
  show ?case
  proof (cases "i < length items")
    case False
    then show ?thesis by (simp add: group_from.simps [of isTool proj items i])
  next
    case True
    let ?x = "items ! i" and ?rest = "drop (Suc i) items"
    let ?P = "\<lambda>y. isTool y \<and> tool_name (proj y) = tool_name (proj ?x)"
    define j where "j = scan_run isTool proj items (tool_name (proj ?x)) (Suc i)"
    have d: "drop i items = ?x # ?rest" using True by (simp add: Cons_nth_drop_Suc)
    show ?thesis
    proof (cases "isTool ?x")
      case False
      then show ?thesis
        using 1(1) [OF True refl] True
        by (simp add: group_from.simps [of isTool proj items i] d tool_runs_other fold_run_def)
    next
      case tool: True
      have j: "j = Suc i + length (takeWhile ?P ?rest)" unfolding j_def by (rule scan_run_takeWhile)
      have "take (length (takeWhile ?P ?rest)) ?rest = takeWhile ?P ?rest" by (rule takeWhile_eq_take [symmetric])
      then have run: "slice i j items = ?x # takeWhile ?P ?rest" unfolding slice_def j d by simp
      have "drop (length (takeWhile ?P ?rest)) ?rest = dropWhile ?P ?rest" by (rule dropWhile_eq_drop [symmetric])
      then have rest: "drop j items = dropWhile ?P ?rest" unfolding j by (simp add: add.commute)
      have size: "MIN_GROUP_SIZE \<le> j - i \<longleftrightarrow> 3 \<le> length (?x # takeWhile ?P ?rest)"
        unfolding j by (simp add: MIN_GROUP_SIZE_def)
      have "group_from isTool proj items j = concat (map (fold_run isTool proj) (tool_runs isTool proj (drop j items)))"
        using 1(2) [OF True refl _ refl refl] 1(3) [OF True refl _ refl refl] tool
        by (cases "MIN_GROUP_SIZE \<le> j - i") (simp_all add: j_def)
      then have IH: "group_from isTool proj items j
          = concat (map (fold_run isTool proj) (tool_runs isTool proj (dropWhile ?P ?rest)))"
        by (simp only: rest)
      have "group_from isTool proj items i =
          (if MIN_GROUP_SIZE \<le> j - i
           then Group \<lparr>group_name = tool_name (proj ?x), groupKey = tool_id (hd (map proj (slice i j items))),
                  group_items = map proj (slice i j items)\<rparr> # group_from isTool proj items j
           else map Single (slice i j items) @ group_from isTool proj items j)"
        using tool True by (simp add: group_from.simps [of isTool proj items i] Let_def j_def)
      then show ?thesis
        unfolding size run IH d tool_runs_run [of isTool, OF tool] using tool by (simp add: fold_run_def [of isTool proj "?x # takeWhile ?P ?rest"])
    qed
  qed
qed

text \<open>Grouping tool calls is folding each maximal run of at least three calls of one tool, leaving
  everything else as it is; the runs are the list cut in order.\<close>

theorem groupTools_folds_runs:
  "groupTools items isTool proj = concat (map (fold_run isTool proj) (tool_runs isTool proj items))
   \<and> concat (tool_runs isTool proj items) = items"
  by (simp add: groupTools_def group_from_runs concat_tool_runs)

section \<open>Conversation buckets\<close>

text \<open>Of \<open>AIConversation\<close>, the fields that the grouping and the list read\<close>

record AIConversation =
  conv_id :: string
  conv_title :: string
  updated_at :: string

datatype ConversationBucketKey = Today | Yesterday | Week | Month | Earlier

record ConversationBucket =
  bucket_key :: ConversationBucketKey
  bucket_label :: string
  bucket_items :: "AIConversation list"

definition DAY_MS :: int where
  "DAY_MS = 24 * 60 * 60 * 1000"

definition conv_time :: "(string \<Rightarrow> int option) \<Rightarrow> AIConversation \<Rightarrow> int option" where
  "conv_time parse c = (if updated_at c = [] then Some 0 else parse (updated_at c))"

definition bucket_of :: "(string \<Rightarrow> int option) \<Rightarrow> int \<Rightarrow> int \<Rightarrow> AIConversation \<Rightarrow> ConversationBucketKey" where
  "bucket_of parse now todayMs c =
     (case conv_time parse c of
        None \<Rightarrow> Earlier
      | Some t \<Rightarrow>
          if t \<ge> todayMs then Today
          else if t \<ge> todayMs - DAY_MS then Yesterday
          else if now - t \<le> 7 * DAY_MS then Week
          else if now - t \<le> 30 * DAY_MS then Month
          else Earlier)"

fun bucket_text :: "ConversationBucketKey \<Rightarrow> string" where
  "bucket_text Today = (utf8 [20170, 22825])"
| "bucket_text Yesterday = (utf8 [26152, 22825])"
| "bucket_text Week = (utf8 [26412, 21608])"
| "bucket_text Month = (utf8 [26412, 26376])"
| "bucket_text Earlier = (utf8 [26356, 26089])"

definition bucket_order :: "ConversationBucketKey list" where
  "bucket_order = [Today, Yesterday, Week, Month, Earlier]"

text \<open>The loop pushes each conversation onto its bucket.\<close>

definition push_bucket ::
  "(string \<Rightarrow> int option) \<Rightarrow> int \<Rightarrow> int \<Rightarrow> AIConversation
    \<Rightarrow> (ConversationBucketKey \<Rightarrow> AIConversation list) \<Rightarrow> ConversationBucketKey \<Rightarrow> AIConversation list" where
  "push_bucket parse now todayMs c buckets =
     (let k = bucket_of parse now todayMs c in buckets(k := buckets k @ [c]))"

definition groupConversations ::
  "(string \<Rightarrow> int option) \<Rightarrow> int \<Rightarrow> int \<Rightarrow> AIConversation list \<Rightarrow> ConversationBucket list" where
  "groupConversations parse now todayMs convs =
     (let buckets = fold (push_bucket parse now todayMs) convs (\<lambda>_. []) in
      filter (\<lambda>b. length (bucket_items b) > 0)
        (map (\<lambda>k. \<lparr>bucket_key = k, bucket_label = bucket_text k, bucket_items = buckets k\<rparr>) bucket_order))"

lemma fold_push_bucket:
  "fold (push_bucket parse now todayMs) convs buckets k
   = buckets k @ filter (\<lambda>c. bucket_of parse now todayMs c = k) convs"
  by (induction convs arbitrary: buckets) (auto simp: push_bucket_def Let_def)

text \<open>The position of a bucket in the sidebar\<close>

fun bucket_rank :: "ConversationBucketKey \<Rightarrow> nat" where
  "bucket_rank Today = 0" | "bucket_rank Yesterday = 1" | "bucket_rank Week = 2"
| "bucket_rank Month = 3" | "bucket_rank Earlier = 4"

lemma bucket_rank_mono:
  "conv_time parse c = Some t \<Longrightarrow> conv_time parse c' = Some t' \<Longrightarrow> t \<le> t' \<Longrightarrow>
   bucket_rank (bucket_of parse now todayMs c') \<le> bucket_rank (bucket_of parse now todayMs c)"
  by (simp add: bucket_of_def)

text \<open>The buckets of the sidebar partition the conversations and keep their order within a bucket;
  no bucket is empty, and a conversation never stands in a later bucket than an older one.\<close>

theorem conversation_buckets:
  assumes "c \<in> set convs" "c' \<in> set convs" "conv_time parse c = Some t" "conv_time parse c' = Some t'" "t \<le> t'"
  shows "mset (concat (map bucket_items (groupConversations parse now todayMs convs))) = mset convs
    \<and> list_all (\<lambda>b. bucket_items b \<noteq> [] \<and> bucket_items b = filter (\<lambda>x. x \<in> set (bucket_items b)) convs)
        (groupConversations parse now todayMs convs)
    \<and> sorted_wrt (\<lambda>a b. bucket_rank (bucket_key a) < bucket_rank (bucket_key b)) (groupConversations parse now todayMs convs)
    \<and> (\<exists>b b'. b \<in> set (groupConversations parse now todayMs convs) \<and> c \<in> set (bucket_items b)
        \<and> b' \<in> set (groupConversations parse now todayMs convs) \<and> c' \<in> set (bucket_items b')
        \<and> bucket_rank (bucket_key b') \<le> bucket_rank (bucket_key b))"
proof -
  let ?bk = "bucket_of parse now todayMs"
  define bucket where "bucket k = \<lparr>bucket_key = k, bucket_label = bucket_text k,
    bucket_items = filter (\<lambda>c. ?bk c = k) convs\<rparr>" for k
  have grp: "groupConversations parse now todayMs convs = filter (\<lambda>b. bucket_items b \<noteq> []) (map bucket bucket_order)"
    by (simp add: groupConversations_def Let_def fold_push_bucket bucket_def [abs_def])
  have mem: "bucket (?bk x) \<in> set (groupConversations parse now todayMs convs) \<and> x \<in> set (bucket_items (bucket (?bk x)))"
    if "x \<in> set convs" for x
    using that by (cases "?bk x") (auto simp: grp bucket_order_def bucket_def filter_empty_conv)
  have skip: "concat (map f (filter (\<lambda>b. f b \<noteq> []) bs)) = concat (map f bs)" for f :: "ConversationBucket \<Rightarrow> AIConversation list" and bs
    by (induction bs) auto
  have part: "mset (concat (map (\<lambda>k. filter (\<lambda>c. ?bk c = k) xs) bucket_order)) = mset xs" for xs
    by (induction xs) (auto simp: bucket_order_def split: ConversationBucketKey.splits intro: ConversationBucketKey.exhaust [of "?bk _"])
  have "mset (concat (map bucket_items (groupConversations parse now todayMs convs))) = mset convs"
    unfolding grp skip using part [of convs] by (simp add: bucket_def comp_def)
  moreover have "list_all (\<lambda>b. bucket_items b \<noteq> [] \<and> bucket_items b = filter (\<lambda>x. x \<in> set (bucket_items b)) convs)
      (groupConversations parse now todayMs convs)"
    by (auto simp: grp list_all_iff bucket_def intro: filter_cong)
  moreover have "sorted_wrt (\<lambda>a b. bucket_rank (bucket_key a) < bucket_rank (bucket_key b)) (groupConversations parse now todayMs convs)"
    unfolding grp by (rule sorted_wrt_filter) (simp add: bucket_order_def bucket_def)
  moreover have "bucket_rank (bucket_key (bucket (?bk c'))) \<le> bucket_rank (bucket_key (bucket (?bk c)))"
    using bucket_rank_mono [OF assms(3-5)] by (simp add: bucket_def)
  ultimately show ?thesis using mem [OF assms(1)] mem [OF assms(2)] by blast
qed

theorem conversation_buckets_witness:
  "map bucket_key (groupConversations (\<lambda>s. Some (of_char (hd s))) 100 90
      [\<lparr>conv_id = ''1'', conv_title = ''a'', updated_at = ''_''\<rparr>, \<lparr>conv_id = ''2'', conv_title = ''b'', updated_at = ''0''\<rparr>])
   = [Today, Yesterday]
   \<and> mset (concat (map bucket_items (groupConversations (\<lambda>s. Some (of_char (hd s))) 100 90
      [\<lparr>conv_id = ''1'', conv_title = ''a'', updated_at = ''_''\<rparr>, \<lparr>conv_id = ''2'', conv_title = ''b'', updated_at = ''0''\<rparr>])))
     = mset [\<lparr>conv_id = ''1'', conv_title = ''a'', updated_at = ''_''\<rparr>, \<lparr>conv_id = ''2'', conv_title = ''b'', updated_at = ''0''\<rparr>]"
proof -
  let ?a = "\<lparr>conv_id = ''1'', conv_title = ''a'', updated_at = ''_''\<rparr>"
  let ?b = "\<lparr>conv_id = ''2'', conv_title = ''b'', updated_at = ''0''\<rparr>"
  let ?p = "\<lambda>s. Some (of_char (hd s) :: int)"
  have "map bucket_key (groupConversations ?p 100 90 [?a, ?b]) = [Today, Yesterday]"
    by (simp add: groupConversations_def bucket_order_def push_bucket_def bucket_of_def conv_time_def DAY_MS_def Let_def)
  moreover have "mset (concat (map bucket_items (groupConversations ?p 100 90 [?a, ?b]))) = mset [?a, ?b]"
    using conversation_buckets [of ?b "[?a, ?b]" ?a ?p 48 95 100 90] by (simp add: conv_time_def)
  ultimately show ?thesis by blast
qed

section \<open>Plans\<close>

datatype AgentTaskStatus = TaskPending | TaskActive | TaskDone | TaskSkipped | TaskFailed

record AgentTask =
  task_id :: int
  ordinal :: int
  task_title :: string
  detail :: "string option"
  task_status :: AgentTaskStatus

record AgentPlan =
  tasks :: "AgentTask list"
  updatedAt :: "int option"

definition EMPTY_PLAN :: AgentPlan where
  "EMPTY_PLAN = \<lparr>tasks = [], updatedAt = None\<rparr>"

record PlanProgress =
  total :: nat
  done_tasks :: nat
  active_tasks :: nat
  plan_pct :: int

definition count_task :: "AgentTask \<Rightarrow> nat \<times> nat \<Rightarrow> nat \<times> nat" where
  "count_task t = (\<lambda>(d, a).
     if task_status t = TaskDone \<or> task_status t = TaskSkipped then (d + 1, a)
     else if task_status t = TaskActive then (d, a + 1) else (d, a))"

definition planProgress :: "AgentTask list \<Rightarrow> PlanProgress" where
  "planProgress ts =
     (let (d, a) = fold count_task ts (0, 0); n = length ts in
      \<lparr>total = n, done_tasks = d, active_tasks = a,
       plan_pct = (if n \<noteq> 0 then \<lfloor>real d / real n * 100 + 1 / 2\<rfloor> else 0)\<rparr>)"

record StatusMeta =
  meta_label :: string
  dotClass :: string
  pulse :: bool
  strike :: bool

fun statusMeta :: "AgentTaskStatus \<Rightarrow> StatusMeta" where
  "statusMeta TaskDone = \<lparr>meta_label = (utf8 [23436, 25104]), dotClass = ''bg-success'', pulse = False, strike = False\<rparr>"
| "statusMeta TaskActive = \<lparr>meta_label = (utf8 [36827, 34892, 20013]), dotClass = ''bg-warning'', pulse = True, strike = False\<rparr>"
| "statusMeta TaskFailed = \<lparr>meta_label = (utf8 [22833, 36133]), dotClass = ''bg-destructive'', pulse = False, strike = False\<rparr>"
| "statusMeta TaskSkipped = \<lparr>meta_label = (utf8 [36339, 36807]), dotClass = ''bg-muted-foreground/40'', pulse = False, strike = True\<rparr>"
| "statusMeta TaskPending = \<lparr>meta_label = (utf8 [24453, 21150]), dotClass = ''bg-muted-foreground/35'', pulse = False, strike = False\<rparr>"

text \<open>\<open>Array.sort\<close> is stable, as is \<open>sort_key\<close>.\<close>

definition mergePlanUpdate :: "AgentTask list \<Rightarrow> int option \<Rightarrow> int \<Rightarrow> AgentPlan" where
  "mergePlanUpdate ts stamp now = \<lparr>tasks = sort_key ordinal ts, updatedAt = Some (nullish stamp now)\<rparr>"

lemma fold_count_task:
  "fold count_task ts (d, a) =
     (d + length (filter (\<lambda>t. task_status t = TaskDone \<or> task_status t = TaskSkipped) ts),
      a + length (filter (\<lambda>t. task_status t = TaskActive) ts))"
  by (induction ts arbitrary: d a) (auto simp: count_task_def)

lemma planProgress_bounds:
  "0 \<le> plan_pct (planProgress ts) \<and> plan_pct (planProgress ts) \<le> 100
   \<and> done_tasks (planProgress ts) + active_tasks (planProgress ts) \<le> total (planProgress ts)"
proof -
  let ?d = "length (filter (\<lambda>t. task_status t = TaskDone \<or> task_status t = TaskSkipped) ts)"
  let ?a = "length (filter (\<lambda>t. task_status t = TaskActive) ts)"
  have le: "?d + ?a \<le> length ts" by (induction ts) auto
  have "real ?d / real (length ts) * 100 + 1 / 2 < 101" if "ts \<noteq> []"
  proof -
    have "real ?d / real (length ts) \<le> 1" using le that by (simp add: divide_le_eq_1)
    then show ?thesis by linarith
  qed
  then have "\<lfloor>real ?d / real (length ts) * 100 + 1 / 2\<rfloor> \<le> 100" if "ts \<noteq> []"
    using that by (simp add: floor_less_iff flip: zless_add1_eq)
  moreover have "0 \<le> \<lfloor>real ?d / real (length ts) * 100 + 1 / 2\<rfloor>" by simp
  ultimately show ?thesis using le by (auto simp: planProgress_def fold_count_task Let_def)
qed

text \<open>The progress does not depend on the order in which the update lists the tasks.\<close>

lemma planProgress_merge: "planProgress (tasks (mergePlanUpdate ts stamp now)) = planProgress ts"
proof -
  have "length (filter P (sort_key ordinal ts)) = length (filter P ts)" for P
    by (metis mset_filter mset_sort size_mset)
  then show ?thesis by (simp add: planProgress_def fold_count_task mergePlanUpdate_def)
qed

end
