(* ===== verification/CanvasRenderer.thy ===== *)
theory CanvasRenderer
  imports FrameWire WebPlatform Complex_Main
begin

text \<open>
  The canvas renderer of the remote desktop, \<open>lib/desktop/canvas-renderer.ts\<close>: frames wait in a
  bounded queue, an animation frame takes the queue as one batch, the batch is decoded by one or
  several workers and painted, one batch at a time. Workers, the surface and the clock are the
  events of the model. What the renderer posts to workers, paints and reports to its callbacks are
  logs of the state. A payload is its list of bytes; a batch in flight is the list of its parts,
  each with the frames its worker has returned.
\<close>

section \<open>State\<close>

datatype DecoderPath = VideoDecoderPath | ImageDecoderPath | ImageBitmapPath | JsPath

datatype pixels = Bitmap | ImageData | Bgra "byte list"

record DecodedFrame =
  dec_frame :: FrameRectMeta
  dec_pixels :: pixels
  dec_path :: "DecoderPath option"

datatype RenderSurface = WebGPU | Canvas2D

record RenderMetrics =
  avgDecodeMs :: real
  avgPaintMs :: real
  framesPainted :: nat
  droppedFrames :: nat
  met_codec :: "Encoding option"
  met_decoderPath :: "DecoderPath option"
  met_surface :: "RenderSurface option"

datatype report = ErrorReport string | ResizeReport int int | MetricsReport RenderMetrics | RefreshReport

record post =
  post_worker :: nat
  post_id :: nat
  post_frames :: "FrameBytes list"
  post_gpu :: bool

record renderer =
  canvas_width :: int
  canvas_height :: int
  workers :: nat
  surface :: "RenderSurface option"
  surfaceReady :: bool
  pendingFrames :: "FrameBytes list"
  pendingBytes :: nat
  painting :: bool
  paintRaf :: bool
  destroyed :: bool
  decodeSeq :: nat
  decodeRequests :: "nat list"
  flight :: "(nat \<times> DecodedFrame list option) list"
  decodeStart :: int
  decodeAccumMs :: int
  paintAccumMs :: int
  framesPaintedWindow :: nat
  droppedFramesTotal :: nat
  codecCounts :: "(Encoding \<times> nat) list"
  decoderPathCounts :: "(DecoderPath \<times> nat) list"
  lastCodec :: "Encoding option"
  lastDecoderPath :: "DecoderPath option"
  posted :: "post list"
  painted :: "DecodedFrame list"
  reports :: "report list"

definition MAX_CANVAS_EDGE :: int where "MAX_CANVAS_EDGE = 8192"
definition MAX_CANVAS_PIXELS :: int where "MAX_CANVAS_PIXELS = 8192 * 8192"
definition MAX_PENDING_PAINT_FRAMES :: nat where "MAX_PENDING_PAINT_FRAMES = 128"
definition MAX_PENDING_PAINT_BYTES :: nat where "MAX_PENDING_PAINT_BYTES = 96 * 1024 * 1024"

definition createRenderer :: "int \<Rightarrow> int \<Rightarrow> nat \<Rightarrow> renderer" where
  "createRenderer w h n =
     \<lparr>canvas_width = w, canvas_height = h, workers = n, surface = None, surfaceReady = False,
      pendingFrames = [], pendingBytes = 0, painting = False, paintRaf = False, destroyed = False,
      decodeSeq = 0, decodeRequests = [], flight = [], decodeStart = 0, decodeAccumMs = 0, paintAccumMs = 0,
      framesPaintedWindow = 0, droppedFramesTotal = 0, codecCounts = [], decoderPathCounts = [],
      lastCodec = None, lastDecoderPath = None, posted = [], painted = [], reports = []\<rparr>"

definition poolSize :: "nat option \<Rightarrow> int" where
  "poolSize hardwareConcurrency = max 1 (min 4 (int (nullish hardwareConcurrency 4) - 1))"

section \<open>Reports and size\<close>

definition report :: "report \<Rightarrow> renderer \<Rightarrow> renderer" where
  "report r s = (if destroyed s then s else s\<lparr>reports := reports s @ [r]\<rparr>)"

definition emitError :: "string \<Rightarrow> renderer \<Rightarrow> renderer" where
  "emitError msg = report (ErrorReport msg)"

definition isSafeCanvasSize :: "int \<Rightarrow> int \<Rightarrow> bool" where
  "isSafeCanvasSize width height \<longleftrightarrow>
     width > 0 \<and> height > 0 \<and> width \<le> MAX_CANVAS_EDGE \<and> height \<le> MAX_CANVAS_EDGE
     \<and> width * height \<le> MAX_CANVAS_PIXELS"

definition resize :: "int \<Rightarrow> int \<Rightarrow> renderer \<Rightarrow> renderer" where
  "resize width height s =
     (if destroyed s then s
      else
        let nextW = max 1 width; nextH = max 1 height in
        if \<not> isSafeCanvasSize nextW nextH then
          emitError (''remote desktop size too large: '' @ show_int nextW @ ''x'' @ show_int nextH) s
        else if canvas_width s = nextW \<and> canvas_height s = nextH then s
        else report (ResizeReport nextW nextH) (s\<lparr>canvas_width := nextW, canvas_height := nextH\<rparr>))"

definition ensureRectFits :: "FrameRectMeta \<Rightarrow> renderer \<Rightarrow> renderer" where
  "ensureRectFits f s =
     (let neededW = max (canvas_width s) (fr_x f + fr_width f);
          neededH = max (canvas_height s) (fr_y f + fr_height f)
      in if neededW \<noteq> canvas_width s \<or> neededH \<noteq> canvas_height s then resize neededW neededH s else s)"

section \<open>The queue\<close>

definition isNearFullCanvasFrame :: "int \<Rightarrow> int \<Rightarrow> FrameRectMeta \<Rightarrow> bool" where
  "isNearFullCanvasFrame cw ch f \<longleftrightarrow>
     fr_x f = 0 \<and> fr_y f = 0 \<and> cw > 0 \<and> ch > 0
     \<and> fr_width f * 100 \<ge> cw * 95 \<and> fr_height f * 100 \<ge> ch * 95"

definition near_full :: "renderer \<Rightarrow> FrameBytes \<Rightarrow> bool" where
  "near_full s item = isNearFullCanvasFrame (canvas_width s) (canvas_height s) (fst item)"

definition sumPayloadBytes :: "FrameBytes list \<Rightarrow> nat" where
  "sumPayloadBytes items = sum_list (map (\<lambda>item. length (snd item)) items)"

text \<open>The position of the newest near-full frame, searched from the end\<close>

definition newest_full :: "renderer \<Rightarrow> nat option" where
  "newest_full s = List.find (\<lambda>i. near_full s (pendingFrames s ! i)) (rev [0..<length (pendingFrames s)])"

definition over_budget :: "nat \<Rightarrow> nat \<Rightarrow> bool" where
  "over_budget n bytes \<longleftrightarrow> n > MAX_PENDING_PAINT_FRAMES \<or> bytes > MAX_PENDING_PAINT_BYTES"

text \<open>The \<open>while\<close> loop that drops the oldest frames: queue, bytes and the number dropped\<close>

fun drop_oldest :: "FrameBytes list \<Rightarrow> nat \<Rightarrow> nat \<Rightarrow> FrameBytes list \<times> nat \<times> nat" where
  "drop_oldest (a # b # items) bytes n =
     (if over_budget (length (a # b # items)) bytes
      then drop_oldest (b # items) (bytes - length (snd a)) (n + 1)
      else (a # b # items, bytes, n))"
| "drop_oldest items bytes n = (items, bytes, n)"

definition collapse_full :: "renderer \<Rightarrow> renderer" where
  "collapse_full s =
     (case newest_full s of
        None \<Rightarrow> s
      | Some i \<Rightarrow>
          let rest = drop i (pendingFrames s)
          in s\<lparr>droppedFramesTotal := droppedFramesTotal s + i, pendingFrames := rest, pendingBytes := sumPayloadBytes rest\<rparr>)"

definition trimPendingPaintFrames :: "renderer \<Rightarrow> renderer" where
  "trimPendingPaintFrames s =
     (if \<not> over_budget (length (pendingFrames s)) (pendingBytes s) then s
      else
        let s1 = collapse_full s;
            (items, bytes, n) = drop_oldest (pendingFrames s1) (pendingBytes s1) (droppedFramesTotal s1)
        in s1\<lparr>pendingFrames := items, pendingBytes := bytes, droppedFramesTotal := n\<rparr>)"

definition schedulePaintFlush :: "renderer \<Rightarrow> renderer" where
  "schedulePaintFlush s =
     (if paintRaf s \<or> painting s \<or> destroyed s \<or> \<not> surfaceReady s then s else s\<lparr>paintRaf := True\<rparr>)"

definition push_frame :: "FrameBytes \<Rightarrow> renderer \<Rightarrow> renderer" where
  "push_frame item s =
     s\<lparr>pendingFrames := pendingFrames s @ [item], pendingBytes := pendingBytes s + length (snd item)\<rparr>"

definition discard_pending :: "renderer \<Rightarrow> renderer" where
  "discard_pending s =
     s\<lparr>droppedFramesTotal := droppedFramesTotal s + length (pendingFrames s), pendingFrames := [], pendingBytes := 0\<rparr>"

definition paintFrameBatchBytes :: "FrameBytes list \<Rightarrow> renderer \<Rightarrow> renderer" where
  "paintFrameBatchBytes frames s =
     (if destroyed s \<or> frames = [] then s
      else
        let s1 = (if list_ex (near_full s) frames then discard_pending s else s);
            s2 = fold push_frame frames s1
        in schedulePaintFlush (trimPendingPaintFrames s2))"

section \<open>Decoding\<close>

fun chunk_list :: "nat \<Rightarrow> 'a list \<Rightarrow> 'a list list" where
  "chunk_list 0 xs = []"
| "chunk_list (Suc k) [] = []"
| "chunk_list (Suc k) (x # xs) = (x # take k xs) # chunk_list (Suc k) (drop k xs)"

text \<open>The chunks of a batch, one for each worker used: \<open>decodeBatch\<close>\<close>

definition batch_parts :: "nat \<Rightarrow> FrameBytes list \<Rightarrow> FrameBytes list list" where
  "batch_parts n batch =
     (if n = 1 \<or> length batch \<le> 1 \<or> list_ex (\<lambda>f. fr_encoding (fst f) = H264) batch then [batch]
      else
        let m = min n (length batch);
            chunkSize = (length batch + m - 1) div m
        in chunk_list chunkSize batch)"

definition wantsRawBGRA :: "renderer \<Rightarrow> bool" where
  "wantsRawBGRA s \<longleftrightarrow> surface s = Some WebGPU"

definition part_posts :: "renderer \<Rightarrow> FrameBytes list list \<Rightarrow> post list" where
  "part_posts s parts =
     map (\<lambda>i. \<lparr>post_worker = (if i < workers s then i else 0), post_id = decodeSeq s + i + 1,
                post_frames = parts ! i, post_gpu = wantsRawBGRA s\<rparr>) [0..<length parts]"

definition end_paint :: "renderer \<Rightarrow> renderer" where
  "end_paint s =
     (let s1 = s\<lparr>painting := False, flight := []\<rparr>
      in if \<not> destroyed s1 \<and> pendingFrames s1 \<noteq> [] then schedulePaintFlush s1 else s1)"

definition paint_failed :: "string \<Rightarrow> renderer \<Rightarrow> renderer" where
  "paint_failed msg s = end_paint (emitError (''frame paint failed: '' @ msg) s)"

text \<open>The animation frame: \<open>failing\<close> are the parts whose \<open>postMessage\<close> raises.\<close>

definition runPaintFlush :: "int \<Rightarrow> nat list \<Rightarrow> renderer \<Rightarrow> renderer" where
  "runPaintFlush now failing s =
     (if destroyed s \<or> painting s \<or> surface s = None then s
      else
        let batch = pendingFrames s;
            s1 = s\<lparr>pendingFrames := [], pendingBytes := 0\<rparr> in
        if batch = [] then s1
        else
          let s2 = s1\<lparr>painting := True, decodeStart := now\<rparr> in
          if workers s = 0 then paint_failed ''Error: desktop decode worker unavailable'' s2
          else
            let posts = part_posts s2 (batch_parts (workers s) batch);
                sent = filter (\<lambda>p. post_id p - decodeSeq s - 1 \<notin> set failing) posts;
                s3 = s2\<lparr>posted := posted s2 @ posts, decodeSeq := decodeSeq s + length posts,
                        decodeRequests := decodeRequests s @ map post_id sent,
                        flight := map (\<lambda>p. (post_id p, None)) posts\<rparr>
            in if length sent < length posts then paint_failed ''DataCloneError'' s3 else s3)"

definition raf_fires :: "int \<Rightarrow> nat list \<Rightarrow> renderer \<Rightarrow> renderer" where
  "raf_fires now failing s = runPaintFlush now failing (s\<lparr>paintRaf := False\<rparr>)"

section \<open>Painting\<close>

definition bump :: "'k \<Rightarrow> ('k \<times> nat) list \<Rightarrow> ('k \<times> nat) list" where
  "bump k counts = obj_set k (nullish (map_of counts k) 0 + 1) counts"

definition vote :: "DecodedFrame \<Rightarrow> renderer \<Rightarrow> renderer" where
  "vote item s =
     s\<lparr>codecCounts := bump (fr_encoding (dec_frame item)) (codecCounts s),
       decoderPathCounts := (case dec_path item of None \<Rightarrow> decoderPathCounts s | Some p \<Rightarrow> bump p (decoderPathCounts s))\<rparr>"

text \<open>\<open>raises\<close> is the number of frames painted before the surface raised, with its message.\<close>

definition finish_flush :: "DecodedFrame list \<Rightarrow> int \<Rightarrow> int \<Rightarrow> (nat \<times> string) option \<Rightarrow> renderer \<Rightarrow> renderer" where
  "finish_flush decoded paintStart paintEnd raises s =
     (if destroyed s then end_paint s
      else
        let s1 = fold (\<lambda>item. ensureRectFits (dec_frame item)) decoded s in
        case raises of
          Some (k, msg) \<Rightarrow> paint_failed msg (s1\<lparr>painted := painted s1 @ take k decoded\<rparr>)
        | None \<Rightarrow>
            let s2 = s1\<lparr>painted := painted s1 @ decoded\<rparr> in
            if decoded = [] then end_paint s2
            else end_paint (fold vote decoded
                   (s2\<lparr>decodeAccumMs := decodeAccumMs s2 + (paintStart - decodeStart s2),
                       paintAccumMs := paintAccumMs s2 + (paintEnd - paintStart),
                       framesPaintedWindow := framesPaintedWindow s2 + length decoded\<rparr>)))"

definition set_part :: "nat \<Rightarrow> DecodedFrame list \<Rightarrow> (nat \<times> DecodedFrame list option) list \<Rightarrow> (nat \<times> DecodedFrame list option) list" where
  "set_part i frames parts = map (\<lambda>p. if fst p = i then (i, Some frames) else p) parts"

definition on_decoded :: "nat \<Rightarrow> DecodedFrame list \<Rightarrow> int \<Rightarrow> int \<Rightarrow> (nat \<times> string) option \<Rightarrow> renderer \<Rightarrow> renderer" where
  "on_decoded i frames paintStart paintEnd raises s =
     (if i \<notin> set (decodeRequests s) then s
      else
        let s1 = s\<lparr>decodeRequests := removeAll i (decodeRequests s), flight := set_part i frames (flight s)\<rparr> in
        if i \<in> fst ` set (flight s) \<and> list_all (\<lambda>p. snd p \<noteq> None) (flight s1)
        then finish_flush (concat (map (\<lambda>p. the (snd p)) (flight s1))) paintStart paintEnd raises s1
        else s1)"

definition on_decode_error :: "nat \<Rightarrow> string \<Rightarrow> renderer \<Rightarrow> renderer" where
  "on_decode_error i msg s =
     (if i \<notin> set (decodeRequests s) then s
      else
        let s1 = s\<lparr>decodeRequests := removeAll i (decodeRequests s)\<rparr> in
        if i \<in> fst ` set (flight s) then paint_failed (''Error: '' @ msg) s1 else s1)"

text \<open>The \<open>error\<close> event of a worker only reports.\<close>

definition on_worker_error :: "string \<Rightarrow> renderer \<Rightarrow> renderer" where
  "on_worker_error msg = emitError (''desktop decode worker error: '' @ msg)"

definition on_warn :: "string \<Rightarrow> renderer \<Rightarrow> renderer" where
  "on_warn msg = emitError (''desktop decode worker warning: '' @ msg)"

definition on_refresh_needed :: "renderer \<Rightarrow> renderer" where
  "on_refresh_needed = report RefreshReport"

definition surface_resolved :: "RenderSurface \<Rightarrow> renderer \<Rightarrow> renderer" where
  "surface_resolved k s =
     (if destroyed s then s else schedulePaintFlush (s\<lparr>surface := Some k, surfaceReady := True\<rparr>))"

section \<open>Metrics\<close>

fun most_common :: "('k \<times> nat) list \<Rightarrow> 'k option \<Rightarrow> nat \<Rightarrow> 'k option" where
  "most_common [] bestKey bestCount = bestKey"
| "most_common ((key, n) # counts) bestKey bestCount =
     (if n > bestCount then most_common counts (Some key) n else most_common counts bestKey bestCount)"

definition mostCommon :: "('k \<times> nat) list \<Rightarrow> 'k option" where
  "mostCommon counts = most_common counts None 0"

definition or_else :: "'a option \<Rightarrow> 'a option \<Rightarrow> 'a option" where
  "or_else a b = (case a of None \<Rightarrow> b | Some x \<Rightarrow> Some x)"

definition metrics_tick :: "renderer \<Rightarrow> renderer" where
  "metrics_tick s =
     (if destroyed s \<or> (framesPaintedWindow s = 0 \<and> droppedFramesTotal s = 0) then s
      else
        let dominantCodec = or_else (mostCommon (codecCounts s)) (lastCodec s);
            dominantPath = or_else (mostCommon (decoderPathCounts s)) (lastDecoderPath s);
            n = framesPaintedWindow s;
            snapshot = \<lparr>avgDecodeMs = (if n > 0 then real_of_int (decodeAccumMs s) / real n else 0),
                        avgPaintMs = (if n > 0 then real_of_int (paintAccumMs s) / real n else 0),
                        framesPainted = n, droppedFrames = droppedFramesTotal s,
                        met_codec = dominantCodec, met_decoderPath = dominantPath, met_surface = surface s\<rparr>
        in (report (MetricsReport snapshot)
              (s\<lparr>lastCodec := or_else dominantCodec (lastCodec s), lastDecoderPath := or_else dominantPath (lastDecoderPath s)\<rparr>))
             \<lparr>decodeAccumMs := 0, paintAccumMs := 0, framesPaintedWindow := 0, codecCounts := [], decoderPathCounts := []\<rparr>)"

section \<open>Steps\<close>

text \<open>Rejecting the pending requests ends the batch in flight without a report.\<close>

definition destroy :: "renderer \<Rightarrow> renderer" where
  "destroy s =
     s\<lparr>destroyed := True, paintRaf := False, surface := None, surfaceReady := False, pendingFrames := [],
       pendingBytes := 0, decodeRequests := [], flight := [], painting := False\<rparr>"

datatype renderer_step =
    Paint "FrameBytes list" | SurfaceResolved RenderSurface | RafFires int "nat list"
  | Decoded nat "DecodedFrame list" int int "(nat \<times> string) option" | DecodeError nat string
  | WorkerError string | Warn string | RefreshNeeded | MetricsTick | Resize int int | Destroy

fun perform :: "renderer_step \<Rightarrow> renderer \<Rightarrow> renderer option" where
  "perform (Paint frames) s = Some (paintFrameBatchBytes frames s)"
| "perform (SurfaceResolved k) s = (if surface s = None then Some (surface_resolved k s) else None)"
| "perform (RafFires now failing) s = (if paintRaf s then Some (raf_fires now failing s) else None)"
| "perform (Decoded i frames a b raises) s = Some (on_decoded i frames a b raises s)"
| "perform (DecodeError i msg) s = Some (on_decode_error i msg s)"
| "perform (WorkerError msg) s = Some (on_worker_error msg s)"
| "perform (Warn msg) s = Some (on_warn msg s)"
| "perform RefreshNeeded s = Some (on_refresh_needed s)"
| "perform MetricsTick s = Some (metrics_tick s)"
| "perform (Resize w h) s = Some (resize w h s)"
| "perform Destroy s = Some (destroy s)"

fun run_renderer :: "renderer_step list \<Rightarrow> renderer \<Rightarrow> renderer option" where
  "run_renderer [] s = Some s"
| "run_renderer (a # as) s = (case perform a s of None \<Rightarrow> None | Some s' \<Rightarrow> run_renderer as s')"

end
