(* ===== verification/CanvasRendererProps.thy ===== *)
theory CanvasRendererProps
  imports CanvasRenderer
begin

text \<open>
  The renderer's queue stays within its budget, every waiting frame has a paint scheduled or under
  way, every batch in flight has a live request, and no frame is lost unaccounted. The last section
  shows where dropping queued frames breaks an H.264 stream.
\<close>

section \<open>The queue\<close>

lemma sumPayloadBytes_simps [simp]:
  "sumPayloadBytes [] = 0" "sumPayloadBytes (a # items) = length (snd a) + sumPayloadBytes items"
  "sumPayloadBytes (xs @ ys) = sumPayloadBytes xs + sumPayloadBytes ys"
  by (simp_all add: sumPayloadBytes_def)

definition within_budget :: "FrameBytes list \<Rightarrow> nat \<Rightarrow> bool" where
  "within_budget items bytes \<longleftrightarrow>
     bytes = sumPayloadBytes items \<and> (length items \<le> 1 \<or> \<not> over_budget (length items) bytes)"

lemma drop_oldest_spec:
  "drop_oldest items bytes n = (items', bytes', n') \<Longrightarrow> bytes = sumPayloadBytes items \<Longrightarrow>
   within_budget items' bytes' \<and> length items' + n' = length items + n"
proof (induction items bytes n arbitrary: items' bytes' n' rule: drop_oldest.induct)
  case (1 a b items bytes n)
  then show ?case
    by (cases "over_budget (length (a # b # items)) bytes") (auto simp: within_budget_def)
qed (auto simp: within_budget_def)

lemma push_frames:
  "fold push_frame frames s =
     s\<lparr>pendingFrames := pendingFrames s @ frames, pendingBytes := pendingBytes s + sumPayloadBytes frames\<rparr>"
  by (induction frames arbitrary: s) (simp_all add: push_frame_def ac_simps)

lemma newest_full_less: "newest_full s = Some i \<Longrightarrow> i < length (pendingFrames s)"
  by (auto simp: newest_full_def find_Some_iff rev_nth)

lemma trim_spec:
  assumes "pendingBytes s = sumPayloadBytes (pendingFrames s)"
  shows "\<exists>items n. trimPendingPaintFrames s
      = s\<lparr>pendingFrames := items, pendingBytes := sumPayloadBytes items, droppedFramesTotal := n\<rparr>
    \<and> within_budget items (sumPayloadBytes items)
    \<and> length items + n = length (pendingFrames s) + droppedFramesTotal s"
proof (cases "over_budget (length (pendingFrames s)) (pendingBytes s)")
  case False
  then have "trimPendingPaintFrames s
      = s\<lparr>pendingFrames := pendingFrames s, pendingBytes := sumPayloadBytes (pendingFrames s), droppedFramesTotal := droppedFramesTotal s\<rparr>"
    unfolding assms [symmetric] by (simp add: trimPendingPaintFrames_def)
  then show ?thesis
    using False assms
    by (intro exI [of _ "pendingFrames s"] exI [of _ "droppedFramesTotal s"]) (simp add: within_budget_def)
next
  case True
  let ?s1 = "collapse_full s"
  have s1: "\<exists>items n. ?s1 = s\<lparr>pendingFrames := items, pendingBytes := sumPayloadBytes items, droppedFramesTotal := n\<rparr>
      \<and> length items + n = length (pendingFrames s) + droppedFramesTotal s"
  proof (cases "newest_full s")
    case None
    have "s = s\<lparr>pendingFrames := pendingFrames s, pendingBytes := sumPayloadBytes (pendingFrames s), droppedFramesTotal := droppedFramesTotal s\<rparr>"
      unfolding assms [symmetric] by simp
    then show ?thesis
      using None
      by (intro exI [of _ "pendingFrames s"] exI [of _ "droppedFramesTotal s"]) (simp add: collapse_full_def)
  next
    case (Some i)
    then show ?thesis
      using newest_full_less [OF Some]
      by (intro exI [of _ "drop i (pendingFrames s)"] exI [of _ "droppedFramesTotal s + i"]) (simp add: collapse_full_def Let_def)
  qed
  then obtain items n where items: "?s1 = s\<lparr>pendingFrames := items, pendingBytes := sumPayloadBytes items, droppedFramesTotal := n\<rparr>"
    "length items + n = length (pendingFrames s) + droppedFramesTotal s" by blast
  obtain items' bytes' n' where d: "drop_oldest items (sumPayloadBytes items) n = (items', bytes', n')"
    by (metis prod_cases3)
  have w: "within_budget items' bytes'" "length items' + n' = length items + n" using drop_oldest_spec [OF d refl] by auto
  have "trimPendingPaintFrames s
      = s\<lparr>pendingFrames := items', pendingBytes := sumPayloadBytes items', droppedFramesTotal := n'\<rparr>"
    using True w(1) by (simp add: trimPendingPaintFrames_def items(1) d within_budget_def)
  then show ?thesis using w items(2) by (auto simp: within_budget_def)
qed

section \<open>The invariant\<close>

definition rinv :: "renderer \<Rightarrow> bool" where
  "rinv s \<longleftrightarrow>
     within_budget (pendingFrames s) (pendingBytes s)
     \<and> (pendingFrames s \<noteq> [] \<and> surfaceReady s \<and> \<not> destroyed s \<longrightarrow> paintRaf s \<or> painting s)
     \<and> (surfaceReady s \<longrightarrow> surface s \<noteq> None)
     \<and> (painting s \<longleftrightarrow> flight s \<noteq> [])
     \<and> distinct (map fst (flight s))
     \<and> (\<forall>p \<in> set (flight s). fst p \<le> decodeSeq s)
     \<and> (\<forall>i \<in> set (decodeRequests s). i \<le> decodeSeq s)
     \<and> (painting s \<longrightarrow> (\<exists>p \<in> set (flight s). snd p = None))
     \<and> (\<forall>p \<in> set (flight s). snd p = None \<longrightarrow> fst p \<in> set (decodeRequests s))"

lemma empty_budget [simp]: "within_budget [] 0"
  by (simp add: within_budget_def)

lemma schedule_rinv:
  assumes "rinv (s\<lparr>pendingFrames := []\<rparr>\<lparr>pendingBytes := 0\<rparr>)" "within_budget (pendingFrames s) (pendingBytes s)"
  shows "rinv (schedulePaintFlush s)"
  using assms by (auto simp: rinv_def schedulePaintFlush_def)

lemma rinv_drop_queue: "rinv s \<Longrightarrow> rinv (s\<lparr>pendingFrames := []\<rparr>\<lparr>pendingBytes := 0\<rparr>)"
  by (simp add: rinv_def)

text \<open>The fields the invariant reads\<close>

definition core_of :: "renderer \<Rightarrow> _" where
  "core_of s = (pendingFrames s, pendingBytes s, surfaceReady s, destroyed s, paintRaf s, painting s, surface s,
     flight s, decodeSeq s, decodeRequests s)"

lemma rinv_core: "core_of s' = core_of s \<Longrightarrow> rinv s' = rinv s"
  by (simp add: core_of_def rinv_def)

lemma core_report [simp]: "core_of (report r s) = core_of s"
  by (simp add: report_def core_of_def)

lemma core_emitError [simp]: "core_of (emitError m s) = core_of s"
  by (simp add: emitError_def)

lemma core_resize [simp]: "core_of (resize w h s) = core_of s"
proof -
  have "core_of (s\<lparr>canvas_width := a, canvas_height := b\<rparr>) = core_of s" for a b by (simp add: core_of_def)
  then show ?thesis by (simp add: resize_def Let_def)
qed

lemma core_ensure [simp]: "core_of (ensureRectFits f s) = core_of s"
  by (simp add: ensureRectFits_def Let_def)

lemma core_fold_ensure [simp]: "core_of (fold (\<lambda>item. ensureRectFits (dec_frame item)) items s) = core_of s"
  by (induction items arbitrary: s) simp_all

lemma core_fold_vote [simp]: "core_of (fold vote items s) = core_of s"
  by (induction items arbitrary: s) (simp_all add: vote_def core_of_def)

lemma core_metrics [simp]: "core_of (metrics_tick s) = core_of s"
  by (simp add: metrics_tick_def Let_def report_def core_of_def)

text \<open>The end of a batch only needs what concerns the queue and the requests.\<close>

definition queue_ok :: "renderer \<Rightarrow> bool" where
  "queue_ok s \<longleftrightarrow>
     within_budget (pendingFrames s) (pendingBytes s) \<and> (surfaceReady s \<longrightarrow> surface s \<noteq> None)
     \<and> (\<forall>i \<in> set (decodeRequests s). i \<le> decodeSeq s)"

lemma queue_ok_core: "core_of s' = core_of s \<Longrightarrow> queue_ok s' = queue_ok s"
  by (simp add: core_of_def queue_ok_def)

lemma end_paint_rinv: "queue_ok s \<Longrightarrow> rinv (end_paint s)"
  by (auto simp: end_paint_def queue_ok_def rinv_def schedulePaintFlush_def Let_def)

lemma paint_failed_rinv: "queue_ok s \<Longrightarrow> rinv (paint_failed m s)"
  unfolding paint_failed_def by (intro end_paint_rinv) (simp add: queue_ok_core [OF core_emitError])

lemma rinv_queue_ok: "rinv s \<Longrightarrow> queue_ok s"
  by (simp add: rinv_def queue_ok_def)

lemma finish_flush_rinv:
  assumes "queue_ok s"
  shows "rinv (finish_flush decoded a b raises s)"
proof -
  let ?s1 = "fold (\<lambda>item. ensureRectFits (dec_frame item)) decoded s"
  have s1: "queue_ok ?s1" using assms queue_ok_core [OF core_fold_ensure] by blast
  have paint: "queue_ok (?s1\<lparr>painted := p\<rparr>)" for p
    using s1 queue_ok_core [of "?s1\<lparr>painted := p\<rparr>" ?s1] by (simp add: core_of_def)
  have count: "queue_ok (fold vote decoded (?s1\<lparr>painted := p, decodeAccumMs := x, paintAccumMs := y, framesPaintedWindow := z\<rparr>))"
    for p x y z
    using s1 queue_ok_core [of "fold vote decoded (?s1\<lparr>painted := p, decodeAccumMs := x, paintAccumMs := y, framesPaintedWindow := z\<rparr>)" ?s1]
    unfolding core_fold_vote by (simp add: core_of_def)
  show ?thesis
    using assms end_paint_rinv paint_failed_rinv paint count
    by (simp add: finish_flush_def Let_def split: option.splits)
qed

lemma paintFrameBatchBytes_rinv:
  assumes "rinv s"
  shows "rinv (paintFrameBatchBytes frames s)"
proof (cases "destroyed s \<or> frames = []")
  case True
  then show ?thesis using assms by (simp add: paintFrameBatchBytes_def)
next
  case False
  define s1 where "s1 = (if list_ex (near_full s) frames then discard_pending s else s)"
  define s2 where "s2 = fold push_frame frames s1"
  have s1: "rinv s1" using assms by (auto simp: s1_def discard_pending_def rinv_def)
  have b: "pendingBytes s2 = sumPayloadBytes (pendingFrames s2)"
    using s1 by (simp add: s2_def push_frames rinv_def within_budget_def)
  obtain items n where trim: "trimPendingPaintFrames s2
      = s2\<lparr>pendingFrames := items, pendingBytes := sumPayloadBytes items, droppedFramesTotal := n\<rparr>"
    "within_budget items (sumPayloadBytes items)"
    using trim_spec [OF b] by blast
  have "rinv (schedulePaintFlush (trimPendingPaintFrames s2))"
    by (rule schedule_rinv) (use rinv_drop_queue [OF s1] trim in \<open>simp_all add: s2_def push_frames rinv_def\<close>)
  then show ?thesis using False by (simp add: paintFrameBatchBytes_def Let_def s1_def s2_def)
qed

section \<open>Batches\<close>

lemma concat_chunk_list: "0 < k \<Longrightarrow> concat (chunk_list k xs) = xs"
  by (induction k xs rule: chunk_list.induct) simp_all

lemma length_chunk_list: "length xs \<le> k * m \<Longrightarrow> length (chunk_list k xs) \<le> m"
proof (induction k xs arbitrary: m rule: chunk_list.induct)
  case (3 k x xs)
  then obtain m' where m: "m = Suc m'" by (cases m) auto
  have "length (drop k xs) \<le> Suc k * m'" using 3(2) by (simp add: m)
  from 3(1) [OF this] show ?case by (simp add: m)
qed simp_all

lemma chunk_list_nonempty: "ys \<in> set (chunk_list k xs) \<Longrightarrow> ys \<noteq> []"
  by (induction k xs rule: chunk_list.induct) auto

lemma ceil_div: "0 < m \<Longrightarrow> n \<le> ((n + m - 1) div m) * (m :: nat)"
proof -
  assume m: "0 < m"
  have "n + m - 1 < ((n + m - 1) div m) * m + m"
    using div_mult_mod_eq [of "n + m - 1" m] mod_less_divisor [OF m, of "n + m - 1"] by linarith
  then show ?thesis using m by linarith
qed

text \<open>A batch is cut into at most as many chunks as there are workers, in order.\<close>

lemma batch_parts_cover:
  assumes "0 < n" "batch \<noteq> []"
  shows "concat (batch_parts n batch) = batch" "length (batch_parts n batch) \<le> n"
    "batch_parts n batch \<noteq> []" "[] \<notin> set (batch_parts n batch)"
proof -
  let ?m = "min n (length batch)"
  let ?k = "(length batch + ?m - 1) div ?m"
  have m: "0 < ?m" using assms by (cases batch) auto
  have k: "0 < ?k" using m by (simp add: div_greater_zero_iff)
  have "length (chunk_list ?k batch) \<le> ?m" by (rule length_chunk_list) (rule ceil_div [OF m])
  then have len: "length (chunk_list ?k batch) \<le> n" by simp
  have cat: "concat (chunk_list ?k batch) = batch" by (rule concat_chunk_list [OF k])
  then have ne: "chunk_list ?k batch \<noteq> []" using assms(2) by auto
  show "concat (batch_parts n batch) = batch" using cat by (simp add: batch_parts_def Let_def)
  show "length (batch_parts n batch) \<le> n" using assms(1) len by (simp add: batch_parts_def Let_def)
  show "batch_parts n batch \<noteq> []" using ne by (simp add: batch_parts_def Let_def)
  show "[] \<notin> set (batch_parts n batch)"
    using assms(2) chunk_list_nonempty by (auto simp: batch_parts_def Let_def)
qed

lemma length_part_posts [simp]: "length (part_posts s parts) = length parts"
  by (simp add: part_posts_def)

lemma part_posts_ids: "map post_id (part_posts s parts) = map (\<lambda>i. decodeSeq s + i + 1) [0..<length parts]"
  by (simp add: part_posts_def)

lemma part_posts_frames: "map post_frames (part_posts s parts) = parts"
  by (simp add: part_posts_def comp_def map_nth)

text \<open>With at most as many parts as workers, the \<open>??\<close> of \<open>decodeOn\<close> is not needed.\<close>

lemma part_posts_worker: "length parts \<le> workers s \<Longrightarrow> p \<in> set (part_posts s parts) \<Longrightarrow> post_worker p < workers s"
  by (auto simp: part_posts_def)

lemma runPaintFlush_rinv:
  assumes "rinv (s\<lparr>paintRaf := r\<rparr>)"
  shows "rinv (runPaintFlush now failing (s\<lparr>paintRaf := False\<rparr>))"
proof -
  let ?s = "s\<lparr>paintRaf := False\<rparr>"
  let ?posts = "part_posts (?s\<lparr>pendingFrames := [], pendingBytes := 0, painting := True, decodeStart := now\<rparr>)
    (batch_parts (workers s) (pendingFrames s))"
  show ?thesis
  proof (cases "destroyed s \<or> painting s \<or> surface s = None")
    case True
    then show ?thesis using assms by (auto simp: runPaintFlush_def rinv_def)
  next
    case run: False
    show ?thesis
    proof (cases "pendingFrames s = []")
      case True
      then show ?thesis using run assms by (auto simp: runPaintFlush_def rinv_def Let_def)
    next
      case batch: False
      define s2 where "s2 = ?s\<lparr>pendingFrames := [], pendingBytes := 0, painting := True, decodeStart := now\<rparr>"
      have q2: "queue_ok s2" using assms by (simp add: s2_def queue_ok_def rinv_def)
      show ?thesis
      proof (cases "workers s = 0")
        case True
        then show ?thesis
          using run batch paint_failed_rinv [OF q2] by (auto simp: runPaintFlush_def Let_def s2_def)
      next
        case w: False
        define posts where "posts = part_posts s2 (batch_parts (workers s) (pendingFrames s))"
        define sent where "sent = filter (\<lambda>p. post_id p - decodeSeq s - 1 \<notin> set failing) posts"
        define s3 where "s3 = s2\<lparr>posted := posted s @ posts, decodeSeq := decodeSeq s + length posts,
          decodeRequests := decodeRequests s @ map post_id sent, flight := map (\<lambda>p. (post_id p, None)) posts\<rparr>"
        have step: "runPaintFlush now failing ?s = (if length sent < length posts then paint_failed ''DataCloneError'' s3 else s3)"
          using run batch w by (auto simp: runPaintFlush_def Let_def s3_def sent_def posts_def s2_def)
        have ids: "map post_id posts = map (\<lambda>i. decodeSeq s + i + 1) [0..<length posts]"
          using part_posts_ids [of s2] by (simp add: posts_def s2_def)
        then have bound: "post_id p \<le> decodeSeq s + length posts" if "p \<in> set posts" for p
        proof -
          have "post_id p \<in> set (map (\<lambda>i. decodeSeq s + i + 1) [0..<length posts])" using that ids by (metis image_eqI image_set)
          then show ?thesis by auto
        qed
        have dist: "distinct (map post_id posts)" unfolding ids by (simp add: distinct_map inj_on_def)
        have old: "\<forall>i \<in> set (decodeRequests s). i \<le> decodeSeq s" using assms by (simp add: rinv_def)
        have reqs: "\<forall>i \<in> set (decodeRequests s3). i \<le> decodeSeq s3"
          using old bound by (force simp: s3_def sent_def)
        have q3: "queue_ok s3" using q2 reqs by (simp add: queue_ok_def s3_def)
        have ne: "posts \<noteq> []"
          using batch_parts_cover(3) [of "workers s" "pendingFrames s"] w batch by (simp add: posts_def part_posts_def)
        have "rinv s3" if "\<not> length sent < length posts"
        proof -
          have "sent = posts"
            using that length_filter_less [of _ posts] unfolding sent_def by (metis filter_id_conv)
          then show ?thesis
            using q3 ne dist bound reqs
            by (auto simp: rinv_def queue_ok_def s3_def s2_def comp_def ex_in_conv)
        qed
        then show ?thesis using step paint_failed_rinv [OF q3] by simp
      qed
    qed
  qed
qed

lemma set_part_props:
  "map fst (set_part i frames parts) = map fst parts"
  "p \<in> set (set_part i frames parts) \<Longrightarrow> snd p = None \<Longrightarrow> p \<in> set parts \<and> fst p \<noteq> i"
  by (auto simp: set_part_def split: if_splits)

lemma on_decoded_rinv:
  assumes "rinv s"
  shows "rinv (on_decoded i frames a b raises s)"
proof (cases "i \<in> set (decodeRequests s)")
  case False
  then show ?thesis using assms by (simp add: on_decoded_def)
next
  case req: True
  define s1 where "s1 = s\<lparr>decodeRequests := removeAll i (decodeRequests s), flight := set_part i frames (flight s)\<rparr>"
  have q: "queue_ok s1" using assms by (auto simp: s1_def queue_ok_def rinv_def)
  have step: "on_decoded i frames a b raises s =
      (if i \<in> fst ` set (flight s) \<and> list_all (\<lambda>p. snd p \<noteq> None) (flight s1)
       then finish_flush (concat (map (\<lambda>p. the (snd p)) (flight s1))) a b raises s1 else s1)"
    using req by (simp add: on_decoded_def s1_def Let_def)
  have "rinv s1" if "\<not> (i \<in> fst ` set (flight s) \<and> list_all (\<lambda>p. snd p \<noteq> None) (flight s1))"
  proof -
    have fl: "map fst (flight s1) = map fst (flight s)" by (simp add: s1_def set_part_props(1))
    then have fsts: "fst ` set (flight s1) = fst ` set (flight s)" by (metis image_set)
    have open_part: "p \<in> set (flight s) \<and> fst p \<noteq> i" if "p \<in> set (flight s1)" "snd p = None" for p
      using that set_part_props(2) [of p i frames "flight s"] by (simp add: s1_def)
    have awaited: "\<forall>p \<in> set (flight s1). snd p = None \<longrightarrow> fst p \<in> set (decodeRequests s1)"
      using open_part assms by (auto simp: s1_def rinv_def)
    have waits: "\<exists>p \<in> set (flight s1). snd p = None" if "painting s"
    proof (cases "i \<in> fst ` set (flight s)")
      case True
      then show ?thesis
        using \<open>\<not> (i \<in> fst ` set (flight s) \<and> list_all (\<lambda>p. snd p \<noteq> None) (flight s1))\<close> by (auto simp: list_all_iff)
    next
      case False
      then have "flight s1 = flight s" unfolding s1_def set_part_def by (force intro!: map_idI)
      then show ?thesis using assms that by (simp add: rinv_def)
    qed
    have ids: "\<forall>p \<in> set (flight s1). fst p \<le> decodeSeq s1"
    proof
      fix p assume "p \<in> set (flight s1)"
      then have "fst p \<in> fst ` set (flight s)" using fsts by blast
      then show "fst p \<le> decodeSeq s1" using assms by (auto simp: s1_def rinv_def)
    qed
    have "flight s1 = [] \<longleftrightarrow> flight s = []" using fl by auto
    then show ?thesis
      using assms awaited waits ids fl unfolding rinv_def s1_def by (simp, blast)
  qed
  then show ?thesis using step finish_flush_rinv [OF q] by simp
qed

lemma on_decode_error_rinv:
  assumes "rinv s"
  shows "rinv (on_decode_error i m s)"
proof -
  have "queue_ok (s\<lparr>decodeRequests := removeAll i (decodeRequests s)\<rparr>)" using assms by (simp add: queue_ok_def rinv_def)
  moreover have "rinv (s\<lparr>decodeRequests := removeAll i (decodeRequests s)\<rparr>)" if "i \<notin> fst ` set (flight s)"
    using assms that by (auto simp: rinv_def)
  ultimately show ?thesis using assms paint_failed_rinv by (simp add: on_decode_error_def Let_def)
qed

lemma perform_rinv:
  assumes "rinv s" "perform a s = Some s'"
  shows "rinv s'"
proof (cases a)
  case (RafFires now failing)
  then have "s' = runPaintFlush now failing (s\<lparr>paintRaf := False\<rparr>)" using assms(2) by (auto simp: raf_fires_def split: if_splits)
  moreover have "rinv (s\<lparr>paintRaf := paintRaf s\<rparr>)" using assms(1) by simp
  ultimately show ?thesis using runPaintFlush_rinv by metis
next
  case (SurfaceResolved k)
  then have "s' = surface_resolved k s" using assms(2) by (auto split: if_splits)
  then show ?thesis using assms(1) by (simp add: surface_resolved_def schedulePaintFlush_def rinv_def)
next
  case Destroy
  then show ?thesis using assms by (auto simp: destroy_def rinv_def)
qed (use assms in \<open>auto simp: paintFrameBatchBytes_rinv on_decoded_rinv on_decode_error_rinv on_worker_error_def
      on_warn_def on_refresh_needed_def rinv_core [OF core_emitError] rinv_core [OF core_report]
      rinv_core [OF core_metrics] rinv_core [OF core_resize]\<close>)

lemma run_renderer_rinv: "rinv s \<Longrightarrow> run_renderer as s = Some s' \<Longrightarrow> rinv s'"
  by (induction as arbitrary: s) (auto split: option.splits dest: perform_rinv)

lemma createRenderer_rinv: "rinv (createRenderer w h n)"
  by (simp add: rinv_def createRenderer_def)


definition paint_example :: "FrameBytes" where
  "paint_example = (\<lparr>fr_x = 0, fr_y = 0, fr_width = 10, fr_height = 10, fr_encoding = H264, fr_keyframe = Some True\<rparr>, [1, 2])"

definition delta_example :: "FrameBytes" where
  "delta_example = (\<lparr>fr_x = 0, fr_y = 0, fr_width = 10, fr_height = 10, fr_encoding = H264, fr_keyframe = Some False\<rparr>, [3])"


section \<open>No frame is lost unaccounted\<close>

definition accounted :: "renderer \<Rightarrow> nat" where
  "accounted s =
     length (pendingFrames s) + droppedFramesTotal s + sum_list (map (\<lambda>p. length (post_frames p)) (posted s))"

definition books_of :: "renderer \<Rightarrow> _" where
  "books_of s = (pendingFrames s, droppedFramesTotal s, posted s, destroyed s, workers s)"

lemma accounted_books: "books_of s' = books_of s \<Longrightarrow> accounted s' = accounted s"
  by (simp add: books_of_def accounted_def)

lemma books_report [simp]: "books_of (report r s) = books_of s" "books_of (emitError m s) = books_of s"
  by (simp_all add: report_def emitError_def books_of_def)

lemma books_resize [simp]: "books_of (resize w h s) = books_of s"
proof -
  have "books_of (s\<lparr>canvas_width := a, canvas_height := b\<rparr>) = books_of s" for a b by (simp add: books_of_def)
  then show ?thesis by (simp add: resize_def Let_def)
qed

lemma books_ensure [simp]: "books_of (ensureRectFits f s) = books_of s"
  by (simp add: ensureRectFits_def Let_def)

lemma books_vote [simp]: "books_of (vote a s) = books_of s"
  by (simp add: vote_def books_of_def)

lemma books_fold_ensure [simp]: "books_of (fold (\<lambda>item. ensureRectFits (dec_frame item)) items s) = books_of s"
  by (induction items arbitrary: s) simp_all

lemma books_fold_vote [simp]: "books_of (fold vote items s) = books_of s"
  by (induction items arbitrary: s) simp_all

lemma books_paint [simp]:
  "books_of (schedulePaintFlush s) = books_of s" "books_of (end_paint s) = books_of s"
  "books_of (paint_failed m s) = books_of s"
proof -
  show sched: "books_of (schedulePaintFlush s) = books_of s" for s
    by (simp add: schedulePaintFlush_def books_of_def)
  show ends: "books_of (end_paint s) = books_of s" for s
    unfolding end_paint_def Let_def using sched by (simp add: books_of_def)
  show "books_of (paint_failed m s) = books_of s" by (simp add: paint_failed_def ends)
qed

lemma books_finish [simp]: "books_of (finish_flush decoded a b raises s) = books_of s"
proof -
  let ?s1 = "fold (\<lambda>item. ensureRectFits (dec_frame item)) decoded s"
  have paint: "books_of (?s1\<lparr>painted := p\<rparr>) = books_of s" for p
    using books_fold_ensure [of decoded s] by (simp add: books_of_def)
  have all: "books_of (?s1\<lparr>painted := p, decodeAccumMs := x, paintAccumMs := y, framesPaintedWindow := z\<rparr>) = books_of s" for p x y z
    using books_fold_ensure [of decoded s] by (simp add: books_of_def)
  show ?thesis using paint all by (simp add: finish_flush_def Let_def split: option.splits)
qed

lemma books_decoded [simp]:
  "books_of (on_decoded i frames a b raises s) = books_of s" "books_of (on_decode_error i m s) = books_of s"
proof -
  have "books_of (s\<lparr>decodeRequests := r, flight := f\<rparr>) = books_of s" "books_of (s\<lparr>decodeRequests := r\<rparr>) = books_of s" for r f
    by (simp_all add: books_of_def)
  then show "books_of (on_decoded i frames a b raises s) = books_of s" "books_of (on_decode_error i m s) = books_of s"
    by (simp_all add: on_decoded_def on_decode_error_def Let_def)
qed

lemma books_metrics [simp]: "books_of (metrics_tick s) = books_of s"
  by (simp add: metrics_tick_def Let_def report_def books_of_def)

definition posts_ok :: "nat \<Rightarrow> renderer \<Rightarrow> bool" where
  "posts_ok n s \<longleftrightarrow> \<not> destroyed s \<and> workers s = n \<and> 0 < n
     \<and> (\<forall>p \<in> set (posted s). post_worker p < n \<and> post_frames p \<noteq> [])"

lemma posts_ok_books: "books_of s' = books_of s \<Longrightarrow> posts_ok n s' = posts_ok n s"
  by (simp add: books_of_def posts_ok_def)

fun frames_of :: "renderer_step \<Rightarrow> nat" where
  "frames_of (Paint frames) = length frames"
| "frames_of _ = 0"

lemma paint_accounted:
  assumes "rinv s" "posts_ok n s"
  shows "accounted (paintFrameBatchBytes frames s) = accounted s + length frames \<and> posts_ok n (paintFrameBatchBytes frames s)"
proof (cases "frames = []")
  case True
  then show ?thesis using assms(2) by (simp add: paintFrameBatchBytes_def)
next
  case False
  define s1 where "s1 = (if list_ex (near_full s) frames then discard_pending s else s)"
  define s2 where "s2 = fold push_frame frames s1"
  have s1: "accounted s1 = accounted s" "pendingBytes s1 = sumPayloadBytes (pendingFrames s1)" "posts_ok n s1"
    using assms by (auto simp: s1_def discard_pending_def accounted_def rinv_def within_budget_def posts_ok_def)
  have s2: "accounted s2 = accounted s + length frames" "pendingBytes s2 = sumPayloadBytes (pendingFrames s2)" "posts_ok n s2"
    using s1 by (simp_all add: s2_def push_frames accounted_def posts_ok_def)
  obtain items m where trim: "trimPendingPaintFrames s2
      = s2\<lparr>pendingFrames := items, pendingBytes := sumPayloadBytes items, droppedFramesTotal := m\<rparr>"
    "length items + m = length (pendingFrames s2) + droppedFramesTotal s2"
    using trim_spec [OF s2(2)] by blast
  have "accounted (trimPendingPaintFrames s2) = accounted s2" "posts_ok n (trimPendingPaintFrames s2)"
    using trim(2) s2(3) by (simp_all add: trim(1) accounted_def posts_ok_def)
  moreover have "paintFrameBatchBytes frames s = schedulePaintFlush (trimPendingPaintFrames s2)"
    using False assms(2) by (simp add: paintFrameBatchBytes_def Let_def s1_def s2_def posts_ok_def)
  ultimately show ?thesis
    using s2(1) accounted_books [OF books_paint(1)] posts_ok_books [OF books_paint(1)] by simp
qed

lemma flush_accounted:
  assumes "posts_ok n s"
  shows "accounted (runPaintFlush now failing s) = accounted s \<and> posts_ok n (runPaintFlush now failing s)"
proof (cases "destroyed s \<or> painting s \<or> surface s = None \<or> pendingFrames s = []")
  case True
  then show ?thesis using assms by (auto simp: runPaintFlush_def Let_def accounted_def posts_ok_def)
next
  case False
  define s2 where "s2 = s\<lparr>pendingFrames := [], pendingBytes := 0, painting := True, decodeStart := now\<rparr>"
  define parts where "parts = batch_parts (workers s) (pendingFrames s)"
  define posts where "posts = part_posts s2 parts"
  define sent where "sent = filter (\<lambda>p. post_id p - decodeSeq s - 1 \<notin> set failing) posts"
  define s3 where "s3 = s2\<lparr>posted := posted s @ posts, decodeSeq := decodeSeq s + length posts,
    decodeRequests := decodeRequests s @ map post_id sent, flight := map (\<lambda>p. (post_id p, None)) posts\<rparr>"
  have w: "0 < workers s" "pendingFrames s \<noteq> []" using assms False by (simp_all add: posts_ok_def)
  have step: "runPaintFlush now failing s = (if length sent < length posts then paint_failed ''DataCloneError'' s3 else s3)"
    using False w by (auto simp: runPaintFlush_def Let_def s3_def sent_def posts_def parts_def s2_def)
  have "sum_list (map (\<lambda>p. length (post_frames p)) posts) = sum_list (map length (map post_frames posts))"
    by (simp add: comp_def)
  also have "\<dots> = length (concat parts)" unfolding posts_def part_posts_frames by (simp add: length_concat)
  also have "\<dots> = length (pendingFrames s)" using batch_parts_cover(1) [OF w] by (simp add: parts_def)
  finally have acc: "accounted s3 = accounted s" using assms by (simp add: s3_def s2_def accounted_def)
  have "post_worker p < workers s \<and> post_frames p \<noteq> []" if p: "p \<in> set posts" for p
  proof -
    have "post_worker p < workers s2"
      by (rule part_posts_worker [of parts]) (use batch_parts_cover(2) [OF w] p in \<open>simp_all add: parts_def posts_def s2_def\<close>)
    moreover have "post_frames p \<in> set parts" using p part_posts_frames [of s2 parts] by (metis image_eqI image_set posts_def)
    ultimately show ?thesis using batch_parts_cover(4) [OF w] by (auto simp: s2_def parts_def)
  qed
  then have "posts_ok n s3" using assms by (auto simp: posts_ok_def s3_def s2_def)
  then show ?thesis
    using step acc accounted_books [OF books_paint(3)] posts_ok_books [OF books_paint(3)] by simp
qed

lemma perform_accounted:
  assumes "rinv s" "posts_ok n s" "perform a s = Some s'" "a \<noteq> Destroy"
  shows "accounted s' = accounted s + frames_of a \<and> posts_ok n s'"
proof -
  have quiet: "accounted s' = accounted s \<and> posts_ok n s'" if "books_of s' = books_of s"
    using accounted_books [OF that] posts_ok_books [OF that] assms(2) by simp
  show ?thesis
proof (cases a)
  case (Paint frames)
  then show ?thesis using assms paint_accounted by auto
next
  case (RafFires now failing)
  then have s': "s' = runPaintFlush now failing (s\<lparr>paintRaf := False\<rparr>)"
    using assms(3) by (auto simp: raf_fires_def split: if_splits)
  have "posts_ok n (s\<lparr>paintRaf := False\<rparr>)" "accounted (s\<lparr>paintRaf := False\<rparr>) = accounted s"
    using assms(2) by (simp_all add: posts_ok_def accounted_def)
  then show ?thesis using flush_accounted s' RafFires by simp
next
  case (SurfaceResolved k)
  then have s': "s' = surface_resolved k s" using assms(3) by (auto split: if_splits)
  have "books_of (surface_resolved k s) = books_of s"
  proof -
    have "books_of (s\<lparr>surface := Some k, surfaceReady := True\<rparr>) = books_of s" by (simp add: books_of_def)
    then show ?thesis by (simp add: surface_resolved_def)
  qed
  then show ?thesis using s' SurfaceResolved quiet by simp
next
  case Destroy
  then show ?thesis using assms(4) by simp
next
  case (Decoded i frames x y raises)
  then have "s' = on_decoded i frames x y raises s" using assms(3) by simp
  then have "books_of s' = books_of s" by simp
  then show ?thesis using quiet Decoded by simp
next
  case (DecodeError i m)
  then have "s' = on_decode_error i m s" using assms(3) by simp
  then have "books_of s' = books_of s" by simp
  then show ?thesis using quiet DecodeError by simp
next
  case (Resize x y)
  then have "s' = resize x y s" using assms(3) by simp
  then have "books_of s' = books_of s" by simp
  then show ?thesis using quiet Resize by simp
next
  case MetricsTick
  then have "s' = metrics_tick s" using assms(3) by simp
  then have "books_of s' = books_of s" by simp
  then show ?thesis using quiet MetricsTick by simp
next
  case (WorkerError m)
  then have "books_of s' = books_of s" using assms(3) by (auto simp: on_worker_error_def)
  then show ?thesis using quiet WorkerError by simp
next
  case (Warn m)
  then have "books_of s' = books_of s" using assms(3) by (auto simp: on_warn_def)
  then show ?thesis using quiet Warn by simp
next
  case RefreshNeeded
  then have "books_of s' = books_of s" using assms(3) by (auto simp: on_refresh_needed_def)
  then show ?thesis using quiet RefreshNeeded by simp
qed
qed

lemma run_accounted:
  "rinv s \<Longrightarrow> posts_ok n s \<Longrightarrow> run_renderer as s = Some s' \<Longrightarrow> Destroy \<notin> set as \<Longrightarrow>
   accounted s' = accounted s + sum_list (map frames_of as) \<and> posts_ok n s'"
proof (induction as arbitrary: s)
  case (Cons a as)
  then obtain t where t: "perform a s = Some t" "run_renderer as t = Some s'" by (auto split: option.splits)
  have "accounted t = accounted s + frames_of a \<and> posts_ok n t"
    by (rule perform_accounted [OF Cons.prems(1,2) t(1)]) (use Cons.prems(4) in auto)
  with Cons.IH [OF perform_rinv [OF Cons.prems(1) t(1)] _ t(2)] Cons.prems(4) show ?case by simp
qed simp


lemma one_frame_paint:
  assumes "\<not> destroyed s" "near_full s f" "length (snd f) \<le> MAX_PENDING_PAINT_BYTES"
  shows "pendingFrames (paintFrameBatchBytes [f] s) = [f]"
    "posted (paintFrameBatchBytes [f] s) = posted s"
    "droppedFramesTotal (paintFrameBatchBytes [f] s) = droppedFramesTotal s + length (pendingFrames s)"
    "destroyed (paintFrameBatchBytes [f] s) = destroyed s"
    "near_full (paintFrameBatchBytes [f] s) = near_full s"
proof -
  have "paintFrameBatchBytes [f] s = schedulePaintFlush (push_frame f (discard_pending s))"
    using assms
    by (simp add: paintFrameBatchBytes_def trimPendingPaintFrames_def over_budget_def push_frame_def
        discard_pending_def MAX_PENDING_PAINT_FRAMES_def)
  then show "pendingFrames (paintFrameBatchBytes [f] s) = [f]"
    "posted (paintFrameBatchBytes [f] s) = posted s"
    "droppedFramesTotal (paintFrameBatchBytes [f] s) = droppedFramesTotal s + length (pendingFrames s)"
    "destroyed (paintFrameBatchBytes [f] s) = destroyed s"
    "near_full (paintFrameBatchBytes [f] s) = near_full s"
    by (simp_all add: schedulePaintFlush_def push_frame_def discard_pending_def near_full_def fun_eq_iff)
qed


section \<open>Full frames and H.264\<close>

text \<open>A full-canvas frame makes the renderer drop all frames waiting, also when it is an H.264 delta
  frame and the frame dropped is the key frame it refers to: the key frame is never posted.\<close>

theorem full_delta_drops_keyframe:
  assumes "\<not> destroyed s" "near_full s key" "near_full s delta"
    and "fr_encoding (fst key) = H264" "fr_keyframe (fst key) = Some True"
    and "fr_encoding (fst delta) = H264" "fr_keyframe (fst delta) = Some False"
    and "length (snd key) \<le> MAX_PENDING_PAINT_BYTES" "length (snd delta) \<le> MAX_PENDING_PAINT_BYTES"
  shows "pendingFrames (paintFrameBatchBytes [delta] (paintFrameBatchBytes [key] s)) = [delta]
    \<and> key \<notin> set (pendingFrames (paintFrameBatchBytes [delta] (paintFrameBatchBytes [key] s)))
    \<and> posted (paintFrameBatchBytes [delta] (paintFrameBatchBytes [key] s)) = posted s
    \<and> droppedFramesTotal (paintFrameBatchBytes [delta] (paintFrameBatchBytes [key] s))
        = droppedFramesTotal s + length (pendingFrames s) + 1"
proof -
  note one = one_frame_paint [OF assms(1,2,8)]
  have live: "\<not> destroyed (paintFrameBatchBytes [key] s)" "near_full (paintFrameBatchBytes [key] s) delta"
    using one(4,5) assms(1,3) by simp_all
  have "key \<noteq> delta" using assms(5,7) by auto
  then show ?thesis using one one_frame_paint [OF live assms(9)] by simp
qed

theorem full_delta_drops_keyframe_witness:
  "pendingFrames (paintFrameBatchBytes [delta_example] (paintFrameBatchBytes [paint_example] (createRenderer 10 10 1)))
   = [delta_example] \<and> delta_example \<noteq> paint_example"
  using full_delta_drops_keyframe [of "createRenderer 10 10 1" paint_example delta_example]
  by (simp add: createRenderer_def near_full_def isNearFullCanvasFrame_def paint_example_def delta_example_def
      MAX_PENDING_PAINT_BYTES_def)

end
