(* ===== verification/PixelCodec.thy ===== *)
theory PixelCodec
  imports CanvasRenderer
begin

text \<open>
  The pixel paths of the decode worker, \<open>lib/desktop/decode.worker.ts\<close>: the exchange of the red and
  blue channel, a word at a time on aligned views and a byte at a time otherwise, the collection
  of an inflated surface, and the decoding of a BGRA frame. The decompressors are arguments.
\<close>

section \<open>Exchanging channels\<close>

definition le32 :: "byte \<Rightarrow> byte \<Rightarrow> byte \<Rightarrow> byte \<Rightarrow> 32 word" where
  "le32 b0 b1 b2 b3 = ucast b0 OR push_bit 8 (ucast b1) OR push_bit 16 (ucast b2) OR push_bit 24 (ucast b3)"

definition put_le32 :: "32 word \<Rightarrow> byte list" where
  "put_le32 w = [ucast w, ucast (drop_bit 8 w), ucast (drop_bit 16 w), ucast (drop_bit 24 w)]"

definition word_swizzle :: "32 word \<Rightarrow> 32 word" where
  "word_swizzle v = 0xff000000 OR push_bit 16 (v AND 0xff) OR (v AND 0x0000ff00) OR (drop_bit 16 v AND 0xff)"

text \<open>A \<open>Uint32Array\<close> over the first \<open>n\<close> words of the bytes, on a little-endian machine\<close>

fun view_words :: "nat \<Rightarrow> byte list \<Rightarrow> 32 word list" where
  "view_words (Suc n) (b0 # b1 # b2 # b3 # bs) = le32 b0 b1 b2 b3 # view_words n bs"
| "view_words _ _ = []"

definition swizzle_words :: "nat \<Rightarrow> byte list \<Rightarrow> byte list" where
  "swizzle_words expected bytes =
     (let words = map word_swizzle (view_words (expected div 4) bytes)
      in concat (map put_le32 words) @ drop (4 * length words) bytes)"

function swizzle_bytes :: "nat \<Rightarrow> nat \<Rightarrow> byte list \<Rightarrow> byte list" where
  "swizzle_bytes i expected bytes =
     (if i < expected then
        let b = bytes ! i in
        swizzle_bytes (i + 4) expected (bytes[i := bytes ! (i + 2), i + 2 := b, i + 3 := 255])
      else bytes)"
  by pat_completeness auto
termination by (relation "measure (\<lambda>(i, expected, _). expected - i)") auto

declare swizzle_bytes.simps [simp del]

definition swizzle :: "nat \<Rightarrow> nat \<Rightarrow> byte list \<Rightarrow> byte list" where
  "swizzle byteOffset expected bytes =
     (if byteOffset AND 3 = 0 then swizzle_words expected bytes else swizzle_bytes 0 expected bytes)"

text \<open>The reference: \<open>n\<close> pixels from BGRA to opaque RGBA\<close>

fun rgba :: "nat \<Rightarrow> byte list \<Rightarrow> byte list" where
  "rgba (Suc n) (b # g # r # a # bs) = r # g # b # 255 # rgba n bs"
| "rgba _ bs = bs"

lemma mask_bits:
  "bit (255 :: int) n \<longleftrightarrow> n < 8" "bit (0xff00 :: int) n \<longleftrightarrow> 8 \<le> n \<and> n < 16"
  "bit (0xff0000 :: int) n \<longleftrightarrow> 16 \<le> n \<and> n < 24" "bit (0xff000000 :: int) n \<longleftrightarrow> 24 \<le> n \<and> n < 32"
proof -
  have m: "(255 :: int) = mask 8" "(0xff00 :: int) = push_bit 8 (mask 8)" "(0xff0000 :: int) = push_bit 16 (mask 8)"
    "(0xff000000 :: int) = push_bit 24 (mask 8)"
    by (simp_all add: mask_eq_exp_minus_1 push_bit_eq_mult)
  show "bit (255 :: int) n \<longleftrightarrow> n < 8" unfolding m(1) by (auto simp: bit_simps)
  show "bit (0xff00 :: int) n \<longleftrightarrow> 8 \<le> n \<and> n < 16" unfolding m(2) by (auto simp: bit_simps)
  show "bit (0xff0000 :: int) n \<longleftrightarrow> 16 \<le> n \<and> n < 24" unfolding m(3) by (auto simp: bit_simps)
  show "bit (0xff000000 :: int) n \<longleftrightarrow> 24 \<le> n \<and> n < 32" unfolding m(4) by (auto simp: bit_simps)
qed

lemma byte_bit: "8 \<le> n \<Longrightarrow> \<not> bit (b :: byte) n"
  using bit_imp_le_length [of b n] by auto

lemma word_swizzle_pixel: "put_le32 (word_swizzle (le32 b g r a)) = [r, g, b, 255]"
proof -
  have "ucast (word_swizzle (le32 b g r a)) = r"
    by (rule bit_word_eqI) (auto simp: word_swizzle_def le32_def bit_simps mask_bits byte_bit)
  moreover have "ucast (drop_bit 8 (word_swizzle (le32 b g r a))) = g"
    by (rule bit_word_eqI) (auto simp: word_swizzle_def le32_def bit_simps mask_bits byte_bit)
  moreover have "ucast (drop_bit 16 (word_swizzle (le32 b g r a))) = b"
    by (rule bit_word_eqI) (auto simp: word_swizzle_def le32_def bit_simps mask_bits byte_bit)
  moreover have "ucast (drop_bit 24 (word_swizzle (le32 b g r a))) = (255 :: byte)"
    by (rule bit_word_eqI) (auto simp: word_swizzle_def le32_def bit_simps mask_bits byte_bit)
  ultimately show ?thesis by (simp add: put_le32_def)
qed

lemma length_rgba [simp]: "length (rgba n bs) = length bs"
  by (induction n bs rule: rgba.induct) simp_all

lemma swizzle_words_rgba: "4 * n \<le> length bytes \<Longrightarrow> swizzle_words (4 * n) bytes = rgba n bytes"
proof (induction n bytes rule: rgba.induct)
  case (1 n b g r a bs)
  then have "concat (map put_le32 (map word_swizzle (view_words n bs))) @ drop (4 * length (view_words n bs)) bs = rgba n bs"
    by (simp add: swizzle_words_def)
  moreover have "drop (4 + m) (b # g # r # a # bs) = drop m bs" for m by (simp add: eval_nat_numeral)
  ultimately show ?case by (simp add: swizzle_words_def word_swizzle_pixel)
qed (simp_all add: swizzle_words_def)

lemma swizzle_bytes_pixel:
  "length pre < e \<Longrightarrow>
   swizzle_bytes (length pre) e (pre @ b # g # r # a # bs) = swizzle_bytes (length pre + 4) e ((pre @ [r, g, b, 255]) @ bs)"
  by (simp add: swizzle_bytes.simps [of "length pre"] nth_append list_update_append numeral_2_eq_2 numeral_3_eq_3 Let_def)

lemma swizzle_bytes_rgba:
  "4 * n \<le> length bytes \<Longrightarrow> swizzle_bytes (length pre) (length pre + 4 * n) (pre @ bytes) = pre @ rgba n bytes"
proof (induction n bytes arbitrary: pre rule: rgba.induct)
  case (1 n b g r a bs)
  let ?pre = "pre @ [r, g, b, 255]"
  have IH: "swizzle_bytes (length ?pre) (length ?pre + 4 * n) (?pre @ bs) = ?pre @ rgba n bs"
    using 1(2) by (intro 1(1)) simp
  have e: "length ?pre + 4 * n = length pre + 4 * Suc n" by simp
  have l: "length ?pre = length pre + 4" by simp
  have "swizzle_bytes (length pre) (length pre + 4 * Suc n) (pre @ b # g # r # a # bs)
      = swizzle_bytes (length ?pre) (length ?pre + 4 * n) (?pre @ bs)"
    unfolding e unfolding l by (rule swizzle_bytes_pixel) simp
  also note IH
  finally show ?case by simp
qed (simp_all add: swizzle_bytes.simps)

text \<open>On every view that holds its \<open>n\<close> pixels, the word-at-a-time loop and the byte loop of the
  channel exchange give the same bytes, those of the reference: red and blue swapped, alpha opaque,
  and nothing beyond the pixels touched.\<close>

theorem swizzle_paths_agree:
  assumes "4 * n \<le> length bytes"
  shows "swizzle byteOffset (4 * n) bytes = rgba n bytes
    \<and> swizzle_words (4 * n) bytes = swizzle_bytes 0 (4 * n) bytes
    \<and> length (swizzle byteOffset (4 * n) bytes) = length bytes"
  using swizzle_words_rgba [OF assms] swizzle_bytes_rgba [OF assms, of "[]"] by (simp add: swizzle_def)

theorem swizzle_paths_agree_witness:
  "swizzle 1 4 [1, 2, 3, 4, 9] = [3, 2, 1, 255, 9] \<and> swizzle 0 4 [1, 2, 3, 4, 9] = swizzle 1 4 [1, 2, 3, 4, 9]"
  using swizzle_paths_agree [of 1 "[1, 2, 3, 4, 9]" 0] swizzle_paths_agree [of 1 "[1, 2, 3, 4, 9]" 1]
  by (simp add: eval_nat_numeral)

section \<open>Inflating\<close>

text \<open>\<open>out.set(xs, off)\<close> on an array that has room for it\<close>

definition bytes_set :: "byte list \<Rightarrow> nat \<Rightarrow> byte list \<Rightarrow> byte list" where
  "bytes_set out off xs = take off out @ xs @ drop (off + length xs) out"

text \<open>The reader's loop; a chunk without a value is skipped.\<close>

fun gather :: "nat \<Rightarrow> byte list option list \<Rightarrow> byte list \<Rightarrow> nat \<Rightarrow> byte list \<times> nat" where
  "gather expected [] out off = (out, off)"
| "gather expected (None # chunks) out off = gather expected chunks out off"
| "gather expected (Some v # chunks) out off =
     (let k = min (length v) (expected - off)
      in if k > 0 then gather expected chunks (bytes_set out off (take k v)) (off + k)
         else gather expected chunks out off)"

text \<open>An error is kept as the text that \<open>String(error)\<close> gives.\<close>

definition too_small :: "string \<Rightarrow> nat \<Rightarrow> nat \<Rightarrow> string" where
  "too_small what got need =
     ''Error: '' @ what @ '' BGRA payload too small'' @ (if what = ''raw'' then '''' else '' after inflate'')
     @ '': got '' @ show_nat got @ '', need '' @ show_nat need"

text \<open>A stream is the chunks that it yields and the error it ends with, if any.\<close>

type_synonym inflate_stream = "byte list option list \<times> string option"

definition decompressViaStream :: "string \<Rightarrow> inflate_stream \<Rightarrow> nat \<Rightarrow> string + byte list" where
  "decompressViaStream fmt stream expected =
     (case snd stream of
        Some e \<Rightarrow> Inl e
      | None \<Rightarrow>
          (case gather expected (fst stream) (replicate expected 0) 0 of
             (out, off) \<Rightarrow> if off < expected then Inl (too_small fmt off expected) else Inr out))"

definition zstdDecompressWasm :: "(string + byte list) \<Rightarrow> nat \<Rightarrow> string + byte list" where
  "zstdDecompressWasm wasm expected =
     (case wasm of
        Inl e \<Rightarrow> Inl e
      | Inr out \<Rightarrow> if length out < expected then Inl (too_small ''zstd'' (length out) expected) else Inr out)"

text \<open>
  What the worker asks of the browser and of the libraries when it decodes a payload, and the
  capabilities it remembers. \<open>unzlib\<close> inflates into an array of the given size.
\<close>

record decode_env =
  constructs_zstd :: bool
  zstd_stream :: "byte list \<Rightarrow> inflate_stream"
  zstd_wasm :: "byte list \<Rightarrow> string + byte list"
  unzlib :: "nat \<Rightarrow> byte list \<Rightarrow> string + byte list"
  constructs_bgrx :: bool
  bgrx_bitmap :: bool
  data_bitmap :: "string option"
  byteOffset :: nat
  has_imageDecoder :: bool
  imageDecoder_ok :: bool
  blob_bitmap :: bool
  js_decoder :: "string option"

record codec_flags =
  nativeZstdSupported :: "bool option"
  videoFrameBGRXSupported :: "bool option"
  inflateScratch :: "nat option"

definition new_flags :: codec_flags where
  "new_flags = \<lparr>nativeZstdSupported = None, videoFrameBGRXSupported = None, inflateScratch = None\<rparr>"

definition supportsNativeZstd :: "decode_env \<Rightarrow> codec_flags \<Rightarrow> bool \<times> codec_flags" where
  "supportsNativeZstd env fl =
     (case nativeZstdSupported fl of
        Some b \<Rightarrow> (b, fl)
      | None \<Rightarrow> (constructs_zstd env, fl\<lparr>nativeZstdSupported := Some (constructs_zstd env)\<rparr>))"

definition supportsVideoFrameBGRX :: "decode_env \<Rightarrow> codec_flags \<Rightarrow> bool \<times> codec_flags" where
  "supportsVideoFrameBGRX env fl =
     (case videoFrameBGRXSupported fl of
        Some b \<Rightarrow> (b, fl)
      | None \<Rightarrow> (constructs_bgrx env, fl\<lparr>videoFrameBGRXSupported := Some (constructs_bgrx env)\<rparr>))"

definition zstdDecompress :: "decode_env \<Rightarrow> byte list \<Rightarrow> nat \<Rightarrow> codec_flags \<Rightarrow> (string + byte list) \<times> codec_flags" where
  "zstdDecompress env payload expected fl =
     (case supportsNativeZstd env fl of
        (native, fl1) \<Rightarrow>
          if native then
            (case decompressViaStream ''zstd'' (zstd_stream env payload) expected of
               Inr out \<Rightarrow> (Inr out, fl1)
             | Inl _ \<Rightarrow> (zstdDecompressWasm (zstd_wasm env payload) expected, fl1\<lparr>nativeZstdSupported := Some False\<rparr>))
          else (zstdDecompressWasm (zstd_wasm env payload) expected, fl1))"

text \<open>The scratch array is as long as the largest surface so far; the frame is inflated into its front.\<close>

definition ensureInflateScratch :: "nat \<Rightarrow> codec_flags \<Rightarrow> codec_flags" where
  "ensureInflateScratch byteLength fl =
     (case inflateScratch fl of
        Some n \<Rightarrow> if n < byteLength then fl\<lparr>inflateScratch := Some byteLength\<rparr> else fl
      | None \<Rightarrow> fl\<lparr>inflateScratch := Some byteLength\<rparr>)"

definition zlibInflate :: "decode_env \<Rightarrow> byte list \<Rightarrow> nat \<Rightarrow> string + byte list" where
  "zlibInflate env payload expected =
     (case unzlib env expected payload of
        Inl e \<Rightarrow> Inl e
      | Inr inflated \<Rightarrow>
          if length inflated < expected then Inl (too_small ''zlib'' (length inflated) expected) else Inr inflated)"

section \<open>BGRA frames\<close>

text \<open>The picture that a bitmap is made of: BGRX bytes that the browser maps itself, or RGBA bytes\<close>

datatype picture = BgrxPicture "byte list" | RgbaPicture "byte list"

definition frame_bytes :: "FrameRectMeta \<Rightarrow> nat" where
  "frame_bytes frame = nat (fr_width frame * fr_height frame * 4)"

text \<open>The BGRA bytes of a surface: those of the WebGPU path, and those that the bitmap is made of\<close>

definition bgra_bytes :: "decode_env \<Rightarrow> FrameRectMeta \<Rightarrow> byte list \<Rightarrow> bool \<Rightarrow> codec_flags \<Rightarrow> (string + byte list) \<times> codec_flags" where
  "bgra_bytes env frame payload gpu fl =
     (let expected = frame_bytes frame in
      if fr_encoding frame = ZstdBgra then
        (case zstdDecompress env payload expected fl of
           (Inl e, fl1) \<Rightarrow> (Inl e, fl1)
         | (Inr out, fl1) \<Rightarrow> (Inr (if length out = expected then out else take expected out), fl1))
      else if fr_encoding frame = ZlibBgra then
        (zlibInflate env payload expected, if gpu then fl else ensureInflateScratch expected fl)
      else if length payload < expected then (Inl (too_small ''raw'' (length payload) expected), fl)
      else (Inr (if gpu \<and> length payload \<noteq> expected then take expected payload else payload), fl))"

definition swizzled_bitmap :: "decode_env \<Rightarrow> nat \<Rightarrow> byte list \<Rightarrow> string + picture" where
  "swizzled_bitmap env expected bytes =
     (case data_bitmap env of
        Some e \<Rightarrow> Inl e
      | None \<Rightarrow> Inr (RgbaPicture (take expected (swizzle (byteOffset env) expected bytes))))"

definition bgra_bitmap :: "decode_env \<Rightarrow> nat \<Rightarrow> byte list \<Rightarrow> codec_flags \<Rightarrow> (string + picture) \<times> codec_flags" where
  "bgra_bitmap env expected bytes fl =
     (case supportsVideoFrameBGRX env fl of
        (bgrx, fl1) \<Rightarrow>
          if bgrx then
            if bgrx_bitmap env then (Inr (BgrxPicture (take expected bytes)), fl1)
            else (swizzled_bitmap env expected bytes, fl1\<lparr>videoFrameBGRXSupported := Some False\<rparr>)
          else (swizzled_bitmap env expected bytes, fl1))"

text \<open>A decoded frame, with the picture of its bitmap, if it has one\<close>

definition decodeBgraFrame ::
  "decode_env \<Rightarrow> FrameRectMeta \<Rightarrow> byte list \<Rightarrow> bool \<Rightarrow> codec_flags
    \<Rightarrow> (string + (DecodedFrame \<times> picture option)) \<times> codec_flags" where
  "decodeBgraFrame env frame payload gpu fl =
     (case bgra_bytes env frame payload gpu fl of
        (Inl e, fl1) \<Rightarrow> (Inl e, fl1)
      | (Inr bytes, fl1) \<Rightarrow>
          if gpu then
            (Inr (\<lparr>dec_frame = frame, dec_pixels = Bgra bytes, dec_path = Some ImageBitmapPath\<rparr>, None), fl1)
          else
            (case bgra_bitmap env (frame_bytes frame) bytes fl1 of
               (Inl e, fl2) \<Rightarrow> (Inl e, fl2)
             | (Inr pic, fl2) \<Rightarrow>
                 (Inr (\<lparr>dec_frame = frame, dec_pixels = Bitmap, dec_path = Some ImageBitmapPath\<rparr>, Some pic), fl2)))"

section \<open>Encoded images\<close>

definition decodeJpegOrPng :: "decode_env \<Rightarrow> FrameRectMeta \<Rightarrow> string + DecodedFrame" where
  "decodeJpegOrPng env frame =
     (if has_imageDecoder env \<and> imageDecoder_ok env then
        Inr \<lparr>dec_frame = frame, dec_pixels = Bitmap, dec_path = Some ImageDecoderPath\<rparr>
      else if blob_bitmap env then
        Inr \<lparr>dec_frame = frame, dec_pixels = Bitmap, dec_path = Some ImageBitmapPath\<rparr>
      else (case js_decoder env of
              Some e \<Rightarrow> Inl e
            | None \<Rightarrow> Inr \<lparr>dec_frame = frame, dec_pixels = ImageData, dec_path = Some JsPath\<rparr>))"

definition validateFrame :: "FrameRectMeta \<Rightarrow> string option" where
  "validateFrame frame =
     (if fr_x frame < 0 \<or> fr_y frame < 0 \<or> fr_width frame \<le> 0 \<or> fr_height frame \<le> 0
      then Some ''invalid frame bounds'' else None)"

section \<open>What is delivered\<close>

definition stream_data :: "byte list option list \<Rightarrow> byte list" where
  "stream_data chunks = concat (map (\<lambda>c. nullish c []) chunks)"

lemma stream_data_simps [simp]:
  "stream_data [] = []" "stream_data (None # cs) = stream_data cs" "stream_data (Some v # cs) = v @ stream_data cs"
  by (simp_all add: stream_data_def nullish_simps)

lemma bytes_set_prefix:
  "off + length xs \<le> length out \<Longrightarrow> take (off + length xs) (bytes_set out off xs) = take off out @ xs"
  by (simp add: bytes_set_def)

lemma length_bytes_set: "off + length xs \<le> length out \<Longrightarrow> length (bytes_set out off xs) = length out"
  by (simp add: bytes_set_def)

lemma gather_spec:
  assumes "length out = expected" "off \<le> expected"
  shows "snd (gather expected chunks out off) = min expected (off + length (stream_data chunks))
    \<and> length (fst (gather expected chunks out off)) = expected
    \<and> take (snd (gather expected chunks out off)) (fst (gather expected chunks out off))
        = take off out @ take (expected - off) (stream_data chunks)"
  using assms
proof (induction expected chunks out off rule: gather.induct)
  case 2
  then show ?case unfolding gather.simps stream_data_simps by blast
next
  case (3 expected v chunks out off)
  let ?k = "min (length v) (expected - off)"
  show ?case
  proof (cases "0 < ?k")
    case True
    let ?out = "bytes_set out off (take ?k v)"
    have le: "off + ?k \<le> expected" and lk: "length (take ?k v) = ?k" using "3.prems" by simp_all
    then have len: "length ?out = expected" using "3.prems" by (simp add: length_bytes_set)
    have pre: "take (off + ?k) ?out = take off out @ take ?k v"
      using bytes_set_prefix [of off "take ?k v" out] le "3.prems" unfolding lk by simp
    have data: "take (expected - off) (v @ stream_data chunks) = take ?k v @ take (expected - (off + ?k)) (stream_data chunks)"
      "min expected (off + ?k + length (stream_data chunks)) = min expected (off + length (v @ stream_data chunks))"
      by (auto simp: min_def)
    have step: "gather expected (Some v # chunks) out off = gather expected chunks ?out (off + ?k)"
      using True by (simp add: Let_def)
    show ?thesis
      using "3.IH"(1) [OF refl True len le] unfolding step pre data stream_data_simps append_assoc by blast
  next
    case False
    then have "v = [] \<or> off = expected" using "3.prems"(2) by auto
    then show ?thesis using 3 False by (auto simp: Let_def)
  qed
qed simp_all

lemma decompress_stream:
  "decompressViaStream fmt (chunks, None) expected =
     (if length (stream_data chunks) < expected then Inl (too_small fmt (length (stream_data chunks)) expected)
      else Inr (take expected (stream_data chunks)))"
proof -
  obtain out off where g: "gather expected chunks (replicate expected 0) 0 = (out, off)" by (cases "gather expected chunks (replicate expected 0) 0")
  have "off = min expected (length (stream_data chunks)) \<and> length out = expected \<and> take off out = take expected (stream_data chunks)"
    using gather_spec [OF length_replicate le0, of expected chunks 0]
    unfolding g fst_conv snd_conv take_0 append_Nil add_0 minus_nat.diff_0 .
  then show ?thesis using g
    by (cases "length (stream_data chunks) < expected") (auto simp: decompressViaStream_def)
qed

lemma decompress_failed: "decompressViaStream fmt (chunks, Some e) n = Inl e"
  by (simp add: decompressViaStream_def)

text \<open>The inflated texts that the worker may take a frame from, and the bytes that a picture shows\<close>

definition bgra_sources :: "decode_env \<Rightarrow> FrameRectMeta \<Rightarrow> byte list \<Rightarrow> codec_flags \<Rightarrow> byte list list" where
  "bgra_sources env frame payload fl =
     (if fr_encoding frame = ZstdBgra then
        (if fst (supportsNativeZstd env fl) then
           (case zstd_stream env payload of (chunks, None) \<Rightarrow> [stream_data chunks] | _ \<Rightarrow> []) else [])
        @ (case zstd_wasm env payload of Inr out \<Rightarrow> [out] | Inl _ \<Rightarrow> [])
      else if fr_encoding frame = ZlibBgra then
        (case unzlib env (frame_bytes frame) payload of Inr out \<Rightarrow> [out] | Inl _ \<Rightarrow> [])
      else [payload])"

definition shown :: "FrameRectMeta \<Rightarrow> picture \<Rightarrow> byte list" where
  "shown frame pic = (case pic of BgrxPicture bs \<Rightarrow> rgba (frame_bytes frame div 4) bs | RgbaPicture bs \<Rightarrow> bs)"

lemma zstd_result:
  "case fst (zstdDecompress env payload n fl) of
     Inl e \<Rightarrow> \<forall>src \<in> set (bgra_sources env f payload fl). length src < n
   | Inr out \<Rightarrow> \<exists>src \<in> set (bgra_sources env f payload fl). n \<le> length src \<and> n \<le> length out \<and> take n out = take n src"
  if "fr_encoding f = ZstdBgra"
proof -
  obtain native fl1 where nf: "supportsNativeZstd env fl = (native, fl1)" by (cases "supportsNativeZstd env fl")
  obtain chunks failure where st: "zstd_stream env payload = (chunks, failure)" by (cases "zstd_stream env payload")
  have wasm: "case zstdDecompressWasm (zstd_wasm env payload) n of
      Inl e \<Rightarrow> (case zstd_wasm env payload of Inr out \<Rightarrow> length out < n | Inl _ \<Rightarrow> True)
    | Inr out \<Rightarrow> zstd_wasm env payload = Inr out \<and> n \<le> length out"
    by (cases "zstd_wasm env payload") (auto simp: zstdDecompressWasm_def)
  show ?thesis
  proof (cases native)
    case False
    then show ?thesis using wasm nf that
      by (auto simp: zstdDecompress_def bgra_sources_def split: sum.splits prod.splits option.splits)
  next
    case True
    then show ?thesis using wasm nf st that
      by (cases failure)
         (auto simp: zstdDecompress_def bgra_sources_def decompress_stream decompress_failed split: sum.splits if_splits)
  qed
qed

lemma bgra_bytes_exact:
  assumes "\<forall>n p out. unzlib env n p = Inr out \<longrightarrow> length out \<le> n"
  shows "case fst (bgra_bytes env f payload gpu fl) of
     Inl e \<Rightarrow> \<forall>src \<in> set (bgra_sources env f payload fl). length src < frame_bytes f
   | Inr bytes \<Rightarrow> frame_bytes f \<le> length bytes \<and> (gpu \<longrightarrow> length bytes = frame_bytes f)
       \<and> (\<exists>src \<in> set (bgra_sources env f payload fl).
            frame_bytes f \<le> length src \<and> take (frame_bytes f) bytes = take (frame_bytes f) src)"
proof (cases "fr_encoding f = ZstdBgra")
  case True
  obtain r fl1 where r: "zstdDecompress env payload (frame_bytes f) fl = (r, fl1)"
    by (cases "zstdDecompress env payload (frame_bytes f) fl")
  show ?thesis
  proof (cases r)
    case (Inl e)
    then show ?thesis using zstd_result [OF True, where env = env and payload = payload and n = "frame_bytes f" and fl = fl] r True
      by (simp add: bgra_bytes_def)
  next
    case (Inr out)
    then show ?thesis using zstd_result [OF True, where env = env and payload = payload and n = "frame_bytes f" and fl = fl] r True
      by (auto simp: bgra_bytes_def Let_def)
  qed
next
  case False
  show ?thesis
  proof (cases "unzlib env (frame_bytes f) payload")
    case (Inl e)
    then show ?thesis using False by (auto simp: bgra_bytes_def bgra_sources_def zlibInflate_def Let_def)
  next
    case (Inr out)
    have "length out \<le> frame_bytes f" using assms Inr by blast
    then show ?thesis using False Inr by (auto simp: bgra_bytes_def bgra_sources_def zlibInflate_def Let_def)
  qed
qed

lemma frame_bytes_pixels: "frame_bytes f = 4 * (frame_bytes f div 4)"
proof -
  have "nat (z * 4) = 4 * nat z" for z :: int by simp
  then have "frame_bytes f = 4 * nat (fr_width f * fr_height f)" by (simp only: frame_bytes_def)
  then show ?thesis by simp
qed

lemma take_rgba: "4 * n \<le> length bs \<Longrightarrow> take (4 * n) (rgba n bs) = rgba n (take (4 * n) bs)"
proof (induction n arbitrary: bs)
  case (Suc n)
  then obtain b g r a bs' where "bs = b # g # r # a # bs'"
    by (cases bs; cases "tl bs"; cases "tl (tl bs)"; cases "tl (tl (tl bs))") auto
  then show ?case using Suc by (simp add: eval_nat_numeral)
qed simp

lemma shown_bitmap:
  assumes "frame_bytes f \<le> length bytes"
  shows "case fst (bgra_bitmap env (frame_bytes f) bytes fl) of
     Inl _ \<Rightarrow> data_bitmap env \<noteq> None
   | Inr pic \<Rightarrow> shown f pic = rgba (frame_bytes f div 4) (take (frame_bytes f) bytes)"
proof -
  define n where "n = frame_bytes f div 4"
  have fb: "frame_bytes f = 4 * n" unfolding n_def by (rule frame_bytes_pixels)
  have "swizzle (byteOffset env) (4 * n) bytes = rgba n bytes"
    using swizzle_words_rgba [of n bytes] swizzle_bytes_rgba [of n bytes "[]"] assms fb by (simp add: swizzle_def)
  moreover have "take (4 * n) (rgba n bytes) = rgba n (take (4 * n) bytes)" using assms fb by (simp add: take_rgba)
  ultimately show ?thesis
    by (auto simp: bgra_bitmap_def swizzled_bitmap_def shown_def fb split: prod.split option.split)
qed

text \<open>C24: A BGRA frame is delivered with exactly the bytes of its rectangle, the first of what its payload
  inflates to, and its picture shows them whichever of the browser's facilities is used; it fails only
  when everything the payload inflates to is too short, or no bitmap can be made.\<close>

theorem bgra_frame_exact:
  assumes "\<forall>n p out. unzlib env n p = Inr out \<longrightarrow> length out \<le> n"
  shows "case fst (decodeBgraFrame env f payload gpu fl) of
     Inl _ \<Rightarrow> (\<forall>src \<in> set (bgra_sources env f payload fl). length src < frame_bytes f)
        \<or> (\<not> gpu \<and> data_bitmap env \<noteq> None)
   | Inr (d, pic) \<Rightarrow> dec_frame d = f
       \<and> (\<exists>src \<in> set (bgra_sources env f payload fl). frame_bytes f \<le> length src
            \<and> (if gpu then dec_pixels d = Bgra (take (frame_bytes f) src) \<and> pic = None
               else dec_pixels d = Bitmap
                 \<and> map_option (shown f) pic = Some (rgba (frame_bytes f div 4) (take (frame_bytes f) src))))"
proof (cases "bgra_bytes env f payload gpu fl")
  case (Pair r fl1)
  note exact = bgra_bytes_exact [OF assms, where f = f and payload = payload and gpu = gpu and fl = fl, unfolded Pair fst_conv]
  show ?thesis
  proof (cases r)
    case (Inl e)
    then show ?thesis using exact Pair by (simp add: decodeBgraFrame_def)
  next
    case (Inr bytes)
    then obtain src where src: "src \<in> set (bgra_sources env f payload fl)" "frame_bytes f \<le> length src"
        "take (frame_bytes f) bytes = take (frame_bytes f) src"
      and bytes: "frame_bytes f \<le> length bytes" "gpu \<Longrightarrow> length bytes = frame_bytes f"
      using exact by auto
    obtain b fl2 where b: "bgra_bitmap env (frame_bytes f) bytes fl1 = (b, fl2)"
      by (cases "bgra_bitmap env (frame_bytes f) bytes fl1")
    show ?thesis
      using Pair Inr src bytes shown_bitmap [OF bytes(1), where env = env and fl = fl1, unfolded b fst_conv] b
      by (cases gpu; cases b) (auto simp: decodeBgraFrame_def)
  qed
qed

definition demo_env :: decode_env where
  "demo_env =
     \<lparr>constructs_zstd = False, zstd_stream = (\<lambda>p. ([], Some ''TypeError'')), zstd_wasm = (\<lambda>p. Inr (p @ [7, 7])),
      unzlib = (\<lambda>n p. Inr (take n (p @ p))), constructs_bgrx = False, bgrx_bitmap = False, data_bitmap = None,
      byteOffset = 1, has_imageDecoder = False, imageDecoder_ok = False, blob_bitmap = True, js_decoder = None\<rparr>"

theorem bgra_frame_exact_witness:
  "fst (decodeBgraFrame demo_env \<lparr>fr_x = 0, fr_y = 0, fr_width = 2, fr_height = 1, fr_encoding = ZlibBgra, fr_keyframe = None\<rparr>
     [1, 2, 3, 4] False new_flags)
   = Inr (\<lparr>dec_frame = \<lparr>fr_x = 0, fr_y = 0, fr_width = 2, fr_height = 1, fr_encoding = ZlibBgra, fr_keyframe = None\<rparr>,
           dec_pixels = Bitmap, dec_path = Some ImageBitmapPath\<rparr>, Some (RgbaPicture [3, 2, 1, 255, 3, 2, 1, 255]))
   \<and> (\<exists>src \<in> set (bgra_sources demo_env \<lparr>fr_x = 0, fr_y = 0, fr_width = 2, fr_height = 1, fr_encoding = ZlibBgra, fr_keyframe = None\<rparr>
        [1, 2, 3, 4] new_flags). rgba 2 (take 8 src) = [3, 2, 1, 255, 3, 2, 1, 255])"
proof -
  let ?f = "\<lparr>fr_x = 0, fr_y = 0, fr_width = 2, fr_height = 1, fr_encoding = ZlibBgra, fr_keyframe = None\<rparr>"
  have bound: "\<forall>n p out. unzlib demo_env n p = Inr out \<longrightarrow> length out \<le> n" by (auto simp: demo_env_def)
  have fb: "frame_bytes ?f = 8" by (simp add: frame_bytes_def)
  have run: "fst (decodeBgraFrame demo_env ?f [1, 2, 3, 4] False new_flags)
      = Inr (\<lparr>dec_frame = ?f, dec_pixels = Bitmap, dec_path = Some ImageBitmapPath\<rparr>, Some (RgbaPicture [3, 2, 1, 255, 3, 2, 1, 255]))"
    by code_simp
  show ?thesis
    using bgra_frame_exact [OF bound, where f = ?f and payload = "[1, 2, 3, 4]" and gpu = False and fl = new_flags] run
    by (auto simp: fb shown_def)
qed

end
