(* ===== verification/Machine.thy ===== *)
theory Machine
  imports Prelude
begin

text \<open>
  Event machines. A component whose methods are called by the user, by timers and by the network is a
  type of events with a partial function that performs one; an event that cannot happen in a
  state is \<open>None\<close> there. A run performs a list of events, so that what holds of all runs holds of every
  interleaving. The locale \<open>machine\<close> lifts an invariant of the steps to the runs, and \<open>draining\<close>
  bounds the number of the events that consume a measure which no other event raises by more than
  it is charged for.
\<close>

fun run_steps :: "('e \<Rightarrow> 's \<Rightarrow> 's option) \<Rightarrow> 'e list \<Rightarrow> 's \<Rightarrow> 's option" where
  "run_steps step [] s = Some s"
| "run_steps step (e # es) s = (case step e s of None \<Rightarrow> None | Some s' \<Rightarrow> run_steps step es s')"

lemma run_steps_append:
  "run_steps step (es @ fs) s = Option.bind (run_steps step es s) (run_steps step fs)"
  by (induction es arbitrary: s) (simp_all split: option.split)

lemma run_steps_ConsE:
  assumes "run_steps step (e # es) s = Some t"
  obtains s' where "step e s = Some s'" "run_steps step es s' = Some t"
  using assms by (auto split: option.splits)

text \<open>A run in which every event satisfies \<open>P\<close> is a run of the machine that admits only those.\<close>

definition only_steps :: "('e \<Rightarrow> bool) \<Rightarrow> ('e \<Rightarrow> 's \<Rightarrow> 's option) \<Rightarrow> 'e \<Rightarrow> 's \<Rightarrow> 's option" where
  "only_steps P step e s = (if P e then step e s else None)"

lemma run_only_steps: "list_all P es \<Longrightarrow> run_steps (only_steps P step) es s = run_steps step es s"
  by (induction es arbitrary: s) (simp_all add: only_steps_def split: option.split)

locale machine =
  fixes step :: "'e \<Rightarrow> 's \<Rightarrow> 's option" and inv :: "'s \<Rightarrow> bool"
  assumes step_inv: "inv s \<Longrightarrow> step e s = Some s' \<Longrightarrow> inv s'"
begin

lemma run_inv: "run_steps step es s = Some t \<Longrightarrow> inv s \<Longrightarrow> inv t"
  by (induction es arbitrary: s) (auto elim!: run_steps_ConsE simp del: run_steps.simps(2) intro: step_inv)

end

locale draining = machine +
  fixes work :: "'s \<Rightarrow> nat" and charge :: "'e \<Rightarrow> nat" and consumes :: "'e \<Rightarrow> bool"
  assumes drains: "inv s \<Longrightarrow> step e s = Some s' \<Longrightarrow> work s' + (if consumes e then 1 else 0) \<le> work s + charge e"
begin

lemma run_drains:
  "run_steps step es s = Some t \<Longrightarrow> inv s \<Longrightarrow>
   work t + length (filter consumes es) \<le> work s + sum_list (map charge es)"
proof (induction es arbitrary: s)
  case (Cons e es)
  from Cons.prems(1) obtain s' where s': "step e s = Some s'" "run_steps step es s' = Some t"
    by (rule run_steps_ConsE)
  show ?case using Cons.IH [OF s'(2) step_inv [OF Cons.prems(2) s'(1)]] drains [OF Cons.prems(2) s'(1)]
    by (auto split: if_splits)
qed simp

end

end
