(* ===== verification/DecodeWorker.thy ===== *)
theory DecodeWorker
  imports PixelCodec Machine
begin

text \<open>
  The decode worker of the remote desktop, \<open>lib/desktop/decode.worker.ts\<close>: its message handler, which
  decodes the frames of a batch one after the other and answers with those that decoded, and the life
  cycle of its H.264 decoder. A handler that waits for the probe of the codec, for a chunk it
  gave to the decoder or for a native decoder is a job; the events of the model are what the
  browser answers. The continuations of settled promises run at once. Decoder objects are
  numbered; the messages of the worker are its \<open>outbox\<close>.
\<close>

section \<open>State\<close>

record message =
  msg_id :: nat
  msg_frames :: "FrameBytes list"
  msg_gpu :: bool

datatype waiting = AwaitProbe | AwaitChunk nat | AwaitNative

record job =
  job_msg :: message
  job_pos :: nat
  job_out :: "DecodedFrame list"
  job_wait :: waiting

text \<open>\<open>Skipped e\<close> is the warning that a frame was skipped because of \<open>e\<close>.\<close>

datatype worker_out = Warned string | Skipped string | RefreshNeeded | Reply nat "DecodedFrame list"

record video_worker =
  flags :: codec_flags
  warnedRFX :: bool
  videoDecoder :: "nat option"
  videoDecoderConfigured :: bool
  videoDecoderProbed :: "bool option"
  h264TimestampSeq :: nat
  pendingH264 :: "(nat \<times> nat \<times> FrameRectMeta) list"
  hasSeenH264Keyframe :: bool
  delivering :: "(nat \<times> FrameRectMeta \<times> int \<times> int) list"
  created :: nat
  chunks :: "(nat \<times> bool) list"
  jobs :: "job list"
  outbox :: "worker_out list"
  messages :: "message list"

definition new_worker :: video_worker where
  "new_worker =
     \<lparr>flags = new_flags, warnedRFX = False, videoDecoder = None, videoDecoderConfigured = False,
      videoDecoderProbed = None, h264TimestampSeq = 0, pendingH264 = [], hasSeenH264Keyframe = False,
      delivering = [], created = 0, chunks = [], jobs = [], outbox = [], messages = []\<rparr>"

text \<open>What the browser does while a frame is started or a batch is answered\<close>

record frame_env =
  supportsVideoDecoder :: bool
  create_raises :: "string option"
  decodeQueueSize :: nat
  decode_raises :: "string option"
  transfer_raises :: "string option"

definition say :: "worker_out list \<Rightarrow> video_worker \<Rightarrow> video_worker" where
  "say outs w = w\<lparr>outbox := outbox w @ outs\<rparr>"

definition js_error :: "string \<Rightarrow> string" where
  "js_error msg = ''Error: '' @ msg"

section \<open>The H.264 decoder\<close>

text \<open>
  \<open>ensureVideoDecoder\<close> once the probe is known: \<open>Inr None\<close> is the \<open>null\<close> it returns. An old decoder
  is closed, which settles nothing.
\<close>

definition ensure_probed :: "frame_env \<Rightarrow> bool \<Rightarrow> video_worker \<Rightarrow> (string + nat option) \<times> video_worker" where
  "ensure_probed e ok w =
     (if \<not> ok then (Inr None, w)
      else
        let w1 = w\<lparr>videoDecoder := None\<rparr> in
        case create_raises e of
          Some msg \<Rightarrow> (Inl msg, w1)
        | None \<Rightarrow> (Inr (Some (created w1)),
                   w1\<lparr>created := created w1 + 1, videoDecoder := Some (created w1), videoDecoderConfigured := True\<rparr>))"

text \<open>\<open>None\<close> is the probe under way.\<close>

definition ensureVideoDecoder :: "frame_env \<Rightarrow> video_worker \<Rightarrow> (string + nat option) option \<times> video_worker" where
  "ensureVideoDecoder e w =
     (if videoDecoder w \<noteq> None \<and> videoDecoderConfigured w then (Some (Inr (videoDecoder w)), w)
      else if \<not> supportsVideoDecoder e then (Some (Inr None), w)
      else (case videoDecoderProbed w of
              None \<Rightarrow> (None, w)
            | Some ok \<Rightarrow> apfst Some (ensure_probed e ok w)))"

text \<open>A chunk that the decoder has queued is one of those pending.\<close>

definition queued :: "frame_env \<Rightarrow> video_worker \<Rightarrow> nat" where
  "queued e w = min (decodeQueueSize e) (length (pendingH264 w))"

definition is_key :: "FrameRectMeta \<Rightarrow> bool" where
  "is_key f \<longleftrightarrow> fr_keyframe f = Some True"

definition submit_chunk :: "frame_env \<Rightarrow> FrameRectMeta \<Rightarrow> nat \<Rightarrow> video_worker \<Rightarrow> (string + waiting) \<times> video_worker" where
  "submit_chunk e f d w =
     (if queued e w = 0 \<and> \<not> is_key f \<and> pendingH264 w = [] \<and> \<not> hasSeenH264Keyframe w then
        (Inl (js_error ''H.264 delta frame arrived before keyframe; waiting for next IDR''), w)
      else
        let ts = h264TimestampSeq w + 1;
            w1 = w\<lparr>hasSeenH264Keyframe := hasSeenH264Keyframe w \<or> is_key f, h264TimestampSeq := ts,
                   chunks := chunks w @ [(d, is_key f)]\<rparr>
        in case decode_raises e of
             Some msg \<Rightarrow> (Inl msg, w1)
           | None \<Rightarrow> (Inr (AwaitChunk ts), w1\<lparr>pendingH264 := pendingH264 w1 @ [(ts, d, f)]\<rparr>))"

fun decodeH264Frame ::
  "frame_env \<Rightarrow> FrameRectMeta \<Rightarrow> (string + nat option) \<times> video_worker \<Rightarrow> (string + waiting) \<times> video_worker" where
  "decodeH264Frame e f (Inl msg, w) = (Inl msg, w)"
| "decodeH264Frame e f (Inr None, w) =
     (Inl (js_error ''VideoDecoder unavailable: browser lacks WebCodecs.VideoDecoder support for H.264 AVC420''), w)"
| "decodeH264Frame e f (Inr (Some d), w) = submit_chunk e f d w"

section \<open>The frames of a batch\<close>

definition RFX_WARNING :: string where
  "RFX_WARNING = ''rfx frames received but RemoteFX decoder is not wired; operator should disable enable_remote_fx in node options''"

definition decode_rfx :: "video_worker \<Rightarrow> (string + waiting) \<times> video_worker" where
  "decode_rfx w =
     (Inl (js_error ''rfx decode path not implemented; disable enable_remote_fx in node proto_options''),
      if warnedRFX w then w else (say [Warned RFX_WARNING] w)\<lparr>warnedRFX := True\<rparr>)"

text \<open>\<open>decodeFrame\<close> up to its first wait\<close>

definition start_frame :: "frame_env \<Rightarrow> FrameRectMeta \<Rightarrow> video_worker \<Rightarrow> (string + waiting) \<times> video_worker" where
  "start_frame e f w =
     (case validateFrame f of
        Some msg \<Rightarrow> (Inl (js_error msg), w)
      | None \<Rightarrow>
          (case fr_encoding f of
             H264 \<Rightarrow> (case ensureVideoDecoder e w of
                       (None, w1) \<Rightarrow> (Inr AwaitProbe, w1)
                     | (Some r, w1) \<Rightarrow> decodeH264Frame e f (r, w1))
           | Rfx \<Rightarrow> decode_rfx w
           | _ \<Rightarrow> (Inr AwaitNative, w)))"

definition answer :: "frame_env \<Rightarrow> message \<Rightarrow> DecodedFrame list \<Rightarrow> video_worker \<Rightarrow> video_worker" where
  "answer e m out w =
     (case transfer_raises e of
        None \<Rightarrow> say [Reply (msg_id m) out] w
      | Some err \<Rightarrow> say [Warned (''frame transfer failed, copying batch: '' @ err), Reply (msg_id m) out] w)"

text \<open>The loop over the frames that are left; the environment is given by how many are left.\<close>

fun run_frames ::
  "(nat \<Rightarrow> frame_env) \<Rightarrow> message \<Rightarrow> DecodedFrame list \<Rightarrow> FrameBytes list \<Rightarrow> video_worker \<Rightarrow> video_worker" where
  "run_frames env m out [] w = answer (env 0) m out w"
| "run_frames env m out (f # fs) w =
     (case start_frame (env (Suc (length fs))) (fst f) w of
        (Inl err, w1) \<Rightarrow> run_frames env m out fs (say [Skipped err] w1)
      | (Inr wait, w1) \<Rightarrow>
          w1\<lparr>jobs := jobs w1 @ [\<lparr>job_msg = m, job_pos = length (msg_frames m) - Suc (length fs),
                                job_out = out, job_wait = wait\<rparr>]\<rparr>)"

definition job_frame :: "job \<Rightarrow> FrameBytes" where
  "job_frame j = msg_frames (job_msg j) ! job_pos j"

definition resume :: "(nat \<Rightarrow> frame_env) \<Rightarrow> job \<Rightarrow> string + DecodedFrame \<Rightarrow> video_worker \<Rightarrow> video_worker" where
  "resume env j r w =
     (let todo = drop (Suc (job_pos j)) (msg_frames (job_msg j)) in
      case r of
        Inl err \<Rightarrow> run_frames env (job_msg j) (job_out j) todo (say [Skipped err] w)
      | Inr d \<Rightarrow> run_frames env (job_msg j) (job_out j @ [d]) todo w)"

text \<open>Settling the promise of a chunk resumes the job that waits for it.\<close>

definition settle :: "(nat \<Rightarrow> frame_env) \<Rightarrow> nat \<Rightarrow> string + DecodedFrame \<Rightarrow> video_worker \<Rightarrow> video_worker" where
  "settle env ts r w =
     (case find_index (\<lambda>j. job_wait j = AwaitChunk ts) (jobs w) of
        None \<Rightarrow> w
      | Some i \<Rightarrow> resume env (jobs w ! i) r (w\<lparr>jobs := remove_at i (jobs w)\<rparr>))"

section \<open>Events\<close>

definition on_message :: "message \<Rightarrow> (nat \<Rightarrow> frame_env) \<Rightarrow> video_worker \<Rightarrow> video_worker" where
  "on_message m env w = run_frames env m [] (msg_frames m) (w\<lparr>messages := messages w @ [m]\<rparr>)"

definition probe_done :: "nat \<Rightarrow> bool \<Rightarrow> frame_env \<Rightarrow> (nat \<Rightarrow> frame_env) \<Rightarrow> video_worker \<Rightarrow> video_worker" where
  "probe_done i ok e env w =
     (let j = jobs w ! i;
          w1 = w\<lparr>jobs := remove_at i (jobs w), videoDecoderProbed := Some ok\<rparr>
      in case decodeH264Frame e (fst (job_frame j)) (ensure_probed e ok w1) of
           (Inl err, w2) \<Rightarrow> resume env j (Inl err) w2
         | (Inr wait, w2) \<Rightarrow> w2\<lparr>jobs := jobs w2 @ [j\<lparr>job_wait := wait\<rparr>]\<rparr>)"

definition decode_native :: "decode_env \<Rightarrow> FrameBytes \<Rightarrow> bool \<Rightarrow> codec_flags \<Rightarrow> (string + DecodedFrame) \<times> codec_flags" where
  "decode_native denv fp gpu fl =
     (if fr_encoding (fst fp) = Jpeg \<or> fr_encoding (fst fp) = Png then (decodeJpegOrPng denv (fst fp), fl)
      else (case decodeBgraFrame denv (fst fp) (snd fp) gpu fl of
              (Inl e, fl1) \<Rightarrow> (Inl e, fl1)
            | (Inr (d, pic), fl1) \<Rightarrow> (Inr d, fl1)))"

definition native_done :: "nat \<Rightarrow> decode_env \<Rightarrow> (nat \<Rightarrow> frame_env) \<Rightarrow> video_worker \<Rightarrow> video_worker" where
  "native_done i denv env w =
     (let j = jobs w ! i in
      case decode_native denv (job_frame j) (msg_gpu (job_msg j)) (flags w) of
        (r, fl) \<Rightarrow> resume env j r (w\<lparr>jobs := remove_at i (jobs w), flags := fl\<rparr>))"

text \<open>The size of the bitmap that is cut out of a decoded picture\<close>

definition crop :: "int \<Rightarrow> int \<Rightarrow> int" where
  "crop extent coded = max 1 (min extent (if coded = 0 then extent else coded))"

text \<open>\<open>deliverH264Frame\<close> up to its wait for the bitmap, and after it\<close>

definition on_output :: "nat \<Rightarrow> int \<Rightarrow> int \<Rightarrow> video_worker \<Rightarrow> video_worker" where
  "on_output ts cw ch w =
     (case map_of (pendingH264 w) ts of
        None \<Rightarrow> w
      | Some (d, f) \<Rightarrow>
          w\<lparr>pendingH264 := filter (\<lambda>p. fst p \<noteq> ts) (pendingH264 w),
            delivering := delivering w @ [(ts, f, crop (fr_width f) cw, crop (fr_height f) ch)]\<rparr>)"

definition bitmap_done :: "nat \<Rightarrow> string option \<Rightarrow> (nat \<Rightarrow> frame_env) \<Rightarrow> video_worker \<Rightarrow> video_worker" where
  "bitmap_done ts failure env w =
     (case map_of (delivering w) ts of
        None \<Rightarrow> w
      | Some (f, width, height) \<Rightarrow>
          settle env ts
            (case failure of
               Some err \<Rightarrow> Inl err
             | None \<Rightarrow> Inr \<lparr>dec_frame = f, dec_pixels = Bitmap, dec_path = Some VideoDecoderPath\<rparr>)
            (w\<lparr>delivering := filter (\<lambda>p. fst p \<noteq> ts) (delivering w)\<rparr>))"

text \<open>Rejecting what is pending: the handlers run after the callback has returned.\<close>

definition reject_all :: "(nat \<Rightarrow> nat \<Rightarrow> frame_env) \<Rightarrow> string \<Rightarrow> nat list \<Rightarrow> video_worker \<Rightarrow> video_worker" where
  "reject_all env err tss = fold (\<lambda>ts. settle (env ts) ts (Inl (js_error err))) tss"

definition decoder_error :: "string \<Rightarrow> (nat \<Rightarrow> nat \<Rightarrow> frame_env) \<Rightarrow> video_worker \<Rightarrow> video_worker" where
  "decoder_error msg env w =
     reject_all env (''VideoDecoder error: '' @ msg) (map fst (pendingH264 w))
       (say [Warned (''VideoDecoder errored, will reconfigure on next keyframe: '' @ msg), RefreshNeeded]
         (w\<lparr>pendingH264 := [], hasSeenH264Keyframe := False, videoDecoder := None, videoDecoderConfigured := False\<rparr>))"

definition closeVideoDecoder :: "(nat \<Rightarrow> nat \<Rightarrow> frame_env) \<Rightarrow> video_worker \<Rightarrow> video_worker" where
  "closeVideoDecoder env w =
     reject_all env ''worker closing'' (map fst (pendingH264 w))
       (w\<lparr>pendingH264 := [], hasSeenH264Keyframe := False, videoDecoder := None, videoDecoderConfigured := False,
         videoDecoderProbed := None\<rparr>)"

datatype worker_step =
    Message message "nat \<Rightarrow> frame_env" | ProbeDone nat bool frame_env "nat \<Rightarrow> frame_env"
  | NativeDone nat decode_env "nat \<Rightarrow> frame_env" | Output nat int int | StrayOutput nat int int
  | BitmapDone nat "string option" "nat \<Rightarrow> frame_env" | DecoderError string "nat \<Rightarrow> nat \<Rightarrow> frame_env"
  | CloseWorker "nat \<Rightarrow> nat \<Rightarrow> frame_env"

definition waits :: "nat \<Rightarrow> waiting \<Rightarrow> video_worker \<Rightarrow> bool" where
  "waits i wait w \<longleftrightarrow> i < length (jobs w) \<and> job_wait (jobs w ! i) = wait"

fun worker_perform :: "worker_step \<Rightarrow> video_worker \<Rightarrow> video_worker option" where
  "worker_perform (Message m env) w = Some (on_message m env w)"
| "worker_perform (ProbeDone i ok e env) w = (if waits i AwaitProbe w then Some (probe_done i ok e env w) else None)"
| "worker_perform (NativeDone i denv env) w = (if waits i AwaitNative w then Some (native_done i denv env w) else None)"
| "worker_perform (Output ts cw ch) w =
     (if ts \<in> fst ` set (pendingH264 w) then Some (on_output ts cw ch w) else None)"
| "worker_perform (StrayOutput ts cw ch) w =
     (if ts \<in> fst ` set (pendingH264 w) then None else Some (on_output ts cw ch w))"
| "worker_perform (BitmapDone ts failure env) w =
     (if ts \<in> fst ` set (delivering w) then Some (bitmap_done ts failure env w) else None)"
| "worker_perform (DecoderError msg env) w = Some (decoder_error msg env w)"
| "worker_perform (CloseWorker env) w = Some (closeVideoDecoder env w)"

end
