(* ===== verification/DecodeWorkerProps.thy ===== *)
theory DecodeWorkerProps
  imports DecodeWorker "HOL-Library.Sublist"
begin

text \<open>
  The decode worker answers: every chunk given to the decoder is awaited by exactly one handler until its promise
  is settled, every batch gets one reply with its frames in order and a warning for each frame
  left out, and the browser has to answer at most three times per frame before all replies are
  out. The invariant is stated with what a handler that is just running still holds: the chunks \<open>E\<close>
  whose promise is being settled, the number \<open>F\<close> of frames and the batch ids \<open>I\<close> in its hands.
\<close>

section \<open>The invariant\<close>

definition awaits :: "job \<Rightarrow> (nat \<times> FrameRectMeta) list" where
  "awaits j = (case job_wait j of AwaitChunk ts \<Rightarrow> [(ts, fst (job_frame j))] | _ \<Rightarrow> [])"

definition awaited :: "job list \<Rightarrow> (nat \<times> FrameRectMeta) list" where
  "awaited js = concat (map awaits js)"

definition open_chunks :: "video_worker \<Rightarrow> (nat \<times> FrameRectMeta) list" where
  "open_chunks w = map (\<lambda>(ts, d, f). (ts, f)) (pendingH264 w) @ map (\<lambda>(ts, f, _). (ts, f)) (delivering w)"

definition promises_ok :: "(nat \<times> FrameRectMeta) multiset \<Rightarrow> video_worker \<Rightarrow> bool" where
  "promises_ok E w \<longleftrightarrow>
     mset (awaited (jobs w)) = mset (open_chunks w) + E \<and> distinct (map fst (awaited (jobs w)))
     \<and> (\<forall>p \<in> set (awaited (jobs w)). fst p \<le> h264TimestampSeq w)"

definition job_ok :: "message list \<Rightarrow> job \<Rightarrow> bool" where
  "job_ok ms j \<longleftrightarrow> job_msg j \<in> set ms \<and> job_pos j < length (msg_frames (job_msg j))
     \<and> subseq (map dec_frame (job_out j)) (map fst (take (job_pos j) (msg_frames (job_msg j))))"

definition reply_ok :: "message list \<Rightarrow> worker_out \<Rightarrow> bool" where
  "reply_ok ms r \<longleftrightarrow> (case r of
       Reply i fs \<Rightarrow> (\<exists>m \<in> set ms. msg_id m = i \<and> subseq (map dec_frame fs) (map fst (msg_frames m)))
     | _ \<Rightarrow> True)"

definition out_size :: "worker_out \<Rightarrow> nat" where
  "out_size r = (case r of Reply i fs \<Rightarrow> length fs | Skipped _ \<Rightarrow> 1 | _ \<Rightarrow> 0)"

definition out_ids :: "worker_out \<Rightarrow> nat multiset" where
  "out_ids r = (case r of Reply i fs \<Rightarrow> {#i#} | _ \<Rightarrow> {#})"

definition job_size :: "job \<Rightarrow> nat" where
  "job_size j = length (job_out j) + (length (msg_frames (job_msg j)) - job_pos j)"

definition frames_in :: "video_worker \<Rightarrow> nat" where
  "frames_in w = sum_list (map (\<lambda>m. length (msg_frames m)) (messages w))"

definition frames_out :: "video_worker \<Rightarrow> nat" where
  "frames_out w = sum_list (map out_size (outbox w)) + sum_list (map job_size (jobs w))"

definition ids_out :: "video_worker \<Rightarrow> nat multiset" where
  "ids_out w = sum_list (map out_ids (outbox w)) + mset (map (\<lambda>j. msg_id (job_msg j)) (jobs w))"

definition worker_ok :: "(nat \<times> FrameRectMeta) multiset \<Rightarrow> nat \<Rightarrow> nat multiset \<Rightarrow> video_worker \<Rightarrow> bool" where
  "worker_ok E F I w \<longleftrightarrow>
     promises_ok E w \<and> list_all (job_ok (messages w)) (jobs w) \<and> list_all (reply_ok (messages w)) (outbox w)
     \<and> frames_in w = frames_out w + F \<and> mset (map msg_id (messages w)) = ids_out w + I"

abbreviation worker_inv :: "video_worker \<Rightarrow> bool" where
  "worker_inv \<equiv> worker_ok {#} 0 {#}"

lemma awaited_simps [simp]:
  "awaited [] = []" "awaited (j # js) = awaits j @ awaited js" "awaited (js @ ks) = awaited js @ awaited ks"
  by (simp_all add: awaited_def)

lemma out_simps [simp]:
  "out_size (Warned e) = 0" "out_size (Skipped e) = 1" "out_size RefreshNeeded = 0" "out_size (Reply i fs) = length fs"
  "out_ids (Warned e) = {#}" "out_ids (Skipped e) = {#}" "out_ids RefreshNeeded = {#}" "out_ids (Reply i fs) = {#i#}"
  "reply_ok ms (Warned e)" "reply_ok ms (Skipped e)" "reply_ok ms RefreshNeeded"
  by (simp_all add: out_size_def out_ids_def reply_ok_def)

lemma remove_at_split:
  assumes "i < length xs"
  obtains a b where "xs = a @ xs ! i # b" "remove_at i xs = a @ b"
  using id_take_nth_drop [OF assms] by (auto simp: remove_at_def)

section \<open>Running a batch\<close>

text \<open>Starting a frame touches neither the jobs nor what is delivered, and gives a chunk only with its promise.\<close>

definition started :: "FrameRectMeta \<Rightarrow> video_worker \<Rightarrow> (string + waiting) \<Rightarrow> video_worker \<Rightarrow> bool" where
  "started f w r w1 \<longleftrightarrow>
     jobs w1 = jobs w \<and> delivering w1 = delivering w \<and> messages w1 = messages w
     \<and> (outbox w1 = outbox w \<or> outbox w1 = outbox w @ [Warned RFX_WARNING])
     \<and> h264TimestampSeq w \<le> h264TimestampSeq w1
     \<and> (case r of
          Inr (AwaitChunk ts) \<Rightarrow> h264TimestampSeq w < ts \<and> h264TimestampSeq w1 = ts
            \<and> (\<exists>d. pendingH264 w1 = pendingH264 w @ [(ts, d, f)])
        | _ \<Rightarrow> pendingH264 w1 = pendingH264 w)"

lemma ensure_probed_frame:
  "ensure_probed e ok w = (r, w1) \<Longrightarrow>
   jobs w1 = jobs w \<and> delivering w1 = delivering w \<and> messages w1 = messages w \<and> outbox w1 = outbox w
   \<and> h264TimestampSeq w1 = h264TimestampSeq w \<and> pendingH264 w1 = pendingH264 w"
  by (auto simp: ensure_probed_def Let_def split: if_splits option.splits)

lemma decodeH264_started:
  "decodeH264Frame e f (r0, w) = (r, w1) \<Longrightarrow> started f w r w1"
  by (cases "(e, f, (r0, w))" rule: decodeH264Frame.cases)
     (auto simp: started_def submit_chunk_def Let_def split: if_splits option.splits)

lemma probed_started:
  assumes "decodeH264Frame e f (ensure_probed e ok w) = (r, w1)"
  shows "started f w r w1"
proof (cases "ensure_probed e ok w")
  case (Pair r0 w0)
  have "started f w0 r w1" using assms unfolding Pair by (rule decodeH264_started)
  then show ?thesis using ensure_probed_frame [OF Pair] by (auto simp: started_def split: sum.splits waiting.splits)
qed

lemma same_started: "started f w (Inl e) w" "started f w (Inr AwaitProbe) w" "started f w (Inr AwaitNative) w"
  by (simp_all add: started_def)

lemma h264_started:
  assumes "(case ensureVideoDecoder e w of
      (None, w1) \<Rightarrow> (Inr AwaitProbe, w1)
    | (Some r, w1) \<Rightarrow> decodeH264Frame e f (r, w1)) = (r, w1)"
  shows "started f w r w1"
proof (cases "videoDecoder w \<noteq> None \<and> videoDecoderConfigured w \<or> \<not> supportsVideoDecoder e")
  case True
  then have "decodeH264Frame e f (Inr (if supportsVideoDecoder e \<or> videoDecoder w \<noteq> None \<and> videoDecoderConfigured w
      then videoDecoder w else None), w) = (r, w1)"
    using assms by (auto simp: ensureVideoDecoder_def split: if_splits)
  then show ?thesis by (rule decodeH264_started)
next
  case False
  show ?thesis
  proof (cases "videoDecoderProbed w")
    case None
    then show ?thesis using assms False by (auto simp: ensureVideoDecoder_def same_started)
  next
    case (Some ok)
    then have "decodeH264Frame e f (ensure_probed e ok w) = (r, w1)"
      using assms False by (cases "ensure_probed e ok w") (auto simp: ensureVideoDecoder_def)
    then show ?thesis by (rule probed_started)
  qed
qed

lemma start_frame_started:
  assumes "start_frame e f w = (r, w1)"
  shows "started f w r w1"
proof (cases "validateFrame f = None \<and> fr_encoding f = H264")
  case True
  then show ?thesis using assms by (intro h264_started) (simp add: start_frame_def)
next
  case False
  then show ?thesis using assms
    by (cases "fr_encoding f")
       (auto simp: start_frame_def decode_rfx_def say_def same_started started_def split: option.splits if_splits)
qed

lemma worker_ok_say:
  assumes "worker_ok E F I w" "reply_ok (messages w) r" "F = out_size r + F'" "I = out_ids r + I'"
  shows "worker_ok E F' I' (say [r] w)"
  using assms by (auto simp: worker_ok_def promises_ok_def open_chunks_def say_def frames_in_def frames_out_def ids_out_def)

lemma worker_ok_fields:
  assumes "worker_ok E F I w" "jobs w1 = jobs w" "delivering w1 = delivering w" "messages w1 = messages w"
    "outbox w1 = outbox w \<or> outbox w1 = outbox w @ [Warned e]" "h264TimestampSeq w \<le> h264TimestampSeq w1"
    "pendingH264 w1 = pendingH264 w"
  shows "worker_ok E F I w1"
  using assms
  by (fastforce simp: worker_ok_def promises_ok_def open_chunks_def frames_in_def frames_out_def ids_out_def)

lemma started_inl: "started f w (Inl e) w1 \<Longrightarrow> worker_ok E F I w \<Longrightarrow> worker_ok E F I w1"
  by (erule worker_ok_fields) (auto simp: started_def)

lemma worker_ok_job:
  assumes "started f w (Inr wait) w1" "worker_ok E (job_size j) {#msg_id (job_msg j)#} w"
    "job_wait j = wait" "fst (job_frame j) = f" "job_ok (messages w) j"
  shows "worker_ok E 0 {#} (w1\<lparr>jobs := jobs w1 @ [j]\<rparr>)"
proof -
  have "promises_ok E (w1\<lparr>jobs := jobs w1 @ [j]\<rparr>)"
    using assms(1-4) by (cases wait) (fastforce simp: started_def worker_ok_def promises_ok_def open_chunks_def awaits_def)+
  then show ?thesis
    using assms(1,2,5) by (auto simp: started_def worker_ok_def frames_in_def frames_out_def ids_out_def)
qed

lemma worker_ok_answer:
  assumes "worker_ok E (length out) {#msg_id m#} w" "m \<in> set (messages w)"
    "subseq (map dec_frame out) (map fst (msg_frames m))"
  shows "worker_ok E 0 {#} (answer e m out w)"
proof -
  have ok: "worker_ok E 0 {#} (say [Reply (msg_id m) out] w1)"
    if "worker_ok E (length out) {#msg_id m#} w1" "messages w1 = messages w" for w1
    by (rule worker_ok_say [OF that(1)]) (use assms(2,3) that(2) in \<open>auto simp: reply_ok_def\<close>)
  show ?thesis
  proof (cases "transfer_raises e")
    case None
    then show ?thesis using ok [OF assms(1)] by (simp add: answer_def)
  next
    case (Some err)
    let ?w = "\<lambda>t. ''frame transfer failed, copying batch: '' @ t"
    have "worker_ok E (length out) {#msg_id m#} (say [Warned (?w err)] w)"
      by (rule worker_ok_say [OF assms(1)]) simp_all
    from ok [OF this] show ?thesis using Some by (simp add: answer_def say_def)
  qed
qed

lemma run_frames_ok:
  assumes "worker_ok E (length out + length fs) {#msg_id m#} w" "m \<in> set (messages w)"
    "msg_frames m = pre @ fs" "subseq (map dec_frame out) (map fst pre)"
  shows "worker_ok E 0 {#} (run_frames env m out fs w)"
  using assms
proof (induction fs arbitrary: w pre)
  case Nil
  then show ?case by (simp add: worker_ok_answer)
next
  case (Cons f fs)
  obtain r w1 where st: "start_frame (env (Suc (length fs))) (fst f) w = (r, w1)"
    by (cases "start_frame (env (Suc (length fs))) (fst f) w")
  note started = start_frame_started [OF st]
  show ?case
  proof (cases r)
    case (Inl err)
    have "worker_ok E (length out + length (f # fs)) {#msg_id m#} w1"
      using started_inl started Inl Cons.prems(1) by blast
    then have "worker_ok E (length out + length fs) {#msg_id m#} (say [Skipped err] w1)"
      by (rule worker_ok_say) simp_all
    moreover have "subseq (map dec_frame out) (map fst (pre @ [f]))"
      using list_emb_append_mono [OF Cons.prems(4), of "[]" "[fst f]"] by simp
    moreover have "m \<in> set (messages (say [Skipped err] w1))"
      using Cons.prems(2) started by (simp add: say_def started_def)
    ultimately show ?thesis
      using Cons.IH [of "say [Skipped err] w1" "pre @ [f]"] Cons.prems(3) st Inl by simp
  next
    case (Inr wait)
    let ?j = "\<lparr>job_msg = m, job_pos = length (msg_frames m) - Suc (length fs), job_out = out, job_wait = wait\<rparr>"
    have "fst (job_frame ?j) = fst f" "job_ok (messages w) ?j" "job_size ?j = length out + length (f # fs)"
      using Cons.prems(2-4) by (auto simp: job_frame_def job_ok_def job_size_def nth_append)
    then show ?thesis
      using worker_ok_job [of "fst f" w wait w1 E ?j] started Inr Cons.prems(1) st by simp
  qed
qed

lemma job_size_pos: "job_ok ms j \<Longrightarrow> job_size j = length (job_out j) + Suc (length (drop (Suc (job_pos j)) (msg_frames (job_msg j))))"
  by (simp add: job_ok_def job_size_def Suc_diff_Suc)

lemma resume_ok:
  assumes "worker_ok E (job_size j) {#msg_id (job_msg j)#} w" "job_ok (messages w) j"
    "\<And>d. r = Inr d \<Longrightarrow> dec_frame d = fst (job_frame j)"
  shows "worker_ok E 0 {#} (resume env j r w)"
proof -
  let ?m = "job_msg j" and ?fs = "drop (Suc (job_pos j)) (msg_frames (job_msg j))"
  let ?pre = "take (Suc (job_pos j)) (msg_frames (job_msg j))"
  have m: "?m \<in> set (messages w)" and pos: "job_pos j < length (msg_frames ?m)"
    and sub: "subseq (map dec_frame (job_out j)) (map fst (take (job_pos j) (msg_frames ?m)))"
    using assms(2) by (simp_all add: job_ok_def)
  have pre: "map fst ?pre = map fst (take (job_pos j) (msg_frames ?m)) @ [fst (job_frame j)]"
    using pos by (simp add: take_Suc_conv_app_nth job_frame_def)
  have whole: "msg_frames ?m = ?pre @ ?fs" by simp
  note size = job_size_pos [OF assms(2)]
  show ?thesis
  proof (cases r)
    case (Inl err)
    have "worker_ok E (length (job_out j) + length ?fs) {#msg_id ?m#} (say [Skipped err] w)"
      by (rule worker_ok_say [OF assms(1)]) (simp_all add: size)
    moreover have "subseq (map dec_frame (job_out j)) (map fst ?pre)"
      unfolding pre using list_emb_append_mono [OF sub, of "[]" "[fst (job_frame j)]"] by simp
    ultimately show ?thesis
      using run_frames_ok [OF _ _ whole] m Inl by (simp add: resume_def say_def)
  next
    case (Inr d)
    have "subseq (map dec_frame (job_out j @ [d])) (map fst ?pre)"
      unfolding pre using sub assms(3) [OF Inr] by simp
    then show ?thesis
      using run_frames_ok [OF _ m whole, of E "job_out j @ [d]" env] assms(1) Inr size by (simp add: resume_def)
  qed
qed

text \<open>Taking a job out of the list puts its frames into the hands of the handler.\<close>

lemma worker_ok_take:
  assumes "worker_ok E 0 {#} w" "i < length (jobs w)" "E = mset (awaits (jobs w ! i)) + E'"
    "w1 = w\<lparr>jobs := remove_at i (jobs w)\<rparr>"
  shows "worker_ok E' (job_size (jobs w ! i)) {#msg_id (job_msg (jobs w ! i))#} w1 \<and> job_ok (messages w) (jobs w ! i)"
proof -
  obtain a b where ab: "jobs w = a @ jobs w ! i # b" "remove_at i (jobs w) = a @ b"
    using remove_at_split [OF assms(2)] by blast
  define j where "j = jobs w ! i"
  have js: "jobs w = a @ j # b" "remove_at i (jobs w) = a @ b" using ab j_def by simp_all
  have "worker_ok E 0 {#} w \<Longrightarrow> E = mset (awaits j) + E' \<Longrightarrow> worker_ok E' (job_size j) {#msg_id (job_msg j)#} w1 \<and> job_ok (messages w) j"
    unfolding assms(4) worker_ok_def promises_ok_def frames_in_def frames_out_def ids_out_def open_chunks_def js(2)
    by (auto simp: js(1))
  then show ?thesis using assms(1,3) by (simp add: j_def)
qed

lemma awaits_chunk: "job_wait j = AwaitChunk ts \<Longrightarrow> awaits j = [(ts, fst (job_frame j))]"
  by (simp add: awaits_def)

lemma awaits_other: "job_wait j = AwaitProbe \<or> job_wait j = AwaitNative \<Longrightarrow> awaits j = []"
  by (auto simp: awaits_def)

lemma settle_ok:
  assumes "worker_ok (add_mset (ts, f) E) 0 {#} w" "\<And>d. r = Inr d \<Longrightarrow> dec_frame d = f"
  shows "worker_ok E 0 {#} (settle env ts r w)"
proof -
  have aw: "(ts, f) \<in> set (awaited (jobs w))" "distinct (map fst (awaited (jobs w)))"
    using assms(1) by (auto simp: worker_ok_def promises_ok_def dest!: arg_cong [where f = set_mset])
  then obtain j where "j \<in> set (jobs w)" "(ts, f) \<in> set (awaits j)" by (auto simp: awaited_def)
  then have "j \<in> set (jobs w)" "job_wait j = AwaitChunk ts"
    by (auto simp: awaits_def split: waiting.splits)
  then obtain i where i: "find_index (\<lambda>j. job_wait j = AwaitChunk ts) (jobs w) = Some i"
    by (cases "find_index (\<lambda>j. job_wait j = AwaitChunk ts) (jobs w)") (auto simp: find_index_None_iff)
  then have lt: "i < length (jobs w)" and wait: "job_wait (jobs w ! i) = AwaitChunk ts"
    by (auto simp: find_index_Some_iff)
  have "(ts, fst (job_frame (jobs w ! i))) \<in> set (awaited (jobs w))"
    using lt awaits_chunk [OF wait] by (auto simp: awaited_def intro!: bexI [of _ "jobs w ! i"])
  then have f: "fst (job_frame (jobs w ! i)) = f"
    by (rule eq_key_imp_eq_value [OF aw(2) _ aw(1)])
  from worker_ok_take [OF assms(1) lt, of E "w\<lparr>jobs := remove_at i (jobs w)\<rparr>"]
  have "worker_ok E (job_size (jobs w ! i)) {#msg_id (job_msg (jobs w ! i))#} (w\<lparr>jobs := remove_at i (jobs w)\<rparr>)"
    "job_ok (messages w) (jobs w ! i)"
    using awaits_chunk [OF wait] f by auto
  then show ?thesis
    unfolding settle_def i option.case by (intro resume_ok) (use assms(2) f in auto)
qed

lemma reject_all_ok:
  "worker_ok (mset ps) 0 {#} w \<Longrightarrow> worker_inv (reject_all env err (map fst ps) w)"
proof (induction ps arbitrary: w)
  case (Cons p ps)
  obtain ts f where p: "p = (ts, f)" by (cases p)
  have "worker_ok (mset ps) 0 {#} (settle (env ts) ts (Inl (js_error err)) w)"
    by (rule settle_ok [of ts f]) (use Cons.prems p in auto)
  then show ?case using Cons.IH p by (simp add: reject_all_def)
qed (simp add: reject_all_def)

section \<open>The events\<close>

lemma distinct_open: "promises_ok {#} w \<Longrightarrow> distinct (map fst (open_chunks w))"
proof -
  assume ok: "promises_ok {#} w"
  then have "mset (map fst (awaited (jobs w))) = mset (map fst (open_chunks w))" by (simp add: promises_ok_def)
  then show ?thesis using ok mset_eq_imp_distinct_iff unfolding promises_ok_def by blast
qed

lemma filter_key_split:
  assumes "distinct (map fst xs)" "map_of xs k = Some v"
  obtains a b where "xs = a @ (k, v) # b" "filter (\<lambda>p. fst p \<noteq> k) xs = a @ b"
proof -
  obtain a b where ab: "xs = a @ (k, v) # b" using split_list [OF map_of_SomeD [OF assms(2)]] by blast
  then have "filter (\<lambda>p. fst p \<noteq> k) a = a" "filter (\<lambda>p. fst p \<noteq> k) b = b"
    using assms(1) by (auto simp: filter_id_conv)
  then show thesis using that ab by simp
qed

lemma distinct_pending: "promises_ok {#} w \<Longrightarrow> distinct (map fst (pendingH264 w))"
  and distinct_delivering: "promises_ok {#} w \<Longrightarrow> distinct (map fst (delivering w))"
proof -
  assume "promises_ok {#} w"
  from distinct_open [OF this]
  have "distinct (map (fst \<circ> (\<lambda>(ts, d, f). (ts, f))) (pendingH264 w))" "distinct (map (fst \<circ> (\<lambda>(ts, f, _). (ts, f))) (delivering w))"
    by (auto simp: open_chunks_def)
  moreover have "fst \<circ> (\<lambda>(ts, d, f). (ts, f)) = (fst :: (nat \<times> nat \<times> FrameRectMeta) \<Rightarrow> nat)"
    "fst \<circ> (\<lambda>(ts, f, _). (ts, f)) = (fst :: (nat \<times> FrameRectMeta \<times> int \<times> int) \<Rightarrow> nat)"
    by auto
  ultimately show "distinct (map fst (pendingH264 w))" "distinct (map fst (delivering w))" by simp_all
qed

lemma on_message_ok: "worker_inv w \<Longrightarrow> worker_inv (on_message m env w)"
proof -
  assume inv: "worker_inv w"
  let ?w = "w\<lparr>messages := messages w @ [m]\<rparr>"
  have mono: "job_ok ms j \<Longrightarrow> job_ok (ms @ [m]) j" "reply_ok ms r \<Longrightarrow> reply_ok (ms @ [m]) r" for ms j r
    by (auto simp: job_ok_def reply_ok_def split: worker_out.splits)
  have "worker_ok {#} (length ([] :: DecodedFrame list) + length (msg_frames m)) {#msg_id m#} ?w"
    using inv by (auto simp: worker_ok_def promises_ok_def open_chunks_def frames_in_def frames_out_def ids_out_def
        list_all_iff intro: mono)
  then show ?thesis unfolding on_message_def by (rule run_frames_ok [where pre = "[]"]) simp_all
qed

lemma probe_done_ok:
  assumes "worker_inv w" "waits i AwaitProbe w"
  shows "worker_inv (probe_done i ok e env w)"
proof -
  let ?j = "jobs w ! i"
  define w1 where "w1 = w\<lparr>jobs := remove_at i (jobs w), videoDecoderProbed := Some ok\<rparr>"
  have lt: "i < length (jobs w)" and wait: "job_wait ?j = AwaitProbe" using assms(2) by (simp_all add: waits_def)
  have take: "worker_ok {#} (job_size ?j) {#msg_id (job_msg ?j)#} (w\<lparr>jobs := remove_at i (jobs w)\<rparr>)" "job_ok (messages w) ?j"
    using worker_ok_take [OF assms(1) lt, of "{#}"] awaits_other wait by auto
  have w1: "worker_ok {#} (job_size ?j) {#msg_id (job_msg ?j)#} w1"
    by (rule worker_ok_fields [OF take(1)]) (simp_all add: w1_def)
  obtain r w2 where r: "decodeH264Frame e (fst (job_frame ?j)) (ensure_probed e ok w1) = (r, w2)"
    by (cases "decodeH264Frame e (fst (job_frame ?j)) (ensure_probed e ok w1)")
  note st = probed_started [OF r]
  show ?thesis
  proof (cases r)
    case (Inl err)
    have "worker_inv (resume env ?j (Inl err) w2)"
      by (rule resume_ok) (use started_inl [OF st [unfolded Inl] w1] take(2) st in \<open>simp_all add: started_def w1_def\<close>)
    then show ?thesis using r Inl by (simp add: probe_done_def w1_def)
  next
    case (Inr wait)
    have "worker_inv (w2\<lparr>jobs := jobs w2 @ [?j\<lparr>job_wait := wait\<rparr>]\<rparr>)"
      by (rule worker_ok_job [OF st [unfolded Inr]])
         (use w1 take(2) in \<open>simp_all add: job_size_def job_frame_def job_ok_def w1_def\<close>)
    then show ?thesis using r Inr by (simp add: probe_done_def w1_def)
  qed
qed

lemma decode_native_frame: "decode_native denv fp gpu fl = (Inr d, fl1) \<Longrightarrow> dec_frame d = fst fp"
  by (auto simp: decode_native_def decodeJpegOrPng_def decodeBgraFrame_def
      split: if_splits option.splits sum.splits prod.splits)

lemma native_done_ok:
  assumes "worker_inv w" "waits i AwaitNative w"
  shows "worker_inv (native_done i denv env w)"
proof -
  let ?j = "jobs w ! i"
  have lt: "i < length (jobs w)" and wait: "job_wait ?j = AwaitNative" using assms(2) by (simp_all add: waits_def)
  obtain r fl where r: "decode_native denv (job_frame ?j) (msg_gpu (job_msg ?j)) (flags w) = (r, fl)"
    by (cases "decode_native denv (job_frame ?j) (msg_gpu (job_msg ?j)) (flags w)")
  have take: "worker_ok {#} (job_size ?j) {#msg_id (job_msg ?j)#} (w\<lparr>jobs := remove_at i (jobs w)\<rparr>)" "job_ok (messages w) ?j"
    using worker_ok_take [OF assms(1) lt, of "{#}"] awaits_other wait by auto
  have "worker_ok {#} (job_size ?j) {#msg_id (job_msg ?j)#} (w\<lparr>jobs := remove_at i (jobs w), flags := fl\<rparr>)"
    by (rule worker_ok_fields [OF take(1)]) simp_all
  then have "worker_inv (resume env ?j r (w\<lparr>jobs := remove_at i (jobs w), flags := fl\<rparr>))"
    by (rule resume_ok) (use take(2) decode_native_frame r in auto)
  then show ?thesis by (simp add: native_done_def r)
qed

lemma on_output_ok:
  assumes "worker_inv w"
  shows "worker_inv (on_output ts cw ch w)"
proof (cases "map_of (pendingH264 w) ts")
  case (Some df)
  have "distinct (map fst (pendingH264 w))" using assms distinct_pending by (simp add: worker_ok_def)
  then obtain a b where "pendingH264 w = a @ (ts, df) # b" "filter (\<lambda>p. fst p \<noteq> ts) (pendingH264 w) = a @ b"
    using filter_key_split Some by metis
  then show ?thesis using assms Some
    by (cases df) (auto simp: on_output_def worker_ok_def promises_ok_def open_chunks_def frames_in_def frames_out_def ids_out_def)
qed (simp add: on_output_def assms)

lemma bitmap_done_ok:
  assumes "worker_inv w"
  shows "worker_inv (bitmap_done ts failure env w)"
proof (cases "map_of (delivering w) ts")
  case (Some x)
  obtain f width height where x: "x = (f, width, height)" by (cases x)
  have "distinct (map fst (delivering w))" using assms distinct_delivering by (simp add: worker_ok_def)
  then obtain a b where ab: "delivering w = a @ (ts, x) # b" "filter (\<lambda>p. fst p \<noteq> ts) (delivering w) = a @ b"
    using filter_key_split Some by metis
  have "worker_ok {#(ts, f)#} 0 {#} (w\<lparr>delivering := filter (\<lambda>p. fst p \<noteq> ts) (delivering w)\<rparr>)"
    using assms ab x by (simp add: worker_ok_def promises_ok_def open_chunks_def frames_in_def frames_out_def ids_out_def)
  then show ?thesis
    unfolding bitmap_done_def Some option.case x prod.case by (rule settle_ok) (auto split: option.splits)
qed (simp add: bitmap_done_def assms)

lemma reject_pending_ok:
  assumes "worker_inv w" "jobs w1 = jobs w" "delivering w1 = delivering w" "messages w1 = messages w"
    "outbox w1 = outbox w \<or> outbox w1 = outbox w @ [Warned e, RefreshNeeded]" "h264TimestampSeq w1 = h264TimestampSeq w"
    "pendingH264 w1 = []"
  shows "worker_inv (reject_all env err (map fst (pendingH264 w)) w1)"
proof -
  let ?ps = "map (\<lambda>(ts, d, f). (ts, f)) (pendingH264 w)"
  have "map fst ?ps = map fst (pendingH264 w)" by auto
  moreover have "worker_ok (mset ?ps) 0 {#} w1"
    using assms by (auto simp: worker_ok_def promises_ok_def open_chunks_def frames_in_def frames_out_def ids_out_def)
  ultimately show ?thesis using reject_all_ok by metis
qed

lemma worker_perform_ok: "worker_inv w \<Longrightarrow> worker_perform s w = Some w' \<Longrightarrow> worker_inv w'"
  by (cases s)
     (auto simp: decoder_error_def closeVideoDecoder_def say_def split: if_splits
       intro!: on_message_ok probe_done_ok native_done_ok on_output_ok bitmap_done_ok reject_pending_ok)

lemma new_worker_ok: "worker_inv new_worker"
  by (simp add: new_worker_def worker_ok_def promises_ok_def open_chunks_def frames_in_def frames_out_def ids_out_def)

interpretation worker: machine worker_perform worker_inv
  by unfold_locales (rule worker_perform_ok)

section \<open>Every batch is answered\<close>

definition reply_ids :: "worker_out list \<Rightarrow> nat list" where
  "reply_ids outs = concat (map (\<lambda>r. case r of Reply i fs \<Rightarrow> [i] | _ \<Rightarrow> []) outs)"

lemma mset_reply_ids: "sum_list (map out_ids outs) = mset (reply_ids outs)"
  by (induction outs) (auto simp: reply_ids_def out_ids_def split: worker_out.splits)

text \<open>C25: The ids of the batches that came are those of the replies and of the batches still in work, each
  once; every frame of theirs is in a reply, warned about as skipped, or still in work; a reply
  holds frames of its batch, in order; and each chunk of H.264 whose promise is open is awaited by exactly one
  batch in work, which waits for nothing else.\<close>

theorem decode_worker_answers:
  assumes "run_steps worker_perform es new_worker = Some w"
  shows "mset (map msg_id (messages w)) = mset (reply_ids (outbox w)) + mset (map (\<lambda>j. msg_id (job_msg j)) (jobs w))
    \<and> sum_list (map (\<lambda>m. length (msg_frames m)) (messages w))
        = sum_list (map out_size (outbox w)) + sum_list (map job_size (jobs w))
    \<and> (\<forall>i fs. Reply i fs \<in> set (outbox w) \<longrightarrow>
        (\<exists>m \<in> set (messages w). msg_id m = i \<and> subseq (map dec_frame fs) (map fst (msg_frames m))))
    \<and> (\<forall>ts. count (mset (map job_wait (jobs w))) (AwaitChunk ts)
        = (if ts \<in> fst ` set (pendingH264 w) \<union> fst ` set (delivering w) then 1 else 0))"
proof -
  have ok: "worker_inv w" by (rule worker.run_inv [OF assms new_worker_ok])
  have fsts: "map fst (open_chunks w) = map fst (pendingH264 w) @ map fst (delivering w)"
    by (auto simp: open_chunks_def)
  have waiting: "count (mset (map job_wait js)) (AwaitChunk ts) = count (mset (map fst (awaited js))) ts" for js ts
    by (induction js) (auto simp: awaits_def split: waiting.splits)
  have "count (mset (map job_wait (jobs w))) (AwaitChunk ts)
      = (if ts \<in> fst ` set (pendingH264 w) \<union> fst ` set (delivering w) then 1 else 0)" for ts
  proof -
    have "mset (map fst (awaited (jobs w))) = mset (map fst (pendingH264 w) @ map fst (delivering w))"
      using ok fsts by (metis add.right_neutral mset_map promises_ok_def worker_ok_def)
    moreover have "distinct (map fst (pendingH264 w) @ map fst (delivering w))"
      using distinct_open [of w] ok unfolding fsts worker_ok_def by blast
    ultimately show ?thesis unfolding waiting
      by (metis (no_types, lifting) distinct_count_atmost_1 list.set_map set_append)
  qed
  moreover have "\<forall>i fs. Reply i fs \<in> set (outbox w) \<longrightarrow>
      (\<exists>m \<in> set (messages w). msg_id m = i \<and> subseq (map dec_frame fs) (map fst (msg_frames m)))"
    using ok by (auto simp: worker_ok_def list_all_iff reply_ok_def split: worker_out.splits)
  ultimately show ?thesis
    using ok by (simp add: worker_ok_def frames_in_def frames_out_def ids_out_def mset_reply_ids)
qed

section \<open>The browser is asked a bounded number of times\<close>

definition job_work :: "job \<Rightarrow> nat" where
  "job_work j = 3 * (length (msg_frames (job_msg j)) - Suc (job_pos j))
     + (case job_wait j of AwaitProbe \<Rightarrow> 3 | AwaitNative \<Rightarrow> 1 | AwaitChunk _ \<Rightarrow> 0)"

definition work :: "video_worker \<Rightarrow> nat" where
  "work w = sum_list (map job_work (jobs w)) + 2 * length (pendingH264 w) + length (delivering w)"

fun frames_given :: "worker_step \<Rightarrow> nat" where
  "frames_given (Message m env) = length (msg_frames m)"
| "frames_given _ = 0"

fun browser_answer :: "worker_step \<Rightarrow> bool" where
  "browser_answer (ProbeDone _ _ _ _) = True"
| "browser_answer (NativeDone _ _ _) = True"
| "browser_answer (Output _ _ _) = True"
| "browser_answer (BitmapDone _ _ _) = True"
| "browser_answer _ = False"

lemma work_fields:
  "jobs w1 = jobs w \<Longrightarrow> pendingH264 w1 = pendingH264 w \<Longrightarrow> delivering w1 = delivering w \<Longrightarrow> work w1 = work w"
  by (simp add: work_def)

lemma work_started_inl: "started f w (Inl e) w1 \<Longrightarrow> work w1 = work w"
  by (rule work_fields) (simp_all add: started_def)

lemma work_started_job:
  "started f w (Inr wait) w1 \<Longrightarrow> job_wait j = wait \<Longrightarrow>
   work (w1\<lparr>jobs := jobs w1 @ [j]\<rparr>) + (if wait = AwaitProbe then 0 else 1)
     \<le> work w + 3 * (length (msg_frames (job_msg j)) - Suc (job_pos j)) + 3"
  by (cases wait) (auto simp: started_def work_def job_work_def)

lemma work_say [simp]: "work (say outs w) = work w"
  by (rule work_fields) (simp_all add: say_def)

lemma work_run_frames: "length fs \<le> length (msg_frames m) \<Longrightarrow> work (run_frames env m out fs w) \<le> work w + 3 * length fs"
proof (induction fs arbitrary: w)
  case Nil
  then show ?case by (simp add: answer_def split: option.split)
next
  case (Cons f fs)
  obtain r w1 where st: "start_frame (env (Suc (length fs))) (fst f) w = (r, w1)"
    by (cases "start_frame (env (Suc (length fs))) (fst f) w")
  note started = start_frame_started [OF st]
  show ?case
  proof (cases r)
    case (Inl err)
    then show ?thesis
      using Cons.IH [of "say [Skipped err] w1"] Cons.prems st work_started_inl started by force
  next
    case (Inr wait)
    let ?j = "\<lparr>job_msg = m, job_pos = length (msg_frames m) - Suc (length fs), job_out = out, job_wait = wait\<rparr>"
    have "length (msg_frames m) - Suc (length (msg_frames m) - Suc (length fs)) = length fs"
      using Cons.prems by (simp add: Suc_diff_Suc)
    then show ?thesis using work_started_job [of "fst f" w wait w1 ?j] started Inr st by simp
  qed
qed

lemma work_resume: "work (resume env j r w) \<le> work w + 3 * (length (msg_frames (job_msg j)) - Suc (job_pos j))"
proof -
  let ?fs = "drop (Suc (job_pos j)) (msg_frames (job_msg j))"
  have len: "length ?fs \<le> length (msg_frames (job_msg j))" by simp
  show ?thesis
    using work_run_frames [OF len] by (cases r) (simp_all add: resume_def, metis work_say length_drop)
qed

lemma work_take:
  assumes "i < length (jobs w)"
  shows "work (w\<lparr>jobs := remove_at i (jobs w)\<rparr>) + job_work (jobs w ! i) = work w"
proof -
  obtain a b where ab: "jobs w = a @ jobs w ! i # b" "remove_at i (jobs w) = a @ b"
    using remove_at_split [OF assms] by blast
  have "sum_list (map job_work (jobs w)) = sum_list (map job_work (a @ b)) + job_work (jobs w ! i)"
    by (subst ab(1)) simp
  then show ?thesis by (simp add: work_def ab(2))
qed

lemma work_settle: "work (settle env ts r w) \<le> work w"
proof (cases "find_index (\<lambda>j. job_wait j = AwaitChunk ts) (jobs w)")
  case (Some i)
  then have i: "i < length (jobs w)" "job_wait (jobs w ! i) = AwaitChunk ts" by (auto simp: find_index_Some_iff)
  have "work (resume env (jobs w ! i) r (w\<lparr>jobs := remove_at i (jobs w)\<rparr>)) \<le> work w"
    using work_take [OF i(1)] work_resume [of env "jobs w ! i" r "w\<lparr>jobs := remove_at i (jobs w)\<rparr>"] i(2)
    by (simp add: job_work_def)
  then show ?thesis by (simp add: settle_def Some)
qed (simp add: settle_def)

lemma work_reject_all: "work (reject_all env err tss w) \<le> work w"
proof (induction tss arbitrary: w)
  case (Cons ts tss)
  show ?case using Cons.IH [of "settle (env ts) ts (Inl (js_error err)) w"] work_settle [of "env ts" ts "Inl (js_error err)" w]
    by (simp add: reject_all_def)
qed (simp add: reject_all_def)

lemma work_probe_done:
  assumes "waits i AwaitProbe w"
  shows "work (probe_done i ok e env w) + 1 \<le> work w"
proof -
  let ?j = "jobs w ! i" and ?rest = "3 * (length (msg_frames (job_msg (jobs w ! i))) - Suc (job_pos (jobs w ! i)))"
  define w1 where "w1 = w\<lparr>jobs := remove_at i (jobs w), videoDecoderProbed := Some ok\<rparr>"
  have lt: "i < length (jobs w)" and wait: "job_wait ?j = AwaitProbe" using assms by (simp_all add: waits_def)
  have "work w1 = work (w\<lparr>jobs := remove_at i (jobs w)\<rparr>)" by (rule work_fields) (simp_all add: w1_def)
  then have w1: "work w1 + ?rest + 3 = work w" using work_take [OF lt] wait by (simp add: job_work_def)
  obtain r w2 where r: "decodeH264Frame e (fst (job_frame ?j)) (ensure_probed e ok w1) = (r, w2)"
    by (cases "decodeH264Frame e (fst (job_frame ?j)) (ensure_probed e ok w1)")
  note st = probed_started [OF r]
  show ?thesis
  proof (cases r)
    case (Inl err)
    then show ?thesis
      using work_resume [of env ?j "Inl err" w2] work_started_inl [OF st [unfolded Inl]] w1 r by (simp add: probe_done_def w1_def)
  next
    case (Inr wait)
    have "wait \<noteq> AwaitProbe"
      using r Inr by (cases "ensure_probed e ok w1"; cases "(e, fst (job_frame ?j), ensure_probed e ok w1)" rule: decodeH264Frame.cases)
        (auto simp: submit_chunk_def Let_def split: if_splits option.splits)
    then show ?thesis
      using work_started_job [OF st [unfolded Inr], of "?j\<lparr>job_wait := wait\<rparr>"] w1 r Inr by (simp add: probe_done_def w1_def)
  qed
qed

lemma work_native_done:
  assumes "waits i AwaitNative w"
  shows "work (native_done i denv env w) + 1 \<le> work w"
proof -
  let ?j = "jobs w ! i"
  have lt: "i < length (jobs w)" and wait: "job_wait ?j = AwaitNative" using assms by (simp_all add: waits_def)
  obtain r fl where r: "decode_native denv (job_frame ?j) (msg_gpu (job_msg ?j)) (flags w) = (r, fl)"
    by (cases "decode_native denv (job_frame ?j) (msg_gpu (job_msg ?j)) (flags w)")
  have "work (w\<lparr>jobs := remove_at i (jobs w), flags := fl\<rparr>) = work (w\<lparr>jobs := remove_at i (jobs w)\<rparr>)"
    by (rule work_fields) simp_all
  then show ?thesis
    using work_take [OF lt] wait work_resume [of env ?j r "w\<lparr>jobs := remove_at i (jobs w), flags := fl\<rparr>"]
    by (simp add: native_done_def r job_work_def)
qed

lemma filter_key_shorter: "k \<in> fst ` set xs \<Longrightarrow> length (filter (\<lambda>p. fst p \<noteq> k) xs) < length xs"
  using length_filter_less by fastforce

lemma work_on_output:
  assumes "ts \<in> fst ` set (pendingH264 w)"
  shows "work (on_output ts cw ch w) + 1 \<le> work w"
proof -
  obtain d f where "map_of (pendingH264 w) ts = Some (d, f)"
    using assms by (metis map_of_eq_None_iff option.exhaust surj_pair)
  then show ?thesis using filter_key_shorter [OF assms] by (simp add: on_output_def work_def)
qed

lemma work_bitmap_done:
  assumes "ts \<in> fst ` set (delivering w)"
  shows "work (bitmap_done ts failure env w) + 1 \<le> work w"
proof -
  obtain f width height where "map_of (delivering w) ts = Some (f, width, height)"
    using assms by (metis map_of_eq_None_iff option.exhaust surj_pair)
  moreover have "work (w\<lparr>delivering := filter (\<lambda>p. fst p \<noteq> ts) (delivering w)\<rparr>) + 1 \<le> work w"
    using filter_key_shorter [OF assms] by (simp add: work_def)
  ultimately show ?thesis
    using work_settle [of env ts _ "w\<lparr>delivering := filter (\<lambda>p. fst p \<noteq> ts) (delivering w)\<rparr>"]
    unfolding bitmap_done_def by simp (meson Suc_le_mono le_trans)
qed

lemma worker_drains:
  assumes "worker_perform s w = Some w'"
  shows "work w' + (if browser_answer s then 1 else 0) \<le> work w + 3 * frames_given s"
proof (cases s)
  case (Message m env)
  have "work (w\<lparr>messages := messages w @ [m]\<rparr>) = work w" by (rule work_fields) simp_all
  then show ?thesis
    using work_run_frames [of "msg_frames m" m env "[]" "w\<lparr>messages := messages w @ [m]\<rparr>"] assms Message
    by (auto simp: on_message_def)
next
  case (DecoderError msg env)
  let ?w = "w\<lparr>pendingH264 := [], hasSeenH264Keyframe := False, videoDecoder := None, videoDecoderConfigured := False\<rparr>"
  obtain err outs where "w' = reject_all env err (map fst (pendingH264 w)) (say outs ?w)"
    using assms DecoderError by (auto simp: decoder_error_def)
  then have "work w' \<le> work ?w" using work_reject_all [of env err _ "say outs ?w"] by simp
  then show ?thesis using DecoderError by (simp add: work_def)
next
  case (CloseWorker env)
  let ?w = "w\<lparr>pendingH264 := [], hasSeenH264Keyframe := False, videoDecoder := None, videoDecoderConfigured := False,
      videoDecoderProbed := None\<rparr>"
  have "w' = reject_all env ''worker closing'' (map fst (pendingH264 w)) ?w"
    using assms CloseWorker by (simp add: closeVideoDecoder_def)
  then have "work w' \<le> work ?w" using work_reject_all by simp
  then show ?thesis using CloseWorker by (simp add: work_def)
next
  case (StrayOutput ts cw ch)
  then show ?thesis using assms by (auto simp: on_output_def map_of_eq_None_iff [symmetric] split: if_splits)
next
  case (ProbeDone i ok e env)
  then show ?thesis using assms work_probe_done [of i w ok e env] by (simp split: if_splits)
next
  case (NativeDone i denv env)
  then show ?thesis using assms work_native_done [of i w denv env] by (simp split: if_splits)
next
  case (Output ts cw ch)
  then show ?thesis using assms work_on_output [of ts w cw ch] by (simp split: if_splits)
next
  case (BitmapDone ts failure env)
  then show ?thesis using assms work_bitmap_done [of ts w failure env] by (simp split: if_splits)
qed

interpretation worker: draining worker_perform worker_inv work "\<lambda>s. 3 * frames_given s" browser_answer
  by unfold_locales (rule worker_drains)

lemma work_messages: "sum_list (map (\<lambda>s. 3 * frames_given s) es) = 3 * sum_list (map frames_given es)"
  by (induction es) simp_all


section \<open>Key frames first\<close>

text \<open>The renderer sends a batch only after the reply to the one before.\<close>

fun one_at_a_time :: "worker_step \<Rightarrow> video_worker \<Rightarrow> video_worker option" where
  "one_at_a_time (Message m env) w = (if jobs w = [] then worker_perform (Message m env) w else None)"
| "one_at_a_time s w = worker_perform s w"

text \<open>The first chunk that a decoder was given, and what is kept true of the decoder in use\<close>

definition first_chunk :: "nat \<Rightarrow> video_worker \<Rightarrow> bool option" where
  "first_chunk d w = map_of (chunks w) d"

definition decoder_ok :: "video_worker \<Rightarrow> bool" where
  "decoder_ok w \<longleftrightarrow>
     (\<forall>d. first_chunk d w \<noteq> Some False) \<and> (\<forall>c \<in> set (chunks w). fst c < created w)
     \<and> (case videoDecoder w of
          None \<Rightarrow> pendingH264 w = [] \<and> \<not> hasSeenH264Keyframe w \<and> \<not> videoDecoderConfigured w
        | Some d \<Rightarrow> videoDecoderConfigured w \<and> created w = Suc d
            \<and> (\<forall>p \<in> set (pendingH264 w). fst (snd p) = d)
            \<and> (hasSeenH264Keyframe w \<longleftrightarrow> first_chunk d w \<noteq> None)
            \<and> (pendingH264 w \<noteq> [] \<longrightarrow> hasSeenH264Keyframe w))"

definition probe_ok :: "video_worker \<Rightarrow> bool" where
  "probe_ok w \<longleftrightarrow> (\<exists>j \<in> set (jobs w). job_wait j = AwaitProbe) \<longrightarrow> videoDecoder w = None"

definition calm :: "video_worker \<Rightarrow> bool" where
  "calm w \<longleftrightarrow> decoder_ok w \<and> probe_ok w \<and> length (jobs w) \<le> 1"

lemma decoder_ok_fields:
  "decoder_ok w \<Longrightarrow> chunks w1 = chunks w \<Longrightarrow> created w1 = created w \<Longrightarrow> videoDecoder w1 = videoDecoder w
   \<Longrightarrow> pendingH264 w1 = pendingH264 w \<Longrightarrow> hasSeenH264Keyframe w1 = hasSeenH264Keyframe w
   \<Longrightarrow> videoDecoderConfigured w1 = videoDecoderConfigured w \<Longrightarrow> decoder_ok w1"
  by (cases "videoDecoder w") (auto simp: decoder_ok_def first_chunk_def)

lemma submit_decoder_ok:
  assumes "decoder_ok w" "videoDecoder w = Some d" "submit_chunk e f d w = (r, w1)"
  shows "decoder_ok w1 \<and> r \<noteq> Inr AwaitProbe"
proof -
  have old: "hasSeenH264Keyframe w \<longleftrightarrow> first_chunk d w \<noteq> None" "created w = Suc d"
    using assms(1,2) by (simp_all add: decoder_ok_def)
  have first: "map_of (chunks w @ [(d, is_key f)]) x = (if x = d \<and> first_chunk d w = None then Some (is_key f) else first_chunk x w)" for x
    by (auto simp: first_chunk_def map_add_def split: option.split)
  show ?thesis
  proof (cases "queued e w = 0 \<and> \<not> is_key f \<and> pendingH264 w = [] \<and> \<not> hasSeenH264Keyframe w")
    case True
    then show ?thesis using assms by (auto simp: submit_chunk_def)
  next
    case False
    then have key: "hasSeenH264Keyframe w \<or> is_key f"
      using assms(1,2) by (auto simp: queued_def decoder_ok_def)
    define w0 where "w0 = w\<lparr>hasSeenH264Keyframe := hasSeenH264Keyframe w \<or> is_key f, h264TimestampSeq := h264TimestampSeq w + 1,
      chunks := chunks w @ [(d, is_key f)]\<rparr>"
    have first_w0: "first_chunk x w0 = (if x = d \<and> first_chunk d w = None then Some (is_key f) else first_chunk x w)" for x
      using first [of x] by (simp add: first_chunk_def w0_def)
    have w0: "decoder_ok w0"
      using assms(1,2) old key
      unfolding decoder_ok_def first_w0 by (auto simp: w0_def)
    show ?thesis
    proof (cases "decode_raises e")
      case None
      have "w1 = w0\<lparr>pendingH264 := pendingH264 w0 @ [(h264TimestampSeq w + 1, d, f)]\<rparr>" "r = Inr (AwaitChunk (h264TimestampSeq w + 1))"
        using assms(3) False None by (simp_all add: submit_chunk_def Let_def w0_def)
      then show ?thesis using w0 assms(2) key by (auto simp: decoder_ok_def first_chunk_def w0_def)
    next
      case (Some msg)
      then have "w1 = w0" "r = Inl msg" using assms(3) False by (auto simp: submit_chunk_def Let_def w0_def split: if_splits)
      then show ?thesis using w0 by simp
    qed
  qed
qed

lemma ensure_probed_decoder_ok:
  assumes "decoder_ok w" "videoDecoder w = None" "ensure_probed e ok w = (r, w1)"
  shows "decoder_ok w1 \<and> (\<forall>d. r = Inr (Some d) \<longrightarrow> videoDecoder w1 = Some d)"
proof -
  have "first_chunk (created w) w = None"
    using assms(1) by (auto simp: decoder_ok_def first_chunk_def map_of_eq_None_iff)
  moreover have "\<forall>c \<in> set (chunks w). fst c < Suc (created w)"
    using assms(1) by (auto simp: decoder_ok_def less_Suc_eq)
  ultimately show ?thesis
    using assms
    by (cases ok; cases "create_raises e") (force simp: ensure_probed_def decoder_ok_def first_chunk_def Let_def)+
qed

lemma decodeH264_decoder_ok:
  assumes "decoder_ok w" "\<And>d. r0 = Inr (Some d) \<Longrightarrow> videoDecoder w = Some d" "decodeH264Frame e f (r0, w) = (r, w1)"
  shows "decoder_ok w1 \<and> r \<noteq> Inr AwaitProbe"
  using assms submit_decoder_ok [of w _ e f r w1]
  by (cases "(e, f, (r0, w))" rule: decodeH264Frame.cases) auto

lemma probed_decoder_ok:
  assumes "decoder_ok w" "videoDecoder w = None" "decodeH264Frame e f (ensure_probed e ok w) = (r, w1)"
  shows "decoder_ok w1 \<and> r \<noteq> Inr AwaitProbe"
proof (cases "ensure_probed e ok w")
  case (Pair r0 w0)
  then show ?thesis
    using ensure_probed_decoder_ok [OF assms(1,2) Pair] decodeH264_decoder_ok [of w0 r0 e f r w1] assms(3) by simp
qed

lemma start_decoder_ok:
  assumes "decoder_ok w" "start_frame e f w = (r, w1)"
  shows "decoder_ok w1 \<and> (r = Inr AwaitProbe \<longrightarrow> videoDecoder w1 = None)"
proof (cases "validateFrame f = None \<and> fr_encoding f = H264")
  case False
  have "decoder_ok ((say outs w)\<lparr>warnedRFX := True\<rparr>)" for outs
    by (rule decoder_ok_fields [OF assms(1)]) (simp_all add: say_def)
  then show ?thesis using assms False
    by (cases "fr_encoding f") (auto simp: start_frame_def decode_rfx_def split: option.splits if_splits)
next
  case True
  then have run: "(case ensureVideoDecoder e w of
      (None, w1) \<Rightarrow> (Inr AwaitProbe, w1) | (Some r, w1) \<Rightarrow> decodeH264Frame e f (r, w1)) = (r, w1)"
    using assms(2) by (simp add: start_frame_def)
  show ?thesis
  proof (cases "videoDecoder w")
    case (Some d)
    then have "videoDecoderConfigured w" using assms(1) by (simp add: decoder_ok_def)
    then show ?thesis using run Some submit_decoder_ok [OF assms(1) Some] by (auto simp: ensureVideoDecoder_def)
  next
    case None
    show ?thesis
    proof (cases "supportsVideoDecoder e \<and> videoDecoderProbed w \<noteq> None")
      case False
      then show ?thesis using run None assms(1) by (auto simp: ensureVideoDecoder_def split: if_splits)
    next
      case True
      then obtain ok where "videoDecoderProbed w = Some ok" by auto
      then have "decodeH264Frame e f (ensure_probed e ok w) = (r, w1)"
        using run None True by (cases "ensure_probed e ok w") (simp add: ensureVideoDecoder_def)
      from probed_decoder_ok [OF assms(1) None this] show ?thesis by simp
    qed
  qed
qed

lemma decoder_ok_say: "decoder_ok w \<Longrightarrow> decoder_ok (say outs w)"
  by (erule decoder_ok_fields) (simp_all add: say_def)

lemma jobs_say [simp]: "jobs (say outs w) = jobs w"
  by (simp add: say_def)

lemma run_frames_calm: "decoder_ok w \<Longrightarrow> jobs w = [] \<Longrightarrow> calm (run_frames env m out fs w)"
proof (induction fs arbitrary: w)
  case Nil
  then show ?case by (auto simp: answer_def calm_def probe_ok_def decoder_ok_say split: option.split)
next
  case (Cons f fs)
  obtain r w1 where st: "start_frame (env (Suc (length fs))) (fst f) w = (r, w1)"
    by (cases "start_frame (env (Suc (length fs))) (fst f) w")
  have w1: "decoder_ok w1" "r = Inr AwaitProbe \<longrightarrow> videoDecoder w1 = None" "jobs w1 = []"
    using start_decoder_ok [OF Cons.prems(1) st] start_frame_started [OF st] Cons.prems(2) by (simp_all add: started_def)
  show ?case
  proof (cases r)
    case (Inl err)
    then show ?thesis using Cons.IH [of "say [Skipped err] w1"] w1 st by (simp add: decoder_ok_say)
  next
    case (Inr wait)
    have "decoder_ok (w1\<lparr>jobs := js\<rparr>)" for js by (rule decoder_ok_fields [OF w1(1)]) simp_all
    then show ?thesis using Inr w1 st by (auto simp: calm_def probe_ok_def)
  qed
qed

lemma resume_calm: "decoder_ok w \<Longrightarrow> jobs w = [] \<Longrightarrow> calm (resume env j r w)"
  by (cases r) (simp_all add: resume_def run_frames_calm decoder_ok_say)

lemma calm_job:
  assumes "calm w" "i < length (jobs w)"
  shows "jobs w = [jobs w ! i]" "remove_at i (jobs w) = []"
  using assms by (cases "jobs w"; auto simp: calm_def remove_at_def)+

lemma settle_calm: "calm w \<Longrightarrow> calm (settle env ts r w)"
proof (cases "find_index (\<lambda>j. job_wait j = AwaitChunk ts) (jobs w)")
  case (Some i)
  assume calm: "calm w"
  have "decoder_ok (w\<lparr>jobs := []\<rparr>)" by (rule decoder_ok_fields [of w]) (use calm in \<open>simp_all add: calm_def\<close>)
  moreover have "i < length (jobs w)" using Some by (auto simp: find_index_Some_iff)
  ultimately show ?thesis using calm_job(2) [OF calm] Some by (simp add: settle_def resume_calm)
qed (simp add: settle_def)

lemma reject_all_calm: "calm w \<Longrightarrow> calm (reject_all env err tss w)"
  by (induction tss arbitrary: w) (simp_all add: reject_all_def settle_calm)

lemma calm_reset:
  assumes "calm w" "videoDecoder w1 = None" "pendingH264 w1 = []" "\<not> hasSeenH264Keyframe w1" "\<not> videoDecoderConfigured w1"
    "chunks w1 = chunks w" "created w1 = created w" "jobs w1 = jobs w"
  shows "calm w1"
  using assms by (auto simp: calm_def decoder_ok_def probe_ok_def first_chunk_def)

lemma probe_done_calm:
  assumes "calm w" "waits i AwaitProbe w"
  shows "calm (probe_done i ok e env w)"
proof -
  have lt: "i < length (jobs w)" and wait: "job_wait (jobs w ! i) = AwaitProbe" using assms(2) by (simp_all add: waits_def)
  have none: "videoDecoder w = None" using assms(1) lt wait nth_mem [OF lt] by (auto simp: calm_def probe_ok_def)
  define w1 where "w1 = w\<lparr>jobs := [], videoDecoderProbed := Some ok\<rparr>"
  have w1: "decoder_ok w1" "videoDecoder w1 = None" "jobs w1 = []"
    using decoder_ok_fields [of w w1] assms(1) none by (simp_all add: w1_def calm_def)
  obtain r w2 where r: "decodeH264Frame e (fst (job_frame (jobs w ! i))) (ensure_probed e ok w1) = (r, w2)"
    by (cases "decodeH264Frame e (fst (job_frame (jobs w ! i))) (ensure_probed e ok w1)")
  have w2: "decoder_ok w2" "r \<noteq> Inr AwaitProbe" "jobs w2 = []"
    using probed_decoder_ok [OF w1(1,2) r] probed_started [OF r] w1(3) by (simp_all add: started_def)
  have "decoder_ok (w2\<lparr>jobs := js\<rparr>)" for js by (rule decoder_ok_fields [OF w2(1)]) simp_all
  then show ?thesis
    using r w2 resume_calm [of w2 env "jobs w ! i"] calm_job(2) [OF assms(1) lt]
    by (auto simp: probe_done_def w1_def Let_def calm_def probe_ok_def split: sum.splits)
qed

lemma native_done_calm:
  assumes "calm w" "waits i AwaitNative w"
  shows "calm (native_done i denv env w)"
proof -
  have "i < length (jobs w)" using assms(2) by (simp add: waits_def)
  moreover have "decoder_ok (w\<lparr>jobs := [], flags := fl\<rparr>)" for fl
    by (rule decoder_ok_fields [of w]) (use assms(1) in \<open>simp_all add: calm_def\<close>)
  ultimately show ?thesis using calm_job(2) [OF assms(1)]
    by (auto simp: native_done_def Let_def resume_calm split: prod.split)
qed

lemma on_output_calm: "calm w \<Longrightarrow> calm (on_output ts cw ch w)"
  by (auto simp: on_output_def calm_def decoder_ok_def probe_ok_def first_chunk_def split: option.splits)

lemma bitmap_done_calm: "calm w \<Longrightarrow> calm (bitmap_done ts failure env w)"
proof -
  assume "calm w"
  then have "calm (w\<lparr>delivering := ps\<rparr>)" for ps
    using decoder_ok_fields [of w "w\<lparr>delivering := ps\<rparr>"] by (simp add: calm_def probe_ok_def)
  then show ?thesis using \<open>calm w\<close> by (auto simp: bitmap_done_def intro!: settle_calm split: option.splits prod.splits)
qed

lemma one_at_a_time_calm:
  assumes "calm w" "one_at_a_time s w = Some w'"
  shows "calm w'"
proof (cases s)
  case (Message m env)
  have "decoder_ok (w\<lparr>messages := messages w @ [m]\<rparr>)"
    by (rule decoder_ok_fields [of w]) (use assms(1) in \<open>simp_all add: calm_def\<close>)
  then show ?thesis using assms(2) Message by (auto simp: on_message_def run_frames_calm split: if_splits)
next
  case (DecoderError msg env)
  then show ?thesis using assms(2)
    by (auto simp: decoder_error_def say_def intro!: reject_all_calm calm_reset [OF assms(1)])
next
  case (CloseWorker env)
  then show ?thesis using assms(2)
    by (auto simp: closeVideoDecoder_def intro!: reject_all_calm calm_reset [OF assms(1)])
qed (use assms in \<open>auto simp: probe_done_calm native_done_calm on_output_calm bitmap_done_calm split: if_splits\<close>)

interpretation calm_worker: machine one_at_a_time calm
  by unfold_locales (rule one_at_a_time_calm)

definition plain_env :: frame_env where
  "plain_env = \<lparr>supportsVideoDecoder = True, create_raises = None, decodeQueueSize = 0, decode_raises = None, transfer_raises = None\<rparr>"

definition video_message :: "nat \<Rightarrow> bool \<Rightarrow> message" where
  "video_message i key =
     \<lparr>msg_id = i, msg_frames = [(\<lparr>fr_x = 0, fr_y = 0, fr_width = 16, fr_height = 16, fr_encoding = H264, fr_keyframe = Some key\<rparr>, [0])],
      msg_gpu = False\<rparr>"

text \<open>C27: As long as each batch waits for the reply to the one before, the first chunk that any decoder object
  is given is a key frame, and what is pending was given to the decoder in use. Two batches that both
  wait for the codec probe break this: the second closes the decoder that holds the first one's chunk
  and starts its own with a delta frame.\<close>

theorem decoder_starts_with_key:
  assumes "run_steps one_at_a_time es new_worker = Some w"
  shows "first_chunk d w \<noteq> Some False
    \<and> (\<forall>p \<in> set (pendingH264 w). videoDecoder w = Some (fst (snd p)))
    \<and> (case run_steps worker_perform
          [Message (video_message 1 True) (\<lambda>_. plain_env), Message (video_message 2 False) (\<lambda>_. plain_env),
           ProbeDone 0 True plain_env (\<lambda>_. plain_env), ProbeDone 0 True plain_env (\<lambda>_. plain_env)] new_worker of
        None \<Rightarrow> False
      | Some w2 \<Rightarrow> map (\<lambda>p. fst (snd p)) (pendingH264 w2) = [0, 1] \<and> videoDecoder w2 = Some 1 \<and> first_chunk 1 w2 = Some False)"
proof -
  have new: "calm new_worker" by (simp add: calm_def decoder_ok_def probe_ok_def first_chunk_def new_worker_def)
  have ok: "decoder_ok w" using calm_worker.run_inv [OF assms new] by (simp add: calm_def)
  then have "first_chunk d w \<noteq> Some False" "\<forall>p \<in> set (pendingH264 w). videoDecoder w = Some (fst (snd p))"
    by (auto simp: decoder_ok_def split: option.splits)
  then show ?thesis
    by (simp add: new_worker_def on_message_def start_frame_def video_message_def validateFrame_def ensureVideoDecoder_def
        plain_env_def waits_def probe_done_def remove_at_def job_frame_def ensure_probed_def submit_chunk_def queued_def
        is_key_def first_chunk_def)
qed

section \<open>A run\<close>

definition demo_steps :: "worker_step list" where
  "demo_steps = [Message (video_message 1 True) (\<lambda>_. plain_env), ProbeDone 0 True plain_env (\<lambda>_. plain_env),
     Output 1 16 16, BitmapDone 1 None (\<lambda>_. plain_env), Message (video_message 2 False) (\<lambda>_. plain_env)]"

lemmas worker_eval =
  new_worker_def on_message_def start_frame_def video_message_def validateFrame_def ensureVideoDecoder_def plain_env_def
  waits_def probe_done_def remove_at_def job_frame_def ensure_probed_def submit_chunk_def queued_def is_key_def
  on_output_def bitmap_done_def settle_def resume_def answer_def say_def

lemma demo_run:
  obtains w where "run_steps worker_perform demo_steps new_worker = Some w" "run_steps one_at_a_time demo_steps new_worker = Some w"
    "reply_ids (outbox w) = [1]" "map msg_id (messages w) = [1, 2]" "map job_wait (jobs w) = [AwaitChunk 2]"
    "map (\<lambda>p. (fst p, fst (snd p))) (pendingH264 w) = [(2, 0)]"
  by (simp add: demo_steps_def worker_eval reply_ids_def)

theorem decode_worker_answers_witness:
  "\<exists>w. run_steps worker_perform demo_steps new_worker = Some w \<and> reply_ids (outbox w) = [1]
     \<and> mset (map msg_id (messages w)) = mset (reply_ids (outbox w)) + mset (map (\<lambda>j. msg_id (job_msg j)) (jobs w))"
proof (rule demo_run)
  fix w assume "run_steps worker_perform demo_steps new_worker = Some w" "reply_ids (outbox w) = [1]"
  then show ?thesis using decode_worker_answers [of demo_steps w] by (intro exI [of _ w] conjI) simp_all
qed


theorem decoder_starts_with_key_witness:
  "\<exists>w. run_steps one_at_a_time demo_steps new_worker = Some w \<and> first_chunk 0 w \<noteq> Some False
     \<and> map (\<lambda>p. (fst p, fst (snd p))) (pendingH264 w) = [(2, 0)]"
proof (rule demo_run)
  fix w assume w: "run_steps one_at_a_time demo_steps new_worker = Some w"
    "map (\<lambda>p. (fst p, fst (snd p))) (pendingH264 w) = [(2, 0)]"
  have "first_chunk 0 w \<noteq> Some False" using decoder_starts_with_key [OF w(1), of 0] by (rule conjunct1)
  then show ?thesis using w by (intro exI [of _ w] conjI)
qed

end
