(* ===== verification/RenderPipeline.thy ===== *)
theory RenderPipeline
  imports CanvasRendererProps DecodeWorkerProps
begin

text \<open>
  How the canvas renderer and its decode workers fit together: as long as posting succeeds, the renderer posts a
  batch only when the workers have answered every request before, and gives each worker at most
  one message of it. This is what the decode worker relies on when it takes one batch at a time.
\<close>

text \<open>The worker answers each batch (it sends no \<open>error\<close> message), and no \<open>postMessage\<close> raises.\<close>

fun orderly :: "renderer_step \<Rightarrow> bool" where
  "orderly (DecodeError i msg) = False"
| "orderly (RafFires now failing) = (failing = [])"
| "orderly _ = True"

definition unanswered :: "renderer \<Rightarrow> nat set" where
  "unanswered s = fst ` {p \<in> set (flight s). snd p = None}"

definition served :: "renderer \<Rightarrow> bool" where
  "served s \<longleftrightarrow> rinv s \<and> set (decodeRequests s) \<subseteq> unanswered s"

definition exchange :: "renderer \<Rightarrow> _" where
  "exchange s = (flight s, decodeRequests s, posted s)"

lemma served_exchange: "served s \<Longrightarrow> exchange s' = exchange s \<Longrightarrow> rinv s' \<Longrightarrow> served s'"
  by (simp add: served_def exchange_def unanswered_def)

lemma exchange_report [simp]: "exchange (report r s) = exchange s"
  by (simp add: report_def exchange_def)

lemma exchange_emitError [simp]: "exchange (emitError m s) = exchange s"
  by (simp add: emitError_def)

lemma exchange_resize [simp]: "exchange (resize w h s) = exchange s"
proof -
  have "exchange (s\<lparr>canvas_width := a, canvas_height := b\<rparr>) = exchange s" for a b by (simp add: exchange_def)
  then show ?thesis by (simp add: resize_def Let_def)
qed

lemma exchange_schedule [simp]: "exchange (schedulePaintFlush s) = exchange s"
  by (simp add: schedulePaintFlush_def exchange_def)

lemma exchange_paint [simp]: "exchange (paintFrameBatchBytes frames s) = exchange s"
  by (auto simp: paintFrameBatchBytes_def trimPendingPaintFrames_def collapse_full_def discard_pending_def push_frames
      exchange_def schedulePaintFlush_def Let_def split: option.splits prod.splits)

lemma exchange_metrics [simp]: "exchange (metrics_tick s) = exchange s"
  by (simp add: metrics_tick_def Let_def report_def exchange_def)

lemma exchange_ensure [simp]: "exchange (ensureRectFits f s) = exchange s"
  by (simp add: ensureRectFits_def Let_def)

lemma exchange_fold_ensure [simp]: "exchange (fold (\<lambda>item. ensureRectFits (dec_frame item)) items s) = exchange s"
  by (induction items arbitrary: s) simp_all

lemma exchange_fold_vote [simp]: "exchange (fold vote items s) = exchange s"
  by (induction items arbitrary: s) (simp_all add: vote_def exchange_def)

lemma requests_end_paint [simp]:
  "decodeRequests (end_paint s) = decodeRequests s" "posted (end_paint s) = posted s"
  by (simp_all add: end_paint_def Let_def schedulePaintFlush_def)

lemma exchange_parts: "exchange s' = exchange s \<Longrightarrow> decodeRequests s' = decodeRequests s \<and> posted s' = posted s"
  by (simp add: exchange_def)

lemma requests_finish [simp]:
  "decodeRequests (finish_flush decoded a b raises s) = decodeRequests s \<and> posted (finish_flush decoded a b raises s) = posted s"
proof -
  note ensured = exchange_parts [OF exchange_fold_ensure, of decoded s]
  have voted: "decodeRequests (fold vote decoded t) = decodeRequests t" "posted (fold vote decoded t) = posted t" for t
    using exchange_parts [OF exchange_fold_vote] by blast+
  have failed: "decodeRequests (paint_failed m t) = decodeRequests t" "posted (paint_failed m t) = posted t" for m t
    using exchange_parts [OF exchange_emitError] by (simp_all add: paint_failed_def)
  show ?thesis by (auto simp: finish_flush_def Let_def ensured voted failed split: option.splits)
qed

lemma unanswered_fresh: "flight s = map (\<lambda>p. (post_id p, None)) posts \<Longrightarrow> unanswered s = post_id ` set posts"
  by (force simp: unanswered_def)

lemma idle_no_requests: "served s \<Longrightarrow> \<not> painting s \<Longrightarrow> decodeRequests s = []"
  by (auto simp: served_def unanswered_def rinv_def)

text \<open>The flush posts the whole batch when no request is open.\<close>

lemma flush_exchange:
  assumes "served s"
  obtains "exchange (runPaintFlush now [] (s\<lparr>paintRaf := False\<rparr>)) = exchange s"
  | "\<not> painting s" "decodeRequests (runPaintFlush now [] (s\<lparr>paintRaf := False\<rparr>)) = []"
    "posted (runPaintFlush now [] (s\<lparr>paintRaf := False\<rparr>)) = posted s"
  | posts where "\<not> painting s" "0 < workers s"
    "posted (runPaintFlush now [] (s\<lparr>paintRaf := False\<rparr>)) = posted s @ posts"
    "flight (runPaintFlush now [] (s\<lparr>paintRaf := False\<rparr>)) = map (\<lambda>p. (post_id p, None)) posts"
    "decodeRequests (runPaintFlush now [] (s\<lparr>paintRaf := False\<rparr>)) = map post_id posts"
    "map post_worker posts = [0..<length posts]" "length posts \<le> workers s"
    "concat (map post_frames posts) = pendingFrames s"
proof (cases "destroyed s \<or> painting s \<or> surface s = None \<or> pendingFrames s = []")
  case True
  then show thesis using that(1) by (auto simp: runPaintFlush_def exchange_def Let_def)
next
  case False
  let ?s2 = "s\<lparr>paintRaf := False, pendingFrames := [], pendingBytes := 0, painting := True, decodeStart := now\<rparr>"
  have idle: "\<not> painting s" "decodeRequests s = []" using False idle_no_requests [OF assms] by simp_all
  show thesis
  proof (cases "workers s = 0")
    case True
    then show thesis
      using that(2) False idle exchange_parts [OF exchange_emitError] by (simp add: runPaintFlush_def Let_def paint_failed_def)
  next
    case w: False
    let ?parts = "batch_parts (workers s) (pendingFrames s)"
    let ?posts = "part_posts ?s2 ?parts"
    have parts: "concat ?parts = pendingFrames s" "length ?parts \<le> workers s"
      using batch_parts_cover [of "workers s" "pendingFrames s"] False w by auto
    have run: "runPaintFlush now [] (s\<lparr>paintRaf := False\<rparr>) =
        ?s2\<lparr>posted := posted s @ ?posts, decodeSeq := decodeSeq s + length ?posts,
            decodeRequests := map post_id ?posts, flight := map (\<lambda>p. (post_id p, None)) ?posts\<rparr>"
      using False w idle by (auto simp: runPaintFlush_def Let_def)
    have "map post_worker ?posts = [0..<length ?posts]"
      using parts(2) by (auto simp: part_posts_def intro!: nth_equalityI)
    then show thesis
      using that(3) [of ?posts] run idle w parts part_posts_frames [of ?s2 ?parts] by simp
  qed
qed

lemma decoded_served:
  assumes "served s"
  shows "served (on_decoded i frames a b raises s)"
proof (cases "i \<in> set (decodeRequests s)")
  case False
  then show ?thesis using assms by (simp add: on_decoded_def)
next
  case True
  define s1 where "s1 = s\<lparr>decodeRequests := removeAll i (decodeRequests s), flight := set_part i frames (flight s)\<rparr>"
  have rinv: "rinv (on_decoded i frames a b raises s)" using assms on_decoded_rinv by (simp add: served_def)
  have sub: "set (decodeRequests s1) \<subseteq> unanswered s1"
    using assms by (force simp: s1_def served_def unanswered_def set_part_def)
  show ?thesis
  proof (cases "i \<in> fst ` set (flight s) \<and> list_all (\<lambda>p. snd p \<noteq> None) (flight s1)")
    case True
    then have "unanswered s1 = {}" by (force simp: unanswered_def list_all_iff)
    then have "decodeRequests s1 = []" using sub by simp
    moreover have "on_decoded i frames a b raises s = finish_flush (concat (map (\<lambda>p. the (snd p)) (flight s1))) a b raises s1"
      using True \<open>i \<in> set (decodeRequests s)\<close> by (simp add: on_decoded_def s1_def Let_def)
    ultimately show ?thesis using rinv by (simp add: served_def)
  next
    case False
    then have "on_decoded i frames a b raises s = s1"
      using \<open>i \<in> set (decodeRequests s)\<close> by (auto simp: on_decoded_def s1_def Let_def)
    then show ?thesis using rinv sub by (simp add: served_def)
  qed
qed

definition orderly_perform :: "renderer_step \<Rightarrow> renderer \<Rightarrow> renderer option" where
  "orderly_perform e s = (if orderly e then perform e s else None)"

lemma orderly_served:
  assumes "served s" "orderly_perform e s = Some s'"
  shows "served s'"
proof -
  have e: "orderly e" "perform e s = Some s'" using assms(2) by (auto simp: orderly_perform_def split: if_splits)
  then have rinv: "rinv s'" using perform_rinv assms(1) by (auto simp: served_def)
  note same = served_exchange [OF assms(1) _ rinv]
  show ?thesis
  proof (cases e)
    case (RafFires now failing)
    then have "s' = runPaintFlush now [] (s\<lparr>paintRaf := False\<rparr>)" using e by (auto simp: raf_fires_def split: if_splits)
    then show ?thesis
      using rinv same by (cases rule: flush_exchange [OF assms(1), of now]) (auto simp: served_def unanswered_fresh)
  next
    case (Decoded i frames a b raises)
    then show ?thesis using e decoded_served [OF assms(1)] by auto
  next
    case (SurfaceResolved k)
    then have "exchange s' = exchange s"
      using e by (auto simp: surface_resolved_def schedulePaintFlush_def exchange_def split: if_splits)
    then show ?thesis by (rule same)
  next
    case Destroy
    then show ?thesis using e rinv by (auto simp: destroy_def served_def)
  qed (use e same in \<open>auto simp: on_worker_error_def on_warn_def on_refresh_needed_def\<close>)
qed

interpretation orderly: machine orderly_perform served
  by unfold_locales (rule orderly_served)

text \<open>When the renderer posts, every request it made before has been answered; the posts of one
  flush go to distinct workers of the pool and carry exactly the frames that were waiting, in order.\<close>

theorem posts_wait_for_replies:
  assumes "run_steps orderly_perform es (createRenderer w h n) = Some s" "orderly_perform e s = Some s'"
    "posted s' \<noteq> posted s"
  shows "decodeRequests s = []
    \<and> (\<exists>posts. posted s' = posted s @ posts \<and> distinct (map post_worker posts) \<and> length posts \<le> workers s
         \<and> concat (map post_frames posts) = pendingFrames s \<and> decodeRequests s' = map post_id posts)"
proof -
  have "served (createRenderer w h n)"
    using createRenderer_rinv by (simp add: served_def createRenderer_def)
  then have served: "served s" by (rule orderly.run_inv [OF assms(1)])
  have e: "orderly e" "perform e s = Some s'" using assms(2) by (auto simp: orderly_perform_def split: if_splits)
  have exchange: "exchange s' \<noteq> exchange s" using assms(3) by (auto simp: exchange_def)
  show ?thesis
  proof (cases e)
    case (RafFires now failing)
    then have s': "s' = runPaintFlush now [] (s\<lparr>paintRaf := False\<rparr>)" using e by (auto simp: raf_fires_def split: if_splits)
    show ?thesis
      using assms(3) exchange unfolding s'
      by (cases rule: flush_exchange [OF served, of now]) (auto simp: idle_no_requests [OF served])
  next
    case (Decoded i frames a b raises)
    then show ?thesis using e assms(3) by (auto simp: on_decoded_def Let_def split: if_splits)
  next
    case (SurfaceResolved k)
    then show ?thesis using e assms(3) by (auto simp: surface_resolved_def schedulePaintFlush_def split: if_splits)
  next
    case Destroy
    then show ?thesis using e assms(3) by (auto simp: destroy_def)
  qed (use e exchange in \<open>auto simp: on_worker_error_def on_warn_def on_refresh_needed_def\<close>)
qed

lemma demo_posts:
  "\<exists>s s'. run_steps orderly_perform [SurfaceResolved WebGPU, Paint [(\<lparr>fr_x = 0, fr_y = 0, fr_width = 1, fr_height = 1, fr_encoding = Png, fr_keyframe = None\<rparr>, [1])]]
        (createRenderer 100 100 1) = Some s
     \<and> orderly_perform (RafFires 0 []) s = Some s' \<and> posted s' \<noteq> posted s \<and> length (posted s') = 1"
  by (simp add: orderly_perform_def createRenderer_def surface_resolved_def schedulePaintFlush_def paintFrameBatchBytes_def
      near_full_def isNearFullCanvasFrame_def push_frame_def trimPendingPaintFrames_def over_budget_def MAX_PENDING_PAINT_FRAMES_def
      MAX_PENDING_PAINT_BYTES_def raf_fires_def runPaintFlush_def batch_parts_def part_posts_def Let_def)

theorem posts_wait_for_replies_witness:
  "\<exists>s s'. run_steps orderly_perform [SurfaceResolved WebGPU, Paint [(\<lparr>fr_x = 0, fr_y = 0, fr_width = 1, fr_height = 1, fr_encoding = Png, fr_keyframe = None\<rparr>, [1])]]
        (createRenderer 100 100 1) = Some s
     \<and> orderly_perform (RafFires 0 []) s = Some s' \<and> decodeRequests s = [] \<and> length (posted s') = 1"
proof -
  obtain s s' where s: "run_steps orderly_perform [SurfaceResolved WebGPU, Paint [(\<lparr>fr_x = 0, fr_y = 0, fr_width = 1, fr_height = 1, fr_encoding = Png, fr_keyframe = None\<rparr>, [1])]]
        (createRenderer 100 100 1) = Some s"
    "orderly_perform (RafFires 0 []) s = Some s'" "posted s' \<noteq> posted s" "length (posted s') = 1"
    using demo_posts by blast
  show ?thesis using posts_wait_for_replies [OF s(1-3)] s by (intro exI [of _ s] exI [of _ s'] conjI) simp_all
qed

end
