(* ===== verification/PortForward.thy ===== *)
theory PortForward
  imports WebPlatform Machine
begin

text \<open>
  The live view of port forwards: the events client of \<open>lib/portfwd/events-client.ts\<close>, which keeps one socket to
  the gateway and reconnects with a growing delay, and the store of \<open>hooks/use-portfwd-events.tsx\<close>
  that folds the events into the counters of each forward. The event as the gateway encodes it
  (\<open>internal/protocols/tcpfwd/events.go\<close>) leaves out counters that are zero.
\<close>

section \<open>The client\<close>

datatype PfStatus = PfConnecting | PfOpen | PfClosed | PfError

datatype pf_call = StatusCall PfStatus | EventCall json | LatencyCall int | UncaughtError

record PortForwardEventsClient = "unit web" +
  pf_ws :: "nat option"
  pf_closed :: bool
  reconnectAttempt :: nat
  reconnectTimer :: "nat option"
  hbTimer :: "nat option"
  timeouts :: "(nat \<times> nat) list"
  next_timeout :: nat
  pf_calls :: "pf_call list"

definition RECONNECT_BACKOFF_MS :: "nat list" where
  "RECONNECT_BACKOFF_MS = [500, 1000, 2000, 4000, 8000, 15000]"

definition new_pf_client :: PortForwardEventsClient where
  "new_pf_client =
     \<lparr>sockets = [], intervals = [], next_interval = 1, pf_ws = None, pf_closed = False, reconnectAttempt = 0,
      reconnectTimer = None, hbTimer = None, timeouts = [], next_timeout = 1, pf_calls = []\<rparr>"

definition pf_call :: "pf_call \<Rightarrow> PortForwardEventsClient \<Rightarrow> PortForwardEventsClient" where
  "pf_call c s = s\<lparr>pf_calls := pf_calls s @ [c]\<rparr>"

definition clearHeartbeat :: "PortForwardEventsClient \<Rightarrow> PortForwardEventsClient" where
  "clearHeartbeat s = (case hbTimer s of None \<Rightarrow> s | Some n \<Rightarrow> (clear_interval n s)\<lparr>hbTimer := None\<rparr>)"

definition scheduleReconnect :: "PortForwardEventsClient \<Rightarrow> PortForwardEventsClient" where
  "scheduleReconnect s =
     (if pf_closed s then s
      else
        let idx = min (reconnectAttempt s) (length RECONNECT_BACKOFF_MS - 1);
            delay = RECONNECT_BACKOFF_MS ! idx
        in s\<lparr>reconnectAttempt := reconnectAttempt s + 1, timeouts := timeouts s @ [(next_timeout s, delay)],
             reconnectTimer := Some (next_timeout s), next_timeout := next_timeout s + 1\<rparr>)"

text \<open>\<open>raises\<close>: the constructor of the socket raises.\<close>

definition start :: "string option \<Rightarrow> bool \<Rightarrow> PortForwardEventsClient \<Rightarrow> PortForwardEventsClient" where
  "start token raises s =
     (if pf_closed s then s
      else
        let s1 = pf_call (StatusCall PfConnecting) s in
        if raises then scheduleReconnect (pf_call (StatusCall PfError) s1)
        else (new_socket (''/api/v1/ws/portforward/events'', [(''token'', nullish token [])]) s1)
               \<lparr>pf_ws := Some (length (sockets s1))\<rparr>)"

definition pf_open :: "nat \<Rightarrow> PortForwardEventsClient \<Rightarrow> PortForwardEventsClient" where
  "pf_open i s =
     (if pf_closed s then socket_close i s
      else
        let (n, s1) = set_interval () (pf_call (StatusCall PfOpen) (s\<lparr>reconnectAttempt := 0\<rparr>))
        in s1\<lparr>hbTimer := Some n\<rparr>)"

definition pf_message :: "(string \<Rightarrow> json option) \<Rightarrow> string \<Rightarrow> int \<Rightarrow> PortForwardEventsClient \<Rightarrow> PortForwardEventsClient" where
  "pf_message parse text now s =
     (case parse text of
        None \<Rightarrow> s
      | Some payload \<Rightarrow>
          if payload = JNull then pf_call UncaughtError s
          else if member ''type'' payload = Some (JStr ''hb'') then
            (case member ''ts_ms'' payload of
               Some (JNum t) \<Rightarrow> pf_call (LatencyCall (max 0 (now - t))) s
             | _ \<Rightarrow> s)
          else pf_call (EventCall payload) s)"

definition pf_error :: "PortForwardEventsClient \<Rightarrow> PortForwardEventsClient" where
  "pf_error = pf_call (StatusCall PfError)"

definition pf_close :: "PortForwardEventsClient \<Rightarrow> PortForwardEventsClient" where
  "pf_close s = scheduleReconnect (pf_call (StatusCall PfClosed) ((clearHeartbeat s)\<lparr>pf_ws := None\<rparr>))"

definition pf_stop :: "PortForwardEventsClient \<Rightarrow> PortForwardEventsClient" where
  "pf_stop s =
     (let s1 = clearHeartbeat (s\<lparr>pf_closed := True\<rparr>);
          s2 = (case reconnectTimer s1 of
                  None \<Rightarrow> s1
                | Some h \<Rightarrow> s1\<lparr>timeouts := filter (\<lambda>p. fst p \<noteq> h) (timeouts s1), reconnectTimer := None\<rparr>)
      in case pf_ws s2 of None \<Rightarrow> s2 | Some i \<Rightarrow> (socket_close i s2)\<lparr>pf_ws := None\<rparr>)"

definition sendHeartbeat :: "int \<Rightarrow> PortForwardEventsClient \<Rightarrow> PortForwardEventsClient" where
  "sendHeartbeat now s =
     (case pf_ws s of
        None \<Rightarrow> s
      | Some i \<Rightarrow>
          if ready_state i s \<noteq> WsOpen then s
          else nullish (socket_send i (stringify (JObj [(''hb'', JObj [(''ts_ms'', JNum now)])])) s) s)"

definition timeout_fires :: "nat \<Rightarrow> string option \<Rightarrow> bool \<Rightarrow> PortForwardEventsClient \<Rightarrow> PortForwardEventsClient" where
  "timeout_fires h token raises s =
     start token raises (s\<lparr>timeouts := filter (\<lambda>p. fst p \<noteq> h) (timeouts s), reconnectTimer := None\<rparr>)"

datatype pf_step =
    PfOpened nat | PfMessage nat string int | PfErrored nat | PfClosing nat | PfClosedEvent nat
  | PfHeartbeat nat int | PfTimeout nat "string option" bool | PfStop

fun pf_perform :: "(string \<Rightarrow> json option) \<Rightarrow> pf_step \<Rightarrow> PortForwardEventsClient \<Rightarrow> PortForwardEventsClient option" where
  "pf_perform parse (PfOpened i) s =
     (if ready_state i s = WsConnecting then Some (pf_open i (set_ready i WsOpen s)) else None)"
| "pf_perform parse (PfMessage i text now) s =
     (if ready_state i s = WsOpen then Some (pf_message parse text now s) else None)"
| "pf_perform parse (PfErrored i) s = (if ready_state i s \<noteq> WsClosed then Some (pf_error s) else None)"
| "pf_perform parse (PfClosing i) s = (if ready_state i s \<noteq> WsClosed then Some (set_ready i WsClosing s) else None)"
| "pf_perform parse (PfClosedEvent i) s =
     (if ready_state i s \<noteq> WsClosed then Some (pf_close (set_ready i WsClosed s)) else None)"
| "pf_perform parse (PfHeartbeat n now) s = (if n \<in> fst ` set (intervals s) then Some (sendHeartbeat now s) else None)"
| "pf_perform parse (PfTimeout h token raises) s =
     (if h \<in> fst ` set (timeouts s) then Some (timeout_fires h token raises s) else None)"
| "pf_perform parse PfStop s = Some (pf_stop s)"

section \<open>The client keeps trying\<close>

definition live_interval :: "nat option \<Rightarrow> (nat \<times> unit) list" where
  "live_interval t = (case t of None \<Rightarrow> [] | Some n \<Rightarrow> [(n, ())])"

definition live_timeout :: "nat option \<Rightarrow> nat \<Rightarrow> (nat \<times> nat) list" where
  "live_timeout t k = (case t of None \<Rightarrow> [] | Some h \<Rightarrow> [(h, RECONNECT_BACKOFF_MS ! min (k - 1) 5)])"

lemma live_simps [simp]:
  "live_interval None = []" "live_interval (Some n) = [(n, ())]"
  "live_timeout None k = []" "live_timeout (Some h) k = [(h, RECONNECT_BACKOFF_MS ! min (k - 1) 5)]"
  by (simp_all add: live_interval_def live_timeout_def)

definition pf_inv :: "PortForwardEventsClient \<Rightarrow> bool" where
  "pf_inv s \<longleftrightarrow>
     (\<forall>j. ready_state j s \<noteq> WsClosed \<longrightarrow> j + 1 = length (sockets s) \<and> (pf_ws s = Some j \<or> pf_closed s))
     \<and> (\<forall>i. pf_ws s = Some i \<longrightarrow> ready_state i s \<noteq> WsClosed)
     \<and> intervals s = live_interval (hbTimer s) \<and> (hbTimer s \<noteq> None \<longrightarrow> pf_ws s \<noteq> None)
     \<and> timeouts s = live_timeout (reconnectTimer s) (reconnectAttempt s)
     \<and> (reconnectTimer s \<noteq> None \<longrightarrow> 0 < reconnectAttempt s)
     \<and> (if pf_closed s then pf_ws s = None \<and> reconnectTimer s = None
        else pf_ws s = None \<longleftrightarrow> reconnectTimer s \<noteq> None)
     \<and> (\<forall>i. pf_ws s = Some i \<and> ready_state i s = WsConnecting \<longrightarrow> hbTimer s = None)"

lemma ready_state_pf [simp]:
  "ready_state j (pf_call c s) = ready_state j s" "ready_state j (clear_interval n s) = ready_state j s"
  by (simp_all add: ready_state_def pf_call_def clear_interval_def)

lemma pf_call_fields [simp]:
  "sockets (pf_call c s) = sockets s" "intervals (pf_call c s) = intervals s" "next_interval (pf_call c s) = next_interval s"
  "pf_ws (pf_call c s) = pf_ws s" "pf_closed (pf_call c s) = pf_closed s" "reconnectAttempt (pf_call c s) = reconnectAttempt s"
  "reconnectTimer (pf_call c s) = reconnectTimer s" "hbTimer (pf_call c s) = hbTimer s" "timeouts (pf_call c s) = timeouts s"
  by (simp_all add: pf_call_def)

lemma set_ready_fields [simp]:
  "pf_ws (set_ready i r s) = pf_ws s" "pf_closed (set_ready i r s) = pf_closed s"
  "reconnectAttempt (set_ready i r s) = reconnectAttempt s" "reconnectTimer (set_ready i r s) = reconnectTimer s"
  "hbTimer (set_ready i r s) = hbTimer s" "timeouts (set_ready i r s) = timeouts s"
  "pf_ws (socket_close i s) = pf_ws s" "pf_closed (socket_close i s) = pf_closed s"
  "reconnectAttempt (socket_close i s) = reconnectAttempt s" "reconnectTimer (socket_close i s) = reconnectTimer s"
  "hbTimer (socket_close i s) = hbTimer s" "timeouts (socket_close i s) = timeouts s"
  "pf_closed (new_socket a s) = pf_closed s" "hbTimer (new_socket a s) = hbTimer s"
  "reconnectTimer (new_socket a s) = reconnectTimer s" "timeouts (new_socket a s) = timeouts s"
  by (simp_all add: socket_close_def set_ready_def new_socket_def)

lemma pf_inv_same:
  assumes "pf_inv s" "sockets s' = sockets s" "intervals s' = intervals s" "pf_ws s' = pf_ws s" "pf_closed s' = pf_closed s"
    "reconnectAttempt s' = reconnectAttempt s" "reconnectTimer s' = reconnectTimer s" "hbTimer s' = hbTimer s" "timeouts s' = timeouts s"
  shows "pf_inv s'"
proof -
  have ready: "ready_state i s' = ready_state i s" for i by (rule ready_of_sockets) (rule assms(2))
  show ?thesis using assms(1) unfolding pf_inv_def ready assms(2-9) .
qed

lemma pf_inv_call [simp]: "pf_inv (pf_call c s) = pf_inv s"
proof
  show "pf_inv (pf_call c s) \<Longrightarrow> pf_inv s" by (erule pf_inv_same) simp_all
  show "pf_inv s \<Longrightarrow> pf_inv (pf_call c s)" by (erule pf_inv_same) simp_all
qed

text \<open>A state with no socket, no heartbeat and no timer, from which the client starts or schedules\<close>

definition pf_rest :: "PortForwardEventsClient \<Rightarrow> bool" where
  "pf_rest s \<longleftrightarrow> \<not> pf_closed s \<and> (\<forall>j. ready_state j s = WsClosed) \<and> pf_ws s = None \<and> hbTimer s = None
     \<and> intervals s = [] \<and> reconnectTimer s = None \<and> timeouts s = []"

lemma pf_rest_call [simp]: "pf_rest (pf_call c s) = pf_rest s"
  by (simp add: pf_rest_def)

lemma backoff_index: "length RECONNECT_BACKOFF_MS = 6"
  by (simp add: RECONNECT_BACKOFF_MS_def)

lemma schedule_pf_inv: "pf_rest s \<Longrightarrow> pf_inv (scheduleReconnect s)"
proof -
  assume rest: "pf_rest s"
  have "ready_state j (scheduleReconnect s) = ready_state j s" for j
    by (rule ready_of_sockets) (simp add: scheduleReconnect_def Let_def)
  then show ?thesis using rest
    by (simp add: pf_inv_def pf_rest_def) (simp add: scheduleReconnect_def backoff_index Let_def)
qed

lemma start_pf_inv: "pf_rest s \<Longrightarrow> pf_inv (start token raises s)"
proof (cases raises)
  case True
  assume "pf_rest s"
  then show ?thesis using True schedule_pf_inv [of "pf_call (StatusCall PfError) (pf_call (StatusCall PfConnecting) s)"]
    by (simp add: start_def Let_def) (simp add: pf_rest_def)
next
  case False
  assume rest: "pf_rest s"
  let ?s1 = "pf_call (StatusCall PfConnecting) s"
  let ?n = "new_socket (''/api/v1/ws/portforward/events'', [(''token'', nullish token [])]) ?s1"
  have run: "start token raises s = ?n\<lparr>pf_ws := Some (length (sockets s))\<rparr>"
    using rest False by (simp add: start_def Let_def pf_rest_def)
  have ready: "ready_state j (?n\<lparr>pf_ws := x\<rparr>) = (if j = length (sockets s) then WsConnecting else WsClosed)" for j x
    using ready_of_sockets [of "?n\<lparr>pf_ws := x\<rparr>" ?n j] rest by (simp add: pf_rest_def)
  show ?thesis unfolding run
    using rest by (auto simp: pf_inv_def ready pf_rest_def)
qed

lemma clearHeartbeat_fields [simp]:
  "sockets (clearHeartbeat s) = sockets s" "pf_ws (clearHeartbeat s) = pf_ws s" "pf_closed (clearHeartbeat s) = pf_closed s"
  "reconnectTimer (clearHeartbeat s) = reconnectTimer s" "timeouts (clearHeartbeat s) = timeouts s"
  "hbTimer (clearHeartbeat s) = None" "reconnectAttempt (clearHeartbeat s) = reconnectAttempt s"
  by (simp_all add: clearHeartbeat_def clear_interval_def split: option.split)

lemma clearHeartbeat_intervals: "pf_inv s \<Longrightarrow> intervals (clearHeartbeat s) = []"
  by (cases "hbTimer s") (simp_all add: pf_inv_def clearHeartbeat_def clear_interval_def)

lemma ready_clearHeartbeat [simp]: "ready_state j (clearHeartbeat s) = ready_state j s"
  by (rule ready_of_sockets) simp

lemma pf_invD:
  assumes "pf_inv s"
  shows "ready_state j s \<noteq> WsClosed \<Longrightarrow> Suc j = length (sockets s)"
    and "ready_state j s \<noteq> WsClosed \<Longrightarrow> \<not> pf_closed s \<Longrightarrow> pf_ws s = Some j"
    and "pf_ws s = Some j \<Longrightarrow> ready_state j s \<noteq> WsClosed"
    and "intervals s = live_interval (hbTimer s)" "hbTimer s \<noteq> None \<Longrightarrow> pf_ws s \<noteq> None"
    and "timeouts s = live_timeout (reconnectTimer s) (reconnectAttempt s)" "reconnectTimer s \<noteq> None \<Longrightarrow> 0 < reconnectAttempt s"
    and "pf_closed s \<Longrightarrow> pf_ws s = None" "pf_closed s \<Longrightarrow> reconnectTimer s = None"
    and "\<not> pf_closed s \<Longrightarrow> pf_ws s = None \<longleftrightarrow> reconnectTimer s \<noteq> None"
    and "pf_ws s = Some j \<Longrightarrow> ready_state j s = WsConnecting \<Longrightarrow> hbTimer s = None"
  using assms unfolding pf_inv_def by (metis Suc_eq_plus1)+

lemma pf_invI:
  assumes "\<And>j. ready_state j s \<noteq> WsClosed \<Longrightarrow> Suc j = length (sockets s) \<and> (pf_ws s = Some j \<or> pf_closed s)"
    "\<And>i. pf_ws s = Some i \<Longrightarrow> ready_state i s \<noteq> WsClosed"
    "intervals s = live_interval (hbTimer s)" "hbTimer s \<noteq> None \<Longrightarrow> pf_ws s \<noteq> None"
    "timeouts s = live_timeout (reconnectTimer s) (reconnectAttempt s)" "reconnectTimer s \<noteq> None \<Longrightarrow> 0 < reconnectAttempt s"
    "pf_closed s \<Longrightarrow> pf_ws s = None \<and> reconnectTimer s = None"
    "\<not> pf_closed s \<Longrightarrow> pf_ws s = None \<longleftrightarrow> reconnectTimer s \<noteq> None"
    "\<And>i. pf_ws s = Some i \<Longrightarrow> ready_state i s = WsConnecting \<Longrightarrow> hbTimer s = None"
  shows "pf_inv s"
  unfolding pf_inv_def using assms by simp

lemma one_live_socket: "pf_inv s \<Longrightarrow> ready_state i s \<noteq> WsClosed \<Longrightarrow> ready_state j s \<noteq> WsClosed \<Longrightarrow> i = j"
  using pf_invD(1) [of s i] pf_invD(1) [of s j] by simp

text \<open>Making the live socket open or closing changes nothing else.\<close>

lemma relabel_pf_inv:
  assumes "pf_inv s" "ready_state i s \<noteq> WsClosed" "sockets s' = sockets (set_ready i r s)" "r \<in> {WsOpen, WsClosing}"
    "intervals s' = intervals s" "pf_ws s' = pf_ws s" "pf_closed s' = pf_closed s" "reconnectAttempt s' = reconnectAttempt s"
    "reconnectTimer s' = reconnectTimer s" "hbTimer s' = hbTimer s" "timeouts s' = timeouts s"
  shows "pf_inv s'"
proof -
  have i: "i < length (sockets s)" using assms(2) by (rule ready_state_valid)
  have ready: "ready_state j s' = (if j = i then r else ready_state j s)" for j
    using ready_of_sockets [OF assms(3), of j] i by simp
  have len: "length (sockets s') = length (sockets s)" unfolding assms(3) by simp
  show ?thesis
  proof (rule pf_invI, unfold assms(5-11) len)
    fix j assume "ready_state j s' \<noteq> WsClosed"
    then have "ready_state j s \<noteq> WsClosed" using assms(2) ready by (cases "j = i") simp_all
    then show "Suc j = length (sockets s) \<and> (pf_ws s = Some j \<or> pf_closed s)" using pf_invD(1,2) [OF assms(1)] by blast
  next
    fix j assume "pf_ws s = Some j"
    then show "ready_state j s' \<noteq> WsClosed" using pf_invD(3) [OF assms(1)] ready assms(4) by auto
  next
    fix j assume "pf_ws s = Some j" "ready_state j s' = WsConnecting"
    then show "hbTimer s = None" using pf_invD(11) [OF assms(1)] ready assms(4) by (auto split: if_splits)
  qed (use pf_invD(4-10) [OF assms(1)] in simp_all)
qed

lemma open_pf_inv:
  assumes "pf_inv s" "ready_state i s = WsConnecting"
  shows "pf_inv (pf_open i (set_ready i WsOpen s))"
proof (cases "pf_closed s")
  case True
  have i: "i < length (sockets s)" using assms(2) ready_state_valid [of i s] by simp
  have opened: "pf_inv (set_ready i WsOpen s)"
    by (rule relabel_pf_inv [OF assms(1), where r = WsOpen and i = i]) (simp_all add: assms(2))
  have "pf_inv (set_ready i WsClosing (set_ready i WsOpen s))"
    by (rule relabel_pf_inv [OF opened, where r = WsClosing and i = i]) (simp_all add: i)
  then show ?thesis using True i by (simp add: pf_open_def socket_close_def)
next
  case False
  let ?s = "set_ready i WsOpen s"
  have i: "i < length (sockets s)" using assms(2) ready_state_valid [of i s] by simp
  have live: "ready_state i s \<noteq> WsClosed" using assms(2) by simp
  have ws: "pf_ws s = Some i" by (rule pf_invD(2) [OF assms(1) live False])
  have hb: "hbTimer s = None" by (rule pf_invD(11) [OF assms(1) ws assms(2)])
  have none: "reconnectTimer s = None" using pf_invD(10) [OF assms(1) False] ws by simp
  define t where "t = pf_open i ?s"
  have t: "t = (pf_call (StatusCall PfOpen) (?s\<lparr>reconnectAttempt := 0\<rparr>))
      \<lparr>intervals := intervals s @ [(next_interval s, ())], next_interval := Suc (next_interval s), hbTimer := Some (next_interval s)\<rparr>"
    using False by (simp add: t_def pf_open_def set_interval_def)
  have ready: "ready_state j t = (if j = i then WsOpen else ready_state j s)" for j
    using ready_of_sockets [of t ?s j] i by (simp add: t)
  have other: "j = i" if "ready_state j t \<noteq> WsClosed" for j
  proof (rule ccontr)
    assume "j \<noteq> i"
    then have "ready_state j s \<noteq> WsClosed" using that ready by simp
    then show False using one_live_socket [OF assms(1) _ live] \<open>j \<noteq> i\<close> by blast
  qed
  have fields: "length (sockets t) = length (sockets s)" "intervals t = [(next_interval s, ())]" "pf_ws t = Some i" "\<not> pf_closed t"
    "reconnectTimer t = None" "timeouts t = []" "hbTimer t = Some (next_interval s)"
    using False ws none pf_invD(4,6) [OF assms(1)] hb by (simp_all add: t)
  have last: "Suc i = length (sockets s)" by (rule pf_invD(1) [OF assms(1) live])
  have "pf_inv t"
  proof (rule pf_invI)
    fix j assume "ready_state j t \<noteq> WsClosed"
    then have "j = i" by (rule other)
    then show "Suc j = length (sockets t) \<and> (pf_ws t = Some j \<or> pf_closed t)" using fields last by simp
  next
    fix j assume "pf_ws t = Some j"
    then show "ready_state j t \<noteq> WsClosed" using fields ready by simp
  next
    fix j assume "pf_ws t = Some j" "ready_state j t = WsConnecting"
    then show "hbTimer t = None" using fields ready by simp
  qed (simp_all add: fields)
  then show ?thesis by (simp only: t_def)
qed

lemma close_pf_inv:
  assumes "pf_inv s" "ready_state i s \<noteq> WsClosed"
  shows "pf_inv (pf_close (set_ready i WsClosed s))"
proof -
  let ?s = "set_ready i WsClosed s"
  define t where "t = pf_call (StatusCall PfClosed) ((clearHeartbeat ?s)\<lparr>pf_ws := None\<rparr>)"
  have i: "i < length (sockets s)" using assms(2) by (rule ready_state_valid)
  have closed: "ready_state j ?s = WsClosed" for j
  proof (cases "j = i")
    case False
    then have "ready_state j s = WsClosed" using one_live_socket [OF assms(1) assms(2), of j] by blast
    then show ?thesis using False i by simp
  qed (simp add: i)
  have ready: "ready_state j t = WsClosed" for j
    using closed ready_of_sockets [of t ?s j] by (simp add: t_def)
  have "intervals (clearHeartbeat ?s) = intervals (clearHeartbeat s)"
    by (simp add: clearHeartbeat_def clear_interval_def split: option.split)
  then have t: "intervals t = []" "pf_ws t = None" "hbTimer t = None" "pf_closed t = pf_closed s" "reconnectTimer t = reconnectTimer s"
    "timeouts t = timeouts s"
    using clearHeartbeat_intervals [OF assms(1)] by (simp_all add: t_def)
  show ?thesis
  proof (cases "pf_closed s")
    case True
    then have none: "reconnectTimer s = None" "timeouts s = []" using pf_invD(6,9) [OF assms(1)] by simp_all
    have "pf_inv t" by (rule pf_invI) (simp_all add: ready t none True)
    moreover have "scheduleReconnect t = t" using True t by (simp add: scheduleReconnect_def)
    ultimately show ?thesis by (simp add: pf_close_def t_def)
  next
    case False
    have "pf_ws s = Some i" by (rule pf_invD(2) [OF assms False])
    then have "reconnectTimer s = None" using pf_invD(10) [OF assms(1) False] by simp
    then have "pf_rest t" using False ready t pf_invD(6) [OF assms(1)] by (simp add: pf_rest_def)
    then show ?thesis unfolding pf_close_def t_def by (rule schedule_pf_inv)
  qed
qed

lemma closing_pf_inv:
  assumes "pf_inv s" "ready_state i s \<noteq> WsClosed"
  shows "pf_inv (set_ready i WsClosing s)"
  by (rule relabel_pf_inv [OF assms, where r = WsClosing]) simp_all

lemma stop_pf_inv:
  assumes "pf_inv s"
  shows "pf_inv (pf_stop s)"
proof -
  define s1 where "s1 = clearHeartbeat (s\<lparr>pf_closed := True\<rparr>)"
  define s2 where "s2 = (case reconnectTimer s1 of
      None \<Rightarrow> s1 | Some h \<Rightarrow> s1\<lparr>timeouts := filter (\<lambda>p. fst p \<noteq> h) (timeouts s1), reconnectTimer := None\<rparr>)"
  have "intervals (clearHeartbeat (s\<lparr>pf_closed := True\<rparr>)) = intervals (clearHeartbeat s)"
    by (simp add: clearHeartbeat_def clear_interval_def split: option.split)
  then have "intervals s1 = []" using clearHeartbeat_intervals [OF assms] by (simp add: s1_def)
  then have s2: "sockets s2 = sockets s" "pf_ws s2 = pf_ws s" "pf_closed s2" "hbTimer s2 = None" "intervals s2 = []"
    "reconnectTimer s2 = None" "timeouts s2 = []"
    using pf_invD(6) [OF assms] by (simp_all add: s2_def s1_def split: option.split)
  define t where "t = pf_stop s"
  have t: "t = (case pf_ws s2 of None \<Rightarrow> s2 | Some i \<Rightarrow> (socket_close i s2)\<lparr>pf_ws := None\<rparr>)"
    unfolding t_def pf_stop_def s2_def s1_def Let_def ..
  have ready: "ready_state j t \<noteq> WsClosed \<longleftrightarrow> ready_state j s \<noteq> WsClosed" for j
  proof (cases "pf_ws s2")
    case None
    then show ?thesis using t ready_of_sockets [OF s2(1)] by simp
  next
    case (Some i)
    have "ready_state j t = ready_state j (socket_close i s2)" using t Some by (intro ready_of_sockets) simp
    then show ?thesis using ready_of_sockets [OF s2(1)] by (auto simp: ready_state_close)
  qed
  have fields: "pf_ws t = None" "pf_closed t" "hbTimer t = None" "intervals t = []" "reconnectTimer t = None" "timeouts t = []"
    "length (sockets t) = length (sockets s)"
    using s2 unfolding t by (simp_all split: option.split)
  have "pf_inv t" by (rule pf_invI) (use pf_invD(1) [OF assms] in \<open>simp_all add: fields ready\<close>)
  then show ?thesis by (simp only: t_def)
qed

lemma timeout_pf_inv:
  assumes "pf_inv s" "h \<in> fst ` set (timeouts s)"
  shows "pf_inv (timeout_fires h token raises s)"
proof -
  have h: "reconnectTimer s = Some h"
    using assms(2) pf_invD(6) [OF assms(1)] by (cases "reconnectTimer s") simp_all
  have open_s: "\<not> pf_closed s" using pf_invD(9) [OF assms(1)] h by auto
  have none: "pf_ws s = None" using pf_invD(10) [OF assms(1) open_s] h by simp
  have hb: "hbTimer s = None" "intervals s = []" using pf_invD(4,5) [OF assms(1)] none by (cases "hbTimer s"; simp)+
  let ?s = "s\<lparr>timeouts := filter (\<lambda>p. fst p \<noteq> h) (timeouts s), reconnectTimer := None\<rparr>"
  have "ready_state j ?s = ready_state j s" for j by (rule ready_of_sockets) simp
  moreover have "ready_state j s = WsClosed" for j using pf_invD(2) [OF assms(1) _ open_s, of j] none by auto
  ultimately have "pf_rest ?s" using pf_invD(6) [OF assms(1)] h open_s none hb by (simp add: pf_rest_def)
  then show ?thesis unfolding timeout_fires_def by (rule start_pf_inv)
qed

lemma heartbeat_pf_inv: "pf_inv s \<Longrightarrow> pf_inv (sendHeartbeat now s)"
proof -
  assume inv: "pf_inv s"
  have "pf_inv v" if sent: "socket_send i d s = Some v" for i d v
  proof -
    obtain xs where xs: "v = s\<lparr>sockets := xs\<rparr>" "length xs = length (sockets s)" using socket_send_update [OF sent] by blast
    have ready: "ready_state j v = ready_state j s" for j using socket_send_ready [OF sent] by blast
    have "length (sockets v) = length (sockets s)" "intervals v = intervals s" "pf_ws v = pf_ws s" "pf_closed v = pf_closed s"
      "reconnectAttempt v = reconnectAttempt s" "reconnectTimer v = reconnectTimer s" "hbTimer v = hbTimer s" "timeouts v = timeouts s"
      using xs by simp_all
    note same = this
    show ?thesis using inv unfolding pf_inv_def ready same .
  qed
  then have "pf_inv (nullish (socket_send i d s) s)" for i d
    using inv by (cases "socket_send i d s") (auto simp: nullish_simps simp del: socket_send_None)
  then show ?thesis using inv by (simp add: sendHeartbeat_def split: option.split)
qed

lemma message_pf_inv: "pf_inv s \<Longrightarrow> pf_inv (pf_message parse text now s)"
  by (simp add: pf_message_def split: option.split json.split)

lemma pf_perform_inv: "pf_inv s \<Longrightarrow> pf_perform parse e s = Some s' \<Longrightarrow> pf_inv s'"
  by (cases e)
     (simp_all add: pf_error_def split: if_splits, auto intro: open_pf_inv closing_pf_inv close_pf_inv heartbeat_pf_inv
       timeout_pf_inv stop_pf_inv message_pf_inv)

interpretation port_forward: machine "pf_perform parse" pf_inv for parse
  by unfold_locales (rule pf_perform_inv)

text \<open>C28: Once started, the client has at most one socket that is not closed; until it is stopped it either has
  that socket or exactly one timer that opens the next, after the delay of the back-off table for the number of
  failures since the last connection; once stopped it has neither, and no heartbeat.\<close>

theorem port_forward_client_keeps_trying:
  assumes "run_steps (pf_perform parse) es (start token raises new_pf_client) = Some s"
  shows "(if pf_closed s then pf_ws s = None \<and> timeouts s = [] \<and> intervals s = []
      else (case pf_ws s of
          Some i \<Rightarrow> ready_state i s \<noteq> WsClosed \<and> timeouts s = []
        | None \<Rightarrow> 0 < reconnectAttempt s \<and> intervals s = []
            \<and> map snd (timeouts s) = [RECONNECT_BACKOFF_MS ! min (reconnectAttempt s - 1) 5]))
    \<and> (\<forall>i j. ready_state i s \<noteq> WsClosed \<longrightarrow> ready_state j s \<noteq> WsClosed \<longrightarrow> i = j)
    \<and> length (intervals s) \<le> 1"
proof -
  have "pf_rest new_pf_client" by (simp add: pf_rest_def new_pf_client_def ready_state_def)
  then have inv: "pf_inv s" using port_forward.run_inv [OF assms] start_pf_inv by blast
  have "i = j" if "ready_state i s \<noteq> WsClosed" "ready_state j s \<noteq> WsClosed" for i j
    by (rule one_live_socket [OF inv that])
  moreover have "if pf_closed s then pf_ws s = None \<and> timeouts s = [] \<and> intervals s = []
      else (case pf_ws s of
          Some i \<Rightarrow> ready_state i s \<noteq> WsClosed \<and> timeouts s = []
        | None \<Rightarrow> 0 < reconnectAttempt s \<and> intervals s = []
            \<and> map snd (timeouts s) = [RECONNECT_BACKOFF_MS ! min (reconnectAttempt s - 1) 5])"
    using pf_invD(3-10) [OF inv] by (cases "pf_ws s"; cases "pf_closed s"; cases "hbTimer s") auto
  moreover have "length (intervals s) \<le> 1" using pf_invD(4) [OF inv] by (cases "hbTimer s") simp_all
  ultimately show ?thesis by blast
qed

theorem port_forward_client_keeps_trying_witness:
  "\<exists>s. run_steps (pf_perform (\<lambda>t. None)) [PfOpened 0, PfClosedEvent 0] (start None False new_pf_client) = Some s
     \<and> \<not> pf_closed s \<and> pf_ws s = None \<and> map snd (timeouts s) = [500]"
proof -
  let ?run = "run_steps (pf_perform (\<lambda>t. None)) [PfOpened 0, PfClosedEvent 0] (start None False new_pf_client)"
  have "\<exists>s. ?run = Some s \<and> \<not> pf_closed s \<and> pf_ws s = None \<and> reconnectAttempt s = 1"
    by (simp add: start_def new_pf_client_def pf_call_def new_socket_def ready_state_def set_ready_def pf_open_def
        set_interval_def pf_close_def clearHeartbeat_def clear_interval_def scheduleReconnect_def Let_def)
  then obtain s where s: "?run = Some s" "\<not> pf_closed s" "pf_ws s = None" "reconnectAttempt s = 1" by blast
  then show ?thesis
    using port_forward_client_keeps_trying [OF s(1)] by (intro exI [of _ s]) (simp add: RECONNECT_BACKOFF_MS_def)
qed

end
