(* ===== verification/PortForwardLive.thy ===== *)
theory PortForwardLive
  imports PortForward "HOL-Library.Sublist"
begin

text \<open>
  The live counters of port forwards from one end to the other: the forwarder of the gateway that publishes
  events (\<open>internal/protocols/tcpfwd\<close>), the events as they are encoded, which leave out counters that are
  zero, and the store of the page (\<open>hooks/use-portfwd-events.tsx\<close>) that folds them into
  the figures and the rate history of each forward.
\<close>

section \<open>Events\<close>

datatype PortForwardEventType = EvOpened | EvClosed | EvError | EvBytesTick | EvConnOpen | EvConnClose | EvMetadata

record PortForwardEvent =
  ev_type :: PortForwardEventType
  forward_id :: string
  user_id :: nat
  ev_ts_ms :: int
  ev_bytes_in :: "int option"
  ev_bytes_out :: "int option"
  in_rate_bps :: "int option"
  out_rate_bps :: "int option"
  active_conns :: "int option"
  error_message :: "string option"

record HistoryPoint =
  point_t :: int
  point_v :: int

section \<open>The store of the page\<close>

definition HISTORY_WINDOW_MS :: int where "HISTORY_WINDOW_MS = 60000"

definition HISTORY_MAX_POINTS :: nat where "HISTORY_MAX_POINTS = 240"

record LiveStats =
  bytesIn :: int
  bytesOut :: int
  inRateBps :: int
  outRateBps :: int
  activeConns :: int
  rateHistory :: "HistoryPoint list"
  lastUpdateMs :: int

text \<open>A listener is a number; \<open>notified\<close> lists the calls of listeners in order.\<close>

record LiveStore =
  byId :: "string \<Rightarrow> LiveStats option"
  listeners :: "nat list"
  live_status :: PfStatus
  statusListeners :: "nat list"
  latencyMs :: "int option"
  latencyListeners :: "nat list"
  notified :: "nat list"

definition new_live_store :: LiveStore where
  "new_live_store =
     \<lparr>byId = (\<lambda>_. None), listeners = [], live_status = PfClosed, statusListeners = [], latencyMs = None,
      latencyListeners = [], notified = []\<rparr>"

definition subscribe :: "nat \<Rightarrow> LiveStore \<Rightarrow> LiveStore" where
  "subscribe cb s = s\<lparr>listeners := uniq_add (listeners s) cb\<rparr>"

definition unsubscribe :: "nat \<Rightarrow> LiveStore \<Rightarrow> LiveStore" where
  "unsubscribe cb s = s\<lparr>listeners := set_delete cb (listeners s)\<rparr>"

definition subscribeStatus :: "nat \<Rightarrow> LiveStore \<Rightarrow> LiveStore" where
  "subscribeStatus cb s = s\<lparr>statusListeners := uniq_add (statusListeners s) cb\<rparr>"

definition subscribeLatency :: "nat \<Rightarrow> LiveStore \<Rightarrow> LiveStore" where
  "subscribeLatency cb s = s\<lparr>latencyListeners := uniq_add (latencyListeners s) cb\<rparr>"

definition setStatus :: "PfStatus \<Rightarrow> LiveStore \<Rightarrow> LiveStore" where
  "setStatus x s = s\<lparr>live_status := x, notified := notified s @ statusListeners s\<rparr>"

definition setLatency :: "int \<Rightarrow> LiveStore \<Rightarrow> LiveStore" where
  "setLatency ms s = s\<lparr>latencyMs := Some ms, notified := notified s @ latencyListeners s\<rparr>"

definition no_stats :: "int \<Rightarrow> LiveStats" where
  "no_stats ts =
     \<lparr>bytesIn = 0, bytesOut = 0, inRateBps = 0, outRateBps = 0, activeConns = 0, rateHistory = [], lastUpdateMs = ts\<rparr>"

definition tick_point :: "PortForwardEvent \<Rightarrow> HistoryPoint" where
  "tick_point event =
     \<lparr>point_t = ev_ts_ms event, point_v = nullish (in_rate_bps event) 0 + nullish (out_rate_bps event) 0\<rparr>"

definition trim_history :: "HistoryPoint \<Rightarrow> HistoryPoint list \<Rightarrow> HistoryPoint list" where
  "trim_history point history =
     (let cutoff = point_t point - HISTORY_WINDOW_MS;
          trimmed = filter (\<lambda>p. cutoff \<le> point_t p) history @ [point]
      in if HISTORY_MAX_POINTS < length trimmed then drop (length trimmed - HISTORY_MAX_POINTS) trimmed
         else trimmed)"

definition next_stats :: "PortForwardEvent \<Rightarrow> LiveStats \<Rightarrow> LiveStats option" where
  "next_stats event prior =
     (case ev_type event of
        EvBytesTick \<Rightarrow> Some
          \<lparr>bytesIn = nullish (ev_bytes_in event) (bytesIn prior), bytesOut = nullish (ev_bytes_out event) (bytesOut prior),
           inRateBps = nullish (in_rate_bps event) 0, outRateBps = nullish (out_rate_bps event) 0,
           activeConns = nullish (active_conns event) (activeConns prior),
           rateHistory = trim_history (tick_point event) (rateHistory prior), lastUpdateMs = ev_ts_ms event\<rparr>
      | EvConnOpen \<Rightarrow> Some (prior\<lparr>activeConns := nullish (active_conns event) (activeConns prior), lastUpdateMs := ev_ts_ms event\<rparr>)
      | EvConnClose \<Rightarrow> Some (prior\<lparr>activeConns := nullish (active_conns event) (activeConns prior), lastUpdateMs := ev_ts_ms event\<rparr>)
      | EvClosed \<Rightarrow> Some (prior\<lparr>lastUpdateMs := ev_ts_ms event\<rparr>)
      | _ \<Rightarrow> None)"

definition apply_event :: "PortForwardEvent \<Rightarrow> LiveStore \<Rightarrow> LiveStore" where
  "apply_event event s =
     (case next_stats event (nullish (byId s (forward_id event)) (no_stats (ev_ts_ms event))) of
        None \<Rightarrow> s
      | Some next \<Rightarrow> s\<lparr>byId := (byId s)(forward_id event \<mapsto> next), notified := notified s @ listeners s\<rparr>)"

definition reset_live :: "LiveStore \<Rightarrow> LiveStore" where
  "reset_live s = s\<lparr>byId := (\<lambda>_. None), notified := notified s @ listeners s\<rparr>"

subsection \<open>The provider: store and cached list\<close>

record PortForwardRow =
  row_id :: string
  row_bytes_in :: "int option"
  row_bytes_out :: "int option"

record live_provider =
  live_store :: LiveStore
  cached_rows :: "PortForwardRow list option"
  refetches :: nat

definition provider_event :: "PortForwardEvent \<Rightarrow> live_provider \<Rightarrow> live_provider" where
  "provider_event ev p =
     (let p1 = p\<lparr>live_store := apply_event ev (live_store p)\<rparr>;
          p2 = (if ev_type ev = EvBytesTick
                then p1\<lparr>cached_rows := map_option (map (\<lambda>row.
                       if row_id row = forward_id ev then row\<lparr>row_bytes_in := ev_bytes_in ev, row_bytes_out := ev_bytes_out ev\<rparr>
                       else row)) (cached_rows p1)\<rparr>
                else p1)
      in if ev_type ev \<in> {EvOpened, EvClosed, EvMetadata} then p2\<lparr>refetches := refetches p2 + 1\<rparr> else p2)"

section \<open>The forwarder of the gateway\<close>

record Event =
  go_type :: PortForwardEventType
  ForwardID :: string
  UserID :: nat
  TSMs :: int
  BytesIn :: nat
  BytesOut :: nat
  InRateBps :: nat
  OutRateBps :: nat
  ActiveConns :: nat
  ErrorMessage :: string

text \<open>The tag \<open>omitempty\<close>: a zero or an empty string is not written, so that the page reads \<open>undefined\<close>.\<close>

definition omitempty :: "nat \<Rightarrow> int option" where
  "omitempty n = (if n = 0 then None else Some (int n))"

definition wire_event :: "Event \<Rightarrow> PortForwardEvent" where
  "wire_event e =
     \<lparr>ev_type = go_type e, forward_id = ForwardID e, user_id = UserID e, ev_ts_ms = TSMs e,
      ev_bytes_in = omitempty (BytesIn e), ev_bytes_out = omitempty (BytesOut e), in_rate_bps = omitempty (InRateBps e),
      out_rate_bps = omitempty (OutRateBps e), active_conns = omitempty (ActiveConns e),
      error_message = (if ErrorMessage e = [] then None else Some (ErrorMessage e))\<rparr>"

record Forwarder =
  fwd_id :: string
  fwd_user :: nat
  bytes_in :: nat
  bytes_out :: nat
  last_in :: nat
  last_out :: nat
  active :: int
  closing :: bool
  published :: "Event list"

definition new_forwarder :: "string \<Rightarrow> nat \<Rightarrow> Forwarder" where
  "new_forwarder i u =
     \<lparr>fwd_id = i, fwd_user = u, bytes_in = 0, bytes_out = 0, last_in = 0, last_out = 0, active = 0, closing = False,
      published = []\<rparr>"

definition fwd_event :: "PortForwardEventType \<Rightarrow> int \<Rightarrow> Forwarder \<Rightarrow> Event" where
  "fwd_event ty now f =
     \<lparr>go_type = ty, ForwardID = fwd_id f, UserID = fwd_user f, TSMs = now, BytesIn = 0, BytesOut = 0, InRateBps = 0,
      OutRateBps = 0, ActiveConns = 0, ErrorMessage = []\<rparr>"

definition Publish :: "Event \<Rightarrow> Forwarder \<Rightarrow> Forwarder" where
  "Publish e f = f\<lparr>published := published f @ [e]\<rparr>"

definition tick_rate :: "(nat \<Rightarrow> nat) option \<Rightarrow> nat \<Rightarrow> nat \<Rightarrow> nat" where
  "tick_rate quot now prev = (case quot of None \<Rightarrow> 0 | Some q \<Rightarrow> if prev < now then q (now - prev) else 0)"

text \<open>
  What the goroutines of a forwarder do, one atomic action each. \<open>now\<close> is the clock; \<open>quot\<close> divides a number of
  bytes by the time since the last tick, \<open>None\<close> when no time has passed.
\<close>

datatype fwd_step =
    ConnCounted | OpenPublished int | ConnUncounted | ClosePublished int | DialFailed int string
  | AcceptFailed int string | CopiedIn nat | CopiedOut nat | Ticked int "(nat \<Rightarrow> nat) option" | ForwarderClosed int

fun fwd_perform :: "fwd_step \<Rightarrow> Forwarder \<Rightarrow> Forwarder" where
  "fwd_perform ConnCounted f = f\<lparr>active := active f + 1\<rparr>"
| "fwd_perform (OpenPublished now) f = Publish ((fwd_event EvConnOpen now f)\<lparr>ActiveConns := nat (active f)\<rparr>) f"
| "fwd_perform ConnUncounted f = f\<lparr>active := active f - 1\<rparr>"
| "fwd_perform (ClosePublished now) f = Publish ((fwd_event EvConnClose now f)\<lparr>ActiveConns := nat (active f)\<rparr>) f"
| "fwd_perform (DialFailed now err) f = Publish ((fwd_event EvError now f)\<lparr>ErrorMessage := ''dial: '' @ err\<rparr>) f"
| "fwd_perform (AcceptFailed now err) f = Publish ((fwd_event EvError now f)\<lparr>ErrorMessage := ''accept: '' @ err\<rparr>) f"
| "fwd_perform (CopiedIn n) f = f\<lparr>bytes_in := bytes_in f + n\<rparr>"
| "fwd_perform (CopiedOut n) f = f\<lparr>bytes_out := bytes_out f + n\<rparr>"
| "fwd_perform (Ticked now quot) f =
     Publish ((fwd_event EvBytesTick now f)\<lparr>BytesIn := bytes_in f, BytesOut := bytes_out f,
         InRateBps := tick_rate quot (bytes_in f) (last_in f), OutRateBps := tick_rate quot (bytes_out f) (last_out f),
         ActiveConns := nat (active f)\<rparr>)
       (f\<lparr>last_in := bytes_in f, last_out := bytes_out f\<rparr>)"
| "fwd_perform (ForwarderClosed now) f =
     (if closing f then f else Publish (fwd_event EvClosed now f) (f\<lparr>closing := True\<rparr>))"

section \<open>One forward at a time\<close>

definition entry_step :: "PortForwardEvent \<Rightarrow> LiveStats option \<Rightarrow> LiveStats option" where
  "entry_step e st = (case next_stats e (nullish st (no_stats (ev_ts_ms e))) of None \<Rightarrow> st | Some n \<Rightarrow> Some n)"

lemma byId_apply: "byId (apply_event e s) i = (if forward_id e = i then entry_step e (byId s i) else byId s i)"
  by (simp add: apply_event_def entry_step_def split: option.split)

lemma byId_fold:
  "byId (fold apply_event es s) i = fold entry_step (filter (\<lambda>e. forward_id e = i) es) (byId s i)"
  by (induction es arbitrary: s) (simp_all add: byId_apply)

definition stat :: "(LiveStats \<Rightarrow> 'a) \<Rightarrow> 'a \<Rightarrow> LiveStats option \<Rightarrow> 'a" where
  "stat f z st = (case st of None \<Rightarrow> z | Some s \<Rightarrow> f s)"

lemma stat_simps [simp]: "stat f z None = z" "stat f z (Some s) = f s"
  by (simp_all add: stat_def)

lemma stat_nullish: "f (no_stats t) = z \<Longrightarrow> f (nullish st (no_stats t)) = stat f z st"
  by (cases st) simp_all

abbreviation ticks :: "PortForwardEvent list \<Rightarrow> PortForwardEvent list" where
  "ticks es \<equiv> filter (\<lambda>e. ev_type e = EvBytesTick) es"

lemma history_step:
  "stat rateHistory [] (entry_step e st) =
     (if ev_type e = EvBytesTick then trim_history (tick_point e) (stat rateHistory [] st) else stat rateHistory [] st)"
  using stat_nullish [of rateHistory "ev_ts_ms e" "[]" st]
  by (cases "ev_type e"; cases st) (simp_all add: entry_step_def next_stats_def no_stats_def)

lemma history_fold:
  "stat rateHistory [] (fold entry_step es st) = fold trim_history (map tick_point (ticks es)) (stat rateHistory [] st)"
  by (induction es arbitrary: st) (simp_all add: history_step)

section \<open>The rate history\<close>

text \<open>The reference: the last points of the window that ends with the newest.\<close>

definition last_n :: "nat \<Rightarrow> 'a list \<Rightarrow> 'a list" where
  "last_n n xs = drop (length xs - n) xs"

definition recent_points :: "HistoryPoint list \<Rightarrow> HistoryPoint list" where
  "recent_points ps =
     (if ps = [] then []
      else last_n HISTORY_MAX_POINTS (filter (\<lambda>p. point_t (last ps) - HISTORY_WINDOW_MS \<le> point_t p) ps))"

lemma last_n_append: "n \<le> length ys \<Longrightarrow> last_n n (xs @ ys) = last_n n ys"
  by (simp add: last_n_def)

lemma length_last_n [simp]: "length (last_n n xs) = min n (length xs)"
  by (simp add: last_n_def min_def)

lemma trim_history_last_n:
  "trim_history p ps =
     last_n HISTORY_MAX_POINTS (filter (\<lambda>q. point_t p - HISTORY_WINDOW_MS \<le> point_t q) ps @ [p])"
  by (simp add: trim_history_def last_n_def Let_def)

text \<open>Keeping the last points of a list before the old ones are filtered out loses none, when the old ones come first.\<close>

lemma filter_last_n:
  fixes key :: "'a \<Rightarrow> int"
  assumes "sorted (map key xs)"
  shows "last_n n (filter (\<lambda>x. c \<le> key x) (last_n n xs) @ [p]) = last_n n (filter (\<lambda>x. c \<le> key x) xs @ [p])"
proof -
  let ?k = "length xs - n"
  let ?P = "\<lambda>x. c \<le> key x"
  have split_xs: "xs = take ?k xs @ last_n n xs" by (simp add: last_n_def)
  show ?thesis
  proof (cases "\<forall>x\<in>set (last_n n xs). ?P x")
    case True
    then have all: "filter ?P (last_n n xs) = last_n n xs" by (simp add: filter_id_conv)
    show ?thesis
    proof (cases "?k = 0")
      case False
      then have "n \<le> length (last_n n xs @ [p])" by simp
      moreover have "filter ?P xs @ [p] = filter ?P (take ?k xs) @ (last_n n xs @ [p])"
        by (subst split_xs, simp add: all)
      ultimately show ?thesis using all last_n_append by metis
    qed (simp add: last_n_def)
  next
    case False
    then obtain y where y: "y \<in> set (last_n n xs)" "key y < c" by force
    have "sorted (map key (take ?k xs) @ map key (last_n n xs))" using assms split_xs by (metis map_append)
    then have "key x \<le> key y" if "x \<in> set (take ?k xs)" for x using that y(1) by (auto simp: sorted_append)
    then have "filter ?P (take ?k xs) = []" using y(2) by (force simp: filter_empty_conv)
    then have "filter ?P xs = filter ?P (last_n n xs)" by (subst split_xs, simp)
    then show ?thesis by simp
  qed
qed

lemma fold_trim_history:
  assumes "sorted (map point_t ps)"
  shows "fold trim_history ps [] = recent_points ps"
  using assms
proof (induction ps rule: rev_induct)
  case (snoc p ps)
  let ?c = "\<lambda>q. point_t q - HISTORY_WINDOW_MS"
  have sorted: "sorted (map point_t ps)" and le: "\<forall>q\<in>set ps. point_t q \<le> point_t p"
    using snoc.prems by (auto simp: sorted_append)
  have IH: "fold trim_history ps [] = recent_points ps" by (rule snoc.IH [OF sorted])
  have step: "fold trim_history (ps @ [p]) [] = trim_history p (recent_points ps)" using IH by simp
  show ?case
  proof (cases "ps = []")
    case False
    let ?g = "filter (\<lambda>q. ?c (last ps) \<le> point_t q) ps"
    have "sorted (map point_t ?g)" using sorted by (rule sorted_filter)
    then have "trim_history p (recent_points ps) = last_n HISTORY_MAX_POINTS (filter (\<lambda>q. ?c p \<le> point_t q) ?g @ [p])"
      using False by (simp only: trim_history_last_n recent_points_def if_False filter_last_n)
    also have "filter (\<lambda>q. ?c p \<le> point_t q) ?g = filter (\<lambda>q. ?c p \<le> point_t q) ps"
      using le last_in_set [OF False] unfolding filter_filter by (intro filter_cong [OF refl]) force
    also have "last_n HISTORY_MAX_POINTS (\<dots> @ [p]) = recent_points (ps @ [p])"
      by (simp add: recent_points_def HISTORY_WINDOW_MS_def)
    finally show ?thesis using step by simp
  qed (simp add: trim_history_last_n recent_points_def HISTORY_WINDOW_MS_def)
qed (simp add: recent_points_def)

text \<open>C29: Whatever events of other forwards come between, the rate history of a forward is, when its clock does
  not run backwards, exactly the last 240 of the ticks at most a minute older than its newest tick.\<close>

theorem live_history_is_recent:
  assumes "sorted (map ev_ts_ms (ticks (filter (\<lambda>e. forward_id e = i) es)))"
  shows "stat rateHistory [] (byId (fold apply_event es new_live_store) i) =
           recent_points (map tick_point (ticks (filter (\<lambda>e. forward_id e = i) es)))"
proof -
  have "sorted (map point_t (map tick_point (ticks (filter (\<lambda>e. forward_id e = i) es))))"
    using assms by (simp add: tick_point_def comp_def)
  then show ?thesis by (simp add: byId_fold history_fold fold_trim_history new_live_store_def)
qed

theorem live_history_is_recent_witness:
  "let tick = (\<lambda>t. wire_event (fwd_event EvBytesTick t (new_forwarder ''a'' 1)))
   in map point_t (stat rateHistory [] (byId (fold apply_event [tick 0, tick 30000, tick 70000] new_live_store) ''a'')) =
        [30000, 70000]"
proof -
  let ?tick = "\<lambda>t. wire_event (fwd_event EvBytesTick t (new_forwarder ''a'' 1))"
  have tick: "ev_type (?tick t) = EvBytesTick" "forward_id (?tick t) = ''a''" "ev_ts_ms (?tick t) = t" for t
    by (simp_all add: wire_event_def fwd_event_def new_forwarder_def)
  then show ?thesis
    using live_history_is_recent [of "''a''" "[?tick 0, ?tick 30000, ?tick 70000]"]
    by (simp add: recent_points_def last_n_def tick_point_def HISTORY_WINDOW_MS_def HISTORY_MAX_POINTS_def Let_def)
qed

section \<open>The counters\<close>

lemma counter_step:
  "stat activeConns 0 (entry_step e st) =
     (if ev_type e \<in> {EvBytesTick, EvConnOpen, EvConnClose} then nullish (active_conns e) (stat activeConns 0 st)
      else stat activeConns 0 st)"
  "stat bytesIn 0 (entry_step e st) =
     (if ev_type e = EvBytesTick then nullish (ev_bytes_in e) (stat bytesIn 0 st) else stat bytesIn 0 st)"
  "stat bytesOut 0 (entry_step e st) =
     (if ev_type e = EvBytesTick then nullish (ev_bytes_out e) (stat bytesOut 0 st) else stat bytesOut 0 st)"
  "stat inRateBps 0 (entry_step e st) =
     (if ev_type e = EvBytesTick then nullish (in_rate_bps e) 0 else stat inRateBps 0 st)"
  "stat outRateBps 0 (entry_step e st) =
     (if ev_type e = EvBytesTick then nullish (out_rate_bps e) 0 else stat outRateBps 0 st)"
  by (cases "ev_type e"; cases st; simp add: entry_step_def next_stats_def no_stats_def)+

text \<open>A counter that keeps its value when the new one is not written shows the last value that is not zero.\<close>

definition last_nonzero :: "nat list \<Rightarrow> nat" where
  "last_nonzero ns = (let ms = filter (\<lambda>n. n \<noteq> 0) ns in if ms = [] then 0 else last ms)"

lemma last_nonzero_snoc [simp]: "last_nonzero (ns @ [n]) = (if n = 0 then last_nonzero ns else n)"
  by (simp add: last_nonzero_def Let_def)

lemma last_nonzero_Nil [simp]: "last_nonzero [] = 0"
  by (simp add: last_nonzero_def)

lemma last_nonzero_sorted: "sorted ns \<Longrightarrow> ns \<noteq> [] \<Longrightarrow> last_nonzero ns = last ns"
proof (induction ns rule: rev_induct)
  case (snoc n ns)
  then show ?case
  proof (cases "ns = []")
    case False
    then have "last ns \<le> n" using snoc.prems by (simp add: sorted_append)
    then have "n = 0 \<Longrightarrow> last ns = 0" by simp
    then show ?thesis using snoc False by (simp add: sorted_append)
  qed (simp add: last_nonzero_def)
qed simp

lemma nullish_omitempty [simp]: "nullish (omitempty n) z = (if n = 0 then z else int n)"
  by (simp add: omitempty_def)

lemma wire_event_fields [simp]:
  "ev_type (wire_event e) = go_type e" "forward_id (wire_event e) = ForwardID e" "active_conns (wire_event e) = omitempty (ActiveConns e)"
  "ev_bytes_in (wire_event e) = omitempty (BytesIn e)" "ev_bytes_out (wire_event e) = omitempty (BytesOut e)"
  "in_rate_bps (wire_event e) = omitempty (InRateBps e)" "out_rate_bps (wire_event e) = omitempty (OutRateBps e)"
  by (simp_all add: wire_event_def)

definition go_ticks :: "Event list \<Rightarrow> Event list" where
  "go_ticks gs = filter (\<lambda>e. go_type e = EvBytesTick) gs"

definition go_counts :: "Event list \<Rightarrow> nat list" where
  "go_counts gs = map ActiveConns (filter (\<lambda>e. go_type e \<in> {EvBytesTick, EvConnOpen, EvConnClose}) gs)"

lemma counters_fold:
  "stat activeConns 0 (fold entry_step (map wire_event gs) None) = int (last_nonzero (go_counts gs))"
  "stat bytesIn 0 (fold entry_step (map wire_event gs) None) = int (last_nonzero (map BytesIn (go_ticks gs)))"
  "stat bytesOut 0 (fold entry_step (map wire_event gs) None) = int (last_nonzero (map BytesOut (go_ticks gs)))"
  "go_ticks gs \<noteq> [] \<Longrightarrow> stat inRateBps 0 (fold entry_step (map wire_event gs) None) = int (InRateBps (last (go_ticks gs)))"
  "go_ticks gs \<noteq> [] \<Longrightarrow> stat outRateBps 0 (fold entry_step (map wire_event gs) None) = int (OutRateBps (last (go_ticks gs)))"
  by (induction gs rule: rev_induct) (auto simp: counter_step go_counts_def go_ticks_def)

text \<open>The totals a forwarder publishes never fall.\<close>

definition totals_inv :: "Forwarder \<Rightarrow> bool" where
  "totals_inv f \<longleftrightarrow>
     sorted (map BytesIn (go_ticks (published f)) @ [bytes_in f])
     \<and> sorted (map BytesOut (go_ticks (published f)) @ [bytes_out f])"

lemma go_ticks_snoc [simp]: "go_ticks (gs @ [g]) = go_ticks gs @ (if go_type g = EvBytesTick then [g] else [])"
  by (simp add: go_ticks_def)

lemma fwd_event_type [simp]: "go_type (fwd_event ty now f) = ty"
  by (simp add: fwd_event_def)

lemma perform_totals_inv: "totals_inv f \<Longrightarrow> totals_inv (fwd_perform e f)"
  by (cases e) (auto simp: totals_inv_def Publish_def sorted_append)

lemma run_totals_inv: "totals_inv f \<Longrightarrow> totals_inv (fold fwd_perform es f)"
  by (induction es arbitrary: f) (simp_all add: perform_totals_inv)

lemma sorted_subseq: "subseq xs ys \<Longrightarrow> sorted ys \<Longrightarrow> sorted (xs :: nat list)"
  by (metis sorted_nths subseq_conv_nths)

text \<open>Whatever part of a forwarder's events reaches the page, in order and between the events of other
  forwards, after a tick the page shows the exact totals and rates of the newest tick received although zeros are not
  sent; but the number of connections it shows is the last one received that was not zero.\<close>

theorem live_counters_follow_forwarder:
  assumes "f = fold fwd_perform steps (new_forwarder i u)" "subseq gs (published f)"
    "filter (\<lambda>e. forward_id e = i) es = map wire_event gs" "go_ticks gs \<noteq> []"
  defines "st \<equiv> byId (fold apply_event es new_live_store) i"
  shows "stat bytesIn 0 st = int (BytesIn (last (go_ticks gs))) \<and> stat bytesOut 0 st = int (BytesOut (last (go_ticks gs)))
    \<and> stat inRateBps 0 st = int (InRateBps (last (go_ticks gs))) \<and> stat outRateBps 0 st = int (OutRateBps (last (go_ticks gs)))
    \<and> stat activeConns 0 st = int (last_nonzero (go_counts gs))"
proof -
  have "totals_inv f" unfolding assms(1) by (rule run_totals_inv) (simp add: totals_inv_def new_forwarder_def go_ticks_def)
  then have "sorted (map BytesIn (go_ticks (published f)))" "sorted (map BytesOut (go_ticks (published f)))"
    by (simp_all add: totals_inv_def sorted_append)
  moreover have sub: "subseq (go_ticks gs) (go_ticks (published f))" using assms(2) by (simp add: go_ticks_def)
  ultimately have "sorted (map BytesIn (go_ticks gs))" "sorted (map BytesOut (go_ticks gs))"
    using sorted_subseq [OF subseq_map [OF sub]] by blast+
  then have "last_nonzero (map BytesIn (go_ticks gs)) = BytesIn (last (go_ticks gs))"
    "last_nonzero (map BytesOut (go_ticks gs)) = BytesOut (last (go_ticks gs))"
    using assms(4) by (simp_all add: last_nonzero_sorted last_map)
  moreover have "st = fold entry_step (map wire_event gs) None"
    using assms(3) by (simp add: st_def byId_fold new_live_store_def)
  ultimately show ?thesis using counters_fold [of gs] assms(4) by simp
qed

text \<open>The one connection has closed and the forwarder counts none, but the page goes on showing one.\<close>

theorem live_counters_follow_forwarder_witness:
  "let f = fold fwd_perform [ConnCounted, OpenPublished 1, CopiedIn 7, ConnUncounted, ClosePublished 2, Ticked 3 None]
             (new_forwarder ''a'' 1);
       st = byId (fold apply_event (map wire_event (published f)) new_live_store) ''a''
   in active f = 0 \<and> stat bytesIn 0 st = 7 \<and> stat activeConns 0 st = 1"
proof -
  define steps where "steps = [ConnCounted, OpenPublished 1, CopiedIn 7, ConnUncounted, ClosePublished 2, Ticked 3 None]"
  define f where "f = fold fwd_perform steps (new_forwarder ''a'' 1)"
  have f: "active f = 0" "filter (\<lambda>e. forward_id e = ''a'') (map wire_event (published f)) = map wire_event (published f)"
    "map BytesIn (go_ticks (published f)) = [7]" "go_counts (published f) = [1, 0, 0]"
    by (simp_all add: f_def steps_def new_forwarder_def Publish_def fwd_event_def go_ticks_def go_counts_def)
  then have ticks: "go_ticks (published f) \<noteq> []" "BytesIn (last (go_ticks (published f))) = 7"
    by (auto simp: last_map [symmetric])
  have "stat bytesIn 0 (byId (fold apply_event (map wire_event (published f)) new_live_store) ''a'') = 7
      \<and> stat activeConns 0 (byId (fold apply_event (map wire_event (published f)) new_live_store) ''a'') = 1"
    using live_counters_follow_forwarder [OF f_def _ f(2) ticks(1)] f ticks by (simp add: last_nonzero_def)
  then show ?thesis using f(1) unfolding f_def steps_def Let_def by blast
qed

end
