(* ===== verification/SftpFiles.thy ===== *)
theory SftpFiles
  imports PathUtil Forest
begin

text \<open>
  Files as the SFTP page sees them: the entries of a listing, the classification of file names
  (\<open>components/viewers/viewerKind.ts\<close>, \<open>components/sftp/fileIcons.tsx\<close>), the list that is shown, the names of
  copies, and the requests that duplicate and move files (\<open>components/sftp/SftpWorkspace.tsx\<close>) with what the
  gateway does for them (\<open>internal/sftp\<close>).
\<close>

section \<open>Entries and kinds\<close>

record SftpEntry =
  se_name :: string
  se_path :: string
  se_size :: int
  se_mode :: string
  mode_octal :: string
  se_is_dir :: bool
  is_link :: bool
  mod_time :: string
  hit_dir :: "string option"

datatype ViewerKind = ViewImage | ViewPdf | ViewOffice | ViewText | ViewVideo | ViewAudio | ViewUnknown

definition VIEW_IMAGE :: "string list" where
  "VIEW_IMAGE = [''jpg'', ''jpeg'', ''png'', ''gif'', ''webp'', ''bmp'', ''ico'', ''avif'', ''svg'']"

definition IMAGE_OPAQUE :: "string list" where
  "IMAGE_OPAQUE = [''heic'', ''heif'', ''tiff'', ''tif'', ''raw'', ''cr2'', ''nef'', ''arw'', ''dng'']"

definition RASTER_EDITABLE :: "string list" where
  "RASTER_EDITABLE = [''jpg'', ''jpeg'', ''png'', ''webp'', ''bmp'']"

definition PDF :: "string list" where "PDF = [''pdf'']"

definition OFFICE :: "string list" where
  "OFFICE = [''doc'', ''docx'', ''dot'', ''dotx'', ''odt'', ''rtf'', ''xls'', ''xlsx'', ''xlt'', ''xltx'', ''ods'', ''csv'',
     ''ppt'', ''pptx'', ''pot'', ''potx'', ''odp'']"

definition OFFICE_EDITABLE :: "string list" where
  "OFFICE_EDITABLE = [''docx'', ''xlsx'', ''pptx'', ''odt'', ''ods'', ''odp'', ''csv'', ''rtf'', ''txt'']"

definition VIEW_VIDEO :: "string list" where
  "VIEW_VIDEO = [''mp4'', ''webm'', ''mov'', ''m4v'', ''ogv'']"

definition VIEW_AUDIO :: "string list" where
  "VIEW_AUDIO = [''mp3'', ''wav'', ''flac'', ''ogg'', ''aac'', ''m4a'', ''opus'', ''weba'']"

definition VIEW_TEXT :: "string list" where
  "VIEW_TEXT =
     [''txt'', ''md'', ''markdown'', ''log'', ''rst'', ''csv'', ''tsv'', ''json'', ''yaml'', ''yml'', ''toml'', ''xml'', ''ini'',
      ''conf'', ''cfg'', ''env'', ''properties'', ''js'', ''jsx'', ''ts'', ''tsx'', ''mjs'', ''cjs'', ''go'', ''rs'', ''py'', ''rb'',
      ''php'', ''java'', ''kt'', ''c'', ''cc'', ''cpp'', ''h'', ''hpp'', ''cs'', ''swift'', ''scala'', ''lua'', ''sh'', ''bash'',
      ''zsh'', ''sql'', ''graphql'', ''proto'', ''html'', ''css'', ''scss'', ''less'', ''vue'', ''svelte'', ''dockerfile'']"

text \<open>\<open>name.split(/[\\/]/).pop() || name\<close>\<close>

definition extOf :: "string \<Rightarrow> string" where
  "extOf name =
     (let base = or_str (last (split_on CHR ''/'' (last (split_on CHR 0x5C name)))) name
      in case last_index CHR ''.'' base of None \<Rightarrow> [] | Some i \<Rightarrow> toLowerCase (drop (i + 1) base))"

definition viewerKind :: "string \<Rightarrow> ViewerKind" where
  "viewerKind name =
     (let e = extOf name in
      if e \<in> set VIEW_IMAGE \<or> e \<in> set IMAGE_OPAQUE then ViewImage
      else if e \<in> set PDF then ViewPdf
      else if e \<in> set OFFICE then ViewOffice
      else if e \<in> set VIEW_VIDEO then ViewVideo
      else if e \<in> set VIEW_AUDIO then ViewAudio
      else if e \<in> set VIEW_TEXT then ViewText
      else ViewUnknown)"

definition isPaintableImage :: "string \<Rightarrow> bool" where
  "isPaintableImage name \<longleftrightarrow> extOf name \<in> set VIEW_IMAGE"

definition hasExifPotential :: "string \<Rightarrow> bool" where
  "hasExifPotential name \<longleftrightarrow>
     extOf name \<in> set [''jpg'', ''jpeg'', ''tiff'', ''tif'', ''heic'', ''heif'', ''png'', ''webp'', ''avif'']"

definition isRasterEditable :: "string \<Rightarrow> bool" where
  "isRasterEditable name \<longleftrightarrow> extOf name \<in> set RASTER_EDITABLE"

definition isOfficeDoc :: "string \<Rightarrow> bool" where
  "isOfficeDoc name \<longleftrightarrow> extOf name \<in> set OFFICE"

definition isOfficeEditable :: "string \<Rightarrow> bool" where
  "isOfficeEditable name \<longleftrightarrow> extOf name \<in> set OFFICE_EDITABLE"

definition isViewerSupported :: "string \<Rightarrow> bool" where
  "isViewerSupported name \<longleftrightarrow> viewerKind name \<in> {ViewImage, ViewPdf, ViewOffice, ViewVideo, ViewAudio}"

definition ICON_CODE :: "string list" where
  "ICON_CODE =
     [''ts'', ''tsx'', ''js'', ''jsx'', ''mjs'', ''cjs'', ''go'', ''rs'', ''py'', ''rb'', ''php'', ''java'', ''kt'', ''swift'', ''c'',
      ''cc'', ''cpp'', ''h'', ''hpp'', ''cs'', ''scala'', ''lua'', ''ex'', ''exs'', ''erl'', ''dart'', ''vue'', ''svelte'', ''html'',
      ''css'', ''scss'', ''sass'', ''less'', ''json'', ''yaml'', ''yml'', ''toml'', ''xml'', ''sql'', ''graphql'', ''proto'']"

definition ICON_SHELL :: "string list" where
  "ICON_SHELL = [''sh'', ''bash'', ''zsh'', ''fish'', ''ps1'', ''bat'', ''cmd'']"

definition ICON_TEXT :: "string list" where
  "ICON_TEXT =
     [''txt'', ''md'', ''markdown'', ''log'', ''rst'', ''tex'', ''cfg'', ''ini'', ''conf'', ''env'', ''lock'', ''gitignore'',
      ''dockerignore'', ''editorconfig'']"

definition ICON_IMAGE :: "string list" where
  "ICON_IMAGE =
     [''png'', ''jpg'', ''jpeg'', ''gif'', ''webp'', ''svg'', ''ico'', ''bmp'', ''tiff'', ''avif'', ''heic'', ''heif'']"

definition ICON_AUDIO :: "string list" where
  "ICON_AUDIO = [''mp3'', ''wav'', ''flac'', ''ogg'', ''aac'', ''m4a'', ''opus'']"

definition ICON_VIDEO :: "string list" where
  "ICON_VIDEO = [''mp4'', ''mkv'', ''mov'', ''avi'', ''webm'', ''flv'', ''wmv'', ''m4v'']"

definition ICON_ARCHIVE :: "string list" where
  "ICON_ARCHIVE =
     [''zip'', ''tar'', ''gz'', ''tgz'', ''bz2'', ''xz'', ''7z'', ''rar'', ''zst'', ''deb'', ''rpm'', ''apk'']"

definition ICON_SHEET :: "string list" where
  "ICON_SHEET = [''xls'', ''xlsx'', ''csv'', ''tsv'', ''ods'']"

definition ICON_KEY :: "string list" where
  "ICON_KEY = [''key'', ''pem'', ''crt'', ''cer'', ''pub'', ''p12'', ''pfx'', ''asc'']"

datatype IconType =
    FolderSymlink | Link2 | Folder | FileCode | TerminalIcon | FileImage | FileAudio | FileVideo | ArchiveIcon
  | FileSpreadsheet | LockIcon | FileText

definition iconForEntry :: "SftpEntry \<Rightarrow> IconType" where
  "iconForEntry e =
     (if is_link e then (if se_is_dir e then FolderSymlink else Link2)
      else if se_is_dir e then Folder
      else
        let ext = extension (se_name e) in
        if ext \<in> set ICON_CODE then FileCode
        else if ext \<in> set ICON_SHELL then TerminalIcon
        else if ext \<in> set ICON_IMAGE then FileImage
        else if ext \<in> set ICON_AUDIO then FileAudio
        else if ext \<in> set ICON_VIDEO then FileVideo
        else if ext \<in> set ICON_ARCHIVE then ArchiveIcon
        else if ext \<in> set ICON_SHEET then FileSpreadsheet
        else if ext \<in> set ICON_KEY then LockIcon
        else FileText)"

definition SIZE_LIMIT :: int where "SIZE_LIMIT = 2 * 1024 * 1024"

definition isLikelyText :: "SftpEntry \<Rightarrow> bool" where
  "isLikelyText e =
     (if se_is_dir e then False
      else
        let ext = extension (se_name e) in
        if ext = [] then 0 < se_size e \<and> se_size e \<le> SIZE_LIMIT
        else ext \<in> set (ICON_CODE @ ICON_SHELL @ ICON_TEXT) \<and> se_size e \<le> SIZE_LIMIT)"

definition isPreviewableImage :: "SftpEntry \<Rightarrow> bool" where
  "isPreviewableImage e = (if se_is_dir e then False else extension (se_name e) \<in> set ICON_IMAGE)"

definition isEditable :: "SftpEntry \<Rightarrow> bool" where
  "isEditable e \<longleftrightarrow> isLikelyText e \<and> \<not> is_link e"

section \<open>The list that is shown\<close>

datatype SortKey = ByName | BySize | ByMtime | ByType

datatype SortDir = Asc | Desc

text \<open>
  \<open>lc\<close> is \<open>localeCompare\<close>, \<open>lcn\<close> the same with the options \<open>numeric\<close> and \<open>sensitivity: "base"\<close>, and \<open>ms\<close> the
  time value of a date, \<open>None\<close> for \<open>NaN\<close>; a comparison that answers \<open>NaN\<close> counts as equal.
\<close>

definition cmp_entries ::
  "(string \<Rightarrow> string \<Rightarrow> int) \<Rightarrow> (string \<Rightarrow> string \<Rightarrow> int) \<Rightarrow> (string \<Rightarrow> int option) \<Rightarrow> SortKey \<Rightarrow> SortDir \<Rightarrow>
   SftpEntry \<Rightarrow> SftpEntry \<Rightarrow> int" where
  "cmp_entries lcn lc ms key dir a b =
     (if se_is_dir a \<noteq> se_is_dir b then (if se_is_dir a then -1 else 1)
      else
        let r = (case key of
              ByName \<Rightarrow> lcn (se_name a) (se_name b)
            | BySize \<Rightarrow> se_size a - se_size b
            | ByMtime \<Rightarrow> (case (ms (mod_time a), ms (mod_time b)) of (Some x, Some y) \<Rightarrow> x - y | _ \<Rightarrow> 0)
            | ByType \<Rightarrow> lc (or_str (mode_octal a) (se_mode a)) (or_str (mode_octal b) (se_mode b)))
        in if dir = Asc then r else - r)"

definition shown_entries :: "(SftpEntry \<Rightarrow> SftpEntry \<Rightarrow> int) \<Rightarrow> string \<Rightarrow> bool \<Rightarrow> SftpEntry list \<Rightarrow> SftpEntry list" where
  "shown_entries cmp text showHidden rawEntries =
     (let q = toLowerCase (js_trim text);
          arr = (if showHidden then rawEntries else filter (\<lambda>e. \<not> prefix ''.'' (se_name e)) rawEntries);
          arr = (if q \<noteq> [] then filter (\<lambda>e. str_includes (toLowerCase (se_name e)) q) arr else arr)
      in js_sort cmp arr)"

lemma insert_dirs_first:
  assumes "list_all se_is_dir ds" "list_all (\<lambda>e. \<not> se_is_dir e) fs"
  shows "\<exists>ds' fs'. insert_cmp (cmp_entries lcn lc ms key dir) x (ds @ fs) = ds' @ fs'
    \<and> list_all se_is_dir ds' \<and> list_all (\<lambda>e. \<not> se_is_dir e) fs'"
  using assms
proof (induction ds)
  case Nil
  show ?case
  proof (cases "se_is_dir x")
    case True
    then have "insert_cmp (cmp_entries lcn lc ms key dir) x fs = [x] @ fs"
      using Nil by (cases fs) (simp_all add: cmp_entries_def)
    then show ?thesis using Nil True by (intro exI [of _ "[x]"] exI [of _ fs]) simp
  next
    case False
    have "list_all (\<lambda>e. \<not> se_is_dir e) (insert_cmp cmp x fs)" for cmp
      using Nil False by (induction fs) simp_all
    then show ?thesis by (intro exI [of _ "[]"] exI [of _ "insert_cmp (cmp_entries lcn lc ms key dir) x fs"]) simp
  qed
next
  case (Cons d ds)
  then obtain ds' fs' where IH: "insert_cmp (cmp_entries lcn lc ms key dir) x (ds @ fs) = ds' @ fs'"
    "list_all se_is_dir ds'" "list_all (\<lambda>e. \<not> se_is_dir e) fs'" by auto
  show ?case
  proof (cases "cmp_entries lcn lc ms key dir x d \<le> 0")
    case True
    then have "se_is_dir x" using Cons.prems(1) by (auto simp: cmp_entries_def split: if_splits)
    then show ?thesis using True Cons.prems
      by (intro exI [of _ "x # d # ds"] exI [of _ fs]) simp
  next
    case False
    then show ?thesis using IH Cons.prems by (intro exI [of _ "d # ds'"] exI [of _ fs']) simp
  qed
qed

text \<open>Whatever the sort key and the direction, directories come first, and the list shown has
  exactly the entries that pass the filters.\<close>

theorem shown_entries_spec:
  "(\<exists>ds fs. shown_entries (cmp_entries lcn lc ms key dir) text hidden raw = ds @ fs
      \<and> list_all se_is_dir ds \<and> list_all (\<lambda>e. \<not> se_is_dir e) fs)
   \<and> mset (shown_entries (cmp_entries lcn lc ms key dir) text hidden raw) =
       mset (filter (\<lambda>e. (hidden \<or> \<not> prefix ''.'' (se_name e))
         \<and> str_includes (toLowerCase (se_name e)) (toLowerCase (js_trim text))) raw)"
proof -
  have "\<exists>ds fs. js_sort (cmp_entries lcn lc ms key dir) xs = ds @ fs
      \<and> list_all se_is_dir ds \<and> list_all (\<lambda>e. \<not> se_is_dir e) fs" for xs
  proof (induction xs)
    case (Cons x xs)
    then show ?case using insert_dirs_first [of _ _ lcn lc ms key dir x] by (auto simp: js_sort_def)
  qed (simp add: js_sort_def)
  moreover have "str_includes s []" for s by (metis append_Nil includes_iff)
  ultimately show ?thesis
    by (simp add: shown_entries_def Let_def) (simp add: filter_filter_mset conj_commute)
qed

section \<open>The names of copies\<close>

definition copy_label :: string where "copy_label = utf8 [32, 0x526F, 0x672C]"

definition copy_candidate :: "string \<Rightarrow> string \<Rightarrow> nat \<Rightarrow> string" where
  "copy_candidate base ext n = base @ copy_label @ (if n < 2 then [] else CHR '' '' # show_nat n) @ ext"

lemma copy_candidate_inject: "1 \<le> m \<Longrightarrow> 1 \<le> n \<Longrightarrow> copy_candidate base ext m = copy_candidate base ext n \<Longrightarrow> m = n"
  by (auto simp: copy_candidate_def show_nat_inject split: if_splits)

lemma finite_taken: "finite {m. n \<le> m \<and> copy_candidate base ext m \<in> set taken}"
proof -
  have "inj_on (copy_candidate base ext) {m. 1 \<le> m \<and> copy_candidate base ext m \<in> set taken}"
    using copy_candidate_inject by (intro inj_onI) blast
  moreover have "copy_candidate base ext ` {m. 1 \<le> m \<and> copy_candidate base ext m \<in> set taken} \<subseteq> set taken" by blast
  ultimately have "finite {m. 1 \<le> m \<and> copy_candidate base ext m \<in> set taken}"
    using finite_subset finite_imageD by (metis finite_set)
  moreover have "{m. n \<le> m \<and> copy_candidate base ext m \<in> set taken} \<subseteq>
      insert 0 {m. 1 \<le> m \<and> copy_candidate base ext m \<in> set taken}" by auto
  ultimately show ?thesis by (meson finite_insert finite_subset)
qed

function copy_loop :: "string \<Rightarrow> string \<Rightarrow> string list \<Rightarrow> nat \<Rightarrow> string" where
  "copy_loop base ext taken n =
     (let candidate = copy_candidate base ext n
      in if candidate \<in> set taken then copy_loop base ext taken (n + 1) else candidate)"
  by auto

termination
proof (relation "measure (\<lambda>(base, ext, taken, n). card {m. n \<le> m \<and> copy_candidate base ext m \<in> set taken})")
  fix base ext :: string and taken n x
  assume "x = copy_candidate base ext n" "x \<in> set taken"
  then have "n \<in> {m. n \<le> m \<and> copy_candidate base ext m \<in> set taken}" by simp
  then have "card ({m. n \<le> m \<and> copy_candidate base ext m \<in> set taken} - {n}) < card {m. n \<le> m \<and> copy_candidate base ext m \<in> set taken}"
    by (rule card_Diff1_less [OF finite_taken])
  moreover have "{m. n + 1 \<le> m \<and> copy_candidate base ext m \<in> set taken} =
      {m. n \<le> m \<and> copy_candidate base ext m \<in> set taken} - {n}" by auto
  ultimately show "((base, ext, taken, n + 1), (base, ext, taken, n)) \<in>
      measure (\<lambda>(base, ext, taken, n). card {m. n \<le> m \<and> copy_candidate base ext m \<in> set taken})"
    by (simp only: in_measure case_prod_conv)
qed simp

declare copy_loop.simps [simp del]

definition copyName :: "string \<Rightarrow> string list \<Rightarrow> string" where
  "copyName name taken =
     (case last_index CHR ''.'' name of
        Some (Suc d) \<Rightarrow> copy_loop (take (Suc d) name) (drop (Suc d) name) taken 1
      | _ \<Rightarrow> copy_loop name [] taken 1)"

lemma copy_loop_fresh:
  "\<exists>m\<ge>n. copy_loop base ext taken n = copy_candidate base ext m \<and> copy_candidate base ext m \<notin> set taken
     \<and> (\<forall>k. n \<le> k \<and> k < m \<longrightarrow> copy_candidate base ext k \<in> set taken)"
proof (induction base ext taken n rule: copy_loop.induct)
  case (1 base ext taken n)
  show ?case
  proof (cases "copy_candidate base ext n \<in> set taken")
    case True
    then obtain m where m: "n + 1 \<le> m" "copy_loop base ext taken (n + 1) = copy_candidate base ext m"
      "copy_candidate base ext m \<notin> set taken" "\<forall>k. n + 1 \<le> k \<and> k < m \<longrightarrow> copy_candidate base ext k \<in> set taken"
      using 1 by blast
    have "copy_candidate base ext k \<in> set taken" if "n \<le> k" "k < m" for k
      using that m(4) True by (cases "k = n") simp_all
    then show ?thesis using m True by (intro exI [of _ m]) (simp add: copy_loop.simps [of base ext taken n])
  qed (auto simp: copy_loop.simps [of base ext taken n])
qed

lemma last_index_take: "last_index c s = Some i \<Longrightarrow> i < length s \<and> s ! i = c"
  by (induction s arbitrary: i) (auto split: option.splits if_splits)

text \<open>The name of a copy is the first of the numbered names that is not taken.\<close>

theorem copyName_first_free:
  "\<exists>base ext n. name = base @ ext \<and> copyName name taken = copy_candidate base ext n \<and> 1 \<le> n
     \<and> copyName name taken \<notin> set taken \<and> (\<forall>k. 1 \<le> k \<and> k < n \<longrightarrow> copy_candidate base ext k \<in> set taken)"
proof -
  obtain base ext where split: "name = base @ ext" "copyName name taken = copy_loop base ext taken 1"
    by (cases "last_index CHR ''.'' name"; cases "the (last_index CHR ''.'' name)")
      (auto simp: copyName_def intro: that [of "take k name" "drop k name" for k] that [of name "[]"])
  then show ?thesis using copy_loop_fresh [of 1 base ext taken] by metis
qed

section \<open>Paths of a directory\<close>

lemma split_on_sep: "split_on c (s @ c # t) = split_on c s @ split_on c t"
proof (induction s)
  case (Cons x s)
  then show ?case by (cases "split_on c s") (auto simp: split_on_nonempty)
qed simp

definition abs_path :: "string \<Rightarrow> bool" where
  "abs_path p \<longleftrightarrow> is_abs p \<and> normalize p = p"

lemma abs_path_canon: "abs_path p \<Longrightarrow> p = canon True (norm_segs p)"
  unfolding abs_path_def by (metis normalize_canon)

lemma child_canon:
  assumes "abs_path p" "clean c"
  shows "path_join [p, c] = canon True (norm_segs p @ [c])"
proof -
  have p: "is_abs p" "p \<noteq> []" and c: "c \<noteq> []" using assms by (auto simp: abs_path_def is_abs_def clean_def)
  have "norm_segs (p @ CHR ''/'' # c) = norm_segs p @ [c]"
    using assms(2) by (simp add: norm_segs_def split_on_sep split_on_id clean_def norm_step_def)
  moreover have "is_abs (p @ CHR ''/'' # c)" using p by (auto simp: is_abs_def)
  ultimately show ?thesis using p c by (simp add: path_join_def normalize_canon)
qed

lemma child_parts:
  assumes "abs_path p" "clean c"
  shows "basename (path_join [p, c]) = c" "parent (path_join [p, c]) = p" "abs_path (path_join [p, c])"
proof -
  have clean: "list_all clean (norm_segs p @ [c])" using norm_segs_clean assms(2) by simp
  have eq: "path_join [p, c] = canon True (norm_segs p @ [c])" by (rule child_canon [OF assms])
  show dir: "abs_path (path_join [p, c])"
    unfolding abs_path_def eq using normalize_canon_id [OF clean, of True] is_abs_canon [OF clean, of True] by simp
  show "basename (path_join [p, c]) = c" "parent (path_join [p, c]) = p"
    using parent_canon_snoc [of "norm_segs p" c] abs_path_canon [OF assms(1)] norm_segs_clean assms(2)
    unfolding eq by simp_all
qed

lemma child_inject: "abs_path p \<Longrightarrow> clean c \<Longrightarrow> clean d \<Longrightarrow> path_join [p, c] = path_join [p, d] \<Longrightarrow> c = d"
  by (metis child_parts(1))

lemma prefix_delimited:
  assumes "c \<notin> set a" "c \<notin> set b" "prefix (a @ [c]) (b @ [c])"
  shows "a = b"
proof -
  obtain zs where "b @ [c] = a @ c # zs" using assms(3) by (auto elim: prefixE)
  then have "takeWhile (\<lambda>x. x \<noteq> c) (b @ [c]) = takeWhile (\<lambda>x. x \<noteq> c) (a @ c # zs)" by (rule arg_cong)
  moreover have "\<forall>x\<in>set a. x \<noteq> c" "\<forall>x\<in>set b. x \<noteq> c" using assms(1,2) by auto
  ultimately show ?thesis by (simp add: takeWhile_append2)
qed

lemma child_prefix:
  assumes "abs_path p" "clean c" "clean d" "prefix (path_join [p, c] @ ''/'') (path_join [p, d] @ ''/'')"
  shows "c = d"
proof -
  have "prefix (c @ ''/'') (d @ ''/'')"
    using assms(4) unfolding child_canon [OF assms(1,2)] child_canon [OF assms(1,3)] canon_snoc
    by (auto split: if_splits)
  then show ?thesis using assms(2,3) by (intro prefix_delimited [of "CHR ''/''" c d]) (auto simp: clean_def)
qed

section \<open>Duplicating and moving\<close>

text \<open>The copies that \<open>runDuplicate\<close> asks for, one after the other\<close>

fun duplicate_plan :: "SftpEntry list \<Rightarrow> string list \<Rightarrow> (string \<times> string) list" where
  "duplicate_plan [] taken = []"
| "duplicate_plan (e # es) taken =
     (let dest = path_join [parent (se_path e), copyName (se_name e) taken]
      in (se_path e, dest) # duplicate_plan es (basename dest # taken))"

definition moving :: "string list \<Rightarrow> string \<Rightarrow> string list" where
  "moving paths targetDir = filter (\<lambda>p. parent p \<noteq> targetDir \<and> p \<noteq> targetDir) paths"

definition move_plan :: "string list \<Rightarrow> string \<Rightarrow> (string \<times> string) list" where
  "move_plan paths targetDir = map (\<lambda>p. (p, path_join [targetDir, basename p])) (moving paths targetDir)"

text \<open>The regular files of the node by their canonical paths, and what the gateway does to them: it copies with
  \<open>O_CREATE|O_TRUNC\<close> and renames with the POSIX extension, so that both replace a file that is there.\<close>

type_synonym 'c remote = "string \<Rightarrow> 'c option"

definition remote_copy :: "string \<times> string \<Rightarrow> 'c remote \<Rightarrow> 'c remote" where
  "remote_copy r fs =
     (case r of (src, to) \<Rightarrow>
        if src = to then fs
        else if prefix (src @ ''/'') (to @ ''/'') then fs
        else (case fs src of None \<Rightarrow> fs | Some c \<Rightarrow> fs(to \<mapsto> c)))"

definition remote_rename :: "string \<times> string \<Rightarrow> 'c remote \<Rightarrow> 'c remote" where
  "remote_rename r fs =
     (case r of (src, to) \<Rightarrow> case fs src of None \<Rightarrow> fs | Some c \<Rightarrow> (fs(src := None))(to \<mapsto> c))"

lemma copy_label_bytes: "copy_label = [CHR '' '', CHR 0xE5, CHR 0x89, CHR 0xAF, CHR 0xE6, CHR 0x9C, CHR 0xAC]"
  by (simp add: copy_label_def utf8_def utf8_char_def char_of_eq_iff)

lemma copy_label_chars: "CHR ''/'' \<notin> set copy_label" "2 < length copy_label"
  unfolding copy_label_bytes by simp_all

lemma copyName_clean:
  assumes "CHR ''/'' \<notin> set name"
  shows "clean (copyName name taken)"
proof -
  obtain base ext n where c: "name = base @ ext" "copyName name taken = copy_candidate base ext n"
    using copyName_first_free by blast
  have "CHR ''/'' \<notin> set (show_nat n)" using show_nat_digits [of "CHR ''/''" n] by auto
  then have "CHR ''/'' \<notin> set (copyName name taken)" "2 < length (copyName name taken)"
    using assms c copy_label_chars by (auto simp: copy_candidate_def)
  then show ?thesis by (auto simp: clean_def)
qed

lemma duplicate_plan_fresh:
  assumes "abs_path p" "\<forall>c. clean c \<longrightarrow> fs (path_join [p, c]) \<noteq> None \<longrightarrow> c \<in> set taken"
    "\<forall>e\<in>set es. se_path e = path_join [p, se_name e] \<and> clean (se_name e) \<and> fs (se_path e) \<noteq> None"
  shows "(\<forall>q. fs q \<noteq> None \<longrightarrow> fold remote_copy (duplicate_plan es taken) fs q = fs q)
    \<and> (\<forall>(src, to)\<in>set (duplicate_plan es taken). fs to = None \<and> fold remote_copy (duplicate_plan es taken) fs to = fs src)"
  using assms(2,3)
proof (induction es arbitrary: taken fs)
  case (Cons e es)
  define c where "c = copyName (se_name e) taken"
  define dest where "dest = path_join [p, c]"
  from Cons.prems(2) obtain v where e: "se_path e = path_join [p, se_name e]" "clean (se_name e)" "fs (se_path e) = Some v" by auto
  have c: "clean c" unfolding c_def using e(2) by (intro copyName_clean) (simp add: clean_def)
  have "c \<notin> set taken" using copyName_first_free [of "se_name e" taken] by (auto simp: c_def)
  then have free: "fs dest = None" using Cons.prems(1) c unfolding dest_def by blast
  have "se_name e \<in> set taken" using Cons.prems(1) e by auto
  then have differ: "se_name e \<noteq> c" using \<open>c \<notin> set taken\<close> by blast
  have dest_eq: "path_join [parent (se_path e), copyName (se_name e) taken] = dest"
    using e(1) child_parts(2) [OF assms(1) e(2)] by (simp add: dest_def c_def)
  have plan: "duplicate_plan (e # es) taken = (se_path e, dest) # duplicate_plan es (c # taken)"
    using child_parts(1) [OF assms(1) c] by (simp add: dest_eq) (simp add: dest_def)
  have step: "remote_copy (se_path e, dest) fs = fs(dest \<mapsto> v)"
    using child_prefix [OF assms(1) e(2) c] child_inject [OF assms(1) e(2) c] differ e(1,3)
    by (auto simp: remote_copy_def dest_def)
  let ?fs = "fs(dest \<mapsto> v)"
  have keep: "?fs q = fs q" if "fs q \<noteq> None" for q using that free by auto
  have "\<forall>d. clean d \<longrightarrow> ?fs (path_join [p, d]) \<noteq> None \<longrightarrow> d \<in> set (c # taken)"
  proof (intro allI impI)
    fix d assume d: "clean d" "?fs (path_join [p, d]) \<noteq> None"
    show "d \<in> set (c # taken)"
    proof (cases "path_join [p, d] = dest")
      case True
      then have "c = d" unfolding dest_def by (intro child_inject [OF assms(1) c d(1)]) simp
      then show ?thesis by simp
    next
      case False
      then show ?thesis using Cons.prems(1) d by simp
    qed
  qed
  moreover have "\<forall>e\<in>set es. se_path e = path_join [p, se_name e] \<and> clean (se_name e) \<and> ?fs (se_path e) \<noteq> None"
    using Cons.prems(2) by auto
  ultimately have IH:
    "\<forall>q. ?fs q \<noteq> None \<longrightarrow> fold remote_copy (duplicate_plan es (c # taken)) ?fs q = ?fs q"
    "\<forall>(src, to)\<in>set (duplicate_plan es (c # taken)). ?fs to = None \<and> fold remote_copy (duplicate_plan es (c # taken)) ?fs to = ?fs src"
    using Cons.IH [of ?fs "c # taken"] by blast+
  have run: "fold remote_copy (duplicate_plan (e # es) taken) fs = fold remote_copy (duplicate_plan es (c # taken)) ?fs"
    unfolding plan by (simp add: step)
  have sources: "fs src \<noteq> None" if "(src, to) \<in> set (duplicate_plan es tk)" "\<forall>e\<in>set es. fs (se_path e) \<noteq> None" for src to tk es
    using that by (induction es arbitrary: tk) (auto simp: Let_def)
  have "fs to = None \<and> fold remote_copy (duplicate_plan es (c # taken)) ?fs to = fs src"
    if "(src, to) \<in> set (duplicate_plan es (c # taken))" for src to
  proof -
    have "\<forall>e\<in>set es. fs (se_path e) \<noteq> None" using Cons.prems(2) by (meson list.set_intros(2))
    then have "fs src \<noteq> None" by (rule sources [OF that])
    then show ?thesis using IH(2) that keep by (fastforce split: if_splits)
  qed
  moreover have "fold remote_copy (duplicate_plan es (c # taken)) ?fs dest = fs (se_path e)" using IH(1) e(3) by simp
  moreover have "fold remote_copy (duplicate_plan es (c # taken)) ?fs q = fs q" if "fs q \<noteq> None" for q
    using IH(1) keep [OF that] that by metis
  ultimately show ?case unfolding run unfolding plan using free by auto
qed simp



text \<open>A hit of a search below the directory that is listed: the copy replaces a file that is there.\<close>

lemma duplicate_overwrites_hit:
  "let e = \<lparr>se_name = ''a'', se_path = ''/d/a'', se_size = 1, se_mode = [], mode_octal = [], se_is_dir = False, is_link = False,
             mod_time = [], hit_dir = Some ''/d''\<rparr>;
       fs = [''/d/a'' \<mapsto> (1 :: nat), ''/d/a'' @ copy_label \<mapsto> 2]
   in fold remote_copy (duplicate_plan [e] []) fs (''/d/a'' @ copy_label) = Some 1"
proof -
  have p: "abs_path ''/d''" "clean ''a''" "path_join [''/d'', ''a''] = ''/d/a''"
    by (simp_all add: abs_path_def clean_def path_join_def normalize_def norm_segs_def norm_step_def is_abs_def)
  have "copyName ''a'' [] = ''a'' @ copy_label"
    by (simp add: copyName_def copy_loop.simps copy_candidate_def copy_label_bytes)
  moreover have "parent ''/d/a'' = ''/d''" using child_parts(2) [OF p(1,2)] p(3) by simp
  moreover have "clean (''a'' @ copy_label)" by (simp add: clean_def copy_label_bytes)
  then have "path_join [''/d'', ''a'' @ copy_label] = ''/d/a'' @ copy_label"
    using child_canon [OF p(1)] by (simp add: canon_abs norm_segs_def norm_step_def)
  ultimately show ?thesis by (simp add: Let_def remote_copy_def) (simp add: copy_label_bytes)
qed

lemma rename_all:
  assumes "distinct (map fst rs)" "distinct (map snd rs)" "\<forall>r\<in>set rs. fs (fst r) \<noteq> None \<and> fs (snd r) = None"
  shows "(\<forall>r\<in>set rs. fold remote_rename rs fs (snd r) = fs (fst r) \<and> fold remote_rename rs fs (fst r) = None)
    \<and> (\<forall>q. q \<notin> fst ` set rs \<and> q \<notin> snd ` set rs \<longrightarrow> fold remote_rename rs fs q = fs q)"
  using assms
proof (induction rs arbitrary: fs)
  case (Cons r rs)
  obtain v where v: "fs (fst r) = Some v" "fs (snd r) = None" using Cons.prems(3) by auto
  define fs1 where "fs1 = (fs(fst r := None))(snd r \<mapsto> v)"
  have run: "fold remote_rename (r # rs) fs = fold remote_rename rs fs1"
    using v by (cases r) (simp add: remote_rename_def fs1_def)
  have apart: "fst r' \<noteq> fst r" "fst r' \<noteq> snd r" "snd r' \<noteq> snd r" "snd r' \<noteq> fst r" if "r' \<in> set rs" for r'
    using that Cons.prems v by (auto simp: image_iff)
  have same: "fs1 (fst r') = fs (fst r')" "fs1 (snd r') = fs (snd r')" if "r' \<in> set rs" for r'
    using apart [OF that] by (simp_all add: fs1_def)
  have IH: "(\<forall>r\<in>set rs. fold remote_rename rs fs1 (snd r) = fs1 (fst r) \<and> fold remote_rename rs fs1 (fst r) = None)
    \<and> (\<forall>q. q \<notin> fst ` set rs \<and> q \<notin> snd ` set rs \<longrightarrow> fold remote_rename rs fs1 q = fs1 q)"
    using Cons.prems same by (intro Cons.IH) auto
  have "fst r \<notin> fst ` set rs \<and> fst r \<notin> snd ` set rs" "snd r \<notin> fst ` set rs \<and> snd r \<notin> snd ` set rs"
    using apart by (metis imageE)+
  then have "fold remote_rename rs fs1 (fst r) = None" "fold remote_rename rs fs1 (snd r) = fs (fst r)"
    using IH v by (auto simp: fs1_def)
  moreover have "fold remote_rename rs fs1 q = fs q" if "q \<notin> fst ` set (r # rs)" "q \<notin> snd ` set (r # rs)" for q
    using IH that by (simp add: fs1_def)
  ultimately show ?case using IH same unfolding run by simp
qed simp

lemma basename_clean:
  assumes "abs_path p" "p \<noteq> ''/''"
  shows "clean (basename p)"
proof -
  have "norm_segs p \<noteq> []" using abs_path_canon [OF assms(1)] assms(2) by (auto simp: canon_empty)
  then obtain ss s where ns: "norm_segs p = ss @ [s]" by (cases "norm_segs p" rule: rev_cases) auto
  then have "list_all clean ss" "clean s" using norm_segs_clean [of p] by simp_all
  then show ?thesis using parent_canon_snoc(2) abs_path_canon [OF assms(1)] ns by metis
qed

text \<open>C31: Moving files into a directory moves each and touches no other file, when their base names differ and
  are free there; nothing checks this, and files of one name from the results of a search replace each other.\<close>

theorem move_conserves_files:
  assumes "abs_path t" "distinct paths" "\<forall>p\<in>set (moving paths t). abs_path p \<and> p \<noteq> ''/'' \<and> fs p \<noteq> None"
    "distinct (map basename (moving paths t))" "\<forall>p\<in>set (moving paths t). fs (path_join [t, basename p]) = None"
  defines "fs' \<equiv> fold remote_rename (move_plan paths t) fs"
  shows "(\<forall>p\<in>set (moving paths t). fs' (path_join [t, basename p]) = fs p \<and> fs' p = None)
    \<and> (\<forall>q. q \<notin> set (moving paths t) \<and> q \<notin> (\<lambda>p. path_join [t, basename p]) ` set (moving paths t) \<longrightarrow> fs' q = fs q)"
proof -
  let ?to = "\<lambda>p. path_join [t, basename p]"
  have "inj_on (\<lambda>b. path_join [t, b]) (basename ` set (moving paths t))"
  proof (rule inj_onI)
    fix b c assume b: "b \<in> basename ` set (moving paths t)" "c \<in> basename ` set (moving paths t)" "path_join [t, b] = path_join [t, c]"
    then have "clean b" "clean c" using assms(3) basename_clean by auto
    then show "b = c" using b(3) by (rule child_inject [OF assms(1)])
  qed
  then have "distinct (map (\<lambda>b. path_join [t, b]) (map basename (moving paths t)))"
    using assms(4) by (subst distinct_map) simp
  then have "distinct (map snd (move_plan paths t))" by (simp add: move_plan_def comp_def)
  moreover have "distinct (map fst (move_plan paths t))" using assms(2) by (simp add: move_plan_def moving_def comp_def)
  ultimately have "(\<forall>r\<in>set (move_plan paths t). fs' (snd r) = fs (fst r) \<and> fs' (fst r) = None)
    \<and> (\<forall>q. q \<notin> fst ` set (move_plan paths t) \<and> q \<notin> snd ` set (move_plan paths t) \<longrightarrow> fs' q = fs q)"
    unfolding fs'_def using assms(3,5) by (intro rename_all) (auto simp: move_plan_def)
  then show ?thesis by (simp add: move_plan_def image_image)
qed

theorem move_conserves_files_witness:
  "fold remote_rename (move_plan [''/a/x'', ''/t/y''] ''/t'') [''/a/x'' \<mapsto> (1 :: nat), ''/t/y'' \<mapsto> 2] ''/t/x'' = Some 1"
proof -
  have t: "abs_path ''/t''" "moving [''/a/x'', ''/t/y''] ''/t'' = [''/a/x'']" "abs_path ''/a/x''" "path_join [''/t'', basename ''/a/x''] = ''/t/x''"
    by (simp_all add: abs_path_def moving_def parent_def basename_def path_join_def normalize_def norm_segs_def norm_step_def
        is_abs_def Let_def)
  show ?thesis
    using move_conserves_files [OF t(1), of "[''/a/x'', ''/t/y'']" "[''/a/x'' \<mapsto> (1 :: nat), ''/t/y'' \<mapsto> 2]"] t by simp
qed

lemma move_merges_hits:
  "fold remote_rename (move_plan [''/a/x'', ''/b/x''] ''/t'') [''/a/x'' \<mapsto> (1 :: nat), ''/b/x'' \<mapsto> 2] = [''/t/x'' \<mapsto> 2]"
  by (simp add: move_plan_def moving_def remote_rename_def parent_def basename_def path_join_def normalize_def norm_segs_def
      norm_step_def is_abs_def Let_def fun_eq_iff)

end
