(* ===== verification/SftpPage.thy ===== *)
theory SftpPage
  imports SftpFiles Machine
begin

text \<open>
  The file page of a node (\<open>components/sftp\<close>): the write authorisation (\<open>useSftpApproval.ts\<close>), the selection
  (\<open>useSftpSelection.ts\<close>), the keyboard (\<open>useSftpKeyboard.ts\<close>) and the workspace that composes them
  (\<open>SftpWorkspace.tsx\<close>), as the run of a state machine that logs the requests it makes. A handler that awaits its
  requests runs to its end in one step; whether a request succeeds is an argument of the step.
\<close>

section \<open>Write authorisation\<close>

datatype SftpWriteMode = WriteChecking | WriteOpen | WriteLocked | WritePending | WriteGranted

record preflight_data =
  required :: bool
  allowed :: bool
  pending_request_id :: "string option"

text \<open>\<open>stream_status\<close>: the status of each request as far as it has been read.\<close>

record sftp_approval =
  preflight :: "preflight_data option"
  preflight_loading :: bool
  requestId :: "string option"
  stream_status :: "string \<Rightarrow> string option"
  invalidated :: nat

definition new_approval :: sftp_approval where
  "new_approval =
     \<lparr>preflight = None, preflight_loading = True, requestId = None, stream_status = (\<lambda>_. None), invalidated = 0\<rparr>"

definition streamStatus :: "sftp_approval \<Rightarrow> string option" where
  "streamStatus a = Option.bind (requestId a) (stream_status a)"

definition is_required :: "sftp_approval \<Rightarrow> bool" where
  "is_required a = nullish (map_option required (preflight a)) False"

definition is_allowed :: "sftp_approval \<Rightarrow> bool" where
  "is_allowed a = nullish (map_option allowed (preflight a)) False"

definition write_mode :: "sftp_approval \<Rightarrow> SftpWriteMode" where
  "write_mode a =
     (if preflight_loading a \<and> preflight a = None then WriteChecking
      else if \<not> is_required a then WriteOpen
      else if is_allowed a then WriteGranted
      else if truthy_str (requestId a) \<and> streamStatus a = Some ''pending'' then WritePending
      else WriteLocked)"

definition canWrite :: "sftp_approval \<Rightarrow> bool" where
  "canWrite a \<longleftrightarrow> write_mode a = WriteOpen \<or> write_mode a = WriteGranted"

definition approved_status :: "string option \<Rightarrow> bool" where
  "approved_status st \<longleftrightarrow> st = Some ''approved'' \<or> st = Some ''auto_approved''"

definition invalidate :: "sftp_approval \<Rightarrow> sftp_approval" where
  "invalidate a = a\<lparr>invalidated := invalidated a + 1\<rparr>"

text \<open>The effects: adopt a request the server knows, ask again when the request is approved, drop it when the
  grant has landed.\<close>

definition adopt_effect :: "sftp_approval \<Rightarrow> sftp_approval" where
  "adopt_effect a =
     (let pid = Option.bind (preflight a) pending_request_id
      in if truthy_str pid \<and> \<not> truthy_str (requestId a) then a\<lparr>requestId := pid\<rparr> else a)"

definition approved_effect :: "sftp_approval \<Rightarrow> sftp_approval" where
  "approved_effect a =
     (if \<not> truthy_str (requestId a) then a
      else if approved_status (streamStatus a) then invalidate a
      else a)"

definition settle_effect :: "sftp_approval \<Rightarrow> sftp_approval" where
  "settle_effect a =
     (if is_allowed a \<and> truthy_str (requestId a) \<and> approved_status (streamStatus a) then a\<lparr>requestId := None\<rparr> else a)"

definition apply_success :: "bool \<Rightarrow> string \<Rightarrow> sftp_approval \<Rightarrow> sftp_approval" where
  "apply_success auto_approved rid a = (if auto_approved then invalidate a else a\<lparr>requestId := Some rid\<rparr>)"

definition cancel_success :: "sftp_approval \<Rightarrow> sftp_approval" where
  "cancel_success a = invalidate (a\<lparr>requestId := None\<rparr>)"

definition reapply :: "sftp_approval \<Rightarrow> sftp_approval" where
  "reapply a = a\<lparr>requestId := None\<rparr>"

text \<open>A request adopted from the server comes back as soon as the user drops it to apply again.\<close>

lemma reapply_undone:
  assumes "preflight a = Some p" "pending_request_id p = Some r" "r \<noteq> []" "requestId a = Some r"
  shows "adopt_effect (reapply a) = a"
  using assms by (simp add: adopt_effect_def reapply_def)

section \<open>The state of the page\<close>

datatype CreateKind = CreateFolder | CreateFile

datatype sftp_request =
    RqSearch string string | RqMkdir string | RqWrite string | RqRename string string | RqCopy string string
  | RqRemove string | RqChmod string int | RqUpload "string list" string | RqDownload string | RqArchive "string list"
  | RqView string | RqPreview string | RqViewerDownload string

record sftp_page =
  approval :: sftp_approval
  cur_path :: string
  filter_text :: string
  showHidden :: bool
  sortKey :: SortKey
  sortDir :: SortDir
  renamingPath :: "string option"
  searchResult :: "SftpEntry list option"
  listing :: "SftpEntry list option"
  previewEntry :: "SftpEntry option"
  editorEntry :: "SftpEntry option"
  chmodEntry :: "SftpEntry option"
  propsEntry :: "SftpEntry option"
  createKind :: "CreateKind option"
  approvalOpen :: bool
  viewerFile :: "SftpEntry option"
  selected :: "string list"
  lastIndex :: "nat option"
  requests :: "sftp_request list"
  refreshes :: nat
  crashed :: bool

definition new_sftp_page :: sftp_page where
  "new_sftp_page =
     \<lparr>approval = new_approval, cur_path = ''/'', filter_text = [], showHidden = False, sortKey = ByName, sortDir = Asc,
      renamingPath = None, searchResult = None, listing = None, previewEntry = None, editorEntry = None, chmodEntry = None,
      propsEntry = None, createKind = None, approvalOpen = False, viewerFile = None, selected = [], lastIndex = None,
      requests = [], refreshes = 0, crashed = False\<rparr>"

type_synonym comparison = "SortKey \<Rightarrow> SortDir \<Rightarrow> SftpEntry \<Rightarrow> SftpEntry \<Rightarrow> int"

definition rawEntries :: "sftp_page \<Rightarrow> SftpEntry list" where
  "rawEntries s = nullish (listing s) []"

definition entries :: "comparison \<Rightarrow> sftp_page \<Rightarrow> SftpEntry list" where
  "entries cmp s =
     (case searchResult s of
        Some hits \<Rightarrow> hits
      | None \<Rightarrow> shown_entries (cmp (sortKey s) (sortDir s)) (filter_text s) (showHidden s) (rawEntries s))"

definition issue :: "sftp_request \<Rightarrow> sftp_page \<Rightarrow> sftp_page" where
  "issue r s = s\<lparr>requests := requests s @ [r]\<rparr>"

definition refresh :: "sftp_page \<Rightarrow> sftp_page" where
  "refresh s = s\<lparr>refreshes := refreshes s + 1\<rparr>"

subsection \<open>Selection\<close>

datatype SelectionAction = SelectSet | SelectToggle | SelectRange

definition selection_pruned :: "SftpEntry list \<Rightarrow> sftp_page \<Rightarrow> sftp_page" where
  "selection_pruned es s = s\<lparr>selected := filter (\<lambda>p. p \<in> se_path ` set es) (selected s)\<rparr>"

text \<open>\<open>None\<close>: the updater reads the path of an entry beyond the end of the list and raises.\<close>

definition sel_select :: "SftpEntry list \<Rightarrow> SftpEntry \<Rightarrow> nat \<Rightarrow> SelectionAction \<Rightarrow> sftp_page \<Rightarrow> sftp_page option" where
  "sel_select es entry index action s =
     (case action of
        SelectSet \<Rightarrow> Some (s\<lparr>selected := [se_path entry], lastIndex := Some index\<rparr>)
      | SelectToggle \<Rightarrow>
          Some (s\<lparr>selected := (if se_path entry \<in> set (selected s) then set_delete (se_path entry) (selected s)
                               else uniq_add (selected s) (se_path entry)), lastIndex := Some index\<rparr>)
      | SelectRange \<Rightarrow>
          (case lastIndex s of
             None \<Rightarrow> Some (s\<lparr>selected := uniq_add (selected s) (se_path entry)\<rparr>)
           | Some l \<Rightarrow>
               let (src, to) = (if l < index then (l, index) else (index, l))
               in if to < length es
                  then Some (s\<lparr>selected := foldl uniq_add (selected s) (map (\<lambda>i. se_path (es ! i)) [src..<to + 1])\<rparr>)
                  else None))"

definition sel_clear :: "sftp_page \<Rightarrow> sftp_page" where
  "sel_clear s = s\<lparr>selected := [], lastIndex := None\<rparr>"

definition selectAll :: "SftpEntry list \<Rightarrow> sftp_page \<Rightarrow> sftp_page" where
  "selectAll es s = s\<lparr>selected := uniq (map se_path es)\<rparr>"

definition selectedEntries :: "SftpEntry list \<Rightarrow> sftp_page \<Rightarrow> SftpEntry list" where
  "selectedEntries es s = filter (\<lambda>e. se_path e \<in> set (selected s)) es"

definition totalSize :: "SftpEntry list \<Rightarrow> sftp_page \<Rightarrow> int" where
  "totalSize es s = sum_list (map (\<lambda>e. if se_is_dir e then 0 else se_size e) (selectedEntries es s))"

section \<open>The handlers\<close>

text \<open>\<open>if (!ensureWrite()) return; h\<close>\<close>

definition with_write :: "(sftp_page \<Rightarrow> sftp_page) \<Rightarrow> sftp_page \<Rightarrow> sftp_page" where
  "with_write h s = (if canWrite (approval s) then h s else s\<lparr>approvalOpen := True\<rparr>)"

definition navigate :: "string \<Rightarrow> sftp_page \<Rightarrow> sftp_page" where
  "navigate to s =
     s\<lparr>cur_path := normalize to, filter_text := [], searchResult := None, renamingPath := None, listing := None\<rparr>"

definition goUp :: "sftp_page \<Rightarrow> sftp_page" where
  "goUp s = navigate (parent (cur_path s)) s"

text \<open>\<open>answer\<close>: the hits, or \<open>None\<close> when the search fails.\<close>

definition runRecursiveSearch :: "string \<Rightarrow> SftpEntry list option \<Rightarrow> sftp_page \<Rightarrow> sftp_page" where
  "runRecursiveSearch q answer s =
     (let query = js_trim q in
      if query = [] then s
      else
        let s1 = issue (RqSearch (cur_path s) query) s
        in case answer of None \<Rightarrow> s1 | Some hits \<Rightarrow> sel_clear (s1\<lparr>searchResult := Some hits\<rparr>))"

definition clearSearch :: "sftp_page \<Rightarrow> sftp_page" where
  "clearSearch s = s\<lparr>filter_text := [], searchResult := None\<rparr>"

text \<open>\<open>ok r\<close>: the request \<open>r\<close> succeeds.\<close>

type_synonym request_outcome = "sftp_request \<Rightarrow> bool"

definition runMkdir :: "request_outcome \<Rightarrow> string \<Rightarrow> sftp_page \<Rightarrow> sftp_page" where
  "runMkdir ok name s =
     (let r = RqMkdir (path_join [cur_path s, name]); s1 = issue r s
      in if ok r then refresh (s1\<lparr>createKind := None\<rparr>) else s1)"

definition runCreateFile :: "request_outcome \<Rightarrow> string \<Rightarrow> sftp_page \<Rightarrow> sftp_page" where
  "runCreateFile ok name s =
     (let r = RqWrite (path_join [cur_path s, name]); s1 = issue r s
      in if ok r then refresh (s1\<lparr>createKind := None\<rparr>) else s1)"

definition runRename :: "request_outcome \<Rightarrow> SftpEntry \<Rightarrow> string \<Rightarrow> sftp_page \<Rightarrow> sftp_page" where
  "runRename ok entry newName s0 =
     (let s = s0\<lparr>renamingPath := None\<rparr> in
      if newName = se_name entry \<or> js_trim newName = [] then s
      else
        let r = RqRename (se_path entry) (path_join [parent (se_path entry), newName]); s1 = issue r s
        in if ok r then refresh s1 else s1)"

definition runDelete :: "bool \<Rightarrow> string list \<Rightarrow> sftp_page \<Rightarrow> sftp_page" where
  "runDelete confirmed paths s =
     (if paths = [] then s
      else with_write (\<lambda>s. if \<not> confirmed then s else refresh (sel_clear (fold issue (map RqRemove paths) s))) s)"

definition runMove :: "request_outcome \<Rightarrow> string list \<Rightarrow> string \<Rightarrow> sftp_page \<Rightarrow> sftp_page" where
  "runMove ok paths targetDir =
     with_write (\<lambda>s.
       if moving paths targetDir = [] then s
       else
         let rs = map (\<lambda>(src, to). RqRename src to) (move_plan paths targetDir); s1 = fold issue rs s
         in if list_ex ok rs then refresh (sel_clear s1) else s1)"

definition runDuplicate :: "SftpEntry list \<Rightarrow> sftp_page \<Rightarrow> sftp_page" where
  "runDuplicate targets s =
     (if targets = [] then s
      else with_write (\<lambda>s.
        refresh (fold issue (map (\<lambda>(src, to). RqCopy src to) (duplicate_plan targets (map se_name (rawEntries s)))) s)) s)"

definition downloadOne :: "SftpEntry \<Rightarrow> sftp_page \<Rightarrow> sftp_page" where
  "downloadOne entry = with_write (issue (RqDownload (se_path entry)))"

definition openFile :: "SftpEntry \<Rightarrow> sftp_page \<Rightarrow> sftp_page" where
  "openFile entry s =
     (if isViewerSupported (se_name entry) then issue (RqView (se_path entry)) (s\<lparr>viewerFile := Some entry\<rparr>)
      else if isLikelyText entry then issue (RqPreview (se_path entry)) (s\<lparr>previewEntry := Some entry\<rparr>)
      else downloadOne entry s)"

definition downloadSelected :: "SftpEntry list \<Rightarrow> sftp_page \<Rightarrow> sftp_page" where
  "downloadSelected es =
     with_write (\<lambda>s.
       fold issue (map (\<lambda>e. RqDownload (se_path e)) (filter (\<lambda>e. \<not> se_is_dir e) (selectedEntries es s))) s)"

definition archivePaths :: "string list \<Rightarrow> sftp_page \<Rightarrow> sftp_page" where
  "archivePaths paths s = (if paths = [] then s else with_write (issue (RqArchive paths)) s)"

definition enqueueFiles :: "string list \<Rightarrow> sftp_page \<Rightarrow> sftp_page" where
  "enqueueFiles files = with_write (\<lambda>s. if files = [] then s else issue (RqUpload files (cur_path s)) s)"

definition saveImage :: "request_outcome \<Rightarrow> SftpEntry \<Rightarrow> sftp_page \<Rightarrow> sftp_page" where
  "saveImage ok file =
     with_write (\<lambda>s.
       let r = RqUpload [basename (se_path file)] (parent (se_path file)); s1 = issue r s
       in if ok r then refresh s1 else s1)"

subsection \<open>Rows and keys\<close>

datatype modifiers = Shift | CtrlOrMeta | Plain

definition onRowClick :: "SftpEntry list \<Rightarrow> SftpEntry \<Rightarrow> nat \<Rightarrow> modifiers \<Rightarrow> sftp_page \<Rightarrow> sftp_page option" where
  "onRowClick es entry index ev s =
     (if truthy_str (renamingPath s) then Some s
      else case ev of
             Shift \<Rightarrow> sel_select es entry index SelectRange s
           | CtrlOrMeta \<Rightarrow> sel_select es entry index SelectToggle s
           | Plain \<Rightarrow> sel_select es entry index SelectSet s)"

definition onToggleAll :: "SftpEntry list \<Rightarrow> sftp_page \<Rightarrow> sftp_page" where
  "onToggleAll es s = (if length (selected s) = length es \<and> es \<noteq> [] then sel_clear s else selectAll es s)"

definition onRowDoubleClick :: "SftpEntry \<Rightarrow> sftp_page \<Rightarrow> sftp_page" where
  "onRowDoubleClick entry s =
     (if searchResult s \<noteq> None
      then navigate (if se_is_dir entry then se_path entry
                     else or_str (nullish (hit_dir entry) []) (parent (se_path entry))) s
      else if se_is_dir entry then navigate (se_path entry) s
      else openFile entry s)"

definition onBeforeContextMenu :: "SftpEntry \<Rightarrow> nat \<Rightarrow> sftp_page \<Rightarrow> sftp_page" where
  "onBeforeContextMenu entry index s =
     (if se_path entry \<in> set (selected s) then s else s\<lparr>selected := [se_path entry], lastIndex := Some index\<rparr>)"

definition menuDelete :: "bool \<Rightarrow> SftpEntry \<Rightarrow> sftp_page \<Rightarrow> sftp_page" where
  "menuDelete confirmed e s =
     runDelete confirmed (if se_path e \<in> set (selected s) \<and> 1 < length (selected s) then selected s else [se_path e]) s"

definition menuEdit :: "SftpEntry \<Rightarrow> sftp_page \<Rightarrow> sftp_page" where
  "menuEdit e = with_write (\<lambda>s. if isEditable e then s\<lparr>editorEntry := Some e\<rparr> else s)"

definition beginRename :: "SftpEntry \<Rightarrow> sftp_page \<Rightarrow> sftp_page" where
  "beginRename e = with_write (\<lambda>s. s\<lparr>renamingPath := Some (se_path e)\<rparr>)"

definition previewEdit :: "SftpEntry \<Rightarrow> sftp_page \<Rightarrow> sftp_page" where
  "previewEdit e s =
     with_write (\<lambda>s. if isEditable e then s\<lparr>editorEntry := Some e\<rparr> else s) (s\<lparr>previewEntry := None\<rparr>)"

datatype sftp_key = KeyOpen | KeyUp | KeyDelete | KeyRename | KeySelectAll | KeyFocusPath | KeyEscape | KeyRefresh

text \<open>What a key does and whether its default is prevented; \<open>cm\<close>: Control or Meta is held.\<close>

definition onKey :: "string \<Rightarrow> bool \<Rightarrow> bool \<Rightarrow> sftp_key option \<times> bool" where
  "onKey key cm inField =
     (if key = ''Escape'' then (Some KeyEscape, False)
      else if cm \<and> toLowerCase key = ''l'' then (Some KeyFocusPath, True)
      else if inField then (None, False)
      else if key = ''Enter'' then (Some KeyOpen, True)
      else if key = ''Backspace'' then (Some KeyUp, True)
      else if key = ''Delete'' then (Some KeyDelete, True)
      else if key = ''F2'' then (Some KeyRename, True)
      else if key = ''F5'' then (Some KeyRefresh, True)
      else if cm \<and> toLowerCase key = ''a'' then (Some KeySelectAll, True)
      else (None, False))"

definition keys_enabled :: "sftp_page \<Rightarrow> bool" where
  "keys_enabled s \<longleftrightarrow>
     previewEntry s = None \<and> editorEntry s = None \<and> chmodEntry s = None \<and> propsEntry s = None \<and> createKind s = None
     \<and> \<not> approvalOpen s \<and> viewerFile s = None"

definition handle_key :: "SftpEntry list \<Rightarrow> bool \<Rightarrow> sftp_key \<Rightarrow> sftp_page \<Rightarrow> sftp_page" where
  "handle_key es confirmed k s =
     (case k of
        KeyOpen \<Rightarrow> (case selectedEntries es s of [] \<Rightarrow> s | e # _ \<Rightarrow> onRowDoubleClick e s)
      | KeyUp \<Rightarrow> goUp s
      | KeyDelete \<Rightarrow> if selected s \<noteq> [] then runDelete confirmed (selected s) s else s
      | KeyRename \<Rightarrow> (case selectedEntries es s of [] \<Rightarrow> s | e # _ \<Rightarrow> beginRename e s)
      | KeySelectAll \<Rightarrow> selectAll es s
      | KeyFocusPath \<Rightarrow> s
      | KeyRefresh \<Rightarrow> refresh s
      | KeyEscape \<Rightarrow>
          if truthy_str (renamingPath s) then s\<lparr>renamingPath := None\<rparr>
          else if searchResult s \<noteq> None then clearSearch s
          else if selected s \<noteq> [] then sel_clear s
          else s)"

section \<open>Runs of the page\<close>

text \<open>Rows are given by their index in the list shown. \<open>Key\<close> has the key, whether Control or Meta is held, whether the
  focus is in a field, and whether the user confirms a deletion.\<close>

datatype sftp_step =
    PreflightAnswered preflight_data | PreflightFailed | PreflightAgain | StreamAnswered string string
  | AdoptEffect | ApprovedEffect | SettleEffect | Applied bool string | CancelledRequest | Reapply
  | Listed "SftpEntry list" | Navigate string | GoUp | Filter string | ToggleHidden | SortBy SortKey SortDir
  | Search string "SftpEntry list option" | ClearSearch
  | RowClick nat modifiers | ToggleRow nat | ToggleAll | DoubleClick nat | ContextMenu nat
  | Download nat | Archive nat | Edit nat | Rename nat | Duplicate nat | Chmod nat | Properties nat | DeleteRow bool nat
  | DownloadSelected | ArchiveSelected | DuplicateSelected | DeleteSelected bool | ClearSelection
  | Upload "string list" | NewFolder | NewFile | CreateSubmit request_outcome string | CreateCancel
  | RenameSubmit request_outcome nat string | RenameCancel | Move request_outcome "string list" string
  | PreviewClose | PreviewEdit | EditorSave request_outcome | EditorClose | ChmodApply request_outcome int | ChmodClose
  | PropertiesClose | ViewerClose | ViewerDownload | ViewerSave request_outcome
  | Key string bool bool bool | OpenApproval bool

definition on_row :: "SftpEntry list \<Rightarrow> nat \<Rightarrow> (SftpEntry \<Rightarrow> sftp_page) \<Rightarrow> sftp_page option" where
  "on_row es i h = (if i < length es then Some (h (es ! i)) else None)"

definition on_approval :: "(sftp_approval \<Rightarrow> sftp_approval) \<Rightarrow> sftp_page \<Rightarrow> sftp_page option" where
  "on_approval f s = Some (s\<lparr>approval := f (approval s)\<rparr>)"

fun sftp_act :: "SftpEntry list \<Rightarrow> sftp_step \<Rightarrow> sftp_page \<Rightarrow> sftp_page option" where
  "sftp_act es (PreflightAnswered p) s = on_approval (\<lambda>a. a\<lparr>preflight := Some p, preflight_loading := False\<rparr>) s"
| "sftp_act es PreflightFailed s = on_approval (\<lambda>a. a\<lparr>preflight_loading := False\<rparr>) s"
| "sftp_act es PreflightAgain s = on_approval (\<lambda>a. a\<lparr>preflight_loading := (preflight a = None)\<rparr>) s"
| "sftp_act es (StreamAnswered rid st) s = on_approval (\<lambda>a. a\<lparr>stream_status := (stream_status a)(rid \<mapsto> st)\<rparr>) s"
| "sftp_act es AdoptEffect s = on_approval adopt_effect s"
| "sftp_act es ApprovedEffect s = on_approval approved_effect s"
| "sftp_act es SettleEffect s = on_approval settle_effect s"
| "sftp_act es (Applied auto rid) s = on_approval (apply_success auto rid) s"
| "sftp_act es CancelledRequest s = on_approval cancel_success s"
| "sftp_act es Reapply s = on_approval reapply s"
| "sftp_act es (Listed raw) s = Some (s\<lparr>listing := Some raw\<rparr>)"
| "sftp_act es (Navigate to) s = Some (navigate to s)"
| "sftp_act es GoUp s = Some (goUp s)"
| "sftp_act es (Filter text) s = Some (s\<lparr>filter_text := text\<rparr>)"
| "sftp_act es ToggleHidden s = Some (s\<lparr>showHidden := \<not> showHidden s\<rparr>)"
| "sftp_act es (SortBy k d) s = Some (s\<lparr>sortKey := k, sortDir := d\<rparr>)"
| "sftp_act es (Search q answer) s = Some (runRecursiveSearch q answer s)"
| "sftp_act es ClearSearch s = Some (clearSearch s)"
| "sftp_act es (RowClick i m) s =
     (if i < length es
      then (case onRowClick es (es ! i) i m s of None \<Rightarrow> Some (s\<lparr>crashed := True\<rparr>) | Some t \<Rightarrow> Some t)
      else None)"
| "sftp_act es (ToggleRow i) s = (if i < length es then sel_select es (es ! i) i SelectToggle s else None)"
| "sftp_act es ToggleAll s = Some (onToggleAll es s)"
| "sftp_act es (DoubleClick i) s = on_row es i (\<lambda>e. onRowDoubleClick e s)"
| "sftp_act es (ContextMenu i) s = on_row es i (\<lambda>e. onBeforeContextMenu e i s)"
| "sftp_act es (Download i) s = on_row es i (\<lambda>e. downloadOne e s)"
| "sftp_act es (Archive i) s = on_row es i (\<lambda>e. archivePaths [se_path e] s)"
| "sftp_act es (Edit i) s = on_row es i (\<lambda>e. menuEdit e s)"
| "sftp_act es (Rename i) s = on_row es i (\<lambda>e. beginRename e s)"
| "sftp_act es (Duplicate i) s = on_row es i (\<lambda>e. runDuplicate [e] s)"
| "sftp_act es (Chmod i) s = on_row es i (\<lambda>e. with_write (\<lambda>s. s\<lparr>chmodEntry := Some e\<rparr>) s)"
| "sftp_act es (Properties i) s = on_row es i (\<lambda>e. s\<lparr>propsEntry := Some e\<rparr>)"
| "sftp_act es (DeleteRow confirmed i) s = on_row es i (\<lambda>e. menuDelete confirmed e s)"
| "sftp_act es DownloadSelected s = Some (downloadSelected es s)"
| "sftp_act es ArchiveSelected s = Some (archivePaths (selected s) s)"
| "sftp_act es DuplicateSelected s = Some (runDuplicate (selectedEntries es s) s)"
| "sftp_act es (DeleteSelected confirmed) s = Some (runDelete confirmed (selected s) s)"
| "sftp_act es ClearSelection s = Some (sel_clear s)"
| "sftp_act es (Upload files) s = Some (enqueueFiles files s)"
| "sftp_act es NewFolder s = Some (with_write (\<lambda>s. s\<lparr>createKind := Some CreateFolder\<rparr>) s)"
| "sftp_act es NewFile s = Some (with_write (\<lambda>s. s\<lparr>createKind := Some CreateFile\<rparr>) s)"
| "sftp_act es (CreateSubmit ok name) s =
     (case createKind s of
        None \<Rightarrow> None
      | Some CreateFolder \<Rightarrow> Some (runMkdir ok name s)
      | Some CreateFile \<Rightarrow> Some (runCreateFile ok name s))"
| "sftp_act es CreateCancel s = Some (s\<lparr>createKind := None\<rparr>)"
| "sftp_act es (RenameSubmit ok i name) s =
     (if i < length es \<and> renamingPath s = Some (se_path (es ! i)) then Some (runRename ok (es ! i) name s) else None)"
| "sftp_act es RenameCancel s = Some (s\<lparr>renamingPath := None\<rparr>)"
| "sftp_act es (Move ok paths target) s = Some (runMove ok paths target s)"
| "sftp_act es PreviewClose s = Some (s\<lparr>previewEntry := None\<rparr>)"
| "sftp_act es PreviewEdit s = (case previewEntry s of None \<Rightarrow> None | Some e \<Rightarrow> Some (previewEdit e s))"
| "sftp_act es (EditorSave ok) s =
     (case editorEntry s of
        None \<Rightarrow> None
      | Some e \<Rightarrow>
          let r = RqWrite (se_path e); s1 = issue r s in Some (if ok r then refresh s1 else s1))"
| "sftp_act es EditorClose s = Some (s\<lparr>editorEntry := None\<rparr>)"
| "sftp_act es (ChmodApply ok mode) s =
     (case chmodEntry s of
        None \<Rightarrow> None
      | Some e \<Rightarrow>
          let r = RqChmod (se_path e) mode; s1 = issue r s
          in Some (if ok r then (refresh s1)\<lparr>chmodEntry := None\<rparr> else s1))"
| "sftp_act es ChmodClose s = Some (s\<lparr>chmodEntry := None\<rparr>)"
| "sftp_act es PropertiesClose s = Some (s\<lparr>propsEntry := None\<rparr>)"
| "sftp_act es ViewerClose s = Some (s\<lparr>viewerFile := None\<rparr>)"
| "sftp_act es ViewerDownload s =
     (case viewerFile s of None \<Rightarrow> None | Some f \<Rightarrow> Some (issue (RqViewerDownload (se_path f)) s))"
| "sftp_act es (ViewerSave ok) s = (case viewerFile s of None \<Rightarrow> None | Some f \<Rightarrow> Some (saveImage ok f s))"
| "sftp_act es (Key key cm inField confirmed) s =
     (if keys_enabled s
      then (case fst (onKey key cm inField) of None \<Rightarrow> Some s | Some k \<Rightarrow> Some (handle_key es confirmed k s))
      else None)"
| "sftp_act es (OpenApproval open) s = Some (s\<lparr>approvalOpen := open\<rparr>)"

text \<open>After each step the selection is pruned to the entries that are shown now.\<close>

definition sftp_perform :: "comparison \<Rightarrow> sftp_step \<Rightarrow> sftp_page \<Rightarrow> sftp_page option" where
  "sftp_perform cmp e s =
     (if crashed s then None
      else map_option (\<lambda>t. selection_pruned (entries cmp t) t) (sftp_act (entries cmp s) e s))"

end
