(* ===== verification/SftpPageProps.thy ===== *)
theory SftpPageProps
  imports SftpPage
begin

text \<open>
  What holds of every run of the file page: without a grant it transfers nothing, and its selection is made of entries
  that are shown; a range selection from a row that is no longer there raises.
\<close>

section \<open>No transfer without a grant\<close>

definition is_transfer :: "sftp_request \<Rightarrow> bool" where
  "is_transfer r = (case r of RqSearch _ _ \<Rightarrow> False | RqView _ \<Rightarrow> False | RqPreview _ \<Rightarrow> False | RqViewerDownload _ \<Rightarrow> False | _ \<Rightarrow> True)"

text \<open>The answers of the preflight say that an approval is required and missing, and it does not fail.\<close>

fun withholds :: "sftp_step \<Rightarrow> bool" where
  "withholds (PreflightAnswered p) \<longleftrightarrow> required p \<and> \<not> allowed p"
| "withholds PreflightFailed \<longleftrightarrow> False"
| "withholds _ \<longleftrightarrow> True"

definition no_grant :: "sftp_approval \<Rightarrow> bool" where
  "no_grant a \<longleftrightarrow> (case preflight a of None \<Rightarrow> preflight_loading a | Some p \<Rightarrow> required p \<and> \<not> allowed p)"

definition locked_inv :: "sftp_page \<Rightarrow> bool" where
  "locked_inv s \<longleftrightarrow> no_grant (approval s) \<and> renamingPath s = None \<and> createKind s = None \<and> editorEntry s = None
     \<and> chmodEntry s = None \<and> (\<forall>r\<in>set (requests s). \<not> is_transfer r)"

lemma no_grant_write: "no_grant a \<Longrightarrow> \<not> canWrite a"
  by (auto simp: no_grant_def canWrite_def write_mode_def is_required_def is_allowed_def split: option.splits)

lemma locked_with_write: "locked_inv s \<Longrightarrow> locked_inv (with_write h s)"
  using no_grant_write by (simp add: with_write_def locked_inv_def)

lemma no_grant_effects [simp]:
  "no_grant (adopt_effect a) = no_grant a" "no_grant (approved_effect a) = no_grant a" "no_grant (settle_effect a) = no_grant a"
  "no_grant (apply_success auto rid a) = no_grant a" "no_grant (cancel_success a) = no_grant a" "no_grant (reapply a) = no_grant a"
  "no_grant (a\<lparr>stream_status := x\<rparr>) = no_grant a"
  by (simp_all add: no_grant_def adopt_effect_def approved_effect_def settle_effect_def apply_success_def cancel_success_def
      reapply_def invalidate_def Let_def split: option.split)

lemma locked_updates [simp]:
  "locked_inv (sel_clear s) = locked_inv s" "locked_inv (selectAll es s) = locked_inv s" "locked_inv (refresh s) = locked_inv s"
  "locked_inv (clearSearch s) = locked_inv s" "locked_inv (selection_pruned es s) = locked_inv s"
  "locked_inv (issue r s) = (locked_inv s \<and> \<not> is_transfer r)"
  by (auto simp: locked_inv_def sel_clear_def selectAll_def refresh_def clearSearch_def selection_pruned_def issue_def)

lemma locked_fields [simp]:
  "locked_inv (s\<lparr>viewerFile := x1\<rparr>) = locked_inv s" "locked_inv (s\<lparr>previewEntry := x2\<rparr>) = locked_inv s"
  "locked_inv (s\<lparr>propsEntry := x3\<rparr>) = locked_inv s" "locked_inv (s\<lparr>approvalOpen := x4\<rparr>) = locked_inv s"
  "locked_inv (s\<lparr>listing := x5\<rparr>) = locked_inv s" "locked_inv (s\<lparr>filter_text := x6\<rparr>) = locked_inv s"
  "locked_inv (s\<lparr>showHidden := x7\<rparr>) = locked_inv s" "locked_inv (s\<lparr>sortKey := x8, sortDir := x9\<rparr>) = locked_inv s"
  "locked_inv (s\<lparr>selected := x10\<rparr>) = locked_inv s" "locked_inv (s\<lparr>selected := x10, lastIndex := x11\<rparr>) = locked_inv s"
  "locked_inv (s\<lparr>searchResult := x12\<rparr>) = locked_inv s" "locked_inv (s\<lparr>crashed := x13\<rparr>) = locked_inv s"
  by (simp_all add: locked_inv_def)

lemma locked_closing:
  assumes "locked_inv s"
  shows "locked_inv (s\<lparr>renamingPath := None\<rparr>)" "locked_inv (s\<lparr>createKind := None\<rparr>)" "locked_inv (s\<lparr>editorEntry := None\<rparr>)"
    "locked_inv (s\<lparr>chmodEntry := None\<rparr>)" "locked_inv (navigate to s)"
  using assms by (simp_all add: locked_inv_def navigate_def)

lemma locked_dialogs:
  assumes "locked_inv s"
  shows "renamingPath s = None" "createKind s = None" "editorEntry s = None" "chmodEntry s = None"
  using assms by (simp_all add: locked_inv_def)

lemma locked_approval: "locked_inv s \<Longrightarrow> no_grant (f (approval s)) \<Longrightarrow> locked_inv (s\<lparr>approval := f (approval s)\<rparr>)"
  by (simp add: locked_inv_def)

lemma locked_open: "locked_inv s \<Longrightarrow> locked_inv (onRowDoubleClick e s)"
  by (simp add: onRowDoubleClick_def openFile_def downloadOne_def locked_with_write locked_closing is_transfer_def)

lemmas locked_handlers =
  locked_with_write locked_closing locked_open runDelete_def beginRename_def goUp_def runDuplicate_def downloadSelected_def
  archivePaths_def enqueueFiles_def saveImage_def menuDelete_def menuEdit_def previewEdit_def onBeforeContextMenu_def
  onToggleAll_def downloadOne_def runMove_def

lemma locked_key: "locked_inv s \<Longrightarrow> locked_inv (handle_key es confirmed k s)"
  by (cases k) (simp_all add: handle_key_def locked_handlers split: list.split)

lemma locked_select: "locked_inv s \<Longrightarrow> sel_select es e i a s = Some t \<Longrightarrow> locked_inv t"
  by (cases a) (auto simp: sel_select_def Let_def split: option.splits if_splits)

lemma locked_row_click: "locked_inv s \<Longrightarrow> onRowClick es e i m s = Some t \<Longrightarrow> locked_inv t"
  by (cases m) (auto simp: onRowClick_def split: if_splits dest: locked_select)

lemma locked_search: "locked_inv s \<Longrightarrow> locked_inv (runRecursiveSearch q answer s)"
  by (simp add: runRecursiveSearch_def Let_def is_transfer_def split: option.split)

lemma on_row_Some: "on_row es i h = Some t \<longleftrightarrow> i < length es \<and> t = h (es ! i)"
  by (auto simp: on_row_def)

lemma locked_effects:
  assumes "locked_inv s" "on_approval f s = Some t" "\<And>a. no_grant a \<Longrightarrow> no_grant (f a)"
  shows "locked_inv t"
  using assms by (auto simp: on_approval_def locked_inv_def)

lemma locked_act:
  assumes "locked_inv s" "sftp_act es e s = Some t" "withholds e"
  shows "locked_inv t"
proof (cases e)
  case (PreflightAnswered p)
  then show ?thesis using assms by (auto simp: no_grant_def elim!: locked_effects)
next
  case PreflightAgain
  then show ?thesis using assms by (auto simp: no_grant_def elim!: locked_effects split: option.splits)
qed (use assms in \<open>auto simp: locked_handlers locked_dialogs locked_search locked_key on_row_Some is_transfer_def
      intro: locked_effects locked_select locked_row_click split: option.splits if_splits\<close>)

interpretation locked: machine "only_steps withholds (sftp_perform cmp)" locked_inv for cmp
  by unfold_locales (auto simp: only_steps_def sftp_perform_def split: if_splits dest: locked_act)


section \<open>The selection\<close>

lemma uniq_add_set: "set (uniq_add xs x) = insert x (set xs)" "distinct (uniq_add xs x) = distinct xs"
  by (auto simp: uniq_add_def)

definition calm :: "sftp_page \<Rightarrow> sftp_page \<Rightarrow> bool" where
  "calm s t \<longleftrightarrow> crashed t = crashed s \<and> (distinct (selected s) \<longrightarrow> distinct (selected t))"

lemma calm_same: "crashed t = crashed s \<Longrightarrow> selected t = selected s \<Longrightarrow> calm s t"
  by (simp add: calm_def)

lemma calm_keep [simp]:
  "calm s (issue r t) = calm s t" "calm s (refresh t) = calm s t" "calm s (navigate to t) = calm s t"
  "calm s (clearSearch t) = calm s t" "calm s (goUp t) = calm s t"
  by (simp_all add: calm_def issue_def refresh_def navigate_def clearSearch_def goUp_def)

lemma calm_fold_issue [simp]: "calm s (fold issue rs t) = calm s t"
  by (induction rs arbitrary: t) simp_all

lemma calm_fields [simp]:
  "calm s (t\<lparr>viewerFile := x1\<rparr>) = calm s t" "calm s (t\<lparr>previewEntry := x2\<rparr>) = calm s t" "calm s (t\<lparr>propsEntry := x3\<rparr>) = calm s t"
  "calm s (t\<lparr>approvalOpen := x4\<rparr>) = calm s t" "calm s (t\<lparr>listing := x5\<rparr>) = calm s t" "calm s (t\<lparr>filter_text := x6\<rparr>) = calm s t"
  "calm s (t\<lparr>showHidden := x7\<rparr>) = calm s t" "calm s (t\<lparr>sortKey := x8, sortDir := x9\<rparr>) = calm s t"
  "calm s (t\<lparr>searchResult := x12\<rparr>) = calm s t" "calm s (t\<lparr>renamingPath := x13\<rparr>) = calm s t"
  "calm s (t\<lparr>createKind := x14\<rparr>) = calm s t" "calm s (t\<lparr>editorEntry := x15\<rparr>) = calm s t"
  "calm s (t\<lparr>chmodEntry := x16\<rparr>) = calm s t" "calm s (t\<lparr>approval := x17\<rparr>) = calm s t"
  by (simp_all add: calm_def)

lemma calm_refl [simp]: "calm s s"
  by (simp add: calm_def)

lemma calm_select [simp]:
  "calm s t \<Longrightarrow> calm s (sel_clear t)" "calm s t \<Longrightarrow> calm s (selectAll es t)" "calm s t \<Longrightarrow> calm s (t\<lparr>selected := [p], lastIndex := l\<rparr>)"
  by (simp_all add: calm_def sel_clear_def selectAll_def)

lemma calm_with_write [simp]: "calm s t \<Longrightarrow> (calm s t \<Longrightarrow> calm s (h t)) \<Longrightarrow> calm s (with_write h t)"
  by (simp add: with_write_def)

lemmas calm_handlers =
  runDelete_def beginRename_def runDuplicate_def downloadSelected_def archivePaths_def enqueueFiles_def saveImage_def
  menuDelete_def menuEdit_def previewEdit_def onBeforeContextMenu_def onToggleAll_def downloadOne_def runMove_def openFile_def
  onRowDoubleClick_def runRename_def runMkdir_def runCreateFile_def runRecursiveSearch_def Let_def

lemma calm_key: "calm s (handle_key es confirmed k s)"
  by (cases k) (simp_all add: handle_key_def calm_handlers split: list.split)

lemma calm_row:
  "sel_select es e i a s = Some t \<Longrightarrow> calm s t"
  "onRowClick es e i m s = Some t \<Longrightarrow> calm s t"
proof -
  have "distinct (selected s) \<Longrightarrow> distinct (foldl uniq_add (selected s) ps)" for ps using uniq_fold by blast
  then show sel: "sel_select es e i a s = Some t \<Longrightarrow> calm s t" for a
    by (cases a) (auto simp: sel_select_def calm_def uniq_add_set set_delete_def Let_def split: option.splits if_splits)
  show "onRowClick es e i m s = Some t \<Longrightarrow> calm s t"
    using sel by (cases m) (auto simp: onRowClick_def split: if_splits)
qed

lemma row_click_raises:
  assumes "i < length es"
  shows "onRowClick es e i m s = None \<longleftrightarrow>
    m = Shift \<and> \<not> truthy_str (renamingPath s) \<and> (\<exists>l. lastIndex s = Some l \<and> length es \<le> l)"
  using assms by (cases m) (auto simp: onRowClick_def sel_select_def Let_def split: option.split)

lemma toggle_row: "sel_select es e i SelectToggle s \<noteq> None"
  by (simp add: sel_select_def)

lemma act_calm:
  assumes "sftp_act es e s = Some t" "\<And>i m. e \<noteq> RowClick i m"
  shows "calm s t"
  using assms
  by (cases e) (auto simp: on_approval_def on_row_Some calm_handlers calm_key split: option.splits if_splits CreateKind.splits
      intro: calm_row)

definition stale_range :: "SftpEntry list \<Rightarrow> sftp_step \<Rightarrow> sftp_page \<Rightarrow> bool" where
  "stale_range es e s \<longleftrightarrow>
     (\<exists>i l. e = RowClick i Shift \<and> \<not> truthy_str (renamingPath s) \<and> lastIndex s = Some l \<and> length es \<le> l)"

lemma act_selection:
  assumes "sftp_act es e s = Some t" "\<not> crashed s" "distinct (selected s)"
  shows "distinct (selected t) \<and> (crashed t \<longleftrightarrow> stale_range es e s)"
proof (cases "\<exists>i m. e = RowClick i m")
  case True
  then obtain i m where e: "e = RowClick i m" "i < length es" using assms(1) by (auto split: if_splits)
  show ?thesis
  proof (cases "onRowClick es (es ! i) i m s")
    case None
    then show ?thesis using assms e row_click_raises [OF e(2), of "es ! i" m s] by (auto simp: stale_range_def)
  next
    case (Some u)
    then have "calm s t" "\<not> stale_range es e s"
      using assms(1) e row_click_raises [OF e(2), of "es ! i" m s] calm_row(2) by (auto simp: stale_range_def)
    then show ?thesis using assms(2,3) by (simp add: calm_def)
  qed
next
  case False
  then have "calm s t" using act_calm [OF assms(1)] by blast
  then show ?thesis using False assms(2,3) by (auto simp: calm_def stale_range_def)
qed

lemma entries_pruned [simp]: "entries cmp (selection_pruned es s) = entries cmp s"
  by (simp add: entries_def selection_pruned_def rawEntries_def split: option.split)

definition sel_inv :: "comparison \<Rightarrow> sftp_page \<Rightarrow> bool" where
  "sel_inv cmp s \<longleftrightarrow> distinct (selected s) \<and> set (selected s) \<subseteq> se_path ` set (entries cmp s)"

lemma perform_sel_inv: "sel_inv cmp s \<Longrightarrow> sftp_perform cmp e s = Some t \<Longrightarrow> sel_inv cmp t"
proof -
  assume inv: "sel_inv cmp s" and e: "sftp_perform cmp e s = Some t"
  from e obtain u where u: "\<not> crashed s" "sftp_act (entries cmp s) e s = Some u" "t = selection_pruned (entries cmp u) u"
    by (auto simp: sftp_perform_def split: if_splits)
  have "distinct (selected u)" using act_selection [OF u(2,1)] inv by (simp add: sel_inv_def)
  then show ?thesis unfolding u(3) sel_inv_def entries_pruned by (auto simp: selection_pruned_def)
qed

interpretation selection: machine "sftp_perform cmp" "sel_inv cmp" for cmp
  by unfold_locales (rule perform_sel_inv)


section \<open>Examples\<close>

definition demo_entry :: "string \<Rightarrow> SftpEntry" where
  "demo_entry n =
     \<lparr>se_name = n, se_path = CHR ''/'' # n, se_size = 1, se_mode = [], mode_octal = [], se_is_dir = False, is_link = False,
      mod_time = [], hit_dir = None\<rparr>"

lemma demo_entry_fields [simp]:
  "se_name (demo_entry n) = n" "se_path (demo_entry n) = CHR ''/'' # n" "se_is_dir (demo_entry n) = False"
  by (simp_all add: demo_entry_def)

lemmas page_demo_simps =
  sftp_perform_def new_sftp_page_def new_approval_def entries_def shown_entries_def rawEntries_def js_sort_def toLowerCase_def
  selection_pruned_def on_approval_def onRowClick_def sel_select_def



end
