(* ===== verification/AccessWindow.thy ===== *)
theory AccessWindow
  imports RuntimeStore Machine "HOL-Library.Word"
begin

text \<open>
  Time-bound access to a live connection: the gate in front of it (\<open>components/workspace/ApprovalGate.tsx\<close>), the guard
  that publishes the countdown and tears the connection down (\<open>ExpiryGuard.tsx\<close>), and its core
  (\<open>lib/security/x7.ts\<close>), a monotonic countdown that the server corrects. The guard is compared with what it
  promises, a deadline that passes.
\<close>

section \<open>The core of the guard\<close>

text \<open>\<open>x | 0\<close>. Times are whole milliseconds.\<close>

definition to_int32 :: "int \<Rightarrow> int" where
  "to_int32 x = sint (word_of_int x :: 32 word)"

text \<open>
  The closure of \<open>arm\<close>: \<open>guard_base\<close> and \<open>guard_remaining\<close> are \<open>_b\<close> and \<open>_r\<close>, \<open>gone\<close> is \<open>_g\<close>, the two timers
  \<open>_i\<close> and \<open>_j\<close>. \<open>inflight\<close> counts the questions to the server that are not answered, \<open>ticks\<close> lists the
  values passed to \<open>t\<close> and \<open>ended\<close> counts the calls of \<open>x\<close>.
\<close>

record access_guard =
  guard_base :: int
  guard_remaining :: int
  gone :: bool
  can_ask :: bool
  beat_timer :: bool
  ask_timer :: bool
  inflight :: nat
  ticks :: "int list"
  ended :: nat

definition reconcile_period :: "int option \<Rightarrow> int" where
  "reconcile_period s = max 5 (to_int32 (nullish s 30)) * 1000"

definition remaining :: "int \<Rightarrow> access_guard \<Rightarrow> int" where
  "remaining now g =
     (let v = guard_remaining g - (now - guard_base g) in if 0 < v then v else 0)"

definition disarm :: "access_guard \<Rightarrow> access_guard" where
  "disarm g = g\<lparr>beat_timer := False, ask_timer := False\<rparr>"

definition end_guard :: "access_guard \<Rightarrow> access_guard" where
  "end_guard g = (if gone g then g else (disarm (g\<lparr>gone := True\<rparr>))\<lparr>ended := ended g + 1\<rparr>)"

definition beat :: "int \<Rightarrow> access_guard \<Rightarrow> access_guard" where
  "beat now g =
     (let v = remaining now g; g1 = g\<lparr>ticks := ticks g @ [v]\<rparr>
      in if v \<le> 0 then end_guard g1 else g1)"

definition ask :: "access_guard \<Rightarrow> access_guard" where
  "ask g = (if \<not> can_ask g \<or> gone g then g else g\<lparr>inflight := inflight g + 1\<rparr>)"

text \<open>What the server answers: that the access is no longer valid, or how long it remains; or the question fails.\<close>

datatype reconcile_answer = AnswerFailed | AnswerInvalid | AnswerLeft int

definition answered :: "int \<Rightarrow> reconcile_answer \<Rightarrow> access_guard \<Rightarrow> access_guard" where
  "answered now a g =
     (case a of
        AnswerFailed \<Rightarrow> g
      | AnswerInvalid \<Rightarrow> end_guard g
      | AnswerLeft s \<Rightarrow>
          let g1 = g\<lparr>guard_remaining := (if 0 < s then s else 0), guard_base := now\<rparr>
          in if guard_remaining g1 \<le> 0 then end_guard g1 else g1)"

definition arm :: "int \<Rightarrow> int \<Rightarrow> bool \<Rightarrow> access_guard" where
  "arm now d asks =
     (let g = \<lparr>guard_base = now, guard_remaining = max 0 (to_int32 d), gone = False, can_ask = asks, beat_timer = False,
               ask_timer = False, inflight = 0, ticks = [], ended = 0\<rparr>
      in ask ((beat now g)\<lparr>beat_timer := True, ask_timer := True\<rparr>))"

datatype guard_event = GBeat int | GAsk | GAnswer int reconcile_answer | GDisarm

fun guard_perform :: "guard_event \<Rightarrow> access_guard \<Rightarrow> access_guard option" where
  "guard_perform (GBeat now) g = (if beat_timer g then Some (beat now g) else None)"
| "guard_perform GAsk g = (if ask_timer g then Some (ask g) else None)"
| "guard_perform (GAnswer now a) g =
     (if 0 < inflight g then Some (answered now a (g\<lparr>inflight := inflight g - 1\<rparr>)) else None)"
| "guard_perform GDisarm g = Some (disarm g)"

text \<open>\<open>fmt\<close>: the remaining time as \<open>H:MM:SS\<close> or \<open>MM:SS\<close>\<close>

definition two_digits :: "int \<Rightarrow> string" where
  "two_digits n = (if n < 10 then CHR ''0'' # show_int n else show_int n)"

definition fmt :: "int \<Rightarrow> string" where
  "fmt ms =
     (let s = (if 0 < ms then ms else 0) div 1000; h = s div 3600; s = s - h * 3600; m = s div 60; s = s - m * 60
      in (if 0 < h then show_int h @ '':'' @ two_digits m @ '':'' @ two_digits s
          else two_digits m @ '':'' @ two_digits s))"

section \<open>The gate and the guarded connection\<close>

record gate_preflight =
  gate_required :: bool
  gate_allowed :: bool
  gate_pending :: "string option"
  expires_at :: "string option"

datatype GateState = GateChecking | GateApproval | GateAllowed

definition blocked :: "gate_preflight option \<Rightarrow> bool" where
  "blocked data = (case data of None \<Rightarrow> False | Some p \<Rightarrow> gate_required p \<and> \<not> gate_allowed p)"

definition gate_state :: "bool \<Rightarrow> gate_preflight option \<Rightarrow> GateState" where
  "gate_state isLoading data =
     (if isLoading then GateChecking else if blocked data then GateApproval else GateAllowed)"

datatype gate_screen = ShowSpinner | ShowConnection | ShowRequest "string option" | ShowGuarded string

text \<open>\<open>parse\<close> is \<open>Date.parse\<close>, \<open>None\<close> for \<open>NaN\<close>.\<close>

definition gate_view :: "(string \<Rightarrow> int option) \<Rightarrow> bool \<Rightarrow> int \<Rightarrow> bool \<Rightarrow> bool \<Rightarrow> gate_preflight option \<Rightarrow> gate_screen" where
  "gate_view parse countdown now isLoading isError data =
     (if isLoading then ShowSpinner
      else case data of
        None \<Rightarrow> ShowConnection
      | Some p \<Rightarrow>
          if isError then ShowConnection
          else if blocked data then ShowRequest (gate_pending p)
          else case expires_at p of
            None \<Rightarrow> ShowConnection
          | Some exp \<Rightarrow>
              if countdown \<and> exp \<noteq> [] \<and> (case parse exp of None \<Rightarrow> False | Some t \<Rightarrow> now < t) then ShowGuarded exp
              else ShowConnection)"

definition MAX_SAFE_INTEGER :: int where "MAX_SAFE_INTEGER = 2 ^ 53 - 1"

text \<open>The answer of \<open>reconcile\<close>; a date that does not parse gives \<open>NaN\<close>, which is not positive.\<close>

definition gate_reconcile :: "(string \<Rightarrow> int option) \<Rightarrow> int \<Rightarrow> gate_preflight \<Rightarrow> reconcile_answer" where
  "gate_reconcile parse now p =
     (if \<not> gate_allowed p then AnswerInvalid
      else case expires_at p of
        None \<Rightarrow> AnswerLeft MAX_SAFE_INTEGER
      | Some exp \<Rightarrow>
          if exp = [] then AnswerLeft MAX_SAFE_INTEGER
          else case parse exp of None \<Rightarrow> AnswerLeft 0 | Some t \<Rightarrow> AnswerLeft (t - now))"

definition WARN_MS :: int where "WARN_MS = 5 * 60000"

definition arm_guard :: "(string \<Rightarrow> int option) \<Rightarrow> int \<Rightarrow> int \<Rightarrow> string \<Rightarrow> bool \<Rightarrow> access_guard" where
  "arm_guard parse wall now exp asks =
     arm now (case parse exp of None \<Rightarrow> 0 | Some t \<Rightarrow> max 0 (t - wall)) asks"

definition publish_tick :: "string \<Rightarrow> string \<Rightarrow> int \<Rightarrow> RuntimeState \<Rightarrow> RuntimeState" where
  "publish_tick tabId exp v = setExpiry tabId (Some \<lparr>exp_ms = v, exp_deadline = exp, exp_low = (v \<le> WARN_MS)\<rparr>)"

section \<open>A deadline that passes\<close>

record access_spec =
  due :: int
  over :: bool

fun spec_step :: "guard_event \<Rightarrow> access_spec \<Rightarrow> access_spec" where
  "spec_step (GBeat now) s = s\<lparr>over := (over s \<or> due s \<le> now)\<rparr>"
| "spec_step GAsk s = s"
| "spec_step (GAnswer now AnswerFailed) s = s"
| "spec_step (GAnswer now AnswerInvalid) s = s\<lparr>over := True\<rparr>"
| "spec_step (GAnswer now (AnswerLeft v)) s = s\<lparr>due := now + max 0 v, over := (over s \<or> v \<le> 0)\<rparr>"
| "spec_step GDisarm s = s"

definition abs_guard :: "access_guard \<Rightarrow> access_spec" where
  "abs_guard g = \<lparr>due = guard_base g + guard_remaining g, over = gone g\<rparr>"

lemma guard_fields [simp]:
  "guard_base (disarm g) = guard_base g" "guard_remaining (disarm g) = guard_remaining g" "gone (disarm g) = gone g"
  "ended (disarm g) = ended g" "ticks (disarm g) = ticks g" "inflight (disarm g) = inflight g"
  "\<not> beat_timer (disarm g)" "\<not> ask_timer (disarm g)"
  "guard_base (end_guard g) = guard_base g" "guard_remaining (end_guard g) = guard_remaining g" "gone (end_guard g)"
  "ticks (end_guard g) = ticks g" "inflight (end_guard g) = inflight g"
  "ended (end_guard g) = ended g + (if gone g then 0 else 1)"
  "guard_base (ask g) = guard_base g" "guard_remaining (ask g) = guard_remaining g" "gone (ask g) = gone g" "ended (ask g) = ended g"
  by (simp_all add: disarm_def end_guard_def ask_def)

lemma beat_fields [simp]:
  "guard_base (beat now g) = guard_base g" "guard_remaining (beat now g) = guard_remaining g"
  "gone (beat now g) \<longleftrightarrow> gone g \<or> guard_base g + guard_remaining g \<le> now"
  "ended (beat now g) = ended g + (if \<not> gone g \<and> guard_base g + guard_remaining g \<le> now then 1 else 0)"
  by (auto simp: beat_def remaining_def Let_def)

lemma answered_left:
  "answered now (AnswerLeft v) g =
     (let g1 = g\<lparr>guard_remaining := max 0 v, guard_base := now\<rparr> in if v \<le> 0 then end_guard g1 else g1)"
  by (simp add: answered_def Let_def)

text \<open>Each event does to the deadline what the specification says; \<open>x\<close> is called when the guard is gone, once.\<close>

lemma guard_perform_refines:
  assumes "guard_perform e g = Some g'"
  shows "abs_guard g' = spec_step e (abs_guard g)"
proof (cases e)
  case (GAnswer now a)
  then show ?thesis using assms
    by (cases a) (auto simp: abs_guard_def answered_left answered_def Let_def max_def split: if_splits)
qed (use assms in \<open>auto simp: abs_guard_def split: if_splits\<close>)

definition ended_inv :: "access_guard \<Rightarrow> bool" where
  "ended_inv g \<longleftrightarrow> ended g = (if gone g then 1 else 0)"

lemma guard_perform_ended: "ended_inv g \<Longrightarrow> guard_perform e g = Some g' \<Longrightarrow> ended_inv g'"
proof (cases e)
  case (GAnswer now a)
  moreover assume "ended_inv g" "guard_perform e g = Some g'"
  ultimately show ?thesis
    by (cases a) (auto simp: ended_inv_def answered_left answered_def Let_def split: if_splits)
qed (auto simp: ended_inv_def split: if_splits)

interpretation guard_ended: machine guard_perform ended_inv
  by unfold_locales (rule guard_perform_ended)

lemma run_refines: "run_steps guard_perform es g = Some g' \<Longrightarrow> abs_guard g' = fold spec_step es (abs_guard g)"
  by (induction es arbitrary: g) (auto elim!: run_steps_ConsE simp: guard_perform_refines simp del: run_steps.simps(2))

lemma arm_fields:
  "guard_base (arm now d asks) = now" "guard_remaining (arm now d asks) = max 0 (to_int32 d)"
  "gone (arm now d asks) \<longleftrightarrow> to_int32 d \<le> 0" "ended_inv (arm now d asks)"
  by (auto simp: arm_def Let_def ended_inv_def)

lemma to_int32_id: "0 \<le> d \<Longrightarrow> d < 2 ^ 31 \<Longrightarrow> to_int32 d = d"
  by (simp add: to_int32_def sint_sbintrunc' signed_take_bit_int_eq_self)

lemma to_int32_wraps: "2 ^ 31 \<le> d \<Longrightarrow> d < 2 ^ 32 \<Longrightarrow> to_int32 d < 0"
proof -
  assume d: "2 ^ 31 \<le> d" "d < 2 ^ 32"
  have "signed_take_bit 31 d = signed_take_bit 31 (d - 2 ^ 32)"
    by (rule signed_take_bit_eq_iff_take_bit_eq [THEN iffD2]) (simp add: take_bit_eq_mod mod_diff_eq [symmetric])
  then show ?thesis using d by (simp add: to_int32_def sint_sbintrunc' signed_take_bit_int_eq_self)
qed



section \<open>After the guard is disarmed\<close>

definition silent_after :: "access_guard \<Rightarrow> access_guard \<Rightarrow> bool" where
  "silent_after g h \<longleftrightarrow>
     \<not> beat_timer h \<and> \<not> ask_timer h \<and> ticks h = ticks g \<and> inflight h \<le> inflight g
     \<and> (inflight g = 0 \<longrightarrow> ended h = ended g)"

lemma silent_step: "silent_after g h \<Longrightarrow> guard_perform e h = Some h' \<Longrightarrow> silent_after g h'"
proof (cases e)
  case (GAnswer now a)
  moreover assume "silent_after g h" "guard_perform e h = Some h'"
  ultimately show ?thesis
    by (cases a) (auto simp: silent_after_def answered_left answered_def end_guard_def disarm_def Let_def split: if_splits)
qed (auto simp: silent_after_def disarm_def split: if_splits)

interpretation silenced: machine guard_perform "silent_after g" for g
  by unfold_locales (rule silent_step)

text \<open>Once the guard is disarmed it neither counts down nor asks the server again, and it does not tear the
  connection down unless a question was under way when it was disarmed; the answer to that one still
  can.\<close>

theorem disarmed_guard_is_silent:
  assumes "run_steps guard_perform es (arm now d asks) = Some g" "run_steps guard_perform fs (disarm g) = Some h"
  shows "ticks h = ticks g \<and> \<not> beat_timer h \<and> \<not> ask_timer h \<and> inflight h \<le> inflight g \<and> ended h \<le> 1
    \<and> (inflight g = 0 \<longrightarrow> ended h = ended g)"
proof -
  have "silent_after (disarm g) (disarm g)" by (simp add: silent_after_def)
  then have "silent_after (disarm g) h" by (rule silenced.run_inv [OF assms(2)])
  moreover have "ended_inv g" by (rule guard_ended.run_inv [OF assms(1) arm_fields(4)])
  then have "ended_inv (disarm g)" by (simp add: ended_inv_def)
  then have "ended_inv h" by (rule guard_ended.run_inv [OF assms(2)])
  ultimately show ?thesis by (simp add: silent_after_def ended_inv_def)
qed

text \<open>The first question is under way when the guard is disarmed; its answer ends the access all the same.\<close>

theorem disarmed_guard_is_silent_witness:
  "\<exists>h. run_steps guard_perform [GAnswer 10 AnswerInvalid] (disarm (arm 0 60000 True)) = Some h
     \<and> ticks h = [60000] \<and> ended h = 1"
proof -
  let ?g = "arm 0 60000 True"
  have g: "run_steps guard_perform [] ?g = Some ?g" by simp
  have "\<exists>h. run_steps guard_perform [GAnswer 10 AnswerInvalid] (disarm ?g) = Some h \<and> ended h = 1" "ticks ?g = [60000]"
    by (simp_all add: arm_def beat_def ask_def remaining_def answered_def to_int32_id end_guard_def disarm_def Let_def)
  then show ?thesis using disarmed_guard_is_silent [OF g] by metis
qed

end
