(* ===== verification/RecordingTape.thy ===== *)
theory RecordingTape
  imports FrameWire
begin

text \<open>
  The tape of a desktop session: the recorder of the gateway (\<open>internal/desktop/recorder.go\<close>) and the parser of
  the browser (\<open>lib/desktop/recording.ts\<close>). A tape is a header of 18 bytes and records of a kind, a time
  in milliseconds, a length and that many bytes; every integer is in big-endian order. A read of
  a \<open>DataView\<close> beyond its end raises, which is \<open>None\<close>, as is the error that the file is no tape.
\<close>

section \<open>Integers of other widths\<close>

definition be16 :: "byte list \<Rightarrow> 16 word" where
  "be16 bs = push_bit 8 (ucast (bs ! 0)) OR ucast (bs ! 1)"

definition getUint16 :: "byte list \<Rightarrow> nat \<Rightarrow> 16 word option" where
  "getUint16 v off = (if off + 2 \<le> length v then Some (be16 (take 2 (drop off v))) else None)"

definition be64 :: "byte list \<Rightarrow> 64 word" where
  "be64 bs = push_bit 32 (ucast (be32 (take 4 bs))) OR ucast (be32 (drop 4 bs))"

definition getBigUint64 :: "byte list \<Rightarrow> nat \<Rightarrow> 64 word option" where
  "getBigUint64 v off = (if off + 8 \<le> length v then Some (be64 (take 8 (drop off v))) else None)"

definition put_uint16 :: "16 word \<Rightarrow> byte list" where
  "put_uint16 w = [ucast (drop_bit 8 w), ucast w]"

definition put_uint64 :: "64 word \<Rightarrow> byte list" where
  "put_uint64 w = put_uint32 (ucast (drop_bit 32 w)) @ put_uint32 (ucast w)"

lemma length_put [simp]: "length (put_uint16 w) = 2" "length (put_uint64 v) = 8"
  by (simp_all add: put_uint16_def put_uint64_def)

lemma be16_put [simp]: "be16 (put_uint16 w) = w"
proof (rule bit_word_eqI)
  fix n assume "n < LENGTH(16)"
  then consider "n < 8" | "8 \<le> n" "n < 16" by force
  then show "bit (be16 (put_uint16 w)) n = bit w n"
    by cases (auto simp: be16_def put_uint16_def bit_simps)
qed

lemma be64_put [simp]: "be64 (put_uint64 w) = w"
proof (rule bit_word_eqI)
  fix n assume "n < LENGTH(64)"
  then consider "n < 32" | "32 \<le> n" "n < 64" by force
  then show "bit (be64 (put_uint64 w)) n = bit w n"
    by cases (auto simp: be64_def put_uint64_def bit_simps)
qed

lemma getUint16_put: "length a = off \<Longrightarrow> getUint16 (a @ put_uint16 w @ b) off = Some w"
  by (simp add: getUint16_def)

lemma getBigUint64_put: "length a = off \<Longrightarrow> getBigUint64 (a @ put_uint64 w @ b) off = Some w"
  by (simp add: getBigUint64_def)

lemma getUint8_at: "length a = off \<Longrightarrow> getUint8 (a @ c # b) off = Some c"
  by (auto simp: getUint8_def)

section \<open>The recorder\<close>

datatype RecordKind = RecordOutput | RecordInput | RecordEvent

fun kind_byte :: "RecordKind \<Rightarrow> byte" where
  "kind_byte RecordOutput = 1"
| "kind_byte RecordInput = 2"
| "kind_byte RecordEvent = 3"

definition dtrHeaderSize :: nat where "dtrHeaderSize = 18"
definition dtrFlagInputCaptured :: byte where "dtrFlagInputCaptured = 1"
definition dtrDefaultMaxBytes :: int where "dtrDefaultMaxBytes = 4 * 2 ^ 30"
definition dtr_magic :: "byte list" where "dtr_magic = map (\<lambda>c. word_of_nat (of_char c)) ''DTR1''"

text \<open>The bytes written to the file; the writes succeed. Times are milliseconds.\<close>

record Recorder =
  tape :: "byte list"
  rec_start :: int
  includeInput :: bool
  rec_closed :: bool
  rec_written :: int
  capped :: bool
  maxBytes :: int

definition tape_header :: "16 word \<Rightarrow> 16 word \<Rightarrow> bool \<Rightarrow> int \<Rightarrow> byte list" where
  "tape_header width height inputs start =
     dtr_magic @ [1, if inputs then dtrFlagInputCaptured else 0] @ put_uint16 width @ put_uint16 height
       @ put_uint64 (word_of_int start)"

definition NewRecorder :: "16 word \<Rightarrow> 16 word \<Rightarrow> bool \<Rightarrow> int \<Rightarrow> Recorder" where
  "NewRecorder width height inputs start =
     \<lparr>tape = tape_header width height inputs start, rec_start = start, includeInput = inputs, rec_closed = False,
      rec_written = 0, capped = False, maxBytes = dtrDefaultMaxBytes\<rparr>"

definition record_time :: "int \<Rightarrow> int \<Rightarrow> 32 word" where
  "record_time start now =
     (let d = now - start in if 0 < d then word_of_int (if 2 ^ 32 - 1 < d then 2 ^ 32 - 1 else d) else 0)"

definition encode_record :: "RecordKind \<Rightarrow> 32 word \<Rightarrow> byte list \<Rightarrow> byte list" where
  "encode_record kind t payload =
     kind_byte kind # put_uint32 t @ put_uint32 (word_of_nat (length payload)) @ payload"

definition writeRecord :: "int \<Rightarrow> RecordKind \<Rightarrow> byte list \<Rightarrow> bool \<Rightarrow> Recorder \<Rightarrow> Recorder" where
  "writeRecord now kind payload keepWhenCapped r =
     (if rec_closed r then r
      else if capped r \<and> \<not> keepWhenCapped then r
      else if 0 < maxBytes r \<and> maxBytes r < rec_written r \<and> \<not> keepWhenCapped then r\<lparr>capped := True\<rparr>
      else r\<lparr>tape := tape r @ encode_record kind (record_time (rec_start r) now) payload,
             rec_written := rec_written r + int (9 + length payload)\<rparr>)"

definition WriteOutput :: "int \<Rightarrow> byte list \<Rightarrow> Recorder \<Rightarrow> Recorder" where
  "WriteOutput now body r = (if body = [] then r else writeRecord now RecordOutput body False r)"

text \<open>An input message: what the recorder looks at, and its JSON. \<open>json.Marshal\<close> does not fail on it.\<close>

record recorded_input =
  is_heartbeat :: bool
  is_caps :: bool
  mouse_state :: "(int \<times> int) option"
  marshalled :: "byte list"

definition recorded_inputs :: "bool \<Rightarrow> recorded_input \<Rightarrow> bool" where
  "recorded_inputs inputs msg \<longleftrightarrow>
     inputs \<and> \<not> (is_heartbeat msg \<or> is_caps msg)
     \<and> \<not> (case mouse_state msg of None \<Rightarrow> False | Some (buttons, wheel) \<Rightarrow> buttons = 0 \<and> wheel = 0)"

definition WriteInput :: "int \<Rightarrow> recorded_input \<Rightarrow> Recorder \<Rightarrow> Recorder" where
  "WriteInput now msg r =
     (if recorded_inputs (includeInput r) msg then writeRecord now RecordInput (marshalled msg) True r else r)"

definition WriteEvent :: "int \<Rightarrow> byte list \<Rightarrow> Recorder \<Rightarrow> Recorder" where
  "WriteEvent now body r = writeRecord now RecordEvent body True r"

definition CloseTape :: "Recorder \<Rightarrow> Recorder" where
  "CloseTape r = r\<lparr>rec_closed := True\<rparr>"

datatype tape_op = OpOutput "byte list" | OpInput recorded_input | OpEvent "byte list" | OpClose

fun tape_step :: "int \<times> tape_op \<Rightarrow> Recorder \<Rightarrow> Recorder" where
  "tape_step (now, OpOutput body) r = WriteOutput now body r"
| "tape_step (now, OpInput msg) r = WriteInput now msg r"
| "tape_step (now, OpEvent body) r = WriteEvent now body r"
| "tape_step (now, OpClose) r = CloseTape r"

section \<open>The parser\<close>

definition REC_HEADER_SIZE :: nat where "REC_HEADER_SIZE = 9"

record dtr_output =
  do_tMs :: int
  do_off :: nat
  do_len :: nat
  resync :: bool

datatype entry_kind = InputEntry | EventEntry

record 'd dtr_entry =
  de_tMs :: int
  de_kind :: entry_kind
  de_data :: 'd

record 'd dtr_tape =
  tape_buf :: "byte list"
  tape_version :: byte
  hasInput :: bool
  tape_width :: int
  tape_height :: int
  startMs :: int
  durationMs :: int
  outputs :: "dtr_output list"
  timeline :: "'d dtr_entry list"

text \<open>The start of a seek: a key frame or a frame that covers at least 95 percent of either side\<close>

definition computeResync :: "byte list \<Rightarrow> nat \<Rightarrow> nat \<Rightarrow> int \<Rightarrow> int \<Rightarrow> bool option" where
  "computeResync view off len width height =
     (if len < BINARY_HEADER_SIZE then Some False
      else do {
        kind \<leftarrow> getUint8 view off;
        if kind \<noteq> BINARY_KIND_RECT \<and> kind \<noteq> BINARY_KIND_BATCH then Some False
        else if kind = BINARY_KIND_BATCH \<and> len < 4 + BINARY_HEADER_SIZE then Some False
        else do {
          let hOff = (if kind = BINARY_KIND_RECT then off else off + 4);
          flags \<leftarrow> getUint8 view (hOff + 2);
          if flags AND BINARY_FLAG_KEYFRAME \<noteq> 0 then Some True
          else do {
            x \<leftarrow> getUint32 view (hOff + 8);
            y \<leftarrow> getUint32 view (hOff + 12);
            w \<leftarrow> getUint32 view (hOff + 16);
            h \<leftarrow> getUint32 view (hOff + 20);
            Some (x = 0 \<and> y = 0 \<and> width * 95 \<le> uint w * 100 \<and> height * 95 \<le> uint h * 100)
          }
        }
      })"

text \<open>The loop over the records; \<open>parse\<close> decodes the text of an entry and is \<open>JSON.parse\<close> on it.\<close>

function parse_records ::
    "(byte list \<Rightarrow> 'd option) \<Rightarrow> byte list \<Rightarrow> int \<Rightarrow> int \<Rightarrow> nat \<Rightarrow> int \<Rightarrow> dtr_output list \<Rightarrow> 'd dtr_entry list
       \<Rightarrow> (int \<times> dtr_output list \<times> 'd dtr_entry list) option" where
  "parse_records parse buf width height off duration outs entries =
     (if length buf < off + REC_HEADER_SIZE then Some (duration, outs, entries)
      else case (getUint8 buf off, getUint32 buf (off + 1), getUint32 buf (off + 5)) of
        (Some kind, Some t, Some n) \<Rightarrow>
          (let off1 = off + REC_HEADER_SIZE; len = unat n; tMs = uint t in
           if length buf < off1 + len then Some (duration, outs, entries)
           else
             let duration1 = max duration tMs in
             if kind = 1 then
               (case computeResync buf off1 len width height of
                  None \<Rightarrow> None
                | Some rs \<Rightarrow>
                    parse_records parse buf width height (off1 + len) duration1
                      (outs @ [\<lparr>do_tMs = tMs, do_off = off1, do_len = len, resync = rs\<rparr>]) entries)
             else if kind = 2 \<or> kind = 3 then
               parse_records parse buf width height (off1 + len) duration1 outs
                 (case parse (take len (drop off1 buf)) of
                    None \<Rightarrow> entries
                  | Some d \<Rightarrow> entries @ [\<lparr>de_tMs = tMs, de_kind = (if kind = 2 then InputEntry else EventEntry), de_data = d\<rparr>])
             else parse_records parse buf width height (off1 + len) duration1 outs entries)
      | _ \<Rightarrow> None)"
  by pat_completeness auto

termination
  by (relation "measure (\<lambda>(_, buf, _, _, off, _). length buf - off)") (auto simp: REC_HEADER_SIZE_def)

declare parse_records.simps [simp del]

definition parseDtr :: "(byte list \<Rightarrow> 'd option) \<Rightarrow> byte list \<Rightarrow> 'd dtr_tape option" where
  "parseDtr parse buf =
     (if length buf < dtrHeaderSize \<or> take 4 buf \<noteq> dtr_magic then None
      else do {
        version \<leftarrow> getUint8 buf 4;
        flags \<leftarrow> getUint8 buf 5;
        width \<leftarrow> getUint16 buf 6;
        height \<leftarrow> getUint16 buf 8;
        start \<leftarrow> getBigUint64 buf 10;
        (duration, outs, entries) \<leftarrow> parse_records parse buf (uint width) (uint height) dtrHeaderSize 0 [] [];
        Some \<lparr>tape_buf = buf, tape_version = version, hasInput = (flags AND 1 \<noteq> 0), tape_width = uint width,
          tape_height = uint height, startMs = uint start, durationMs = duration, outputs = outs, timeline = entries\<rparr>
      })"

section \<open>Frames of an output record\<close>

definition tape_encoding :: "byte \<Rightarrow> Encoding option" where
  "tape_encoding v =
     (if v = 1 then Some RawBgra
      else if v = 2 then Some Jpeg
      else if v = 3 then Some Png
      else if v = 4 then Some ZlibBgra
      else if v = 5 then Some H264
      else if v = 6 then Some Rfx
      else None)"

text \<open>\<open>Some None\<close> when the encoding is unknown, \<open>None\<close> when a read raises\<close>

definition readFrameHeader :: "byte list \<Rightarrow> nat \<Rightarrow> FrameRectMeta option option" where
  "readFrameHeader view hOff = do {
     v \<leftarrow> getUint8 view (hOff + 1);
     case tape_encoding v of
       None \<Rightarrow> Some None
     | Some e \<Rightarrow> do {
         flags \<leftarrow> getUint8 view (hOff + 2);
         x \<leftarrow> getUint32 view (hOff + 8);
         y \<leftarrow> getUint32 view (hOff + 12);
         w \<leftarrow> getUint32 view (hOff + 16);
         h \<leftarrow> getUint32 view (hOff + 20);
         Some (Some \<lparr>fr_x = uint x, fr_y = uint y, fr_width = uint w, fr_height = uint h, fr_encoding = e,
           fr_keyframe = Some (flags AND BINARY_FLAG_KEYFRAME \<noteq> 0)\<rparr>)
       }
   }"

fun tape_batch_items :: "byte list \<Rightarrow> nat \<Rightarrow> nat \<Rightarrow> FrameBytes list \<Rightarrow> FrameBytes list option" where
  "tape_batch_items view 0 off frames = Some frames"
| "tape_batch_items view (Suc n) off frames =
     (if length view < off + BINARY_HEADER_SIZE then Some frames
      else do {
        header \<leftarrow> readFrameHeader view off;
        case header of
          None \<Rightarrow> Some frames
        | Some meta \<Rightarrow> do {
            payloadN \<leftarrow> getUint32 view (off + 24);
            let start = off + BINARY_HEADER_SIZE;
            let stop = start + unat payloadN;
            if length view < stop then Some frames
            else tape_batch_items view n stop (frames @ [(meta, take (stop - start) (drop start view))])
          }
      })"

definition decodeBatch :: "byte list \<Rightarrow> FrameBytes list option" where
  "decodeBatch view =
     (if length view < 4 then Some []
      else do {
        count \<leftarrow> getUint32 view 0;
        tape_batch_items view (unat count) 4 []
      })"

definition decodeOutput :: "byte list \<Rightarrow> dtr_output \<Rightarrow> FrameBytes list option" where
  "decodeOutput buf rec =
     (if do_len rec < BINARY_HEADER_SIZE then Some []
      else do {
        view \<leftarrow> sub_view buf (do_off rec) (do_len rec);
        kind \<leftarrow> getUint8 view 0;
        if kind = BINARY_KIND_RECT then do {
          header \<leftarrow> readFrameHeader view 0;
          case header of
            None \<Rightarrow> Some []
          | Some meta \<Rightarrow> do {
              payloadN \<leftarrow> getUint32 view 24;
              if do_len rec < BINARY_HEADER_SIZE + unat payloadN then Some []
              else Some [(meta, take (unat payloadN) (drop BINARY_HEADER_SIZE view))]
            }
        }
        else if kind = BINARY_KIND_BATCH then decodeBatch view
        else Some []
      })"

section \<open>The messages on the tape\<close>

text \<open>The messages the gateway puts on the tape. \<open>json\<close> is the message as JSON, its form when it has none of its own.\<close>

record wire_cursor =
  wc_hotspot_x :: "32 word"
  wc_hotspot_y :: "32 word"
  wc_width :: "32 word"
  wc_height :: "32 word"
  wc_encoding :: CursorEncoding
  wc_payload :: "byte list"

record wire_video =
  wv_codec :: string
  wv_keyframe :: bool
  wv_width :: "32 word"
  wv_height :: "32 word"
  wv_data :: "byte list"

record server_message =
  sm_frame :: "wire_frame option"
  sm_frame_batch :: "wire_frame list option"
  sm_video :: "wire_video option"
  sm_cursor :: "wire_cursor option"
  sm_json :: "byte list"

fun binaryEncodingFromCursor :: "CursorEncoding \<Rightarrow> byte option" where
  "binaryEncodingFromCursor CursorRaw = Some 1"
| "binaryEncodingFromCursor CursorPng = Some 3"
| "binaryEncodingFromCursor CursorSystem = None"

definition binaryEncodingFromVideoCodec :: "string \<Rightarrow> byte option" where
  "binaryEncodingFromVideoCodec codec =
     (if codec = ''vp8'' then Some 8 else if codec = ''vp9'' then Some 9 else if codec = ''av1'' then Some 10 else None)"

definition encodeBinaryPayload :: "frame_header \<Rightarrow> byte list \<Rightarrow> byte list" where
  "encodeBinaryPayload h payload = EncodeBinaryFrameHeader h @ payload"

definition plain_header :: "byte \<Rightarrow> byte list \<Rightarrow> frame_header" where
  "plain_header kind payload =
     \<lparr>hd_kind = kind, hd_encoding = 0, hd_flags = 0, hd_x = 0, hd_y = 0, hd_width = 0, hd_height = 0,
      hd_payload = word_of_nat (length payload)\<rparr>"

lemma plain_fields [simp]:
  "hd_kind (plain_header kind P) = kind" "hd_encoding (plain_header kind P) = 0" "hd_flags (plain_header kind P) = 0"
  "hd_x (plain_header kind P) = 0" "hd_y (plain_header kind P) = 0" "hd_width (plain_header kind P) = 0"
  "hd_height (plain_header kind P) = 0"
  by (simp_all add: plain_header_def)

definition encode_frame :: "wire_frame \<Rightarrow> byte list" where
  "encode_frame f = encodeBinaryPayload (frame_header_of f) (wf_payload f)"

definition cursor_header_of :: "byte \<Rightarrow> wire_cursor \<Rightarrow> frame_header" where
  "cursor_header_of enc c =
     \<lparr>hd_kind = 3, hd_encoding = enc, hd_flags = 0, hd_x = wc_hotspot_x c, hd_y = wc_hotspot_y c,
      hd_width = wc_width c, hd_height = wc_height c, hd_payload = word_of_nat (length (wc_payload c))\<rparr>"

definition video_header_of :: "byte \<Rightarrow> wire_video \<Rightarrow> frame_header" where
  "video_header_of enc v =
     \<lparr>hd_kind = 5, hd_encoding = enc, hd_flags = (if wv_keyframe v then 1 else 0), hd_x = 0, hd_y = 0,
      hd_width = wv_width v, hd_height = wv_height v, hd_payload = word_of_nat (length (wv_data v))\<rparr>"

text \<open>The cases after the frames; the error of an encoding that has no tag is \<open>None\<close>.\<close>

definition encode_other :: "server_message \<Rightarrow> byte list option" where
  "encode_other msg =
     (let json = Some (encodeBinaryPayload (plain_header 1 (sm_json msg)) (sm_json msg));
          cursor = (case sm_cursor msg of
             Some c \<Rightarrow>
               if wc_payload c = [] then json
               else map_option (\<lambda>enc. encodeBinaryPayload (cursor_header_of enc c) (wc_payload c))
                      (binaryEncodingFromCursor (wc_encoding c))
           | None \<Rightarrow> json)
      in (case sm_video msg of
            Some v \<Rightarrow>
              if wv_data v = [] then cursor
              else map_option (\<lambda>enc. encodeBinaryPayload (video_header_of enc v) (wv_data v))
                     (binaryEncodingFromVideoCodec (wv_codec v))
          | None \<Rightarrow> cursor))"

definition EncodeServerMessageBinaryPayload :: "server_message \<Rightarrow> byte list option" where
  "EncodeServerMessageBinaryPayload msg =
     (case nullish (sm_frame_batch msg) [] of
        [f] \<Rightarrow> Some (encode_frame f)
      | f # g # fs \<Rightarrow>
          let payload = encodeFrameBatchPayload (f # g # fs)
          in Some (encodeBinaryPayload (plain_header 4 payload) payload)
      | [] \<Rightarrow>
        (case sm_frame msg of Some f \<Rightarrow> Some (encode_frame f) | None \<Rightarrow> encode_other msg))"

end
