(* ===== verification/RecordingTapeProps.thy ===== *)
theory RecordingTapeProps
  imports RecordingTape
begin

text \<open>
  Properties of the session tape: what was recorded is read back, also from a tape that breaks off; what the recorder
  keeps when the tape reaches its size limit; and which of the recorded messages can be shown.
\<close>

section \<open>Reading what was written\<close>

text \<open>The records of a tape: kind, time and payload. Those that lie within the first \<open>m\<close> bytes are complete.\<close>

type_synonym tape_record = "RecordKind \<times> 32 word \<times> byte list"

definition encode_records :: "tape_record list \<Rightarrow> byte list" where
  "encode_records rs = concat (map (\<lambda>(k, t, p). encode_record k t p) rs)"

fun complete :: "nat \<Rightarrow> tape_record list \<Rightarrow> tape_record list" where
  "complete m [] = []"
| "complete m ((k, t, p) # rs) = (if 9 + length p \<le> m then (k, t, p) # complete (m - (9 + length p)) rs else [])"

definition output_bodies :: "tape_record list \<Rightarrow> (int \<times> byte list) list" where
  "output_bodies rs = map (\<lambda>(k, t, p). (uint t, p)) (filter (\<lambda>r. fst r = RecordOutput) rs)"

fun audit_entry :: "(byte list \<Rightarrow> 'd option) \<Rightarrow> tape_record \<Rightarrow> 'd dtr_entry option" where
  "audit_entry parse (k, t, p) =
     (if k = RecordOutput then None
      else map_option (\<lambda>d. \<lparr>de_tMs = uint t, de_kind = (if k = RecordInput then InputEntry else EventEntry), de_data = d\<rparr>)
        (parse p))"

definition audit_entries :: "(byte list \<Rightarrow> 'd option) \<Rightarrow> tape_record list \<Rightarrow> 'd dtr_entry list" where
  "audit_entries parse rs = List.map_filter (audit_entry parse) rs"

definition last_time :: "int \<Rightarrow> tape_record list \<Rightarrow> int" where
  "last_time d rs = fold (\<lambda>(k, t, p). max (uint t)) rs d"

definition output_body :: "byte list \<Rightarrow> dtr_output \<Rightarrow> int \<times> byte list" where
  "output_body buf out = (do_tMs out, take (do_len out) (drop (do_off out) buf))"

definition output_ok :: "byte list \<Rightarrow> int \<Rightarrow> int \<Rightarrow> dtr_output \<Rightarrow> bool" where
  "output_ok buf w h out \<longleftrightarrow>
     do_off out + do_len out \<le> length buf \<and> computeResync buf (do_off out) (do_len out) w h = Some (resync out)"

lemma tape_record_simps [simp]:
  "encode_records [] = []" "encode_records ((k, t, p) # rs) = encode_record k t p @ encode_records rs"
  "output_bodies [] = []"
  "output_bodies ((k, t, p) # rs) = (if k = RecordOutput then (uint t, p) # output_bodies rs else output_bodies rs)"
  "audit_entries parse [] = []"
  "audit_entries parse (r # rs) = (case audit_entry parse r of None \<Rightarrow> audit_entries parse rs | Some e \<Rightarrow> e # audit_entries parse rs)"
  "last_time d [] = d" "last_time d ((k, t, p) # rs) = last_time (max d (uint t)) rs"
  by (simp_all add: encode_records_def output_bodies_def audit_entries_def last_time_def List.map_filter_simps max.commute split: option.split)

lemma length_encode_record [simp]: "length (encode_record k t p) = 9 + length p"
  by (simp add: encode_record_def)

lemma computeResync_total:
  assumes "off + len \<le> length view" shows "computeResync view off len w h \<noteq> None"
  using assms by (auto simp: computeResync_def getUint8_def getUint32_def BINARY_HEADER_SIZE_def Let_def bind_eq_None_conv)

lemma record_fields:
  assumes "length pre = off" "length p < 2 ^ 32" "buf = pre @ take m (encode_record k t p @ rest)" "9 \<le> m"
  shows "getUint8 buf off = Some (kind_byte k)" "getUint32 buf (off + 1) = Some t"
    "getUint32 buf (off + 5) = Some (word_of_nat (length p))"
    "unat (word_of_nat (length p) :: 32 word) = length p"
proof -
  let ?tail = "take (m - 9) (p @ rest)"
  have buf: "buf = pre @ kind_byte k # put_uint32 t @ put_uint32 (word_of_nat (length p)) @ ?tail"
  proof -
    have "encode_record k t p @ rest = (kind_byte k # put_uint32 t @ put_uint32 (word_of_nat (length p))) @ (p @ rest)"
      by (simp add: encode_record_def)
    then show ?thesis using assms(3,4) by (simp only: take_append) simp
  qed
  show "getUint8 buf off = Some (kind_byte k)" unfolding buf by (rule getUint8_at [OF assms(1)])
  show "getUint32 buf (off + 1) = Some t"
    using getUint32_put [of "pre @ [kind_byte k]" "off + 1" t] assms(1) unfolding buf by simp
  show "getUint32 buf (off + 5) = Some (word_of_nat (length p))"
    using getUint32_put [of "pre @ kind_byte k # put_uint32 t" "off + 5" "word_of_nat (length p)" ?tail] assms(1)
    unfolding buf by simp
  show "unat (word_of_nat (length p) :: 32 word) = length p"
    using assms(2) by (simp add: unsigned_of_nat take_bit_nat_eq_self)
qed

lemma payload_at:
  assumes "length pre = off" "9 + length p \<le> m"
  shows "take (length p) (drop (off + 9) (pre @ take m (encode_record k t p @ rest))) = p"
proof -
  have "drop 9 (encode_record k t p @ rest) = p @ rest" by (simp add: encode_record_def)
  then have "drop 9 (take m (encode_record k t p @ rest)) = take (m - 9) (p @ rest)" by (simp only: drop_take)
  then show ?thesis using assms by simp
qed

lemma parse_complete:
  assumes "length pre = off" "length p < 2 ^ 32" "buf = pre @ take m (encode_record k t p @ rest)" "9 + length p \<le> m"
    and "computeResync buf (off + 9) (length p) w h = Some rs"
  shows "parse_records parse buf w h off d outs es =
    parse_records parse buf w h (off + (9 + length p)) (max d (uint t))
      (if k = RecordOutput then outs @ [\<lparr>do_tMs = uint t, do_off = off + 9, do_len = length p, resync = rs\<rparr>] else outs)
      (case audit_entry parse (k, t, p) of None \<Rightarrow> es | Some e \<Rightarrow> es @ [e])"
proof -
  have "9 \<le> m" using assms(4) by simp
  note f = record_fields [OF assms(1,2,3) this]
  have len: "off + (9 + length p) \<le> length buf" using assms(1,3,4) by simp
  have "take (length p) (drop (off + 9) buf) = p"
    unfolding assms(3) by (rule payload_at [OF assms(1,4)])
  then show ?thesis
    using len f assms(5)
    by (subst parse_records.simps) (cases k; simp add: REC_HEADER_SIZE_def Let_def add.assoc split: option.split)
qed

lemma parse_cut:
  assumes "length pre = off" "length p < 2 ^ 32" "buf = pre @ take m (encode_record k t p @ rest)" "m < 9 + length p"
  shows "parse_records parse buf w h off d outs es = Some (d, outs, es)"
proof (cases "9 \<le> m")
  case True
  note f = record_fields [OF assms(1,2,3) True]
  have "length buf < off + 9 + length p" "off + 9 \<le> length buf" using assms True by auto
  then show ?thesis using f by (subst parse_records.simps) (simp add: REC_HEADER_SIZE_def Let_def)
next
  case False
  then have "length buf < off + 9" using assms by auto
  then show ?thesis by (subst parse_records.simps) (simp add: REC_HEADER_SIZE_def)
qed

lemma parse_encoded:
  assumes "length pre = off" "\<forall>(k, t, p) \<in> set rs. length p < 2 ^ 32" "buf = pre @ take m (encode_records rs)"
  shows "\<exists>outs'. parse_records parse buf w h off d outs es =
      Some (last_time d (complete m rs), outs @ outs', es @ audit_entries parse (complete m rs))
    \<and> map (output_body buf) outs' = output_bodies (complete m rs) \<and> list_all (output_ok buf w h) outs'"
  using assms
proof (induction rs arbitrary: pre off d outs es m)
  case Nil
  then show ?case by (intro exI [of _ "[]"]) (simp add: parse_records.simps REC_HEADER_SIZE_def)
next
  case (Cons r rs)
  obtain k t p where r: "r = (k, t, p)" by (cases r) auto
  have p: "length p < 2 ^ 32" using Cons.prems(2) r by simp
  have buf: "buf = pre @ take m (encode_record k t p @ encode_records rs)" using Cons.prems(3) r by simp
  show ?case
  proof (cases "9 + length p \<le> m")
    case False
    then show ?thesis
      using parse_cut [OF Cons.prems(1) p buf, of parse w h d outs es] r by (intro exI [of _ "[]"]) simp
  next
    case True
    let ?pre = "pre @ encode_record k t p" and ?off = "off + (9 + length p)"
    have len: "off + 9 + length p \<le> length buf" using buf True Cons.prems(1) by simp
    obtain s where s: "computeResync buf (off + 9) (length p) w h = Some s"
      using computeResync_total [of "off + 9" "length p" buf w h] len by auto
    let ?o = "\<lparr>do_tMs = uint t, do_off = off + 9, do_len = length p, resync = s\<rparr>"
    let ?outs = "if k = RecordOutput then outs @ [?o] else outs"
    let ?es = "case audit_entry parse (k, t, p) of None \<Rightarrow> es | Some e \<Rightarrow> es @ [e]"
    have "take (length p) (drop (off + 9) buf) = p"
      unfolding buf by (rule payload_at [OF Cons.prems(1) True])
    then have body: "output_body buf ?o = (uint t, p)" "output_ok buf w h ?o"
      using len s by (simp_all add: output_body_def output_ok_def)
    have buf2: "buf = ?pre @ take (m - (9 + length p)) (encode_records rs)" using buf True by simp
    have "length ?pre = ?off" using Cons.prems(1) by simp
    from Cons.IH [OF this _ buf2, of "max d (uint t)" ?outs ?es] Cons.prems(2)
    obtain outs' where o: "parse_records parse buf w h ?off (max d (uint t)) ?outs ?es =
        Some (last_time (max d (uint t)) (complete (m - (9 + length p)) rs), ?outs @ outs',
          ?es @ audit_entries parse (complete (m - (9 + length p)) rs))"
      "map (output_body buf) outs' = output_bodies (complete (m - (9 + length p)) rs)" "list_all (output_ok buf w h) outs'"
      by auto
    show ?thesis
      using o body parse_complete [OF Cons.prems(1) p buf True s, of parse d outs es] True r
      by (intro exI [of _ "if k = RecordOutput then ?o # outs' else outs'"]) (auto split: option.split)
  qed
qed

lemma length_tape_header [simp]: "length (tape_header w h i st) = dtrHeaderSize"
  by (simp add: tape_header_def dtr_magic_def dtrHeaderSize_def)

lemma header_fields:
  "take 4 (tape_header w h i st @ rest) = dtr_magic" "getUint8 (tape_header w h i st @ rest) 4 = Some 1"
  "getUint8 (tape_header w h i st @ rest) 5 = Some (if i then 1 else 0)"
  "getUint16 (tape_header w h i st @ rest) 6 = Some w" "getUint16 (tape_header w h i st @ rest) 8 = Some h"
  "getBigUint64 (tape_header w h i st @ rest) 10 = Some (word_of_int st)"
proof -
  have magic: "length dtr_magic = 4" by (simp add: dtr_magic_def)
  let ?f = "if i then 1 else 0 :: byte"
  have eq: "tape_header w h i st @ rest =
      dtr_magic @ 1 # ?f # put_uint16 w @ put_uint16 h @ put_uint64 (word_of_int st) @ rest"
    by (simp add: tape_header_def dtrFlagInputCaptured_def)
  show "take 4 (tape_header w h i st @ rest) = dtr_magic" unfolding eq using magic by simp
  show "getUint8 (tape_header w h i st @ rest) 4 = Some 1" unfolding eq by (rule getUint8_at [OF magic])
  show "getUint8 (tape_header w h i st @ rest) 5 = Some ?f"
    using getUint8_at [of "dtr_magic @ [1]" 5 ?f] magic unfolding eq by simp
  show "getUint16 (tape_header w h i st @ rest) 6 = Some w"
    using getUint16_put [of "dtr_magic @ [1, ?f]" 6 w] magic unfolding eq by simp
  show "getUint16 (tape_header w h i st @ rest) 8 = Some h"
    using getUint16_put [of "dtr_magic @ [1, ?f] @ put_uint16 w" 8 h] magic unfolding eq by simp
  show "getBigUint64 (tape_header w h i st @ rest) 10 = Some (word_of_int st)"
    using getBigUint64_put [of "dtr_magic @ [1, ?f] @ put_uint16 w @ put_uint16 h" 10 "word_of_int st"] magic
    unfolding eq by simp
qed

text \<open>C34: A tape that breaks off after \<open>n\<close> bytes, as when the gateway dies, is read up to its last complete
  record: the header as written, the time and the bytes of every output, every entry of the audit timeline that
  parses, in order, and the time of the latest record as the duration. Without a complete header it is refused.\<close>

theorem tape_roundtrip:
  assumes "\<forall>(k, t, p) \<in> set rs. length p < 2 ^ 32" "0 \<le> start" "start < 2 ^ 63"
    and "bytes = tape_header w h inputs start @ encode_records rs"
  shows "if n < dtrHeaderSize then parseDtr parse (take n bytes) = None
    else \<exists>tp. parseDtr parse (take n bytes) = Some tp
      \<and> tape_width tp = uint w \<and> tape_height tp = uint h \<and> hasInput tp = inputs \<and> startMs tp = start
      \<and> map (output_body (take n bytes)) (outputs tp) = output_bodies (complete (n - dtrHeaderSize) rs)
      \<and> timeline tp = audit_entries parse (complete (n - dtrHeaderSize) rs)
      \<and> durationMs tp = last_time 0 (complete (n - dtrHeaderSize) rs)"
proof (cases "n < dtrHeaderSize")
  case True
  then show ?thesis using assms(4) by (simp add: parseDtr_def)
next
  case False
  let ?hd = "tape_header w h inputs start" and ?m = "n - dtrHeaderSize"
  have bytes: "take n bytes = ?hd @ take ?m (encode_records rs)" using assms(4) False by simp
  obtain outs where outs: "parse_records parse (take n bytes) (uint w) (uint h) dtrHeaderSize 0 [] [] =
      Some (last_time 0 (complete ?m rs), outs, audit_entries parse (complete ?m rs))"
    "map (output_body (take n bytes)) outs = output_bodies (complete ?m rs)"
    using parse_encoded [OF length_tape_header assms(1) bytes, of parse "uint w" "uint h" 0 "[]" "[]"] by auto
  have "uint (word_of_int start :: 64 word) = start" using assms(2,3) by (simp add: uint_word_of_int)
  then show ?thesis
    using outs header_fields [of w h inputs start "take ?m (encode_records rs)"]
    False by (simp add: parseDtr_def bytes)
qed

theorem tape_roundtrip_witness:
  "\<exists>tp. parseDtr Some (take 45 (tape_header 640 480 True 1000 @ encode_records
       [(RecordInput, 5, [1, 2]), (RecordEvent, 9, [7]), (RecordInput, 12, [3])])) = Some tp
     \<and> timeline tp = [\<lparr>de_tMs = 5, de_kind = InputEntry, de_data = [1, 2]\<rparr>, \<lparr>de_tMs = 9, de_kind = EventEntry, de_data = [7]\<rparr>]
     \<and> durationMs tp = 9"
  using tape_roundtrip [of "[(RecordInput, 5, [1, 2]), (RecordEvent, 9, [7]), (RecordInput, 12, [3])]" 1000
      "tape_header 640 480 True 1000 @ encode_records [(RecordInput, 5, [1, 2]), (RecordEvent, 9, [7]), (RecordInput, 12, [3])]"
      640 480 True 45 Some]
  by (simp add: dtrHeaderSize_def) metis

section \<open>What the recorder keeps\<close>

text \<open>The record an operation asks for, and those asked for until the tape is closed\<close>

fun asked :: "int \<Rightarrow> bool \<Rightarrow> int \<times> tape_op \<Rightarrow> tape_record option" where
  "asked start inputs (now, OpOutput body) = (if body = [] then None else Some (RecordOutput, record_time start now, body))"
| "asked start inputs (now, OpInput msg) =
     (if recorded_inputs inputs msg then Some (RecordInput, record_time start now, marshalled msg) else None)"
| "asked start inputs (now, OpEvent body) = Some (RecordEvent, record_time start now, body)"
| "asked start inputs (now, OpClose) = None"

definition asked_records :: "int \<Rightarrow> bool \<Rightarrow> (int \<times> tape_op) list \<Rightarrow> tape_record list" where
  "asked_records start inputs ops = List.map_filter (asked start inputs) (takeWhile (\<lambda>op. snd op \<noteq> OpClose) ops)"

definition is_output :: "tape_record \<Rightarrow> bool" where
  "is_output r \<longleftrightarrow> fst r = RecordOutput"

definition record_at :: "tape_record \<Rightarrow> 32 word" where
  "record_at r = fst (snd r)"

definition records_size :: "tape_record list \<Rightarrow> int" where
  "records_size rs = (\<Sum>(k, t, p) \<leftarrow> rs. int (9 + length p))"

lemma asked_simps [simp]:
  "asked_records start inputs [] = []"
  "asked_records start inputs (op # ops) =
     (if snd op = OpClose then []
      else case asked start inputs op of None \<Rightarrow> asked_records start inputs ops | Some r \<Rightarrow> r # asked_records start inputs ops)"
  by (simp_all add: asked_records_def List.map_filter_simps split: option.split)

lemma records_size_simps [simp]:
  "records_size [] = 0" "records_size ((k, t, p) # rs) = int (9 + length p) + records_size rs"
  by (simp_all add: records_size_def)

lemma records_size_nonneg: "0 \<le> records_size rs"
  by (auto simp: records_size_def intro!: sum_list_nonneg)

definition refuses :: "Recorder \<Rightarrow> tape_record \<Rightarrow> bool" where
  "refuses r rec \<longleftrightarrow> is_output rec \<and> (capped r \<or> (0 < maxBytes r \<and> maxBytes r < rec_written r))"

lemma tape_step_cases:
  "tape_step op r =
     (if rec_closed r \<or> snd op = OpClose then r\<lparr>rec_closed := True\<rparr>
      else case asked (rec_start r) (includeInput r) op of
        None \<Rightarrow> r
      | Some (k, t, p) \<Rightarrow>
          if refuses r (k, t, p) then r\<lparr>capped := True\<rparr>
          else r\<lparr>tape := tape r @ encode_record k t p, rec_written := rec_written r + int (9 + length p)\<rparr>)"
proof (cases op)
  case (Pair now a)
  then show ?thesis
    by (cases a) (auto simp: WriteOutput_def WriteInput_def WriteEvent_def writeRecord_def CloseTape_def refuses_def is_output_def)
qed

lemma asked_at: "asked start inputs op = Some r \<Longrightarrow> record_at r = record_time start (fst op)"
  by (cases "(start, inputs, op)" rule: asked.cases) (auto simp: record_at_def split: if_splits)

lemma record_time_mono: "a \<le> b \<Longrightarrow> record_time s a \<le> record_time s b"
proof -
  have eq: "uint (record_time s c) = min (max 0 (c - s)) (2 ^ 32 - 1)" for c
    by (auto simp: record_time_def Let_def uint_word_of_int)
  assume "a \<le> b"
  then show ?thesis by (simp add: word_le_def eq)
qed

lemma recorder_log:
  "\<exists>rs. tape (fold tape_step ops r) = tape r @ encode_records rs
     \<and> filter (\<lambda>x. \<not> is_output x) rs = (if rec_closed r then [] else filter (\<lambda>x. \<not> is_output x) (asked_records (rec_start r) (includeInput r) ops))
     \<and> prefix (filter is_output rs) (if rec_closed r \<or> capped r then [] else filter is_output (asked_records (rec_start r) (includeInput r) ops))
     \<and> (\<not> rec_closed r \<longrightarrow> \<not> capped r \<longrightarrow> rec_written r + records_size (asked_records (rec_start r) (includeInput r) ops) \<le> maxBytes r
          \<longrightarrow> rs = asked_records (rec_start r) (includeInput r) ops)
     \<and> record_at ` set rs \<subseteq> record_time (rec_start r) ` fst ` set ops
     \<and> (sorted (map fst ops) \<longrightarrow> sorted (map record_at rs))"
proof (induction ops arbitrary: r)
  case Nil
  then show ?case by (intro exI [of _ "[]"]) simp
next
  case (Cons op ops)
  let ?r = "tape_step op r"
  obtain rs where rs: "tape (fold tape_step ops ?r) = tape ?r @ encode_records rs"
     "filter (\<lambda>x. \<not> is_output x) rs = (if rec_closed ?r then [] else filter (\<lambda>x. \<not> is_output x) (asked_records (rec_start ?r) (includeInput ?r) ops))"
     "prefix (filter is_output rs) (if rec_closed ?r \<or> capped ?r then [] else filter is_output (asked_records (rec_start ?r) (includeInput ?r) ops))"
     "\<not> rec_closed ?r \<longrightarrow> \<not> capped ?r \<longrightarrow> rec_written ?r + records_size (asked_records (rec_start ?r) (includeInput ?r) ops) \<le> maxBytes ?r
          \<longrightarrow> rs = asked_records (rec_start ?r) (includeInput ?r) ops"
     "record_at ` set rs \<subseteq> record_time (rec_start ?r) ` fst ` set ops"
     "sorted (map fst ops) \<longrightarrow> sorted (map record_at rs)"
    using Cons.IH [of ?r] by auto
  have keep: "rec_start ?r = rec_start r" "includeInput ?r = includeInput r" "maxBytes ?r = maxBytes r"
    by (auto simp: tape_step_cases split: option.split)
  show ?case
  proof (cases "rec_closed r \<or> snd op = OpClose")
    case True
    then have r: "?r = r\<lparr>rec_closed := True\<rparr>" by (simp add: tape_step_cases)
    then have "rs = []" using rs(2,3) by (cases rs) (auto split: if_splits)
    then show ?thesis using rs r True by (intro exI [of _ "[]"]) auto
  next
    case live: False
    show ?thesis
    proof (cases "asked (rec_start r) (includeInput r) op")
      case None
      then have "?r = r" using live by (simp add: tape_step_cases)
      then show ?thesis using rs live None by (intro exI [of _ rs]) auto
    next
      case (Some x)
      obtain k t p where x: "x = (k, t, p)" by (cases x) auto
      show ?thesis
      proof (cases "refuses r x")
        case True
        then have "?r = r\<lparr>capped := True\<rparr>" using live Some x by (simp add: tape_step_cases)
        then show ?thesis
          using rs live Some x True records_size_nonneg [of "asked_records (rec_start r) (includeInput r) ops"]
          by (intro exI [of _ rs]) (auto simp: refuses_def)
      next
        case False
        have le: "record_at x \<le> record_at y" if "y \<in> set rs" "sorted (map fst (op # ops))" for y
        proof -
          from that(1) rs(5) obtain q where "q \<in> set ops" "record_at y = record_time (rec_start r) (fst q)"
            unfolding keep by blast
          then show ?thesis using asked_at [OF Some] that(2) by (auto intro!: record_time_mono)
        qed
        have "?r = r\<lparr>tape := tape r @ encode_record k t p, rec_written := rec_written r + int (9 + length p)\<rparr>"
          using live Some x False by (simp add: tape_step_cases)
        then show ?thesis
          using rs live Some x False le asked_at [OF Some]
          by (intro exI [of _ "x # rs"]) (auto simp: refuses_def)
      qed
    qed
  qed
qed

text \<open>C35: The tape is its header followed by whole records, in the order in which they were asked for: every
  event and every input that the recorder does not filter out is on it, even after the size limit
  was reached; of the outputs it holds an initial part, and all of them as long as the tape stays within the limit.
  With a clock that does not go back the times of the records do not decrease.\<close>

theorem recorder_keeps_audit:
  "\<exists>rs. tape (fold tape_step ops (NewRecorder w h inputs start)) = tape_header w h inputs start @ encode_records rs
     \<and> filter (\<lambda>x. \<not> is_output x) rs = filter (\<lambda>x. \<not> is_output x) (asked_records start inputs ops)
     \<and> prefix (filter is_output rs) (filter is_output (asked_records start inputs ops))
     \<and> (records_size (asked_records start inputs ops) \<le> dtrDefaultMaxBytes \<longrightarrow> rs = asked_records start inputs ops)
     \<and> (sorted (map fst ops) \<longrightarrow> sorted (map record_at rs))"
  using recorder_log [of ops "NewRecorder w h inputs start"] by (auto simp: NewRecorder_def)

text \<open>A heartbeat and a move of the mouse are left out, and what comes after the tape is closed.\<close>

theorem recorder_keeps_audit_witness:
  "tape (fold tape_step
      [(110, OpOutput [2, 1]), (120, OpInput \<lparr>is_heartbeat = True, is_caps = False, mouse_state = None, marshalled = [1]\<rparr>),
       (130, OpInput \<lparr>is_heartbeat = False, is_caps = False, mouse_state = Some (0, 0), marshalled = [2]\<rparr>),
       (140, OpInput \<lparr>is_heartbeat = False, is_caps = False, mouse_state = Some (1, 0), marshalled = [3]\<rparr>),
       (150, OpClose), (160, OpEvent [9])] (NewRecorder 8 8 True 100))
   = tape_header 8 8 True 100 @ encode_record RecordOutput 10 [2, 1] @ encode_record RecordInput 40 [3]"
  using recorder_keeps_audit [of
      "[(110, OpOutput [2, 1]), (120, OpInput \<lparr>is_heartbeat = True, is_caps = False, mouse_state = None, marshalled = [1]\<rparr>),
       (130, OpInput \<lparr>is_heartbeat = False, is_caps = False, mouse_state = Some (0, 0), marshalled = [2]\<rparr>),
       (140, OpInput \<lparr>is_heartbeat = False, is_caps = False, mouse_state = Some (1, 0), marshalled = [3]\<rparr>),
       (150, OpClose), (160, OpEvent [9])]" 8 8 True 100]
  by (simp add: recorded_inputs_def record_time_def dtrDefaultMaxBytes_def del: tape_step.simps)

section \<open>What the player can show of a recorded message\<close>

definition message_frames :: "server_message \<Rightarrow> wire_frame list" where
  "message_frames msg =
     (case nullish (sm_frame_batch msg) [] of
        [] \<Rightarrow> (case sm_frame msg of None \<Rightarrow> [] | Some f \<Rightarrow> [f])
      | fs \<Rightarrow> fs)"

lemma header_reads [simp]:
  "getUint8 (EncodeBinaryFrameHeader h @ rest) 0 = Some (hd_kind h)"
  "getUint8 (EncodeBinaryFrameHeader h @ rest) (Suc 0) = Some (hd_encoding h)"
  "getUint8 (EncodeBinaryFrameHeader h @ rest) 2 = Some (hd_flags h)"
  "getUint32 (EncodeBinaryFrameHeader h @ rest) 8 = Some (hd_x h)"
  "getUint32 (EncodeBinaryFrameHeader h @ rest) 12 = Some (hd_y h)"
  "getUint32 (EncodeBinaryFrameHeader h @ rest) 16 = Some (hd_width h)"
  "getUint32 (EncodeBinaryFrameHeader h @ rest) 20 = Some (hd_height h)"
  "getUint32 (EncodeBinaryFrameHeader h @ rest) 24 = Some (hd_payload h)"
  using read_header_encode [of h rest] by (auto simp: read_header_def bind_eq_Some_conv)

lemma flags_read [simp]: "getUint8 (EncodeBinaryFrameHeader h @ rest) (Suc (Suc 0)) = Some (hd_flags h)"
  using header_reads(3) by (simp add: numeral_2_eq_2)

lemma reserved_reads [simp]:
  "getUint8 (EncodeBinaryFrameHeader h @ rest) 5 = Some 0" "getUint8 (EncodeBinaryFrameHeader h @ rest) 6 = Some 0"
  by (simp_all add: EncodeBinaryFrameHeader_def getUint8_def nth_append)

lemma reads_shift [simp]:
  "getUint8 (pre @ v) (length pre + i) = getUint8 v i" "getUint32 (pre @ v) (length pre + i) = getUint32 v i"
  "getUint8 (pre @ v) (i + length pre) = getUint8 v i" "getUint32 (pre @ v) (i + length pre) = getUint32 v i"
  "getUint8 (pre @ v) (length pre) = getUint8 v 0"
  by (auto simp: getUint8_def getUint32_def nth_append)

lemma flags_shift [simp]: "getUint8 (pre @ v) (Suc (Suc (length pre))) = getUint8 v 2"
  using reads_shift(1) [of pre v 2] by simp

lemma tape_encoding_table: "tape_encoding = decodeFrameEncoding"
  by (rule ext) (simp add: tape_encoding_def decodeFrameEncoding_def)

definition output_at :: "byte list \<Rightarrow> byte list \<Rightarrow> int \<Rightarrow> bool \<Rightarrow> dtr_output" where
  "output_at pre body t r = \<lparr>do_tMs = t, do_off = length pre, do_len = length body, resync = r\<rparr>"

lemma replay_frame:
  assumes "sendable f"
  shows "decodeOutput (pre @ encode_frame f @ post) (output_at pre (encode_frame f) t r) =
    Some (if wf_encoding f = ZstdBgra then [] else [frame_view f])"
  using assms
  by (simp add: decodeOutput_def output_at_def encode_frame_def encodeBinaryPayload_def sub_view_def readFrameHeader_def
      tape_encoding_table frame_header_of_def decode_encoding payload_length kind_defs frame_view_def
      BINARY_FLAG_KEYFRAME_def)

lemma replay_batch:
  "decodeOutput (pre @ encodeBinaryPayload (plain_header 4 P) P @ post) (output_at pre (encodeBinaryPayload (plain_header 4 P) P) t r)
    = Some []"
proof -
  let ?v = "EncodeBinaryFrameHeader (plain_header 4 P) @ P"
  have "readFrameHeader ?v 4 = Some None" by (simp add: readFrameHeader_def tape_encoding_def)
  then have items: "tape_batch_items ?v n 4 [] = Some []" for n by (cases n) simp_all
  have "getUint32 ?v 0 \<noteq> None" by (simp add: getUint32_def BINARY_HEADER_SIZE_def)
  then show ?thesis
    by (auto simp: decodeOutput_def output_at_def encodeBinaryPayload_def sub_view_def decodeBatch_def items kind_defs
        BINARY_HEADER_SIZE_def)
qed

lemma batch_no_resync:
  assumes "0 < w"
  shows "computeResync (pre @ encodeBinaryPayload (plain_header 4 P) P @ post) (length pre)
    (length (encodeBinaryPayload (plain_header 4 P) P)) w h = Some False"
  using assms
  by (simp add: computeResync_def encodeBinaryPayload_def kind_defs Let_def add.assoc)

lemma replay_other:
  assumes "hd_kind h \<noteq> BINARY_KIND_RECT" "hd_kind h \<noteq> BINARY_KIND_BATCH"
  shows "decodeOutput (pre @ encodeBinaryPayload h P @ post) (output_at pre (encodeBinaryPayload h P) t r) = Some []"
  using assms by (simp add: decodeOutput_def output_at_def encodeBinaryPayload_def sub_view_def)

lemma replay_encode_other:
  "encode_other msg = Some body \<Longrightarrow> decodeOutput (pre @ body @ post) (output_at pre body t r) = Some []"
  by (auto simp: encode_other_def Let_def replay_other kind_defs cursor_header_of_def video_header_of_def
      split: option.splits if_splits)

text \<open>C36: Of a recorded message the player shows the frame if the message has exactly one and it is not compressed with
  zstd. A message with several frames is recorded as a batch behind a header of its own, which the
  player takes for the batch: it shows none of its frames and never starts a seek there.\<close>

theorem replay_of_recorded_message:
  assumes "EncodeServerMessageBinaryPayload msg = Some body" "list_all sendable (message_frames msg)" "0 < w"
  shows "decodeOutput (pre @ body @ post) (output_at pre body t r) =
      Some (case message_frames msg of [f] \<Rightarrow> if wf_encoding f = ZstdBgra then [] else [frame_view f] | _ \<Rightarrow> [])
    \<and> (2 \<le> length (message_frames msg) \<longrightarrow>
         computeResync (pre @ body @ post) (length pre) (length body) w h = Some False)"
proof (cases "nullish (sm_frame_batch msg) []" rule: remdups_adj.cases)
  case 1
  then show ?thesis
    using assms
    by (auto simp: EncodeServerMessageBinaryPayload_def message_frames_def replay_frame replay_encode_other split: option.splits)
next
  case (2 f)
  then show ?thesis
    using assms by (auto simp: EncodeServerMessageBinaryPayload_def message_frames_def replay_frame)
next
  case (3 f g fs)
  then show ?thesis
    using assms by (auto simp: EncodeServerMessageBinaryPayload_def message_frames_def replay_batch batch_no_resync Let_def)
qed

text \<open>Two updates that the gateway sent together\<close>

definition two_updates :: server_message where
  "two_updates =
     (let f = \<lparr>wf_x = 0, wf_y = 0, wf_width = 8, wf_height = 8, wf_encoding = Jpeg, wf_keyframe = True, wf_payload = [9, 8]\<rparr>
      in \<lparr>sm_frame = None, sm_frame_batch = Some [f, f\<lparr>wf_y := 8\<rparr>], sm_video = None, sm_cursor = None, sm_json = []\<rparr>)"

theorem replay_of_recorded_message_witness:
  "\<exists>body. EncodeServerMessageBinaryPayload two_updates = Some body
     \<and> decodeOutput ([1] @ body @ [2]) (output_at [1] body 5 False) = Some []
     \<and> computeResync ([1] @ body @ [2]) 1 (length body) 8 16 = Some False"
proof -
  have ex: "\<exists>body. EncodeServerMessageBinaryPayload two_updates = Some body"
    by (simp add: EncodeServerMessageBinaryPayload_def two_updates_def Let_def nullish_def)
  then obtain body where body: "EncodeServerMessageBinaryPayload two_updates = Some body" by blast
  have "length (message_frames two_updates) = 2" "list_all sendable (message_frames two_updates)"
    by (simp_all add: message_frames_def two_updates_def nullish_def sendable_def Let_def)
  then show ?thesis
    using replay_of_recorded_message [OF body, of 8 "[1]" "[2]" 5 False 16] body
    by (intro exI [of _ body]) (simp add: message_frames_def two_updates_def nullish_def Let_def)
qed

text \<open>An H.264 frame of the full size starts a seek although it is no key frame.\<close>

lemma full_delta_starts_seek:
  assumes "wf_encoding f = H264" "\<not> wf_keyframe f" "wf_x f = 0" "wf_y f = 0"
  shows "computeResync (pre @ encode_frame f @ post) (length pre) (length (encode_frame f))
    (uint (wf_width f)) (uint (wf_height f)) = Some True"
proof -
  have "0 \<le> uint (wf_width f)" "0 \<le> uint (wf_height f)" by simp_all
  then show ?thesis using assms
    by (simp add: computeResync_def encode_frame_def encodeBinaryPayload_def kind_defs Let_def frame_header_of_def
        BINARY_FLAG_KEYFRAME_def)
qed

end
