(* ===== verification/RecordingPlayer.thy ===== *)
theory RecordingPlayer
  imports RecordingTapeProps Machine Complex_Main
begin

text \<open>
  The player of a recorded desktop session (\<open>components/desktop/desktop-recording-player.tsx\<close>): a clock that animation
  frames move, the output that is next to be painted, and the frames handed to the renderer. Times are rational
  numbers of milliseconds.
\<close>

section \<open>The player\<close>

definition SPEEDS :: "rat list" where "SPEEDS = [1 / 2, 1, 2, 4]"

text \<open>
  The refs and the states of the component; \<open>raf\<close> is set while an animation frame is requested.
  \<open>pass_start\<close> is the output at which the last seek began to paint and \<open>shown_frames\<close> lists what was handed to the
  renderer since.
\<close>

record player =
  cur_ms :: rat
  disp_ms :: rat
  shown_ms :: rat
  paint_idx :: nat
  is_playing :: bool
  player_speed :: rat
  last_tick :: rat
  raf :: bool
  pass_start :: nat
  shown_frames :: "FrameBytes list"

fun paint_loop :: "byte list \<Rightarrow> rat \<Rightarrow> dtr_output list \<Rightarrow> nat \<Rightarrow> FrameBytes list \<Rightarrow> (FrameBytes list \<times> nat) option" where
  "paint_loop buf to [] i batch = Some (batch, i)"
| "paint_loop buf to (rec # recs) i batch =
     (if to < of_int (do_tMs rec) then Some (batch, i)
      else case decodeOutput buf rec of None \<Rightarrow> None | Some fs \<Rightarrow> paint_loop buf to recs (i + 1) (batch @ fs))"

definition paintRange :: "'d dtr_tape \<Rightarrow> nat \<Rightarrow> rat \<Rightarrow> player \<Rightarrow> player option" where
  "paintRange tp from to s =
     map_option (\<lambda>(batch, i). s\<lparr>paint_idx := i, shown_frames := shown_frames s @ batch\<rparr>)
       (paint_loop (tape_buf tp) to (drop from (outputs tp)) from [])"

text \<open>The last output at or before the target that can start a seek\<close>

fun find_resync :: "dtr_output list \<Rightarrow> rat \<Rightarrow> nat \<Rightarrow> nat \<Rightarrow> nat" where
  "find_resync [] target i r = r"
| "find_resync (rec # recs) target i r =
     (if target < of_int (do_tMs rec) then r else find_resync recs target (i + 1) (if resync rec then i else r))"

definition clamp_target :: "'d dtr_tape \<Rightarrow> rat \<Rightarrow> rat" where
  "clamp_target tp targetMs = max 0 (min targetMs (of_int (durationMs tp)))"

definition seek_player :: "'d dtr_tape \<Rightarrow> rat \<Rightarrow> player \<Rightarrow> player option" where
  "seek_player tp targetMs s =
     (let target = clamp_target tp targetMs; r = find_resync (outputs tp) target 0 0
      in map_option (\<lambda>s. s\<lparr>cur_ms := target, disp_ms := target, shown_ms := target\<rparr>)
           (paintRange tp r target (s\<lparr>pass_start := r, shown_frames := []\<rparr>)))"

text \<open>The clock at an animation frame, and whether the end is reached\<close>

definition next_ms :: "'d dtr_tape \<Rightarrow> rat \<Rightarrow> player \<Rightarrow> rat \<times> bool" where
  "next_ms tp now s =
     (let dt = (if last_tick s \<noteq> 0 then now - last_tick s else 0); cur = cur_ms s + dt * player_speed s
      in if of_int (durationMs tp) \<le> cur then (of_int (durationMs tp), True) else (cur, False))"

definition show_clock :: "rat \<Rightarrow> bool \<Rightarrow> player \<Rightarrow> player" where
  "show_clock cur stop s =
     (let s1 = s\<lparr>cur_ms := cur\<rparr>;
          s2 = (if stop \<or> 66 \<le> \<bar>cur - disp_ms s1\<bar> then s1\<lparr>disp_ms := cur, shown_ms := cur\<rparr> else s1)
      in if stop then s2\<lparr>is_playing := False\<rparr> else s2\<lparr>raf := True\<rparr>)"

definition tick_player :: "'d dtr_tape \<Rightarrow> rat \<Rightarrow> player \<Rightarrow> player option" where
  "tick_player tp now s0 =
     (let s = s0\<lparr>raf := False\<rparr> in
      if \<not> is_playing s then Some s
      else case next_ms tp now s of
        (cur, stop) \<Rightarrow> map_option (show_clock cur stop) (paintRange tp (paint_idx s) cur (s\<lparr>last_tick := now\<rparr>)))"

definition play :: "'d dtr_tape \<Rightarrow> player \<Rightarrow> player option" where
  "play tp s =
     map_option (\<lambda>s. s\<lparr>is_playing := True, last_tick := 0, raf := True\<rparr>)
       (if of_int (durationMs tp) \<le> cur_ms s then seek_player tp 0 s else Some s)"

definition pause :: "player \<Rightarrow> player" where
  "pause s = s\<lparr>is_playing := False, raf := False\<rparr>"

definition onScrub :: "'d dtr_tape \<Rightarrow> rat \<Rightarrow> player \<Rightarrow> player option" where
  "onScrub tp target s =
     (if is_playing s then Option.bind (seek_player tp target (pause s)) (play tp)
      else seek_player tp target s)"

definition load_player :: "'d dtr_tape \<Rightarrow> player option" where
  "load_player tp =
     paintRange tp 0 0
       \<lparr>cur_ms = 0, disp_ms = 0, shown_ms = 0, paint_idx = 0, is_playing = False, player_speed = 1, last_tick = 0,
        raf = False, pass_start = 0, shown_frames = []\<rparr>"

text \<open>The handlers. The clock of the animation frames starts above 0 and does not go back.\<close>

datatype player_event = PlayButton | PlayerFrame rat | PlayerSeek rat | PlayerScrub rat | PlayerSpeed rat

fun player_enabled :: "player_event \<Rightarrow> player \<Rightarrow> bool" where
  "player_enabled (PlayerFrame now) s \<longleftrightarrow> raf s \<and> 0 < now \<and> last_tick s \<le> now"
| "player_enabled (PlayerSpeed v) s \<longleftrightarrow> v \<in> set SPEEDS"
| "player_enabled _ s \<longleftrightarrow> True"

fun player_do :: "'d dtr_tape \<Rightarrow> player_event \<Rightarrow> player \<Rightarrow> player option" where
  "player_do tp PlayButton s = (if is_playing s then Some (pause s) else play tp s)"
| "player_do tp (PlayerFrame now) s = tick_player tp now s"
| "player_do tp (PlayerSeek ms) s = seek_player tp ms s"
| "player_do tp (PlayerScrub ms) s = onScrub tp ms s"
| "player_do tp (PlayerSpeed v) s = Some (s\<lparr>player_speed := v\<rparr>)"

definition player_step :: "'d dtr_tape \<Rightarrow> player_event \<Rightarrow> player \<Rightarrow> player option" where
  "player_step tp e s = (if player_enabled e s then player_do tp e s else None)"

section \<open>Nothing raises on a tape that was parsed\<close>

lemma readFrameHeader_total: "off + BINARY_HEADER_SIZE \<le> length v \<Longrightarrow> readFrameHeader v off \<noteq> None"
  by (auto simp: readFrameHeader_def getUint8_def getUint32_def BINARY_HEADER_SIZE_def split: option.split)

lemma tape_batch_total: "tape_batch_items v n off frames \<noteq> None"
proof (induction n arbitrary: off frames)
  case (Suc n)
  show ?case
  proof (cases "length v < off + BINARY_HEADER_SIZE")
    case False
    then obtain h where "readFrameHeader v off = Some h" using readFrameHeader_total [of off v] by auto
    moreover have "getUint32 v (off + 24) \<noteq> None" using False by (simp add: getUint32_def BINARY_HEADER_SIZE_def)
    ultimately show ?thesis using Suc by (auto simp: Let_def split: option.split)
  qed simp
qed simp

lemma decodeOutput_total: "do_off rec + do_len rec \<le> length buf \<Longrightarrow> decodeOutput buf rec \<noteq> None"
proof (cases "do_len rec < BINARY_HEADER_SIZE")
  case False
  assume fits: "do_off rec + do_len rec \<le> length buf"
  then obtain v where view: "sub_view buf (do_off rec) (do_len rec) = Some v" and len: "length v = do_len rec"
    by (simp add: sub_view_def)
  have size: "32 \<le> length v" using False len by (simp add: BINARY_HEADER_SIZE_def)
  have "getUint8 v 0 \<noteq> None" "getUint32 v 24 \<noteq> None" "getUint32 v 0 \<noteq> None" "readFrameHeader v 0 \<noteq> None"
    using size readFrameHeader_total [of 0 v] by (auto simp: getUint8_def getUint32_def BINARY_HEADER_SIZE_def)
  then show ?thesis
    using False view tape_batch_total by (auto simp: decodeOutput_def decodeBatch_def split: option.split)
qed (simp add: decodeOutput_def)

definition tape_ok :: "'d dtr_tape \<Rightarrow> bool" where
  "tape_ok tp \<longleftrightarrow>
     0 \<le> durationMs tp
     \<and> (\<forall>rec \<in> set (outputs tp). do_off rec + do_len rec \<le> length (tape_buf tp) \<and> 0 \<le> do_tMs rec \<and> do_tMs rec \<le> durationMs tp)"

definition outputs_within :: "byte list \<Rightarrow> int \<Rightarrow> dtr_output list \<Rightarrow> bool" where
  "outputs_within buf d outs \<longleftrightarrow>
     0 \<le> d \<and> (\<forall>rec \<in> set outs. do_off rec + do_len rec \<le> length buf \<and> 0 \<le> do_tMs rec \<and> do_tMs rec \<le> d)"

lemma parse_records_within:
  "parse_records parse buf w h off d outs es = Some (d', outs', es') \<Longrightarrow> outputs_within buf d outs \<Longrightarrow> outputs_within buf d' outs'"
proof (induction "length buf - off" arbitrary: off d outs es rule: less_induct)
  case less
  show ?case
  proof (cases "length buf < off + REC_HEADER_SIZE")
    case True
    then show ?thesis using less.prems by (subst (asm) parse_records.simps) simp
  next
    case False
    then obtain kind t n where
      f: "getUint8 buf off = Some kind" "getUint32 buf (off + 1) = Some t" "getUint32 buf (off + 5) = Some n"
      by (auto simp: getUint8_def getUint32_def REC_HEADER_SIZE_def)
    let ?off = "off + REC_HEADER_SIZE" and ?d = "max d (uint t)"
    show ?thesis
    proof (cases "length buf < ?off + unat n")
      case True
      then show ?thesis using less.prems f False by (subst (asm) parse_records.simps) simp
    next
      case fits: False
      have "\<exists>outs1 es1. parse_records parse buf w h (?off + unat n) ?d outs1 es1 = Some (d', outs', es') \<and> outputs_within buf ?d outs1"
      proof (cases "kind = 1")
        case True
        let ?rec = "\<lambda>rs. \<lparr>do_tMs = uint t, do_off = ?off, do_len = unat n, resync = rs\<rparr>"
        obtain rs where "parse_records parse buf w h (?off + unat n) ?d (outs @ [?rec rs]) es = Some (d', outs', es')"
          using less.prems(1) f False fits True
          by (subst (asm) parse_records.simps) (auto simp: Let_def split: option.splits)
        moreover have "outputs_within buf ?d (outs @ [?rec rs])"
          using less.prems(2) fits by (auto simp: outputs_within_def le_max_iff_disj)
        ultimately show ?thesis by blast
      next
        case other: False
        have "\<exists>es1. parse_records parse buf w h (?off + unat n) ?d outs es1 = Some (d', outs', es')"
          using less.prems(1) f False fits other
          by (subst (asm) parse_records.simps) (auto simp: Let_def split: if_splits)
        moreover have "outputs_within buf ?d outs"
          using less.prems(2) by (auto simp: outputs_within_def le_max_iff_disj)
        ultimately show ?thesis by blast
      qed
      then obtain outs1 es1 where rest: "parse_records parse buf w h (?off + unat n) ?d outs1 es1 = Some (d', outs', es')"
        "outputs_within buf ?d outs1" by blast
      have "length buf - (?off + unat n) < length buf - off" using False by (simp add: REC_HEADER_SIZE_def)
      then show ?thesis using rest by (rule less.hyps)
    qed
  qed
qed

lemma parsed_tape_ok: "parseDtr parse buf = Some tp \<Longrightarrow> tape_ok tp"
proof -
  assume "parseDtr parse buf = Some tp"
  then obtain w h es where tp: "tape_buf tp = buf"
    "parse_records parse buf w h dtrHeaderSize 0 [] [] = Some (durationMs tp, outputs tp, es)"
    by (auto simp: parseDtr_def bind_eq_Some_conv split: if_splits)
  have "outputs_within buf 0 []" by (simp add: outputs_within_def)
  then have "outputs_within buf (durationMs tp) (outputs tp)" by (rule parse_records_within [OF tp(2)])
  then show ?thesis by (simp add: tape_ok_def outputs_within_def tp(1))
qed

section \<open>The picture is that of the moment\<close>

definition frames_of :: "'d dtr_tape \<Rightarrow> dtr_output \<Rightarrow> FrameBytes list" where
  "frames_of tp rec = the (decodeOutput (tape_buf tp) rec)"

definition due_outputs :: "'d dtr_tape \<Rightarrow> rat \<Rightarrow> nat" where
  "due_outputs tp ms = length (takeWhile (\<lambda>rec. of_int (do_tMs rec) \<le> ms) (outputs tp))"

lemma takeWhile_drop: "n \<le> length (takeWhile P xs) \<Longrightarrow> takeWhile P (drop n xs) = drop n (takeWhile P xs)"
proof (induction xs arbitrary: n)
  case (Cons x xs)
  then show ?case by (cases n) (auto split: if_splits)
qed simp

lemma take_due: "take (due_outputs tp ms) (outputs tp) = takeWhile (\<lambda>rec. of_int (do_tMs rec) \<le> ms) (outputs tp)"
  by (simp add: due_outputs_def takeWhile_eq_take [symmetric])

lemma due_mono: "a \<le> b \<Longrightarrow> due_outputs tp a \<le> due_outputs tp b"
proof -
  have "a \<le> b \<Longrightarrow> length (takeWhile (\<lambda>rec. of_int (do_tMs rec) \<le> a) xs) \<le> length (takeWhile (\<lambda>rec. of_int (do_tMs rec) \<le> b) xs)" for xs
    by (induction xs) auto
  then show "a \<le> b \<Longrightarrow> due_outputs tp a \<le> due_outputs tp b" by (simp add: due_outputs_def)
qed

lemma paint_loop_ok:
  "\<forall>rec \<in> set recs. decodeOutput buf rec \<noteq> None \<Longrightarrow>
   paint_loop buf to recs i batch =
     Some (batch @ concat (map (\<lambda>rec. the (decodeOutput buf rec)) (takeWhile (\<lambda>rec. of_int (do_tMs rec) \<le> to) recs)),
       i + length (takeWhile (\<lambda>rec. of_int (do_tMs rec) \<le> to) recs))"
  by (induction recs arbitrary: i batch) auto

lemma paintRange_ok:
  assumes "tape_ok tp" "from \<le> due_outputs tp to"
  shows "paintRange tp from to s =
    Some (s\<lparr>paint_idx := due_outputs tp to,
      shown_frames := shown_frames s @ concat (map (frames_of tp) (drop from (take (due_outputs tp to) (outputs tp))))\<rparr>)"
proof -
  have "\<forall>rec \<in> set (drop from (outputs tp)). decodeOutput (tape_buf tp) rec \<noteq> None"
    using assms(1) decodeOutput_total unfolding tape_ok_def by (meson in_set_dropD)
  from paint_loop_ok [OF this] have "paint_loop (tape_buf tp) to (drop from (outputs tp)) from [] =
     Some (concat (map (frames_of tp) (takeWhile (\<lambda>rec. of_int (do_tMs rec) \<le> to) (drop from (outputs tp)))),
       from + length (takeWhile (\<lambda>rec. of_int (do_tMs rec) \<le> to) (drop from (outputs tp))))"
    by (simp add: frames_of_def [abs_def])
  moreover have "takeWhile (\<lambda>rec. of_int (do_tMs rec) \<le> to) (drop from (outputs tp)) = drop from (take (due_outputs tp to) (outputs tp))"
    using assms(2) unfolding take_due by (simp add: due_outputs_def takeWhile_drop)
  moreover have "due_outputs tp to \<le> length (outputs tp)" by (simp add: due_outputs_def length_takeWhile_le)
  ultimately show ?thesis using assms(2) by (simp add: paintRange_def)
qed

lemma find_resync_spec:
  fixes recs :: "dtr_output list"
  defines "k ms \<equiv> length (takeWhile (\<lambda>rec. of_int (do_tMs rec) \<le> ms) recs)"
  shows "(find_resync recs target i r = r \<and> (\<forall>j < k target. \<not> resync (recs ! j)))
    \<or> (\<exists>j < k target. find_resync recs target i r = i + j \<and> resync (recs ! j) \<and> (\<forall>l. j < l \<and> l < k target \<longrightarrow> \<not> resync (recs ! l)))"
  unfolding k_def
proof (induction recs arbitrary: i r)
  case (Cons rec recs)
  let ?K = "length (takeWhile (\<lambda>rec. of_int (do_tMs rec) \<le> target) recs)"
  let ?r = "if resync rec then i else r"
  show ?case
  proof (cases "target < of_int (do_tMs rec)")
    case False
    from Cons.IH [of "i + 1" ?r] show ?thesis
    proof
      assume a: "find_resync recs target (i + 1) ?r = ?r \<and> (\<forall>j < ?K. \<not> resync (recs ! j))"
      show ?thesis
      proof (cases "resync rec")
        case True
        then show ?thesis using a False by (intro disjI2 exI [of _ 0]) (auto simp: nth_Cons')
      next
        case no: False
        then show ?thesis using a False by (intro disjI1) (auto simp: nth_Cons')
      qed
    next
      assume "\<exists>j < ?K. find_resync recs target (i + 1) ?r = i + 1 + j \<and> resync (recs ! j)
        \<and> (\<forall>l. j < l \<and> l < ?K \<longrightarrow> \<not> resync (recs ! l))"
      then obtain j where "j < ?K" "find_resync recs target (i + 1) ?r = i + 1 + j" "resync (recs ! j)"
        "\<forall>l. j < l \<and> l < ?K \<longrightarrow> \<not> resync (recs ! l)" by blast
      then show ?thesis using False by (intro disjI2 exI [of _ "j + 1"]) (auto simp: nth_Cons split: nat.split)
    qed
  qed simp
qed simp

definition player_inv :: "'d dtr_tape \<Rightarrow> player \<Rightarrow> bool" where
  "player_inv tp s \<longleftrightarrow>
     0 \<le> cur_ms s \<and> cur_ms s \<le> of_int (durationMs tp) \<and> shown_ms s = disp_ms s \<and> \<bar>cur_ms s - disp_ms s\<bar> < 66
     \<and> 0 < player_speed s \<and> 0 \<le> last_tick s \<and> raf s = is_playing s
     \<and> paint_idx s = due_outputs tp (cur_ms s) \<and> pass_start s \<le> paint_idx s
     \<and> (pass_start s = 0 \<or> pass_start s < length (outputs tp) \<and> resync (outputs tp ! pass_start s))
     \<and> shown_frames s = concat (map (frames_of tp) (drop (pass_start s) (take (paint_idx s) (outputs tp))))"

lemma seek_player_ok:
  assumes "tape_ok tp"
  shows "\<exists>r. seek_player tp ms s = Some (s\<lparr>cur_ms := clamp_target tp ms, disp_ms := clamp_target tp ms, shown_ms := clamp_target tp ms,
      paint_idx := due_outputs tp (clamp_target tp ms), pass_start := r,
      shown_frames := concat (map (frames_of tp) (drop r (take (due_outputs tp (clamp_target tp ms)) (outputs tp))))\<rparr>)
    \<and> r \<le> due_outputs tp (clamp_target tp ms)
    \<and> (r = 0 \<or> r < length (outputs tp) \<and> resync (outputs tp ! r))
    \<and> (\<forall>l. r < l \<and> l < due_outputs tp (clamp_target tp ms) \<longrightarrow> \<not> resync (outputs tp ! l))"
proof -
  let ?t = "clamp_target tp ms" and ?r = "find_resync (outputs tp) (clamp_target tp ms) 0 0"
  have k: "due_outputs tp ?t \<le> length (outputs tp)" by (simp add: due_outputs_def length_takeWhile_le)
  have r: "?r \<le> due_outputs tp ?t" "?r = 0 \<or> ?r < length (outputs tp) \<and> resync (outputs tp ! ?r)"
    "\<forall>l. ?r < l \<and> l < due_outputs tp ?t \<longrightarrow> \<not> resync (outputs tp ! l)"
    using find_resync_spec [of "outputs tp" ?t 0 0] k by (auto simp: due_outputs_def)
  then show ?thesis
    using paintRange_ok [OF assms r(1)] by (intro exI [of _ ?r]) (simp add: seek_player_def Let_def)
qed

lemma clamp_range: "tape_ok tp \<Longrightarrow> 0 \<le> clamp_target tp ms \<and> clamp_target tp ms \<le> of_int (durationMs tp)"
  by (simp add: clamp_target_def tape_ok_def)

lemma seek_player_inv:
  assumes "tape_ok tp" "seek_player tp ms s = Some s'" "0 < player_speed s" "0 \<le> last_tick s" "raf s = is_playing s"
  shows "player_inv tp s'"
  using seek_player_ok [OF assms(1), of ms s] clamp_range [OF assms(1), of ms] assms(2-) by (auto simp: player_inv_def)

lemma seek_player_fields:
  "seek_player tp ms s = Some s' \<Longrightarrow>
   player_speed s' = player_speed s \<and> last_tick s' = last_tick s \<and> raf s' = raf s \<and> is_playing s' = is_playing s"
  by (auto simp: seek_player_def paintRange_def Let_def)

lemma play_inv:
  assumes "tape_ok tp" "player_inv tp s" "play tp s = Some s'"
  shows "player_inv tp s'"
proof (cases "of_int (durationMs tp) \<le> cur_ms s")
  case True
  with assms(3) obtain s1 where s1: "seek_player tp 0 s = Some s1" "s' = s1\<lparr>is_playing := True, last_tick := 0, raf := True\<rparr>"
    by (auto simp: play_def)
  have "player_inv tp s1" by (rule seek_player_inv [OF assms(1) s1(1)]) (use assms(2) in \<open>simp_all add: player_inv_def\<close>)
  then show ?thesis by (simp add: s1(2) player_inv_def)
next
  case False
  then show ?thesis using assms(2,3) by (auto simp: play_def player_inv_def)
qed

lemma slice_join: "a \<le> b \<Longrightarrow> b \<le> c \<Longrightarrow> drop a (take b xs) @ drop b (take c xs) = drop a (take c xs)"
proof -
  assume "a \<le> b" "b \<le> c"
  then have "take c xs = take b xs @ drop b (take c xs)"
    by (metis append_take_drop_id min.absorb1 take_take)
  then have "drop a (take c xs) = drop a (take b xs @ drop b (take c xs))" by (rule arg_cong)
  then show ?thesis using \<open>a \<le> b\<close> by (cases "b \<le> length xs") simp_all
qed

lemma next_ms_range:
  assumes "tape_ok tp" "player_inv tp s" "last_tick s \<le> now" "next_ms tp now (s\<lparr>raf := b\<rparr>) = (cur, stop)"
  shows "cur_ms s \<le> cur" "0 \<le> cur" "cur \<le> of_int (durationMs tp)"
proof -
  have "0 \<le> (if last_tick s \<noteq> 0 then now - last_tick s else 0) * player_speed s"
    using assms(2,3) by (simp add: player_inv_def)
  then show "cur_ms s \<le> cur" "0 \<le> cur" "cur \<le> of_int (durationMs tp)"
    using assms(2,4) by (auto simp: player_inv_def next_ms_def Let_def split: if_splits)
qed

lemma tick_inv:
  assumes "tape_ok tp" "player_inv tp s" "0 < now" "last_tick s \<le> now"
  shows "\<exists>s'. tick_player tp now s = Some s' \<and> player_inv tp s'"
proof (cases "is_playing s")
  case True
  obtain cur stop where nm: "next_ms tp now (s\<lparr>raf := False\<rparr>) = (cur, stop)" by fastforce
  note le = next_ms_range [OF assms(1,2,4) nm]
  have idx: "paint_idx s = due_outputs tp (cur_ms s)" using assms(2) by (simp add: player_inv_def)
  then have due: "paint_idx s \<le> due_outputs tp cur" using due_mono [OF le(1), of tp] by (simp only:)
  have start: "pass_start s \<le> paint_idx s" using assms(2) by (simp add: player_inv_def)
  let ?frames = "\<lambda>a b. concat (map (frames_of tp) (drop a (take b (outputs tp))))"
  have "shown_frames s = ?frames (pass_start s) (paint_idx s)" using assms(2) by (simp add: player_inv_def)
  then have frames: "shown_frames s @ ?frames (paint_idx s) (due_outputs tp cur) = ?frames (pass_start s) (due_outputs tp cur)"
    by (simp flip: slice_join [OF start due])
  have "tick_player tp now s = Some (show_clock cur stop (s\<lparr>raf := False, last_tick := now, paint_idx := due_outputs tp cur,
      shown_frames := ?frames (pass_start s) (due_outputs tp cur)\<rparr>))"
    using True nm paintRange_ok [OF assms(1) due, of "s\<lparr>raf := False, last_tick := now\<rparr>"] frames
    by (simp add: tick_player_def)
  moreover have "player_inv tp (show_clock cur stop (s\<lparr>raf := False, last_tick := now, paint_idx := due_outputs tp cur,
      shown_frames := ?frames (pass_start s) (due_outputs tp cur)\<rparr>))"
    using assms(2,3) le due start True by (simp add: player_inv_def show_clock_def Let_def)
  ultimately show ?thesis by blast
qed (use assms(2) in \<open>simp add: tick_player_def player_inv_def\<close>)

lemma play_total: "tape_ok tp \<Longrightarrow> play tp s \<noteq> None"
  using seek_player_ok [of tp 0 s] by (auto simp: play_def)

lemma player_do_inv:
  assumes "tape_ok tp" "player_inv tp s" "player_enabled e s"
  shows "\<exists>s'. player_do tp e s = Some s' \<and> player_inv tp s'"
proof (cases e)
  case PlayButton
  show ?thesis
  proof (cases "is_playing s")
    case True
    then show ?thesis using assms(2) PlayButton by (simp add: pause_def player_inv_def)
  next
    case False
    then show ?thesis using play_total [OF assms(1), of s] play_inv [OF assms(1,2)] PlayButton by auto
  qed
next
  case (PlayerFrame now)
  then show ?thesis using tick_inv [OF assms(1,2)] assms(3) by simp
next
  case (PlayerSeek ms)
  obtain s' where s': "seek_player tp ms s = Some s'" using seek_player_ok [OF assms(1), of ms s] by blast
  then show ?thesis using seek_player_inv [OF assms(1) s'] assms(2) PlayerSeek by (simp add: player_inv_def)
next
  case (PlayerScrub ms)
  show ?thesis
  proof (cases "is_playing s")
    case True
    obtain s1 where s1: "seek_player tp ms (pause s) = Some s1" using seek_player_ok [OF assms(1), of ms "pause s"] by blast
    have "player_inv tp s1"
      by (rule seek_player_inv [OF assms(1) s1]) (use assms(2) in \<open>simp_all add: player_inv_def pause_def\<close>)
    then show ?thesis using play_total [OF assms(1), of s1] play_inv [OF assms(1)] s1 True PlayerScrub by (auto simp: onScrub_def)
  next
    case False
    obtain s' where s': "seek_player tp ms s = Some s'" using seek_player_ok [OF assms(1), of ms s] by blast
    then show ?thesis using seek_player_inv [OF assms(1) s'] assms(2) PlayerScrub False by (simp add: player_inv_def onScrub_def)
  qed
next
  case (PlayerSpeed v)
  then show ?thesis using assms(2,3) by (auto simp: player_inv_def SPEEDS_def)
qed

interpretation player_machine: machine "player_step tp" "\<lambda>s. tape_ok tp \<and> player_inv tp s" for tp
  using player_do_inv by unfold_locales (fastforce simp: player_step_def split: if_splits)

lemma load_player_inv: "tape_ok tp \<Longrightarrow> \<exists>s. load_player tp = Some s \<and> player_inv tp s"
  using paintRange_ok [of tp 0 0] by (auto simp: load_player_def player_inv_def tape_ok_def)

text \<open>C37: For a tape that parses the player loads, and no click, scrub or animation frame raises: at every moment the
  outputs up to the clock, and none after it, have been painted; what the renderer was given since the last
  seek are the frames from its first output on, each once and in order, and a seek starts at the first output of the tape or at
  the latest one at or before its target that repaints the screen.\<close>

theorem player_shows_the_moment:
  assumes "parseDtr parse buf = Some tp" "load_player tp = Some s0" "run_steps (player_step tp) es s0 = Some s"
  shows "(\<forall>i < paint_idx s. of_int (do_tMs (outputs tp ! i)) \<le> cur_ms s)
    \<and> (paint_idx s < length (outputs tp) \<longrightarrow> cur_ms s < of_int (do_tMs (outputs tp ! paint_idx s)))
    \<and> shown_frames s = concat (map (frames_of tp) (drop (pass_start s) (take (paint_idx s) (outputs tp))))
    \<and> (pass_start s = 0 \<or> resync (outputs tp ! pass_start s)) \<and> 0 \<le> cur_ms s \<and> cur_ms s \<le> of_int (durationMs tp)
    \<and> (\<forall>e. player_enabled e s \<longrightarrow> player_step tp e s \<noteq> None)
    \<and> (\<forall>ms s'. player_step tp (PlayerSeek ms) s = Some s' \<longrightarrow>
         (\<forall>l. pass_start s' < l \<and> l < paint_idx s' \<longrightarrow> \<not> resync (outputs tp ! l)))"
proof -
  have ok: "tape_ok tp" by (rule parsed_tape_ok [OF assms(1)])
  have "tape_ok tp \<and> player_inv tp s0" using load_player_inv [OF ok] assms(2) ok by auto
  then have inv: "player_inv tp s" using player_machine.run_inv [OF assms(3)] by blast
  let ?P = "\<lambda>rec. of_int (do_tMs rec) \<le> cur_ms s"
  have idx: "paint_idx s = length (takeWhile ?P (outputs tp))" using inv by (simp add: player_inv_def due_outputs_def)
  have "of_int (do_tMs (outputs tp ! i)) \<le> cur_ms s" if "i < paint_idx s" for i
  proof -
    have i: "i < length (takeWhile ?P (outputs tp))" using that idx by simp
    show ?thesis using set_takeWhileD [OF nth_mem [OF i]] by (simp only: takeWhile_nth [OF i])
  qed
  moreover have "cur_ms s < of_int (do_tMs (outputs tp ! paint_idx s))" if "paint_idx s < length (outputs tp)"
    using nth_length_takeWhile [of ?P "outputs tp"] that idx by simp
  moreover have "player_step tp e s \<noteq> None" if "player_enabled e s" for e
    using player_do_inv [OF ok inv that] that by (auto simp: player_step_def)
  moreover have "\<not> resync (outputs tp ! l)"
    if "player_step tp (PlayerSeek ms) s = Some s'" "pass_start s' < l" "l < paint_idx s'" for ms s' l
    using seek_player_ok [OF ok, of ms s] that by (auto simp: player_step_def)
  ultimately show ?thesis using inv by (auto simp: player_inv_def)
qed

text \<open>A tape with one frame at 5 ms and an event at 9 ms, played for 7 ms\<close>

definition pixel_frame :: wire_frame where
  "pixel_frame = \<lparr>wf_x = 0, wf_y = 0, wf_width = 8, wf_height = 8, wf_encoding = Jpeg, wf_keyframe = False, wf_payload = [9, 8]\<rparr>"

definition short_tape :: "byte list" where
  "short_tape = tape_header 8 8 True 100 @ encode_records [(RecordOutput, 5, encode_frame pixel_frame), (RecordEvent, 9, [7])]"

definition short_parsed :: "byte list dtr_tape" where
  "short_parsed = \<lparr>tape_buf = short_tape, tape_version = 1, hasInput = True, tape_width = 8, tape_height = 8, startMs = 100,
     durationMs = 9, outputs = [\<lparr>do_tMs = 5, do_off = 27, do_len = 34, resync = True\<rparr>],
     timeline = [\<lparr>de_tMs = 9, de_kind = EventEntry, de_data = [7]\<rparr>]\<rparr>"

lemma parse_short: "parseDtr Some short_tape = Some short_parsed"
  by code_simp

lemma play_short:
  "Option.bind (load_player short_parsed) (run_steps (player_step short_parsed) [PlayButton, PlayerFrame 10, PlayerFrame 17])
    = Some \<lparr>cur_ms = 7, disp_ms = 0, shown_ms = 0, paint_idx = 1, is_playing = True, player_speed = 1, last_tick = 17, raf = True,
        pass_start = 0, shown_frames = [frame_view pixel_frame]\<rparr>"
  by code_simp

theorem player_shows_the_moment_witness:
  "\<exists>s. Option.bind (load_player short_parsed) (run_steps (player_step short_parsed) [PlayButton, PlayerFrame 10, PlayerFrame 17])
      = Some s \<and> of_int (do_tMs (outputs short_parsed ! 0)) \<le> cur_ms s
     \<and> shown_frames s = concat (map (frames_of short_parsed) (outputs short_parsed))"
proof -
  obtain s0 where s0: "load_player short_parsed = Some s0" using play_short by (cases "load_player short_parsed") auto
  obtain s where s: "run_steps (player_step short_parsed) [PlayButton, PlayerFrame 10, PlayerFrame 17] s0 = Some s"
    "paint_idx s = 1" "pass_start s = 0"
    using play_short s0 by (simp del: run_steps.simps)
  have "length (outputs short_parsed) = 1" by (simp add: short_parsed_def)
  then show ?thesis
    using player_shows_the_moment [OF parse_short s0 s(1)] s s0 by (intro exI [of _ s]) (simp del: run_steps.simps)
qed

text \<open>Scrubbing to the end while the tape plays starts it again from the beginning.\<close>

lemma scrub_to_end_restarts:
  assumes "tape_ok tp" "is_playing s" "of_int (durationMs tp) \<le> ms"
  shows "\<exists>s'. onScrub tp ms s = Some s' \<and> cur_ms s' = 0 \<and> is_playing s'"
proof -
  have c: "clamp_target tp ms = of_int (durationMs tp)" "clamp_target tp 0 = 0"
    using assms(1,3) by (simp_all add: clamp_target_def tape_ok_def)
  obtain s1 where s1: "seek_player tp ms (pause s) = Some s1" "cur_ms s1 = of_int (durationMs tp)"
    using seek_player_ok [OF assms(1), of ms "pause s"] c by auto
  obtain s2 where "seek_player tp 0 s1 = Some s2" "cur_ms s2 = 0"
    using seek_player_ok [OF assms(1), of 0 s1] c by auto
  then show ?thesis using s1 assms(2) by (simp add: onScrub_def play_def)
qed

end
