(* ===== verification/RecordingAudit.thy ===== *)
theory RecordingAudit
  imports RecordingTape
begin

text \<open>
  The audit timeline beside the player of a recorded session (\<open>components/desktop/desktop-recording-player.tsx\<close>, from
  \<open>buildAuditRows\<close> down): the entries of the tape become readable rows, consecutive key strokes one row of typed text.
\<close>

section \<open>Entries and rows\<close>

text \<open>
  What the rows are made of, in the types the component reads the entries' data as. \<open>keysym\<close> is \<open>None\<close> where
  \<open>Number\<close> gives no finite number.
\<close>

record audit_key =
  audit_keysym :: "int option"
  audit_pressed :: bool

record audit_mouse =
  audit_x :: "int option"
  audit_y :: "int option"
  audit_buttons :: "int option"
  audit_wheel :: "int option"

record audit_data =
  data_key :: "audit_key option"
  data_mouse :: "audit_mouse option"
  data_clipboard :: "string option option"
  data_text :: "string option"
  data_type :: string
  data_message :: string
  data_size :: "(int \<times> int) option"

datatype row_kind = TypedRow | WheelRow | MouseRow | ClipboardRow | EventRow

record audit_row =
  row_at :: int
  row_kind :: row_kind
  row_text :: string

section \<open>Texts\<close>

definition utf8 :: "nat list \<Rightarrow> string" where
  "utf8 cs = concat (map utf8_char cs)"

definition special_keysyms :: "(int \<times> nat) list" where
  "special_keysyms =
     [(0xff0d, 0x23ce), (0xff8d, 0x23ce), (0xff09, 0x21e5), (0xff08, 0x232b), (0xffff, 0x2326), (0xff1b, 0x238b),
      (0xff51, 0x2190), (0xff52, 0x2191), (0xff53, 0x2192), (0xff54, 0x2193)]"

definition keysymLabel :: "int option \<Rightarrow> string option" where
  "keysymLabel keysym =
     (case keysym of
        None \<Rightarrow> None
      | Some k \<Rightarrow>
          if 0x20 \<le> k \<and> k \<le> 0x7e then Some [char_of (nat k)]
          else map_option utf8_char (map_of special_keysyms k))"

definition mouseButtons :: "int option \<Rightarrow> string" where
  "mouseButtons buttons =
     (let m = nullish buttons 0;
          parts = (if m AND 1 \<noteq> 0 then [utf8 [0x5de6, 0x952e]] else [])
            @ (if m AND 2 \<noteq> 0 then [utf8 [0x4e2d, 0x952e]] else [])
            @ (if m AND 4 \<noteq> 0 then [utf8 [0x53f3, 0x952e]] else [])
      in if parts = [] then utf8 [0x79fb, 0x52a8] else join_with ''+'' parts)"

definition event_names :: "(string \<times> nat list) list" where
  "event_names =
     [(''session-start'', [0x4f1a, 0x8bdd, 0x5f00, 0x59cb]), (''session-end'', [0x4f1a, 0x8bdd, 0x7ed3, 0x675f]),
      (''ws-detach'', [0x65ad, 0x5f00, 0x67e5, 0x770b]), (''status:CONNECTING'', [0x8fde, 0x63a5, 0x4e2d]),
      (''status:HANDSHAKE'', [0x63e1, 0x624b]), (''status:CONNECTED'', [0x5df2, 0x8fde, 0x63a5]),
      (''status:RECONNECTING'', [0x91cd, 0x8fde, 0x4e2d]), (''status:CLOSED'', [0x5df2, 0x5173, 0x95ed]),
      (''status:ERROR'', [0x9519, 0x8bef]), (''clipboard-out'', [0x8fdc, 0x7aef, 0x526a, 0x8d34, 0x677f])]"

definition describeEvent :: "audit_data \<Rightarrow> string" where
  "describeEvent d =
     (let base = (case map_of event_names (data_type d) of None \<Rightarrow> data_type d | Some cs \<Rightarrow> utf8 cs)
      in (case data_size d of
            Some (w, h) \<Rightarrow>
              if data_type d = ''session-start'' \<and> w \<noteq> 0 then base @ '' '' @ show_int w @ utf8 [0xd7] @ show_int h
              else if data_message d \<noteq> [] then base @ utf8 [0xff1a] @ data_message d else base
          | None \<Rightarrow> if data_message d \<noteq> [] then base @ utf8 [0xff1a] @ data_message d else base))"

definition fmtClock :: "int \<Rightarrow> string" where
  "fmtClock ms =
     (let total = max 0 (ms div 1000); m = total div 60; s = total mod 60
      in show_int m @ '':'' @ (if s < 10 then CHR ''0'' # show_int s else show_int s))"

section \<open>Rows\<close>

text \<open>The run of typed text under way: when it began, and the text.\<close>

type_synonym typing = "(int \<times> string) option"

definition flush_typing :: "typing \<Rightarrow> audit_row list \<Rightarrow> audit_row list" where
  "flush_typing typing rows =
     (case typing of
        Some (t, text) \<Rightarrow> if text \<noteq> [] then rows @ [\<lparr>row_at = t, row_kind = TypedRow, row_text = text\<rparr>] else rows
      | None \<Rightarrow> rows)"

definition append_typing :: "int \<Rightarrow> string \<Rightarrow> typing \<Rightarrow> typing" where
  "append_typing t label typing =
     (case typing of None \<Rightarrow> Some (t, label) | Some (t0, text) \<Rightarrow> Some (t0, text @ label))"

definition mouse_row :: "int \<Rightarrow> audit_mouse \<Rightarrow> audit_row" where
  "mouse_row t m =
     (let place = ''('' @ show_int (nullish (audit_x m) 0) @ '', '' @ show_int (nullish (audit_y m) 0) @ '')'';
          wheel = nullish (audit_wheel m) 0
      in if wheel \<noteq> 0 then
           \<lparr>row_at = t, row_kind = WheelRow, row_text = utf8 [if 0 < wheel then 0x4e0a else 0x4e0b] @ '' '' @ place\<rparr>
         else \<lparr>row_at = t, row_kind = MouseRow, row_text = mouseButtons (audit_buttons m) @ '' '' @ place\<rparr>)"

definition input_row :: "int \<Rightarrow> audit_data \<Rightarrow> audit_row list" where
  "input_row t d =
     (case data_mouse d of
        Some m \<Rightarrow> [mouse_row t m]
      | None \<Rightarrow>
          case data_clipboard d of
            Some mime \<Rightarrow> [\<lparr>row_at = t, row_kind = ClipboardRow, row_text = utf8 [0x7c98, 0x8d34] @ '' '' @ nullish mime []\<rparr>]
          | None \<Rightarrow> [])"

fun audit_step :: "audit_data dtr_entry \<Rightarrow> audit_row list \<times> typing \<Rightarrow> audit_row list \<times> typing" where
  "audit_step e (rows, typing) =
     (let t = de_tMs e; d = de_data e in
      if de_kind e = EventEntry then
        (flush_typing typing rows @ [\<lparr>row_at = t, row_kind = EventRow, row_text = describeEvent d\<rparr>], None)
      else if truthy_str (data_text d) then (rows, append_typing t (nullish (data_text d) []) typing)
      else case data_key d of
        Some k \<Rightarrow>
          if audit_pressed k then
            (case keysymLabel (audit_keysym k) of
               Some label \<Rightarrow> (rows, append_typing t label typing)
             | None \<Rightarrow> (flush_typing typing rows, None))
          else (rows, typing)
      | None \<Rightarrow> (flush_typing typing rows @ input_row t d, None))"

definition buildAuditRows :: "audit_data dtr_entry list \<Rightarrow> audit_row list" where
  "buildAuditRows entries = (case fold audit_step entries ([], None) of (rows, typing) \<Rightarrow> flush_typing typing rows)"

section \<open>What was typed\<close>

definition is_typed :: "audit_row \<Rightarrow> bool" where
  "is_typed r \<longleftrightarrow> row_kind r = TypedRow"

text \<open>The text an entry contributes, and the row it has of its own\<close>

definition typed_text :: "audit_data dtr_entry \<Rightarrow> string" where
  "typed_text e =
     (let d = de_data e in
      if de_kind e = EventEntry then []
      else if nullish (data_text d) [] \<noteq> [] then nullish (data_text d) []
      else case data_key d of
        Some k \<Rightarrow> if audit_pressed k then nullish (keysymLabel (audit_keysym k)) [] else []
      | None \<Rightarrow> [])"

definition own_row :: "audit_data dtr_entry \<Rightarrow> audit_row list" where
  "own_row e =
     (let d = de_data e in
      if de_kind e = EventEntry then [\<lparr>row_at = de_tMs e, row_kind = EventRow, row_text = describeEvent d\<rparr>]
      else if nullish (data_text d) [] = [] \<and> data_key d = None then input_row (de_tMs e) d else [])"

definition pending_text :: "typing \<Rightarrow> string" where
  "pending_text typing = (case typing of None \<Rightarrow> [] | Some (t, text) \<Rightarrow> text)"

definition typed_rows :: "audit_row list \<Rightarrow> string" where
  "typed_rows rows = concat (map row_text (filter is_typed rows))"

lemma typed_rows_append [simp]: "typed_rows (a @ b) = typed_rows a @ typed_rows b" "typed_rows [] = []"
  by (simp_all add: typed_rows_def)

lemma input_row_untyped [simp]: "filter is_typed (input_row t d) = []" "filter (\<lambda>r. \<not> is_typed r) (input_row t d) = input_row t d"
  "typed_rows (input_row t d) = []"
  by (auto simp: input_row_def mouse_row_def is_typed_def typed_rows_def Let_def split: option.split)

lemma input_row_at: "r \<in> set (input_row t d) \<Longrightarrow> row_at r = t"
  by (auto simp: input_row_def mouse_row_def Let_def split: option.splits if_splits)

lemma flush_typed [simp]:
  "typed_rows (flush_typing typing rows) = typed_rows rows @ pending_text typing"
  "filter (\<lambda>r. \<not> is_typed r) (flush_typing typing rows) = filter (\<lambda>r. \<not> is_typed r) rows"
  by (auto simp: flush_typing_def pending_text_def typed_rows_def is_typed_def split: option.split)

lemma append_typed [simp]: "pending_text (append_typing t label typing) = pending_text typing @ label"
  by (auto simp: append_typing_def pending_text_def split: option.split)

lemma event_row_untyped [simp]:
  "\<not> is_typed \<lparr>row_at = t, row_kind = EventRow, row_text = x\<rparr>"
  "typed_rows [\<lparr>row_at = t, row_kind = EventRow, row_text = x\<rparr>] = []"
  by (simp_all add: is_typed_def typed_rows_def)

lemma pending_None [simp]: "pending_text None = []"
  by (simp add: pending_text_def)

text \<open>One entry: the text of the typed rows grows by its text, the other rows by its own row.\<close>

lemma audit_step_effect:
  assumes "audit_step e (rows, typing) = (rows', typing')"
  shows "typed_rows rows' @ pending_text typing' = typed_rows rows @ pending_text typing @ typed_text e
    \<and> filter (\<lambda>r. \<not> is_typed r) rows' = filter (\<lambda>r. \<not> is_typed r) rows @ own_row e"
proof (cases "de_kind e")
  case EventEntry
  then show ?thesis using assms by (auto simp: typed_text_def own_row_def Let_def)
next
  case InputEntry
  then show ?thesis
    using assms
    by (auto simp: typed_text_def own_row_def Let_def nullish_def truthy_str_def
        split: option.splits if_splits)
qed

lemma audit_fold_effect:
  "fold audit_step es (rows, typing) = (rows', typing') \<Longrightarrow>
   typed_rows rows' @ pending_text typing' = typed_rows rows @ pending_text typing @ concat (map typed_text es)
   \<and> filter (\<lambda>r. \<not> is_typed r) rows' = filter (\<lambda>r. \<not> is_typed r) rows @ concat (map own_row es)"
proof (induction es arbitrary: rows typing)
  case (Cons e es)
  obtain r1 t1 where s: "audit_step e (rows, typing) = (r1, t1)" by fastforce
  with Cons.prems have "fold audit_step es (r1, t1) = (rows', typing')" by simp
  from Cons.IH [OF this] audit_step_effect [OF s] show ?case by simp
qed simp

text \<open>The rows are in the order of time, and those not yet there come later.\<close>

definition rows_until :: "int \<Rightarrow> audit_row list \<times> typing \<Rightarrow> bool" where
  "rows_until t st =
     (case st of (rows, typing) \<Rightarrow>
        sorted (map row_at rows) \<and> (\<forall>r \<in> set rows. row_at r \<le> t)
        \<and> (case typing of None \<Rightarrow> True | Some (t0, text) \<Rightarrow> t0 \<le> t \<and> (\<forall>r \<in> set rows. row_at r \<le> t0)))"

lemma rows_until_mono: "rows_until t st \<Longrightarrow> t \<le> t' \<Longrightarrow> rows_until t' st"
  by (force simp: rows_until_def split: prod.splits option.splits)

lemma rows_until_flush: "rows_until t (rows, typing) \<Longrightarrow> rows_until t (flush_typing typing rows, None)"
  by (auto simp: rows_until_def flush_typing_def sorted_append split: option.splits)

lemma rows_until_own:
  "rows_until t (rows, None) \<Longrightarrow> length own \<le> 1 \<Longrightarrow> \<forall>r \<in> set own. row_at r = t \<Longrightarrow> rows_until t (rows @ own, None)"
  by (cases own) (auto simp: rows_until_def sorted_append)

lemma rows_until_append: "rows_until t (rows, typing) \<Longrightarrow> rows_until t (rows, append_typing t label typing)"
  by (auto simp: rows_until_def append_typing_def split: option.splits)

lemma audit_step_sorted:
  assumes "rows_until (de_tMs e) (rows, typing)" shows "rows_until (de_tMs e) (audit_step e (rows, typing))"
proof -
  let ?t = "de_tMs e"
  note flushed = rows_until_flush [OF assms]
  have "rows_until ?t (flush_typing typing rows @ [\<lparr>row_at = ?t, row_kind = EventRow, row_text = x\<rparr>], None)" for x
    by (rule rows_until_own [OF flushed]) simp_all
  moreover have "rows_until ?t (flush_typing typing rows @ input_row ?t d, None)" for d
    by (rule rows_until_own [OF flushed]) (auto simp: input_row_at, simp add: input_row_def split: option.split)
  ultimately show ?thesis
    using assms flushed by (auto simp: Let_def rows_until_append split: option.split)
qed

lemma audit_fold_sorted:
  "rows_until t st \<Longrightarrow> sorted (t # map de_tMs es) \<Longrightarrow> \<exists>t'. rows_until t' (fold audit_step es st)"
proof (induction es arbitrary: t st)
  case (Cons e es)
  obtain rows typing where st: "st = (rows, typing)" by fastforce
  have "rows_until (de_tMs e) (rows, typing)" using Cons.prems st rows_until_mono by simp
  then have "rows_until (de_tMs e) (audit_step e st)" unfolding st by (rule audit_step_sorted)
  then show ?case using Cons.IH Cons.prems(2) by simp
qed auto


text \<open>A letter, a key without a label (an e with an acute accent), a letter, and an event\<close>

definition key_entry :: "int \<Rightarrow> int \<Rightarrow> audit_data dtr_entry" where
  "key_entry t k =
     \<lparr>de_tMs = t, de_kind = InputEntry, de_data = \<lparr>data_key = Some \<lparr>audit_keysym = Some k, audit_pressed = True\<rparr>, data_mouse = None,
        data_clipboard = None, data_text = None, data_type = [], data_message = [], data_size = None\<rparr>\<rparr>"

lemma key_labels: "keysymLabel (Some 0x68) = Some ''h''" "keysymLabel (Some 0xe9) = None" "keysymLabel (Some 0x69) = Some ''i''"
  by (simp_all add: keysymLabel_def special_keysyms_def char_of_def bit_0)


end
