(* ===== verification/DesktopInput.thy ===== *)
theory DesktopInput
  imports KeyMap Machine Complex_Main
begin

text \<open>
  Keyboard, mouse and input method of the remote desktop: \<open>attachInputs\<close> and \<open>sendCombo\<close> of
  \<open>components/desktop/desktop-display.tsx\<close>. The listeners turn events into messages to the worker and remember which
  scancodes are down, so that they can be released when the focus leaves.
\<close>

section \<open>The state\<close>

datatype input_message =
    SendMouse rat rat int int | SendScancode Scancode "int option" bool | SendKeysym int bool | SendText string

text \<open>\<open>heldScancodes\<close> is a \<open>Set\<close> in the order of insertion; \<open>input_sent\<close> lists the messages passed to the client.\<close>

record desktop_input =
  pressedButtons :: int
  suppressKeyup :: bool
  heldScancodes :: "int list"
  pointer :: "(rat \<times> rat) option"
  attached :: bool
  input_sent :: "input_message list"

definition attachInputs :: desktop_input where
  "attachInputs =
     \<lparr>pressedButtons = 0, suppressKeyup = False, heldScancodes = [], pointer = None, attached = True, input_sent = []\<rparr>"

definition send_input :: "input_message \<Rightarrow> desktop_input \<Rightarrow> desktop_input" where
  "send_input m s = s\<lparr>input_sent := input_sent s @ [m]\<rparr>"

section \<open>The mouse\<close>

text \<open>The box of the canvas on the screen, and its size in pixels of the remote desktop\<close>

record canvas_box =
  box_left :: rat
  box_top :: rat
  box_width :: rat
  box_height :: rat
  pixel_width :: int
  pixel_height :: int

definition remote_extent :: "int \<Rightarrow> rat \<Rightarrow> rat" where
  "remote_extent pixels shown = (if pixels \<noteq> 0 then of_int pixels else if shown \<noteq> 0 then shown else 1)"

definition remote_coordinate :: "rat \<Rightarrow> rat \<Rightarrow> rat \<Rightarrow> rat" where
  "remote_coordinate extent shown d =
     (let s = (if 0 < shown then extent / shown else 1); x = of_int \<lfloor>d * s + 1 / 2\<rfloor>
      in max 0 (min (extent - 1) x))"

definition toRemote :: "canvas_box \<Rightarrow> rat \<times> rat \<Rightarrow> rat \<times> rat" where
  "toRemote box p =
     (remote_coordinate (remote_extent (pixel_width box) (box_width box)) (box_width box) (fst p - box_left box),
      remote_coordinate (remote_extent (pixel_height box) (box_height box)) (box_height box) (snd p - box_top box))"

definition MOUSE_BUTTON_LEFT :: int where "MOUSE_BUTTON_LEFT = 1"
definition MOUSE_BUTTON_MIDDLE :: int where "MOUSE_BUTTON_MIDDLE = 2"
definition MOUSE_BUTTON_RIGHT :: int where "MOUSE_BUTTON_RIGHT = 4"

definition buttonMask :: "bool \<Rightarrow> int \<Rightarrow> int" where
  "buttonMask swap button =
     (if button = 0 then MOUSE_BUTTON_LEFT
      else if button = 1 then if swap then MOUSE_BUTTON_RIGHT else MOUSE_BUTTON_MIDDLE
      else if button = 2 then MOUSE_BUTTON_RIGHT
      else 0)"

definition send_mouse :: "rat \<times> rat \<Rightarrow> int \<Rightarrow> desktop_input \<Rightarrow> desktop_input" where
  "send_mouse p wheel s = send_input (SendMouse (fst p) (snd p) (pressedButtons s) wheel) s"

definition onMove :: "canvas_box \<Rightarrow> rat \<times> rat \<Rightarrow> desktop_input \<Rightarrow> desktop_input" where
  "onMove box pt s = send_mouse (toRemote box pt) 0 (s\<lparr>pointer := Some (toRemote box pt)\<rparr>)"

definition onDown :: "canvas_box \<Rightarrow> bool \<Rightarrow> rat \<times> rat \<Rightarrow> int \<Rightarrow> desktop_input \<Rightarrow> desktop_input" where
  "onDown box swap pt button s =
     send_mouse (toRemote box pt) 0 (s\<lparr>pressedButtons := pressedButtons s OR buttonMask swap button\<rparr>)"

definition onUp :: "canvas_box \<Rightarrow> bool \<Rightarrow> rat \<times> rat \<Rightarrow> int \<Rightarrow> desktop_input \<Rightarrow> desktop_input" where
  "onUp box swap pt button s =
     send_mouse (toRemote box pt) 0 (s\<lparr>pressedButtons := pressedButtons s AND NOT (buttonMask swap button)\<rparr>)"

definition onWheel :: "canvas_box \<Rightarrow> rat \<times> rat \<Rightarrow> rat \<Rightarrow> desktop_input \<Rightarrow> desktop_input" where
  "onWheel box pt deltaY s = send_mouse (toRemote box pt) (if 0 < deltaY then -1 else 1) s"

section \<open>The keyboard\<close>

text \<open>The focused element; \<open>True\<close> marks the hidden text area of the input method.\<close>

type_synonym focus = "(bool \<times> active_element) option"

definition shouldForwardKey :: "KeyboardEvent \<Rightarrow> focus \<Rightarrow> bool" where
  "shouldForwardKey e active \<longleftrightarrow>
     \<not> (isComposing e \<or> ev_key e = units ''Process'' \<or> keyCode e = 229)
     \<and> \<not> (case active of None \<Rightarrow> False | Some (sink, a) \<Rightarrow> \<not> sink \<and> takes_typing a)"

definition pack :: "Scancode \<Rightarrow> int" where
  "pack k = scancode k OR (if extended k then 0x100 else 0)"

definition unpack :: "int \<Rightarrow> Scancode" where
  "unpack p = \<lparr>scancode = p AND 0xff, extended = (p AND 0x100 \<noteq> 0)\<rparr>"

definition set_add :: "int \<Rightarrow> int list \<Rightarrow> int list" where
  "set_add x xs = (if x \<in> set xs then xs else xs @ [x])"

definition sendKey :: "KeyboardEvent \<Rightarrow> focus \<Rightarrow> bool \<Rightarrow> desktop_input \<Rightarrow> desktop_input" where
  "sendKey e active down s =
     (let ks = keysymForEvent e (map_option snd active) in
      case scancodeForCode (Some (ev_code e)) of
        Some scan \<Rightarrow>
          send_input (SendScancode scan (if 0 < ks then Some ks else None) down)
            (s\<lparr>heldScancodes := (if down then set_add (pack scan) (heldScancodes s)
                                 else filter (\<lambda>p. p \<noteq> pack scan) (heldScancodes s))\<rparr>)
      | None \<Rightarrow> if 0 < ks then send_input (SendKeysym ks down) s else s)"

definition release_message :: "int \<Rightarrow> input_message" where
  "release_message p = SendScancode (unpack p) None False"

definition releaseHeldKeys :: "desktop_input \<Rightarrow> desktop_input" where
  "releaseHeldKeys s =
     (fold (\<lambda>p. send_input (release_message p)) (heldScancodes s) s)\<lparr>heldScancodes := []\<rparr>"

definition onKeyDown :: "KeyboardEvent \<Rightarrow> focus \<Rightarrow> desktop_input \<Rightarrow> desktop_input" where
  "onKeyDown e active s0 =
     (let s = s0\<lparr>suppressKeyup := False\<rparr> in if shouldForwardKey e active then sendKey e active True s else s)"

definition onKeyUp :: "KeyboardEvent \<Rightarrow> focus \<Rightarrow> desktop_input \<Rightarrow> desktop_input" where
  "onKeyUp e active s =
     (if suppressKeyup s then s\<lparr>suppressKeyup := False\<rparr>
      else if shouldForwardKey e active then sendKey e active False s else s)"

definition onVisibility :: "bool \<Rightarrow> desktop_input \<Rightarrow> desktop_input" where
  "onVisibility hidden s = (if hidden then releaseHeldKeys s else s)"

definition onCompositionEnd :: "string \<Rightarrow> desktop_input \<Rightarrow> desktop_input" where
  "onCompositionEnd text s =
     (let s1 = s\<lparr>suppressKeyup := True\<rparr> in if text \<noteq> [] then send_input (SendText text) s1 else s1)"

definition detach_inputs :: "desktop_input \<Rightarrow> desktop_input" where
  "detach_inputs s = (releaseHeldKeys s)\<lparr>attached := False\<rparr>"

definition combo_message :: "ComboFrame \<Rightarrow> input_message" where
  "combo_message f = SendScancode \<lparr>scancode = scancode f, extended = extended f\<rparr> None (pressed f)"

definition sendCombo :: "string \<Rightarrow> desktop_input \<Rightarrow> desktop_input" where
  "sendCombo combo s =
     fold (\<lambda>f. send_input (combo_message f)) (expandCombo combo) s"

datatype input_event =
    MouseMove canvas_box "rat \<times> rat" | MouseDown canvas_box bool "rat \<times> rat" int | MouseUp canvas_box bool "rat \<times> rat" int
  | Wheel canvas_box "rat \<times> rat" rat | KeyDown KeyboardEvent focus | KeyUp KeyboardEvent focus | WindowBlur
  | VisibilityChange bool | CompositionEnd string | Combo string | Detach

fun input_do :: "input_event \<Rightarrow> desktop_input \<Rightarrow> desktop_input" where
  "input_do (MouseMove box pt) s = onMove box pt s"
| "input_do (MouseDown box swap pt button) s = onDown box swap pt button s"
| "input_do (MouseUp box swap pt button) s = onUp box swap pt button s"
| "input_do (Wheel box pt deltaY) s = onWheel box pt deltaY s"
| "input_do (KeyDown e active) s = onKeyDown e active s"
| "input_do (KeyUp e active) s = onKeyUp e active s"
| "input_do WindowBlur s = releaseHeldKeys s"
| "input_do (VisibilityChange hidden) s = onVisibility hidden s"
| "input_do (CompositionEnd text) s = onCompositionEnd text s"
| "input_do (Combo combo) s = sendCombo combo s"
| "input_do Detach s = detach_inputs s"

definition input_step :: "input_event \<Rightarrow> desktop_input \<Rightarrow> desktop_input option" where
  "input_step e s = (if attached s then Some (input_do e s) else None)"

section \<open>The remote keyboard\<close>

text \<open>The keys that are down on the remote after messages, as for the frames of a combination\<close>

fun key_message :: "input_message \<Rightarrow> (int \<times> bool) set \<Rightarrow> (int \<times> bool) set" where
  "key_message (SendScancode k ks down) H = (if down then insert (key_of k) H else H - {key_of k})"
| "key_message m H = H"

definition remote_keys :: "input_message list \<Rightarrow> (int \<times> bool) set" where
  "remote_keys ms = fold key_message ms {}"

definition held_keys :: "desktop_input \<Rightarrow> (int \<times> bool) set" where
  "held_keys s = (\<lambda>p. key_of (unpack p)) ` set (heldScancodes s)"

lemma remote_keys_snoc [simp]: "remote_keys (ms @ [m]) = key_message m (remote_keys ms)" "remote_keys [] = {}"
  by (simp_all add: remote_keys_def)

lemma send_input_fields [simp]:
  "heldScancodes (send_input m s) = heldScancodes s" "attached (send_input m s) = attached s"
  "suppressKeyup (send_input m s) = suppressKeyup s" "pressedButtons (send_input m s) = pressedButtons s"
  "input_sent (send_input m s) = input_sent s @ [m]" "held_keys (send_input m s) = held_keys s"
  by (simp_all add: send_input_def held_keys_def)

lemma scan_range: "scancodeForCode code = Some k \<Longrightarrow> \<exists>v. scancode k = v AND 0xff"
  by (auto simp: scancodeForCode_def split: option.splits if_splits)

lemma unpack_pack: "scancodeForCode code = Some k \<Longrightarrow> unpack (pack k) = k"
proof -
  assume "scancodeForCode code = Some k"
  then obtain v where v: "scancode k = v AND 0xff" using scan_range by blast
  have low: "(v AND 0xff) AND 0xff = v AND 0xff" "(v AND 0xff) AND 0x100 = 0"
    by (simp_all add: and.assoc)
  have "scancode k AND 0xff = scancode k" "scancode k AND 0x100 = 0" using v low by simp_all
  then show ?thesis
    by (intro Scancode.equality) (auto simp: pack_def unpack_def bit.conj_disj_distrib2)
qed

section \<open>No key stays down\<close>

definition input_inv :: "desktop_input \<Rightarrow> bool" where
  "input_inv s \<longleftrightarrow>
     remote_keys (input_sent s) \<subseteq> held_keys s \<and> distinct (heldScancodes s) \<and> pressedButtons s \<in> {0..7}
     \<and> (\<not> attached s \<longrightarrow> heldScancodes s = [])"

lemma release_fold:
  "remote_keys (input_sent (fold (\<lambda>p. send_input (release_message p)) ps s)) =
     remote_keys (input_sent s) - (\<lambda>p. key_of (unpack p)) ` set ps
   \<and> pressedButtons (fold (\<lambda>p. send_input (release_message p)) ps s) = pressedButtons s
   \<and> attached (fold (\<lambda>p. send_input (release_message p)) ps s) = attached s"
  by (induction ps arbitrary: s) (auto simp: release_message_def)

lemma releaseHeldKeys_none:
  "input_inv s \<Longrightarrow> remote_keys (input_sent (releaseHeldKeys s)) = {} \<and> heldScancodes (releaseHeldKeys s) = []"
  using release_fold [of "heldScancodes s" s] by (auto simp: releaseHeldKeys_def input_inv_def held_keys_def)

lemma releaseHeldKeys_inv: "input_inv s \<Longrightarrow> input_inv (releaseHeldKeys s)"
  using releaseHeldKeys_none [of s] release_fold [of "heldScancodes s" s]
  by (auto simp: input_inv_def releaseHeldKeys_def)

lemma sendKey_inv: "input_inv s \<Longrightarrow> attached s \<Longrightarrow> input_inv (sendKey e active down s)"
proof (cases "scancodeForCode (Some (ev_code e))")
  case (Some k)
  assume inv: "input_inv s" "attached s"
  have k: "unpack (pack k) = k" by (rule unpack_pack [OF Some])
  have held: "remote_keys (input_sent s) \<subseteq> (\<lambda>p. key_of (unpack p)) ` set (heldScancodes s)"
    using inv(1) by (simp add: input_inv_def held_keys_def)
  have "remote_keys (input_sent s) - {key_of k} \<subseteq> (\<lambda>p. key_of (unpack p)) ` (set (heldScancodes s) - {pack k})"
  proof
    fix x assume x: "x \<in> remote_keys (input_sent s) - {key_of k}"
    then obtain p where "p \<in> set (heldScancodes s)" "x = key_of (unpack p)" using held by blast
    moreover from this x k have "p \<noteq> pack k" by auto
    ultimately show "x \<in> (\<lambda>p. key_of (unpack p)) ` (set (heldScancodes s) - {pack k})" by blast
  qed
  moreover have "insert (key_of k) (remote_keys (input_sent s)) \<subseteq> (\<lambda>p. key_of (unpack p)) ` set (set_add (pack k) (heldScancodes s))"
    using held k by (auto simp: set_add_def rev_image_eqI)
  ultimately show ?thesis
    using inv Some by (auto simp: sendKey_def Let_def input_inv_def held_keys_def set_add_def set_minus_filter_out)
qed (auto simp: sendKey_def Let_def input_inv_def)

lemma combo_fold:
  "remote_keys (input_sent (fold (\<lambda>f. send_input (combo_message f)) fs s)) =
     fold key_frame fs (remote_keys (input_sent s))
   \<and> held_keys (fold (\<lambda>f. send_input (combo_message f)) fs s) = held_keys s
   \<and> heldScancodes (fold (\<lambda>f. send_input (combo_message f)) fs s) = heldScancodes s
   \<and> pressedButtons (fold (\<lambda>f. send_input (combo_message f)) fs s) = pressedButtons s
   \<and> attached (fold (\<lambda>f. send_input (combo_message f)) fs s) = attached s"
  by (induction fs arbitrary: s) (auto simp: key_frame_def key_of_def combo_message_def)

lemma combo_keys: "fold key_frame (expandCombo combo) H \<subseteq> H"
proof (cases "collect_keys [] (combo_tokens combo)")
  case (Some keys)
  then show ?thesis by (auto simp: expandCombo_def fold_press fold_release)
qed (simp add: expandCombo_def)

lemma sendCombo_inv: "input_inv s \<Longrightarrow> input_inv (sendCombo combo s)"
  using combo_fold [of "expandCombo combo" s] combo_keys [of combo "remote_keys (input_sent s)"]
  by (auto simp: input_inv_def sendCombo_def)

lemma buttonMask_cases: "buttonMask swap button \<in> {0, 1, 2, 4}"
  by (simp add: buttonMask_def MOUSE_BUTTON_LEFT_def MOUSE_BUTTON_MIDDLE_def MOUSE_BUTTON_RIGHT_def)

lemma button_bits:
  assumes "b \<in> {0..7::int}"
  shows "b OR buttonMask swap button \<in> {0..7}" "b AND NOT (buttonMask swap button) \<in> {0..7}"
proof -
  have b: "b = 0 \<or> b = 1 \<or> b = 2 \<or> b = 3 \<or> b = 4 \<or> b = 5 \<or> b = 6 \<or> b = 7" using assms by auto
  show "b OR buttonMask swap button \<in> {0..7}" "b AND NOT (buttonMask swap button) \<in> {0..7}"
    using b buttonMask_cases [of swap button] by (elim disjE; force)+
qed

lemma send_mouse_fields [simp]:
  "input_sent (send_mouse p w s) = input_sent s @ [SendMouse (fst p) (snd p) (pressedButtons s) w]"
  "heldScancodes (send_mouse p w s) = heldScancodes s" "attached (send_mouse p w s) = attached s"
  "pressedButtons (send_mouse p w s) = pressedButtons s" "held_keys (send_mouse p w s) = held_keys s"
  by (simp_all add: send_mouse_def)

lemma input_inv_same:
  "input_inv s \<Longrightarrow> input_inv (s\<lparr>suppressKeyup := b\<rparr>)" "input_inv s \<Longrightarrow> input_inv (s\<lparr>pointer := q\<rparr>)"
  "input_inv s \<Longrightarrow> input_inv (send_mouse p w s)" "input_inv s \<Longrightarrow> input_inv (send_input (SendText t) s)"
  by (simp_all add: input_inv_def held_keys_def)

lemma input_inv_buttons:
  assumes "input_inv s"
  shows "input_inv (s\<lparr>pressedButtons := pressedButtons s OR buttonMask swap button\<rparr>)"
    "input_inv (s\<lparr>pressedButtons := pressedButtons s AND NOT (buttonMask swap button)\<rparr>)"
  using assms button_bits [of "pressedButtons s" swap button] unfolding input_inv_def held_keys_def by simp_all

lemma input_do_inv: "input_inv s \<Longrightarrow> attached s \<Longrightarrow> input_inv (input_do e s)"
proof (cases e)
  case (KeyDown ev active)
  assume inv: "input_inv s" "attached s"
  have "input_inv (s\<lparr>suppressKeyup := False\<rparr>)" "attached (s\<lparr>suppressKeyup := False\<rparr>)" using inv input_inv_same by auto
  then show ?thesis using KeyDown by (simp add: onKeyDown_def Let_def sendKey_inv)
next
  case (Detach)
  assume "input_inv s" "attached s"
  then show ?thesis using releaseHeldKeys_inv [of s] releaseHeldKeys_none [of s] Detach
    by (simp add: detach_inputs_def input_inv_def held_keys_def)
qed (auto simp: onMove_def onDown_def onUp_def onWheel_def onKeyUp_def onVisibility_def onCompositionEnd_def Let_def sendCombo_inv
    sendKey_inv releaseHeldKeys_inv input_inv_same input_inv_buttons)

interpretation input_machine: machine input_step input_inv
  by unfold_locales (auto simp: input_step_def input_do_inv split: if_splits)

lemma attachInputs_inv: "input_inv attachInputs"
  by (simp add: attachInputs_def input_inv_def held_keys_def)

section \<open>Mouse positions\<close>

lemma remote_coordinate_range:
  "1 \<le> extent \<Longrightarrow> 0 \<le> remote_coordinate extent shown d \<and> remote_coordinate extent shown d \<le> extent - 1"
  by (simp add: remote_coordinate_def Let_def)

text \<open>The mouse messages of a list name positions inside a remote desktop of the given size.\<close>

definition mouse_within :: "int \<Rightarrow> int \<Rightarrow> input_message list \<Rightarrow> bool" where
  "mouse_within w h ms \<longleftrightarrow>
     (\<forall>x y b wheel. SendMouse x y b wheel \<in> set ms \<longrightarrow>
        0 \<le> x \<and> x \<le> of_int w - 1 \<and> 0 \<le> y \<and> y \<le> of_int h - 1 \<and> b \<in> {0..7})"

definition event_box :: "input_event \<Rightarrow> canvas_box option" where
  "event_box e = (case e of
     MouseMove box _ \<Rightarrow> Some box | MouseDown box _ _ _ \<Rightarrow> Some box | MouseUp box _ _ _ \<Rightarrow> Some box | Wheel box _ _ \<Rightarrow> Some box
   | _ \<Rightarrow> None)"

definition on_desktop :: "int \<Rightarrow> int \<Rightarrow> input_event \<Rightarrow> bool" where
  "on_desktop w h e \<longleftrightarrow> (case event_box e of None \<Rightarrow> True | Some box \<Rightarrow> pixel_width box = w \<and> pixel_height box = h)"

lemma mouse_within_simps [simp]:
  "mouse_within w h []"
  "mouse_within w h (ms @ [SendMouse x y b wheel]) \<longleftrightarrow>
     mouse_within w h ms \<and> 0 \<le> x \<and> x \<le> of_int w - 1 \<and> 0 \<le> y \<and> y \<le> of_int h - 1 \<and> b \<in> {0..7}"
  "mouse_within w h (ms @ [SendScancode k ks d]) = mouse_within w h ms" "mouse_within w h (ms @ [SendKeysym i d]) = mouse_within w h ms"
  "mouse_within w h (ms @ [SendText t]) = mouse_within w h ms"
  by (auto simp: mouse_within_def)

lemma mouse_within_release: "mouse_within w h (input_sent (releaseHeldKeys s)) = mouse_within w h (input_sent s)"
proof -
  have "mouse_within w h (input_sent (fold (\<lambda>p. send_input (release_message p)) ps s)) = mouse_within w h (input_sent s)" for ps
    by (induction ps arbitrary: s) (simp_all add: release_message_def)
  then show ?thesis by (simp add: releaseHeldKeys_def)
qed

lemma mouse_within_combo: "mouse_within w h (input_sent (sendCombo c s)) = mouse_within w h (input_sent s)"
proof -
  have "mouse_within w h (input_sent (fold (\<lambda>f. send_input (combo_message f)) fs s)) = mouse_within w h (input_sent s)" for fs
    by (induction fs arbitrary: s) (simp_all add: combo_message_def)
  then show ?thesis by (simp add: sendCombo_def)
qed

lemma toRemote_within:
  assumes "1 \<le> pixel_width box" "1 \<le> pixel_height box"
  shows "0 \<le> fst (toRemote box p)" "fst (toRemote box p) \<le> of_int (pixel_width box) - 1"
    "0 \<le> snd (toRemote box p)" "snd (toRemote box p) \<le> of_int (pixel_height box) - 1"
  using assms remote_coordinate_range [of "of_int (pixel_width box)"] remote_coordinate_range [of "of_int (pixel_height box)"]
  by (simp_all add: toRemote_def remote_extent_def)

lemma input_do_within:
  assumes "input_inv s" "mouse_within w h (input_sent s)" "on_desktop w h e" "1 \<le> w" "1 \<le> h"
  shows "mouse_within w h (input_sent (input_do e s))"
  using assms button_bits [of "pressedButtons s"] toRemote_within
  by (cases e) (auto simp: onMove_def onDown_def onUp_def onWheel_def onKeyDown_def onKeyUp_def onVisibility_def onCompositionEnd_def
      sendKey_def detach_inputs_def Let_def mouse_within_release mouse_within_combo on_desktop_def event_box_def input_inv_def
      split: option.split)

interpretation input_on_desktop:
  machine "only_steps (on_desktop w h) input_step" "\<lambda>s. input_inv s \<and> mouse_within w h (input_sent s) \<and> 1 \<le> w \<and> 1 \<le> h" for w h
  by unfold_locales (auto simp: only_steps_def input_step_def input_do_inv input_do_within split: if_splits)

text \<open>C39: After any sequence of key, mouse, input method and combination events on a desktop of \<open>w\<close> by \<open>h\<close> pixels, a key that
  is down on the remote by its scancode is remembered, so when the window loses the focus, the page is hidden or the listeners
  are removed every such key is released; and each mouse message is at a pixel of the desktop and names only the
  three buttons.\<close>

theorem no_key_stays_down:
  assumes "run_steps input_step es attachInputs = Some s" "list_all (on_desktop w h) es" "1 \<le> w" "1 \<le> h"
  shows "remote_keys (input_sent s) \<subseteq> held_keys s \<and> mouse_within w h (input_sent s)
    \<and> (\<forall>e s'. input_step e s = Some s' \<longrightarrow> e \<in> {WindowBlur, VisibilityChange True, Detach} \<longrightarrow> remote_keys (input_sent s') = {})"
proof -
  have run: "run_steps (only_steps (on_desktop w h) input_step) es attachInputs = Some s"
    by (simp add: run_only_steps [OF assms(2)] assms(1))
  have "input_inv attachInputs \<and> mouse_within w h (input_sent attachInputs) \<and> 1 \<le> w \<and> 1 \<le> h"
    using assms(3,4) attachInputs_inv by (simp add: attachInputs_def)
  from input_on_desktop.run_inv [OF run this] have inv: "input_inv s" "mouse_within w h (input_sent s)" by auto
  have "remote_keys (input_sent s') = {}"
    if "input_step e s = Some s'" "e \<in> {WindowBlur, VisibilityChange True, Detach}" for e s'
    using that releaseHeldKeys_none [OF inv(1)]
    by (auto simp: input_step_def onVisibility_def detach_inputs_def split: if_splits)
  then show ?thesis using inv by (auto simp: input_inv_def)
qed

text \<open>Control is pressed; the input method commits a text, whose key-up the listener awaits; so the release of Control
  is not sent, and only the loss of the focus releases it.\<close>

definition control_key :: KeyboardEvent where
  "control_key = \<lparr>isComposing = False, ev_key = units ''Control'', keyCode = 17, ev_code = ''ControlLeft''\<rparr>"

definition control_then_text :: "input_event list" where
  "control_then_text = [KeyDown control_key None, CompositionEnd ''x'', KeyUp control_key None]"

lemma control_key_codes:
  "scancodeForCode (Some ''ControlLeft'') = Some \<lparr>scancode = 0x1d, extended = False\<rparr>"
  "keysymForEvent control_key None = 0xffe3" "shouldForwardKey control_key None" "ev_code control_key = ''ControlLeft''"
  "pack \<lparr>scancode = 0x1d, extended = False\<rparr> = 0x1d"
  by code_simp+

theorem no_key_stays_down_witness:
  "\<exists>s s'. run_steps input_step control_then_text attachInputs = Some s \<and> remote_keys (input_sent s) = {(0x1d, False)}
     \<and> input_step WindowBlur s = Some s' \<and> remote_keys (input_sent s') = {}"
proof -
  let ?s = "attachInputs\<lparr>suppressKeyup := False, heldScancodes := [0x1d],
    input_sent := [SendScancode \<lparr>scancode = 0x1d, extended = False\<rparr> (Some 0xffe3) True, SendText ''x'']\<rparr>"
  have run: "run_steps input_step control_then_text attachInputs = Some ?s"
    by (simp add: control_then_text_def input_step_def onKeyDown_def onKeyUp_def onCompositionEnd_def sendKey_def control_key_codes
        attachInputs_def send_input_def set_add_def)
  have inside: "list_all (on_desktop 1 1) control_then_text" by (simp add: control_then_text_def on_desktop_def event_box_def)
  have step: "input_step WindowBlur ?s = Some (releaseHeldKeys ?s)" by (simp add: input_step_def attachInputs_def)
  have "remote_keys (input_sent (releaseHeldKeys ?s)) = {}"
    using no_key_stays_down [OF run inside, THEN conjunct2, THEN conjunct2, rule_format, OF _ _ step] by simp
  moreover have "remote_keys (input_sent ?s) = {(0x1d, False)}" by (simp add: remote_keys_def key_of_def)
  ultimately show ?thesis using run step by (intro exI conjI)
qed

end
