(* ===== verification/Spec2Isabelle.thy ===== *)
theory Spec2Isabelle
  imports WorkspaceProps PathUtil RuntimeStore CommandBar DesktopConnection TerminalConnection
    AccessDrag Permissions AssetTree AssetExport SqlFormatProps WebSshProps ApiProps FrameClientProps UploadQueueProps DriveTransfersProps
    KeyMap TagPalette SseSnapshot AiLists RenderPipeline PortForwardLive SftpPageProps
    AccessWindow RecordingPlayer RecordingAudit DesktopInput
begin

text \<open>
  Wayfort is a privileged access gateway: a Go back end that speaks SSH, RDP, VNC, SQL and SFTP to
  the targets, and a Next.js front end (\<open>src/web/src\<close>, TypeScript) in which the user's sessions,
  file transfers and administration pages run. This development models the logic of the front
  end: the stores, protocol clients, queues, codecs and tree builders that decide what is shown,
  sent and kept. Of the back end it models the functions that are the other end of a wire or of
  a table that the front end reads (the frame encoder, the session recorder, the event stream writer, the keysym
  table, the tag colour of the migration).

  \<^bold>\<open>How code becomes definitions.\<close> An interface or a class is a \<open>record\<close> of its fields, a union of
  string literals is a \<open>datatype\<close>; \<open>null\<close> and \<open>undefined\<close> are \<open>None\<close>, a thrown exception or a
  rejected promise is \<open>None\<close> or an error value; a \<open>Map\<close> is a map, an array is a list. Ids, sizes and
  times are integers, bytes and packed pixels are words. A function returns its new state; a class whose
  methods are called by timers, sockets and the user is a type of events, a partial function that
  performs one (\<open>None\<close> when the event cannot happen in this state) and a run over a
  list of events, so that a theorem about all runs covers every interleaving. Clocks, random ids,
  \<open>localeCompare\<close>, \<open>JSON.parse\<close>, the network and third-party decoders are arguments.

  \<^bold>\<open>Theories.\<close>
  \<^item> \<open>Prelude\<close>, \<open>JsString\<close>, \<open>WebPlatform\<close>, \<open>Base64\<close>: the operations of the language and the browser that
    the code uses (optional values, arrays, strings as UTF-8, JSON values, sockets, timers, base64), with their
    laws. \<open>Machine\<close>: runs of event machines; the locales \<open>machine\<close> and \<open>draining\<close> lift an invariant and a
    measure of the steps to them, and \<open>only_steps\<close> restricts the events of a run.
  \<^item> \<open>Workspace\<close>, \<open>WorkspaceInv\<close>, \<open>WorkspaceProps\<close>, \<open>SplitGeometry\<close>, \<open>RuntimeStore\<close>, \<open>CommandBar\<close>: the
    workspace of session tabs (\<open>components/workspace\<close>): the store with every action, its invariant, closing,
    reopening, split views, persistence; pane rectangles; per-tab run-time state; quick connect.
  \<^item> \<open>ConnTimeline\<close>, \<open>DesktopConnection\<close>, \<open>TerminalConnection\<close>: the connection state machines of the
    desktop and terminal pages; the locale \<open>timeline\<close> is the contract of their step marks.
  \<^item> \<open>WebSsh\<close>, \<open>WebSshProps\<close>: the terminal socket client (\<open>lib/ws/webssh-client.ts\<close>).
  \<^item> \<open>FrameWire\<close>, \<open>FrameClient\<close>, \<open>FrameClientProps\<close>: the desktop socket client and its binary frames
    (\<open>lib/desktop/frame-client.ts\<close>, \<open>internal/desktop/binary_frame.go\<close>).
  \<^item> \<open>CanvasRenderer\<close>, \<open>CanvasRendererProps\<close>: the queue of frames waiting to be painted and the pool of decode
    workers (\<open>lib/desktop/canvas-renderer.ts\<close>). \<open>PixelCodec\<close>, \<open>DecodeWorker\<close>, \<open>DecodeWorkerProps\<close>: the
    worker (\<open>lib/desktop/decode.worker.ts\<close>), its pixel formats and the life cycle of its H.264 decoder.
    \<open>RenderPipeline\<close>: the renderer with its workers.
  \<^item> \<open>RecordingTape\<close>, \<open>RecordingTapeProps\<close>, \<open>RecordingPlayer\<close>, \<open>RecordingAudit\<close>: the tape of a recorded desktop session
    (\<open>internal/desktop/recorder.go\<close>, \<open>lib/desktop/recording.ts\<close>), its player and its audit timeline
    (\<open>desktop-recording-player.tsx\<close>).
  \<^item> \<open>KeyMap\<close>: keysyms, scancodes and key combinations (\<open>desktop-key-map.ts\<close>, \<open>keysym.go\<close>). \<open>DesktopInput\<close>: the input
    listeners of the desktop (\<open>attachInputs\<close> of \<open>desktop-display.tsx\<close>).
  \<^item> \<open>UploadQueue\<close>, \<open>DriveTransfers\<close> with their \<open>Props\<close>: the two upload queues. \<open>PathUtil\<close>,
    \<open>SftpFiles\<close>, \<open>SftpPage\<close>, \<open>SftpPageProps\<close>: the file page (\<open>components/sftp\<close>): paths, file kinds, what
    copying and moving do to the files of the node, selection, keyboard and write approval.
  \<^item> \<open>TokenStore\<close>, \<open>ApiClient\<close>, \<open>ApiProps\<close>: tokens, the HTTP client with its shared refresh, and the
    session keep-alive (\<open>lib/auth\<close>, \<open>lib/api/client.ts\<close>); the locale \<open>token_store\<close> is the store's contract.
  \<^item> \<open>AccessWindow\<close>: the gate in front of a connection and the guard of a time-bound grant (\<open>ApprovalGate.tsx\<close>,
    \<open>ExpiryGuard.tsx\<close>, \<open>lib/security/x7.ts\<close>).
  \<^item> \<open>Sse\<close>, \<open>SseSnapshot\<close>: server-sent events and the live snapshot hook. \<open>PortForward\<close>,
    \<open>PortForwardLive\<close>: the events client of port forwards and their live counters
    (\<open>lib/portfwd/events-client.ts\<close>, \<open>hooks/use-portfwd-events.tsx\<close>, \<open>internal/protocols/tcpfwd\<close>).
  \<^item> \<open>ApiTypes\<close>, \<open>Forest\<close>, \<open>AccessTree\<close>, \<open>AccessDrag\<close>, \<open>AssetTree\<close>, \<open>AssetExport\<close>, \<open>Permissions\<close>: the asset and
    authorisation trees; the locale \<open>forest\<close> is the contract of the folder tables of both.
  \<^item> \<open>SqlFormat\<close>, \<open>SqlFormatProps\<close>, \<open>TagPalette\<close>, \<open>AiLists\<close>: the SQL formatter, tag colours,
    and the grouping functions of the assistant pages.

  \<^bold>\<open>What the lemmas show.\<close> Each component has its invariant and a lemma per operation that keeps it; the runs follow by
  induction over the events, in \<open>DecodeWorkerProps\<close>, \<open>RenderPipeline\<close>, \<open>PortForward\<close>, \<open>SftpPageProps\<close>, \<open>AccessWindow\<close>,
  \<open>RecordingPlayer\<close> and \<open>DesktopInput\<close> through the locale \<open>machine\<close>. On top of these:
  \<^item> \<^emph>\<open>nothing is lost or doubled\<close>: the closing actions conserve the tabs, the asset tree its nodes, the
    renderer its frames, the upload queues their transfers, the decode worker its batches, the recorder its audit records
    and the audit timeline the typed text; the player paints each output once; the formatter keeps the text; moved and duplicated files keep their contents where the page checks enough, and examples show where it does not;
  \<^item> \<^emph>\<open>limits hold\<close>: queues, pools, histories, percentages, concurrent uploads, one refresh and one
    socket at a time, one outstanding batch per worker;
  \<^item> \<^emph>\<open>nothing stalls\<close>: calls of the HTTP client progress, batches are answered after finitely many answers of the
    browser, subscriptions and the events client always hold a stream or exactly one timer;
  \<^item> \<^emph>\<open>both ends agree\<close>: frame batches, session tapes, also torn ones, server-sent events, persisted workspaces and CSV
    exports are read back as they were written; the counters of a port forward follow its forwarder;
  \<^item> \<^emph>\<open>permission\<close>: effective grants come from the nearest ancestor, a drag never makes a cycle, a page
    whose node requires an approval transfers nothing before it is granted, and a time-bound grant ends at its deadline;
  \<^item> \<^emph>\<open>nothing is left behind\<close>: keys held on the remote desktop are released when the focus leaves, a guard that is
    disarmed is silent;
  \<^item> \<^emph>\<open>where the code falls short\<close>: the theorems state the exact condition under which the code does what it means
    to, and lemmas or witnesses run the smallest failing case. These are listed as findings with the development.

  \<^bold>\<open>Composition.\<close> \<open>RenderPipeline\<close> puts the renderer and the decode workers together: the renderer posts a batch only
  when every earlier one is answered, which is what the decoder life cycle of the worker relies on. \<open>ApiClient\<close>
  rests on the laws of \<open>TokenStore\<close> through a locale; \<open>PortForwardLive\<close> runs the forwarder of the gateway, the
  encoding of its events and the store of the page; \<open>RecordingTapeProps\<close> runs what the gateway encodes and records through the
  parser and the frame decoder of the player; \<open>DesktopInput\<close> sends the combinations of \<open>KeyMap\<close>; \<open>SftpPage\<close> composes authorisation, selection, keyboard and
  paths, and its requests act on the files of the node as the gateway carries them out.

  \<^bold>\<open>Termination and fuel.\<close> Loops are structural or have a measure: the scanners of the formatter and of
  event streams consume their input, \<open>copy_loop\<close> counts the names still taken. The recursive closures of the two tree builders
  follow ids through a table and carry fuel, one unit per level; the number of folders is enough, because the
  tables that the theorems assume have no cycle, and the theorems state that a result is returned.

  \<^bold>\<open>Numbers.\<close> Array indices are naturals and other numbers integers, since the code stays
  below 2 to the 53 and does no arithmetic that rounds, except where a rate or a percentage is rounded, which is
  written out; times of the player and positions of the mouse are rationals. Bytes, packed pixels, hashes and key codes are words of their width; where a delay passes to a
  timer the 32-bit limit is part of the model.

  \<^bold>\<open>Not modelled.\<close> Markup and the scheduling of React (an effect is a step that may run when its condition holds, a
  handler that awaits its requests is one step where the page offers no other way in), notifications and
  translations; the catalogue of endpoints (\<open>lib/api/services.ts\<close>); the Guacamole and RDP clients
  (\<open>lib/ws/guacamole-client.ts\<close>, \<open>lib/rdp\<close>), which wrap libraries that are not in the repository; drawing
  surfaces, audio and video (\<open>lib/desktop\<close>); EXIF formatting; icon, theme and colour tables; the
  database, object storage, assistant and administration pages beyond the helpers named above; and the Go
  back end and the FreeRDP worker beyond the functions named above. Lower-casing is that of ASCII, and
  \<open>localeCompare\<close>, \<open>JSON.parse\<close>, date parsing, inflation, image and video decoding are arguments of the
  definitions that use them.
\<close>

end
